(* ===== verification/Prelude.thy ===== *)
theory Prelude
  imports Main "HOL-Library.Multiset" "HOL-Library.List_Lexorder" "HOL-Library.Char_ord"
begin

text \<open>
  Shared vocabulary of the development.

  Every \<open>async\<close> function of the program is a function of the world it runs in that
  returns either a rejection or a value, and the next world. The world is a type variable:
  a database, a cache or a broker is only known through the operations passed to the code
  and through \<open>views\<close>, functions from the world to what a property observes.

  \<^item> \<open>ret\<close>, \<open>throw\<close>, \<open>await\<close>, \<open>try_catch\<close> and \<open>finally_do\<close> are the statements of the
    source that carry effects, \<open>for_each\<close> is its sequential \<open>for ... of\<close> loop with an
    \<open>await\<close> in the body, \<open>all_settled\<close> is \<open>Promise.allSettled\<close> on calls started in
    list order.
  \<^item> \<open>preserves v m\<close> says that \<open>m\<close> leaves the view \<open>v\<close> as it is, however it ends;
    the lemmas of the collection \<open>preserving\<close> push it through the statements.
\<close>

named_theorems preserving \<open>what leaves a view of the world unchanged\<close>
named_theorems io_defs \<open>the statements with effects, unfolded\<close>

section \<open>Statements with effects\<close>

type_synonym ('w, 'e, 'a) io = "'w \<Rightarrow> ('e + 'a) \<times> 'w"

definition ret :: "'a \<Rightarrow> ('w, 'e, 'a) io" where
  "ret a = (\<lambda>w. (Inr a, w))"

definition throw :: "'e \<Rightarrow> ('w, 'e, 'a) io" where
  "throw e = (\<lambda>w. (Inl e, w))"

definition await :: "('w, 'e, 'a) io \<Rightarrow> ('a \<Rightarrow> ('w, 'e, 'b) io) \<Rightarrow> ('w, 'e, 'b) io" where
  "await m k = (\<lambda>w. case m w of (Inl e, w') \<Rightarrow> (Inl e, w') | (Inr a, w') \<Rightarrow> k a w')"

definition try_catch :: "('w, 'e, 'a) io \<Rightarrow> ('e \<Rightarrow> ('w, 'e, 'a) io) \<Rightarrow> ('w, 'e, 'a) io" where
  "try_catch m h = (\<lambda>w. case m w of (Inl e, w') \<Rightarrow> h e w' | (Inr a, w') \<Rightarrow> (Inr a, w'))"

definition finally_do :: "('w, 'e, 'a) io \<Rightarrow> ('w, 'e, unit) io \<Rightarrow> ('w, 'e, 'a) io" where
  "finally_do m f = (\<lambda>w. case m w of (r, w') \<Rightarrow>
     (case f w' of (Inl e, w'') \<Rightarrow> (Inl e, w'') | (Inr _, w'') \<Rightarrow> (r, w'')))"

fun for_each :: "'x list \<Rightarrow> ('x \<Rightarrow> ('w, 'e, unit) io) \<Rightarrow> ('w, 'e, unit) io" where
  "for_each [] f = ret ()"
| "for_each (x # xs) f = await (f x) (\<lambda>_. for_each xs f)"

fun all_settled :: "('w, 'e, 'a) io list \<Rightarrow> ('w, 'e, ('e + 'a) list) io" where
  "all_settled [] = ret []"
| "all_settled (m # ms) =
     (\<lambda>w. case m w of (r, w') \<Rightarrow> await (all_settled ms) (\<lambda>rs. ret (r # rs)) w')"

lemmas io_unfold [io_defs] =
  ret_def throw_def await_def try_catch_def finally_do_def

lemma ret_eq_iff [simp]: "ret a w = (r, w') \<longleftrightarrow> r = Inr a \<and> w' = w"
  by (auto simp: ret_def)

lemma throw_eq_iff [simp]: "throw e w = (r, w') \<longleftrightarrow> r = Inl e \<and> w' = w"
  by (auto simp: throw_def)

lemma case_ret [simp]: "(case ret a w of (r, w') \<Rightarrow> f r w') = f (Inr a) w"
  by (simp add: ret_def)

lemma case_throw [simp]: "(case throw e w of (r, w') \<Rightarrow> f r w') = f (Inl e) w"
  by (simp add: throw_def)

lemma await_ret [simp]: "await (ret a) k = k a"
  by (rule ext) (simp add: io_defs)

lemma await_throw [simp]: "await (throw e) k = throw e"
  by (rule ext) (simp add: io_defs)

lemma try_catch_ret [simp]: "try_catch (ret a) h = ret a"
  by (rule ext) (simp add: io_defs)

lemma try_catch_throw [simp]: "try_catch (throw e) h = h e"
  by (rule ext) (simp add: io_defs)

lemma await_assoc: "await (await m k) l = await m (\<lambda>a. await (k a) l)"
  by (rule ext) (simp add: await_def split: prod.splits sum.splits)

lemma await_outcome:
  assumes "await m k w = (r, w'')"
  obtains (rejected) e where "m w = (Inl e, w'')" and "r = Inl e"
    | (resolved) a w' where "m w = (Inr a, w')" and "k a w' = (r, w'')"
  using assms by (auto simp: await_def split: prod.splits sum.splits)

lemma await_resolved: "m w = (Inr a, w') \<Longrightarrow> await m k w = k a w'"
  by (simp add: await_def)

lemma await_rejected: "m w = (Inl e, w') \<Longrightarrow> await m k w = (Inl e, w')"
  by (simp add: await_def)

lemma try_catch_resolved: "m w = (Inr a, w') \<Longrightarrow> try_catch m h w = (Inr a, w')"
  by (simp add: try_catch_def)

lemma try_catch_rejected: "m w = (Inl e, w') \<Longrightarrow> try_catch m h w = h e w'"
  by (simp add: try_catch_def)

lemma try_catch_outcome:
  assumes "try_catch m h w = (r, w'')"
  obtains (rejected) e w' where "m w = (Inl e, w')" and "h e w' = (r, w'')"
    | (resolved) a where "m w = (Inr a, w'')" and "r = Inr a"
  using assms by (auto simp: try_catch_def split: prod.splits sum.splits)

lemma await_try_catch_outcome:
  assumes "await (try_catch m h) k w = (q, w')"
  obtains (rejected) e w1 where "m w = (Inl e, w1)" and "await (h e) k w1 = (q, w')"
    | (resolved) a w1 where "m w = (Inr a, w1)" and "k a w1 = (q, w')"
  using assms by (auto simp: await_def try_catch_def split: prod.splits sum.splits)

lemma all_settled_resolves:
  obtains rs w' where "all_settled ms w = (Inr rs, w')" and "length rs = length ms"
proof -
  have "\<exists>rs w'. all_settled ms w = (Inr rs, w') \<and> length rs = length ms"
  proof (induction ms arbitrary: w)
    case Nil
    then show ?case by simp
  next
    case (Cons m ms)
    obtain r w1 where m: "m w = (r, w1)" by fastforce
    from Cons.IH [of w1] obtain rs w2
      where "all_settled ms w1 = (Inr rs, w2)" and "length rs = length ms" by blast
    with m show ?case by (simp add: await_def)
  qed
  then show ?thesis using that by blast
qed

text \<open>A rejection that is only logged.\<close>

definition swallow :: "('w, 'e, unit) io \<Rightarrow> ('w, 'e, unit) io" where
  "swallow m = try_catch m (\<lambda>_. ret ())"

lemma swallow_resolves:
  assumes "swallow m w = (r, w')"
  shows "r = Inr ()" and "\<exists>q. m w = (q, w')"
  using assms by (auto simp: swallow_def elim!: try_catch_outcome)

section \<open>Views that are left unchanged\<close>

definition preserves :: "('w \<Rightarrow> 'v) \<Rightarrow> ('w, 'e, 'a) io \<Rightarrow> bool" where
  "preserves v m \<longleftrightarrow> (\<forall>w. v (snd (m w)) = v w)"

lemma preservesI: "(\<And>w r w'. m w = (r, w') \<Longrightarrow> v w' = v w) \<Longrightarrow> preserves v m"
  unfolding preserves_def by (metis prod.collapse)

lemma preservesD: "preserves v m \<Longrightarrow> m w = (r, w') \<Longrightarrow> v w' = v w"
  unfolding preserves_def by (metis snd_conv)

lemma preserves_ret [preserving, intro, simp]: "preserves v (ret a)"
  by (simp add: preserves_def ret_def)

lemma preserves_throw [preserving, intro, simp]: "preserves v (throw e)"
  by (simp add: preserves_def throw_def)

lemma preserves_await [preserving, intro]:
  assumes m: "preserves v m" and k: "\<And>a. preserves v (k a)"
  shows "preserves v (await m k)"
proof (rule preservesI)
  fix w r w' assume "await m k w = (r, w')"
  then show "v w' = v w"
  proof (cases rule: await_outcome)
    case (rejected e)
    then show ?thesis using preservesD [OF m] by blast
  next
    case (resolved a w1)
    then show ?thesis using preservesD [OF m] preservesD [OF k] by metis
  qed
qed

lemma preserves_try_catch [preserving, intro]:
  assumes m: "preserves v m" and h: "\<And>e. preserves v (h e)"
  shows "preserves v (try_catch m h)"
proof (rule preservesI)
  fix w r w' assume "try_catch m h w = (r, w')"
  then show "v w' = v w"
  proof (cases rule: try_catch_outcome)
    case (rejected e w1)
    then show ?thesis using preservesD [OF m] preservesD [OF h] by metis
  next
    case (resolved a)
    then show ?thesis using preservesD [OF m] by blast
  qed
qed

lemma preserves_finally_do [preserving, intro]:
  assumes m: "preserves v m" and f: "preserves v f"
  shows "preserves v (finally_do m f)"
proof (rule preservesI)
  fix w r w' assume run: "finally_do m f w = (r, w')"
  obtain r1 w1 r2 w2 where 1: "m w = (r1, w1)" and 2: "f w1 = (r2, w2)" by fastforce
  with run have "w' = w2" by (auto simp: finally_do_def split: sum.splits)
  with 1 2 show "v w' = v w" using preservesD [OF m 1] preservesD [OF f 2] by simp
qed

lemma preserves_for_each [preserving, intro]:
  "(\<And>x. x \<in> set xs \<Longrightarrow> preserves v (f x)) \<Longrightarrow> preserves v (for_each xs f)"
  by (induction xs) (auto intro!: preserves_await)

lemma preserves_all_settled [preserving, intro]:
  "(\<And>m. m \<in> set ms \<Longrightarrow> preserves v m) \<Longrightarrow> preserves v (all_settled ms)"
proof (induction ms)
  case Nil
  then show ?case by simp
next
  case (Cons m ms)
  have ms: "preserves v (await (all_settled ms) (\<lambda>rs. ret (r # rs)))" for r
    using Cons by (auto intro!: preserves_await)
  show ?case
  proof (rule preservesI)
    fix w q w' assume run: "all_settled (m # ms) w = (q, w')"
    obtain r w1 where 1: "m w = (r, w1)" by fastforce
    from Cons.prems have "preserves v m" by simp
    from preservesD [OF this 1] have "v w1 = v w" .
    moreover from run 1 have "await (all_settled ms) (\<lambda>rs. ret (r # rs)) w1 = (q, w')" by simp
    from preservesD [OF ms this] have "v w' = v w1" .
    ultimately show "v w' = v w" by simp
  qed
qed

lemma preserves_if [preserving, intro]:
  "(b \<Longrightarrow> preserves v m) \<Longrightarrow> (\<not> b \<Longrightarrow> preserves v n) \<Longrightarrow> preserves v (if b then m else n)"
  by simp

lemma preserves_pair: "preserves (\<lambda>w. (f w, g w)) m \<longleftrightarrow> preserves f m \<and> preserves g m"
  by (auto simp: preserves_def)

section \<open>Small facts on sets, lists and options\<close>

text \<open>\<open>unique_by f S\<close>: a unique index on \<open>f\<close> over the rows \<open>S\<close>.\<close>

definition unique_by :: "('r \<Rightarrow> 'k) \<Rightarrow> 'r set \<Rightarrow> bool" where
  "unique_by f S \<longleftrightarrow> inj_on f S"

lemma unique_byD: "unique_by f S \<Longrightarrow> r \<in> S \<Longrightarrow> s \<in> S \<Longrightarrow> f r = f s \<Longrightarrow> r = s"
  by (auto simp: unique_by_def dest: inj_onD)

lemma unique_by_subset: "unique_by f S \<Longrightarrow> T \<subseteq> S \<Longrightarrow> unique_by f T"
  by (auto simp: unique_by_def intro: inj_on_subset)

lemma unique_by_insert:
  "unique_by f S \<Longrightarrow> f r \<notin> f ` S \<Longrightarrow> unique_by f (insert r S)"
  by (auto simp: unique_by_def)

lemma unique_by_image:
  assumes "unique_by f S" and "\<And>r. r \<in> S \<Longrightarrow> f (g r) = f r"
  shows "unique_by f (g ` S)"
  using assms by (auto simp: unique_by_def inj_on_def)

lemma image_update_one:
  assumes "unique_by key S" and "s \<in> S"
  shows "(\<lambda>x. if key x = key s then f x else x) ` S = insert (f s) (S - {s})"
proof -
  have "key x = key s \<longleftrightarrow> x = s" if "x \<in> S" for x
    using assms that by (auto dest: unique_byD)
  then have "(\<lambda>x. if key x = key s then f x else x) ` S
      = (\<lambda>x. if x = s then f x else x) ` S"
    by (intro image_cong) auto
  also have "\<dots> = insert (f s) (S - {s})"
    using assms(2) by (auto simp: image_iff)
  finally show ?thesis .
qed

lemma card_filter_set: "card {r \<in> set xs. P r} = length (remdups (filter P xs))"
  by (metis List.card_set set_filter)

lemma card_pos_Bex: "finite S \<Longrightarrow> 0 < card {r \<in> S. P r} \<longleftrightarrow> (\<exists>r \<in> S. P r)"
  by (auto simp: card_gt_0_iff)

lemma distinct_map_filter_remove1:
  assumes "distinct (map f (filter P xs))"
  shows "distinct (map f (filter P (remove1 x xs)))"
  using assms by (simp add: distinct_map filter_remove1 inj_on_def)

end
