(* ===== verification/App_Error.thy ===== *)
theory App_Error
  imports Prelude
begin

text \<open>
  The error hierarchy of \<open>git-release-notifier-be/src/lib/errors\<close>: the codes, the classes
  with their HTTP status, and \<open>errorHandler\<close>, which turns whatever a route throws into a
  reply. A rejection of code that is not part of the repository (a driver, a client library,
  the JavaScript runtime) is \<open>Other\<close> with its message, a failed schema is \<open>Zod\<close>. The \<open>cause\<close> of
  an error only reaches the log and is left out.
\<close>

datatype ErrorCode =
    ALREADY_SUBSCRIBED | REPOSITORY_NOT_FOUND | INVALID_CONFIRM_TOKEN
  | INVALID_UNSUBSCRIBE_TOKEN | EMAIL_REQUIRED | UNAUTHORIZED
  | GITHUB_UNAVAILABLE | GITHUB_RATE_LIMITED | INTERNAL

datatype error_class =
    Base_Class | NotFound_Class | Validation_Class | Conflict_Class | Github_Class
  | GithubRateLimit_Class | Unauthorized_Class

record app_error =
  err_class :: error_class
  err_code :: ErrorCode
  statusCode :: nat
  isOperational :: bool

definition AppError :: "ErrorCode \<Rightarrow> nat \<Rightarrow> bool option \<Rightarrow> app_error" where
  "AppError c st operational =
     \<lparr>err_class = Base_Class, err_code = c, statusCode = st,
      isOperational = (case operational of None \<Rightarrow> True | Some b \<Rightarrow> b)\<rparr>"

definition NotFoundError :: "ErrorCode \<Rightarrow> app_error" where
  "NotFoundError c = (AppError c 404 None)\<lparr>err_class := NotFound_Class\<rparr>"

definition ValidationError :: "ErrorCode \<Rightarrow> app_error" where
  "ValidationError c = (AppError c 400 None)\<lparr>err_class := Validation_Class\<rparr>"

definition ConflictError :: "ErrorCode \<Rightarrow> app_error" where
  "ConflictError c = (AppError c 409 None)\<lparr>err_class := Conflict_Class\<rparr>"

definition GithubError :: "ErrorCode \<Rightarrow> app_error" where
  "GithubError c = (AppError c 502 None)\<lparr>err_class := Github_Class\<rparr>"

definition GithubRateLimitError :: app_error where
  "GithubRateLimitError =
     (AppError GITHUB_RATE_LIMITED 429 None)\<lparr>err_class := GithubRateLimit_Class\<rparr>"

definition UnauthorizedError :: "ErrorCode \<Rightarrow> app_error" where
  "UnauthorizedError c = (AppError c 401 None)\<lparr>err_class := Unauthorized_Class\<rparr>"

lemmas app_error_defs =
  AppError_def NotFoundError_def ValidationError_def ConflictError_def GithubError_def
  GithubRateLimitError_def UnauthorizedError_def

section \<open>Whatever a promise can be rejected with\<close>

record zod_issue =
  issue_path :: "string list"
  issue_message :: string

datatype js_error = App app_error | Zod "zod_issue list" | Other string

type_synonym ('w, 'a) async = "('w, js_error, 'a) io"

definition external :: "js_error \<Rightarrow> bool" where
  "external e \<longleftrightarrow> (case e of Other _ \<Rightarrow> True | _ \<Rightarrow> False)"

lemma external_simps [simp]:
  "external (Other m)" "\<not> external (App a)" "\<not> external (Zod is)"
  by (simp_all add: external_def)

section \<open>The error handler of the HTTP server\<close>

text \<open>The texts of \<open>ERROR_MESSAGES\<close> are named by their code, literal texts are kept.\<close>

datatype reply_text = Error_Text ErrorCode | Literal string

record error_reply =
  reply_status :: nat
  reply_code :: "ErrorCode option"
  reply_message :: reply_text
  reply_details :: "(string \<times> string) list"

fun join :: "string \<Rightarrow> string list \<Rightarrow> string" where
  "join sep [] = ''''"
| "join sep [x] = x"
| "join sep (x # y # xs) = x @ sep @ join sep (y # xs)"

definition errorHandler :: "bool \<Rightarrow> js_error \<Rightarrow> error_reply" where
  "errorHandler isDev error =
     (case error of
        App e \<Rightarrow>
          \<lparr>reply_status = statusCode e, reply_code = Some (err_code e),
           reply_message = Error_Text (err_code e), reply_details = []\<rparr>
      | Zod issues \<Rightarrow>
          \<lparr>reply_status = 400, reply_code = None, reply_message = Literal ''Validation failed'',
           reply_details = map (\<lambda>i. (join ''.'' (issue_path i), issue_message i)) issues\<rparr>
      | Other message \<Rightarrow>
          \<lparr>reply_status = 500, reply_code = Some INTERNAL,
           reply_message = Literal (if isDev then message else ''Internal server error''),
           reply_details = []\<rparr>)"

text \<open>Outside development mode the text of a foreign error never reaches the client.\<close>

lemma errorHandler_hides_foreign_errors:
  "errorHandler False (Other m) = errorHandler False (Other m')"
  by (simp add: errorHandler_def)

lemma errorHandler_status:
  "reply_status (errorHandler d (App (NotFoundError c))) = 404"
  "reply_status (errorHandler d (App (ValidationError c))) = 400"
  "reply_status (errorHandler d (App (ConflictError c))) = 409"
  "reply_status (errorHandler d (App (GithubError c))) = 502"
  "reply_status (errorHandler d (App GithubRateLimitError)) = 429"
  "reply_status (errorHandler d (App (UnauthorizedError c))) = 401"
  by (simp_all add: errorHandler_def app_error_defs)

end
