(* ===== verification/Prisma_Client.thy ===== *)
theory Prisma_Client
  imports App_Error
begin

text \<open>
  The part of the Prisma client the repositories call. Prisma and PostgreSQL are not code of
  the repository, so a table is only known through the operations of one model delegate
  (\<open>prisma.subscription\<close>, \<open>prisma.sagaInstance\<close>), which the repositories take as an argument.
  A \<open>where\<close> object is the predicate on rows it stands for, a \<open>data\<close> object of an update is the
  change of a row, the \<open>data\<close> of a creation is a value of its own type.

  The locale \<open>prisma_table\<close> states what the client's documentation promises, for the set
  \<open>rows w\<close> of the rows of the table in the world \<open>w\<close> and for \<open>rest w\<close>, everything else a
  property looks at:
  \<^item> a statement either takes effect as a whole or is rejected and changes nothing, and a
    rejection is no error class of the repository;
  \<^item> queries read the rows that satisfy the predicate, in an unspecified order;
  \<^item> an inserted row satisfies \<open>created\<close>: the columns given, the defaults of the schema and
    the unique indexes;
  \<^item> an update applies the change and the columns maintained by Prisma (\<open>stamp\<close>).
\<close>

record ('w, 'r, 'n) prisma_delegate =
  p_findUnique :: "('r \<Rightarrow> bool) \<Rightarrow> ('w, 'r option) async"
  p_findFirst :: "('r \<Rightarrow> bool) \<Rightarrow> ('w, 'r option) async"
  p_findMany :: "('r \<Rightarrow> bool) \<Rightarrow> ('w, 'r list) async"
  p_count :: "('r \<Rightarrow> bool) \<Rightarrow> ('w, nat) async"
  p_groupBy :: "('r \<Rightarrow> bool) \<Rightarrow> ('r \<Rightarrow> string) \<Rightarrow> ('w, (string \<times> nat) list) async"
  p_create :: "'n \<Rightarrow> ('w, 'r) async"
  p_update :: "('r \<Rightarrow> bool) \<Rightarrow> ('r \<Rightarrow> 'r) \<Rightarrow> ('w, 'r) async"
  p_updateMany :: "('r \<Rightarrow> bool) \<Rightarrow> ('r \<Rightarrow> 'r) \<Rightarrow> ('w, nat) async"
  p_upsert :: "('r \<Rightarrow> bool) \<Rightarrow> ('r \<Rightarrow> 'r) \<Rightarrow> 'n \<Rightarrow> ('w, 'r) async"
  p_delete :: "('r \<Rightarrow> bool) \<Rightarrow> ('w, 'r) async"
  p_deleteMany :: "('r \<Rightarrow> bool) \<Rightarrow> ('w, nat) async"

definition found :: "'r set \<Rightarrow> ('r \<Rightarrow> bool) \<Rightarrow> 'r option \<Rightarrow> bool" where
  "found S P res \<longleftrightarrow>
     (case res of None \<Rightarrow> (\<forall>r \<in> S. \<not> P r) | Some r \<Rightarrow> r \<in> S \<and> P r)"

lemma found_simps [simp]:
  "found S P None \<longleftrightarrow> (\<forall>r \<in> S. \<not> P r)" "found S P (Some r) \<longleftrightarrow> r \<in> S \<and> P r"
  by (simp_all add: found_def)

definition updated :: "'r set \<Rightarrow> ('r \<Rightarrow> bool) \<Rightarrow> ('r \<Rightarrow> 'r) \<Rightarrow> 'r set" where
  "updated S P f = (\<lambda>r. if P r then f r else r) ` S"

lemma updated_cases:
  assumes "x \<in> updated S P f"
  obtains (hit) r where "r \<in> S" and "P r" and "x = f r" | (miss) "x \<in> S" and "\<not> P x"
  using assms by (auto simp: updated_def split: if_splits)

lemma updated_none: "(\<And>r. r \<in> S \<Longrightarrow> \<not> P r) \<Longrightarrow> updated S P f = S"
  by (force simp: updated_def)

lemma updated_one:
  assumes "s \<in> S" and "\<And>x. x \<in> S \<Longrightarrow> P x \<longleftrightarrow> x = s"
  shows "updated S P f = insert (f s) (S - {s})"
proof -
  have "updated S P f = (\<lambda>x. if x = s then f x else x) ` S"
    unfolding updated_def using assms(2) by (intro image_cong) auto
  also have "\<dots> = insert (f s) (S - {s})"
    using assms(1) by (auto simp: image_iff)
  finally show ?thesis .
qed

lemma unique_by_updated:
  assumes "unique_by k S" and "\<And>r. k (f r) = k r"
  shows "unique_by k (updated S P f)"
  unfolding updated_def using assms by (intro unique_by_image) auto

lemma finite_updated [simp]: "finite S \<Longrightarrow> finite (updated S P f)"
  by (simp add: updated_def)

definition grouped :: "'r set \<Rightarrow> ('r \<Rightarrow> bool) \<Rightarrow> ('r \<Rightarrow> string) \<Rightarrow> (string \<times> nat) list \<Rightarrow> bool" where
  "grouped S P key gs \<longleftrightarrow>
     distinct (map fst gs) \<and> fst ` set gs = key ` {r \<in> S. P r} \<and>
     (\<forall>(k, n) \<in> set gs. n = card {r \<in> S. P r \<and> key r = k})"

locale prisma_table =
  fixes db :: "('w, 'r, 'n) prisma_delegate"
    and rows :: "'w \<Rightarrow> 'r set"
    and rest :: "'w \<Rightarrow> 'x"
    and created :: "'w \<Rightarrow> 'n \<Rightarrow> 'r \<Rightarrow> bool"
    and stamp :: "'w \<Rightarrow> 'r \<Rightarrow> 'r"
  assumes finite_rows: "finite (rows w)"
    and findUnique_reads: "\<And>w q w'. p_findUnique db P w = (q, w') \<Longrightarrow> rows w' = rows w \<and> rest w' = rest w
      \<and> (case q of Inl e \<Rightarrow> external e | Inr res \<Rightarrow> found (rows w) P res)"
    and findFirst_reads: "\<And>w q w'. p_findFirst db P w = (q, w') \<Longrightarrow> rows w' = rows w \<and> rest w' = rest w
      \<and> (case q of Inl e \<Rightarrow> external e | Inr res \<Rightarrow> found (rows w) P res)"
    and findMany_reads: "\<And>w q w'. p_findMany db P w = (q, w') \<Longrightarrow> rows w' = rows w \<and> rest w' = rest w
      \<and> (case q of Inl e \<Rightarrow> external e
         | Inr rs \<Rightarrow> distinct rs \<and> set rs = {r \<in> rows w. P r})"
    and count_reads: "\<And>w q w'. p_count db P w = (q, w') \<Longrightarrow> rows w' = rows w \<and> rest w' = rest w
      \<and> (case q of Inl e \<Rightarrow> external e | Inr n \<Rightarrow> n = card {r \<in> rows w. P r})"
    and groupBy_reads: "\<And>w q w'. p_groupBy db P key w = (q, w') \<Longrightarrow> rows w' = rows w \<and> rest w' = rest w
      \<and> (case q of Inl e \<Rightarrow> external e | Inr gs \<Rightarrow> grouped (rows w) P key gs)"
    and create_inserts: "\<And>w q w'. p_create db n w = (q, w') \<Longrightarrow> rest w' = rest w
      \<and> (case q of Inl e \<Rightarrow> external e \<and> rows w' = rows w
         | Inr r \<Rightarrow> created w n r \<and> rows w' = insert r (rows w))"
    and update_applies: "\<And>w q w'. p_update db P f w = (q, w') \<Longrightarrow> rest w' = rest w
      \<and> (case q of Inl e \<Rightarrow> external e \<and> rows w' = rows w
         | Inr r' \<Rightarrow> rows w' = updated (rows w) P (\<lambda>r. stamp w (f r))
             \<and> (\<exists>r \<in> rows w. P r \<and> r' = stamp w (f r)))"
    and updateMany_applies: "\<And>w q w'. p_updateMany db P f w = (q, w') \<Longrightarrow> rest w' = rest w
      \<and> (case q of Inl e \<Rightarrow> external e \<and> rows w' = rows w
         | Inr n \<Rightarrow> rows w' = updated (rows w) P (\<lambda>r. stamp w (f r))
             \<and> n = card {r \<in> rows w. P r})"
    and upsert_applies: "\<And>w q w'. p_upsert db P f n w = (q, w') \<Longrightarrow> rest w' = rest w
      \<and> (case q of Inl e \<Rightarrow> external e \<and> rows w' = rows w
         | Inr r' \<Rightarrow>
             (rows w' = updated (rows w) P (\<lambda>r. stamp w (f r))
               \<and> (\<exists>r \<in> rows w. P r \<and> r' = stamp w (f r)))
             \<or> ((\<forall>r \<in> rows w. \<not> P r) \<and> created w n r' \<and> rows w' = insert r' (rows w)))"
    and delete_removes: "\<And>w q w'. p_delete db P w = (q, w') \<Longrightarrow> rest w' = rest w
      \<and> (case q of Inl e \<Rightarrow> external e \<and> rows w' = rows w
         | Inr r \<Rightarrow> r \<in> rows w \<and> P r \<and> rows w' = {r \<in> rows w. \<not> P r})"
    and deleteMany_removes: "\<And>w q w'. p_deleteMany db P w = (q, w') \<Longrightarrow> rest w' = rest w
      \<and> (case q of Inl e \<Rightarrow> external e \<and> rows w' = rows w
         | Inr n \<Rightarrow> rows w' = {r \<in> rows w. \<not> P r} \<and> n = card {r \<in> rows w. P r})"
begin

lemma preserves_rest:
  "preserves rest (p_findUnique db P)" "preserves rest (p_findFirst db P)"
  "preserves rest (p_findMany db P)" "preserves rest (p_count db P)"
  "preserves rest (p_groupBy db P key)" "preserves rest (p_create db n)"
  "preserves rest (p_update db P f)" "preserves rest (p_updateMany db P f)"
  "preserves rest (p_upsert db P f n)" "preserves rest (p_delete db P)"
  "preserves rest (p_deleteMany db P)"
  by (rule preservesI;
      auto dest: findUnique_reads findFirst_reads findMany_reads count_reads groupBy_reads
        create_inserts update_applies updateMany_applies upsert_applies delete_removes
        deleteMany_removes)+

lemma count_positive: "0 < card {r \<in> rows w. P r} \<longleftrightarrow> (\<exists>r \<in> rows w. P r)"
  using finite_rows by (rule card_pos_Bex)

text \<open>The laws hold for every coarser view of the rest.\<close>

lemma viewed:
  assumes view: "\<And>w w'. rest w' = rest w \<Longrightarrow> rest' w' = rest' w"
  shows "prisma_table db rows rest' created stamp"
  apply unfold_locales
  subgoal by (rule finite_rows)
  subgoal by (drule findUnique_reads, elim conjE, drule view, simp)
  subgoal by (drule findFirst_reads, elim conjE, drule view, simp)
  subgoal by (drule findMany_reads, elim conjE, drule view, simp)
  subgoal by (drule count_reads, elim conjE, drule view, simp)
  subgoal by (drule groupBy_reads, elim conjE, drule view, simp)
  subgoal by (drule create_inserts, elim conjE, drule view, simp)
  subgoal by (drule update_applies, elim conjE, drule view, simp)
  subgoal by (drule updateMany_applies, elim conjE, drule view, simp)
  subgoal by (drule upsert_applies, elim conjE, drule view, simp)
  subgoal by (drule delete_removes, elim conjE, drule view, simp)
  subgoal by (drule deleteMany_removes, elim conjE, drule view, simp)
  done

end

section \<open>A table kept as a list\<close>

text \<open>
  An instance for evaluation: a table held as a list of rows in some world, read and written
  by \<open>get\<close> and \<open>put\<close>. \<open>build\<close> builds the row of a creation or refuses it (a unique index).
  Every law of \<open>prisma_table\<close> holds for it, so the laws are consistent.
\<close>

definition listed :: "('w \<Rightarrow> 'r list) \<Rightarrow> ('r list \<Rightarrow> 'w \<Rightarrow> 'w) \<Rightarrow>
    ('w \<Rightarrow> 'n \<Rightarrow> 'r option) \<Rightarrow> ('w \<Rightarrow> 'r \<Rightarrow> 'r) \<Rightarrow> ('w, 'r, 'n) prisma_delegate" where
  "listed get put build stamp =
   (let change = (\<lambda>P f w. put (map (\<lambda>r. if P r then stamp w (f r) else r) (get w)) w);
        insert_row = (\<lambda>n w. case build w n of
            None \<Rightarrow> (Inl (Other ''P2002''), w)
          | Some r \<Rightarrow> (Inr r, put (get w @ [r]) w))
    in \<lparr>p_findUnique = (\<lambda>P w. (Inr (find P (get w)), w)),
        p_findFirst = (\<lambda>P w. (Inr (find P (get w)), w)),
        p_findMany = (\<lambda>P w. (Inr (remdups (filter P (get w))), w)),
        p_count = (\<lambda>P w. (Inr (length (remdups (filter P (get w)))), w)),
        p_groupBy = (\<lambda>P key w.
          (Inr (map (\<lambda>k. (k, length (remdups (filter (\<lambda>r. P r \<and> key r = k) (get w)))))
             (sort (remdups (map key (filter P (get w)))))), w)),
        p_create = insert_row,
        p_update = (\<lambda>P f w. case find P (get w) of
            None \<Rightarrow> (Inl (Other ''P2025''), w)
          | Some r \<Rightarrow> (Inr (stamp w (f r)), change P f w)),
        p_updateMany = (\<lambda>P f w. (Inr (length (remdups (filter P (get w)))), change P f w)),
        p_upsert = (\<lambda>P f n w. case find P (get w) of
            None \<Rightarrow> insert_row n w
          | Some r \<Rightarrow> (Inr (stamp w (f r)), change P f w)),
        p_delete = (\<lambda>P w. case find P (get w) of
            None \<Rightarrow> (Inl (Other ''P2025''), w)
          | Some r \<Rightarrow> (Inr r, put (filter (\<lambda>r. \<not> P r) (get w)) w)),
        p_deleteMany = (\<lambda>P w.
          (Inr (length (remdups (filter P (get w)))), put (filter (\<lambda>r. \<not> P r) (get w)) w))\<rparr>)"

lemma findSomeD: "find P xs = Some x \<Longrightarrow> P x \<and> x \<in> set xs"
  by (auto simp: find_Some_iff)

lemma find_NoneD: "find P xs = None \<Longrightarrow> x \<in> set xs \<Longrightarrow> \<not> P x"
  by (auto simp: find_None_iff)

lemma find_found: "found (set xs) P (find P xs)"
  by (auto simp: found_def find_None_iff dest: findSomeD split: option.split)

lemma grouped_list:
  "grouped (set xs) P key
     (map (\<lambda>k. (k, length (remdups (filter (\<lambda>r. P r \<and> key r = k) xs))))
       (sort (remdups (map key (filter P xs)))))"
  by (auto simp: grouped_def card_filter_set comp_def image_image)

theorem listed_prisma_table:
  assumes get_put: "\<And>xs w. get (put xs w) = xs"
    and rest_put: "\<And>xs w. rest (put xs w) = rest w"
    and build: "\<And>w n r. build w n = Some r \<Longrightarrow> created w n r"
  shows "prisma_table (listed get put build stamp) (\<lambda>w. set (get w)) rest created stamp"
  by unfold_locales
    (auto simp: listed_def Let_def find_found get_put rest_put build card_filter_set grouped_list
        updated_def
      split: option.splits dest: find_NoneD; blast dest: findSomeD)+

end
