(* ===== verification/Subscription_Repository.thy ===== *)
theory Subscription_Repository
  imports Prisma_Client
begin

text \<open>
  \<open>modules/subscriptions/repositories/subscription.repository.ts\<close> and the interfaces it
  implements. \<open>SubscriptionRepository db\<close> is the class over the Prisma delegate \<open>db\<close>, as a
  record of its methods. The locale \<open>subscription_store\<close> is the contract the service, the
  saga and the scanner rely on; \<open>SubscriptionRepository_store\<close> discharges it from the laws of
  the delegate, and the schema's unique indexes (\<open>subscriptions_wf\<close>) are kept by every method.
\<close>

section \<open>Rows\<close>

datatype subscription_status = PENDING | ACTIVE

record subscription =
  sub_id :: string
  sub_email :: string
  repository :: string
  status :: subscription_status
  confirmToken :: string
  unsubscribeToken :: string
  lastSeenTag :: "string option"
  createdAt :: nat

record subscription_summary =
  sum_repository :: string
  sum_status :: subscription_status
  sum_createdAt :: nat

record outdated_subscriber =
  out_id :: string
  out_email :: string
  out_unsubscribeToken :: string

record new_subscription =
  new_email :: string
  new_repository :: string
  new_status :: subscription_status

text \<open>The columns a creation fills in, and the unique indexes of the table.\<close>

definition subscriptions_wf :: "subscription set \<Rightarrow> bool" where
  "subscriptions_wf S \<longleftrightarrow>
     unique_by sub_id S \<and> unique_by confirmToken S \<and> unique_by unsubscribeToken S \<and>
     unique_by (\<lambda>s. (sub_email s, repository s)) S"

definition subscription_row :: "subscription set \<Rightarrow> new_subscription \<Rightarrow> subscription \<Rightarrow> bool" where
  "subscription_row S n s \<longleftrightarrow>
     sub_email s = new_email n \<and> repository s = new_repository n \<and> status s = new_status n \<and>
     lastSeenTag s = None \<and> sub_id s \<notin> sub_id ` S \<and> confirmToken s \<notin> confirmToken ` S \<and>
     unsubscribeToken s \<notin> unsubscribeToken ` S \<and>
     (sub_email s, repository s) \<notin> (\<lambda>t. (sub_email t, repository t)) ` S"

type_synonym 'w subscription_delegate = "('w, subscription, new_subscription) prisma_delegate"

section \<open>The methods\<close>

definition upsertPending_q :: "'w subscription_delegate \<Rightarrow> string \<Rightarrow> string \<Rightarrow> ('w, subscription) async" where
  "upsertPending_q db email repo =
     p_upsert db (\<lambda>s. sub_email s = email \<and> repository s = repo)
       (\<lambda>s. s\<lparr>status := PENDING\<rparr>)
       \<lparr>new_email = email, new_repository = repo, new_status = PENDING\<rparr>"

definition findByConfirmToken_q :: "'w subscription_delegate \<Rightarrow> string \<Rightarrow> ('w, subscription option) async" where
  "findByConfirmToken_q db token = p_findUnique db (\<lambda>s. confirmToken s = token)"

definition checkIfActiveExists_q :: "'w subscription_delegate \<Rightarrow> string \<Rightarrow> string \<Rightarrow> ('w, bool) async" where
  "checkIfActiveExists_q db email repo =
     await (p_findFirst db (\<lambda>s. sub_email s = email \<and> repository s = repo \<and> status s = ACTIVE))
       (\<lambda>existing. ret (existing \<noteq> None))"

definition activate_q :: "'w subscription_delegate \<Rightarrow> string \<Rightarrow> ('w, subscription) async" where
  "activate_q db i = p_update db (\<lambda>s. sub_id s = i) (\<lambda>s. s\<lparr>status := ACTIVE\<rparr>)"

definition findByUnsubscribeToken_q :: "'w subscription_delegate \<Rightarrow> string \<Rightarrow> ('w, subscription option) async" where
  "findByUnsubscribeToken_q db token = p_findUnique db (\<lambda>s. unsubscribeToken s = token)"

definition delete_q :: "'w subscription_delegate \<Rightarrow> string \<Rightarrow> ('w, subscription) async" where
  "delete_q db i = p_delete db (\<lambda>s. sub_id s = i)"

definition deleteIfPending_q :: "'w subscription_delegate \<Rightarrow> string \<Rightarrow> ('w, bool) async" where
  "deleteIfPending_q db i =
     await (p_deleteMany db (\<lambda>s. sub_id s = i \<and> status s = PENDING)) (\<lambda>count. ret (count > 0))"

definition findByEmail_q :: "'w subscription_delegate \<Rightarrow> string \<Rightarrow> ('w, subscription_summary list) async" where
  "findByEmail_q db email =
     await (p_findMany db (\<lambda>s. sub_email s = email))
       (\<lambda>rows. ret (map (\<lambda>s. \<lparr>sum_repository = repository s, sum_status = status s,
                                sum_createdAt = createdAt s\<rparr>) rows))"

definition countActive_q :: "'w subscription_delegate \<Rightarrow> ('w, nat) async" where
  "countActive_q db = p_count db (\<lambda>s. status s = ACTIVE)"

definition groupByRepository_q :: "'w subscription_delegate \<Rightarrow> ('w, (string \<times> nat) list) async" where
  "groupByRepository_q db = p_groupBy db (\<lambda>s. status s = ACTIVE) repository"

text \<open>A comparison with \<open>not\<close> is SQL's \<open><>\<close>: it never holds for a NULL column.\<close>

definition sql_not :: "string \<Rightarrow> string option \<Rightarrow> bool" where
  "sql_not v column = (case column of None \<Rightarrow> False | Some u \<Rightarrow> u \<noteq> v)"

definition getOutdatedSubscribers_q ::
  "'w subscription_delegate \<Rightarrow> string \<Rightarrow> string \<Rightarrow> ('w, outdated_subscriber list) async" where
  "getOutdatedSubscribers_q db repoName newTag =
     await (p_findMany db (\<lambda>s. repository s = repoName \<and> status s = ACTIVE \<and>
              (sql_not newTag (lastSeenTag s) \<or> lastSeenTag s = None)))
       (\<lambda>rows. ret (map (\<lambda>s. \<lparr>out_id = sub_id s, out_email = sub_email s,
                                out_unsubscribeToken = unsubscribeToken s\<rparr>) rows))"

definition advanceTag_q :: "'w subscription_delegate \<Rightarrow> string \<Rightarrow> string \<Rightarrow> string \<Rightarrow> ('w, unit) async" where
  "advanceTag_q db email repo tag =
     await (p_updateMany db (\<lambda>s. sub_email s = email \<and> repository s = repo)
              (\<lambda>s. s\<lparr>lastSeenTag := Some tag\<rparr>))
       (\<lambda>_. ret ())"

record 'w subscription_repository =
  checkIfActiveExists :: "string \<Rightarrow> string \<Rightarrow> ('w, bool) async"
  upsertPending :: "string \<Rightarrow> string \<Rightarrow> ('w, subscription) async"
  findByConfirmToken :: "string \<Rightarrow> ('w, subscription option) async"
  activate :: "string \<Rightarrow> ('w, subscription) async"
  findByUnsubscribeToken :: "string \<Rightarrow> ('w, subscription option) async"
  delete_subscription :: "string \<Rightarrow> ('w, subscription) async"
  deleteIfPending :: "string \<Rightarrow> ('w, bool) async"
  findByEmail :: "string \<Rightarrow> ('w, subscription_summary list) async"
  countActive :: "('w, nat) async"
  groupByRepository :: "('w, (string \<times> nat) list) async"
  getOutdatedSubscribers :: "string \<Rightarrow> string \<Rightarrow> ('w, outdated_subscriber list) async"
  advanceTag :: "string \<Rightarrow> string \<Rightarrow> string \<Rightarrow> ('w, unit) async"

definition SubscriptionRepository :: "'w subscription_delegate \<Rightarrow> 'w subscription_repository" where
  "SubscriptionRepository db =
     \<lparr>checkIfActiveExists = checkIfActiveExists_q db,
      upsertPending = upsertPending_q db,
      findByConfirmToken = findByConfirmToken_q db,
      activate = activate_q db,
      findByUnsubscribeToken = findByUnsubscribeToken_q db,
      delete_subscription = delete_q db,
      deleteIfPending = deleteIfPending_q db,
      findByEmail = findByEmail_q db,
      countActive = countActive_q db,
      groupByRepository = groupByRepository_q db,
      getOutdatedSubscribers = getOutdatedSubscribers_q db,
      advanceTag = advanceTag_q db\<rparr>"

lemmas subscription_query_defs =
  upsertPending_q_def findByConfirmToken_q_def checkIfActiveExists_q_def activate_q_def
  findByUnsubscribeToken_q_def delete_q_def deleteIfPending_q_def findByEmail_q_def
  countActive_q_def groupByRepository_q_def getOutdatedSubscribers_q_def advanceTag_q_def

section \<open>The unique indexes are kept\<close>

lemma subscriptions_wfD:
  assumes "subscriptions_wf S" and "s \<in> S" and "t \<in> S"
  shows "sub_id s = sub_id t \<Longrightarrow> s = t" "confirmToken s = confirmToken t \<Longrightarrow> s = t"
    "unsubscribeToken s = unsubscribeToken t \<Longrightarrow> s = t"
    "sub_email s = sub_email t \<Longrightarrow> repository s = repository t \<Longrightarrow> s = t"
  using assms by (auto simp: subscriptions_wf_def dest: unique_byD)

lemma subscriptions_wf_insert:
  "subscriptions_wf S \<Longrightarrow> subscription_row S n s \<Longrightarrow> subscriptions_wf (insert s S)"
  unfolding subscriptions_wf_def subscription_row_def
  by (intro conjI; elim conjE; intro unique_by_insert; assumption)

lemma subscriptions_wf_subset: "subscriptions_wf S \<Longrightarrow> T \<subseteq> S \<Longrightarrow> subscriptions_wf T"
  by (auto simp: subscriptions_wf_def intro: unique_by_subset)

lemma subscriptions_wf_updated:
  assumes "subscriptions_wf S"
    and "\<And>s. sub_id (f s) = sub_id s" "\<And>s. confirmToken (f s) = confirmToken s"
    and "\<And>s. unsubscribeToken (f s) = unsubscribeToken s"
    and "\<And>s. sub_email (f s) = sub_email s" "\<And>s. repository (f s) = repository s"
  shows "subscriptions_wf (updated S P f)"
  using assms by (auto simp: subscriptions_wf_def intro: unique_by_updated)

section \<open>The contract of the repository\<close>

text \<open>What an email address is told about a subscription that is behind \<open>tag\<close>.\<close>

definition outdated :: "string \<Rightarrow> string \<Rightarrow> subscription \<Rightarrow> bool" where
  "outdated repo tag s \<longleftrightarrow> repository s = repo \<and> status s = ACTIVE \<and> lastSeenTag s \<noteq> Some tag"

definition subscriber_of :: "subscription \<Rightarrow> outdated_subscriber" where
  "subscriber_of s = \<lparr>out_id = sub_id s, out_email = sub_email s,
     out_unsubscribeToken = unsubscribeToken s\<rparr>"

lemma outdated_query:
  "(repository s = repo \<and> status s = ACTIVE \<and>
     (sql_not tag (lastSeenTag s) \<or> lastSeenTag s = None)) = outdated repo tag s"
  by (auto simp: outdated_def sql_not_def split: option.splits)

locale subscription_store =
  fixes R :: "'w subscription_repository"
    and subs :: "'w \<Rightarrow> subscription set"
    and rest :: "'w \<Rightarrow> 'x"
  assumes finite_subs: "finite (subs w)"
    and checkIfActiveExists_law: "\<And>w q w'. checkIfActiveExists R email repo w = (q, w') \<Longrightarrow>
      subs w' = subs w \<and> rest w' = rest w \<and>
      (case q of Inl e \<Rightarrow> external e
       | Inr b \<Rightarrow> b \<longleftrightarrow> (\<exists>s \<in> subs w. sub_email s = email \<and> repository s = repo \<and> status s = ACTIVE))"
    and upsertPending_law: "\<And>w q w'. upsertPending R email repo w = (q, w') \<Longrightarrow>
      rest w' = rest w \<and>
      (case q of Inl e \<Rightarrow> external e \<and> subs w' = subs w
       | Inr s' \<Rightarrow>
          (subs w' = updated (subs w) (\<lambda>s. sub_email s = email \<and> repository s = repo)
              (\<lambda>s. s\<lparr>status := PENDING\<rparr>) \<and>
            (\<exists>s \<in> subs w. sub_email s = email \<and> repository s = repo \<and> s' = s\<lparr>status := PENDING\<rparr>))
          \<or> ((\<forall>s \<in> subs w. \<not> (sub_email s = email \<and> repository s = repo)) \<and>
             subscription_row (subs w)
               \<lparr>new_email = email, new_repository = repo, new_status = PENDING\<rparr> s' \<and>
             subs w' = insert s' (subs w)))"
    and findByConfirmToken_law: "\<And>w q w'. findByConfirmToken R token w = (q, w') \<Longrightarrow>
      subs w' = subs w \<and> rest w' = rest w \<and>
      (case q of Inl e \<Rightarrow> external e | Inr res \<Rightarrow> found (subs w) (\<lambda>s. confirmToken s = token) res)"
    and activate_law: "\<And>w q w'. activate R i w = (q, w') \<Longrightarrow> rest w' = rest w \<and>
      (case q of Inl e \<Rightarrow> external e \<and> subs w' = subs w
       | Inr s' \<Rightarrow> subs w' = updated (subs w) (\<lambda>s. sub_id s = i) (\<lambda>s. s\<lparr>status := ACTIVE\<rparr>) \<and>
           (\<exists>s \<in> subs w. sub_id s = i \<and> s' = s\<lparr>status := ACTIVE\<rparr>))"
    and findByUnsubscribeToken_law: "\<And>w q w'. findByUnsubscribeToken R token w = (q, w') \<Longrightarrow>
      subs w' = subs w \<and> rest w' = rest w \<and>
      (case q of Inl e \<Rightarrow> external e
       | Inr res \<Rightarrow> found (subs w) (\<lambda>s. unsubscribeToken s = token) res)"
    and delete_law: "\<And>w q w'. delete_subscription R i w = (q, w') \<Longrightarrow> rest w' = rest w \<and>
      (case q of Inl e \<Rightarrow> external e \<and> subs w' = subs w
       | Inr s \<Rightarrow> s \<in> subs w \<and> sub_id s = i \<and> subs w' = {s \<in> subs w. sub_id s \<noteq> i})"
    and deleteIfPending_law: "\<And>w q w'. deleteIfPending R i w = (q, w') \<Longrightarrow> rest w' = rest w \<and>
      (case q of Inl e \<Rightarrow> external e \<and> subs w' = subs w
       | Inr b \<Rightarrow> subs w' = {s \<in> subs w. \<not> (sub_id s = i \<and> status s = PENDING)} \<and>
           (b \<longleftrightarrow> (\<exists>s \<in> subs w. sub_id s = i \<and> status s = PENDING)))"
    and findByEmail_law: "\<And>w q w'. findByEmail R email w = (q, w') \<Longrightarrow>
      subs w' = subs w \<and> rest w' = rest w \<and>
      (case q of Inl e \<Rightarrow> external e
       | Inr xs \<Rightarrow> set xs = (\<lambda>s. \<lparr>sum_repository = repository s, sum_status = status s,
            sum_createdAt = createdAt s\<rparr>) ` {s \<in> subs w. sub_email s = email})"
    and groupByRepository_law: "\<And>w q w'. groupByRepository R w = (q, w') \<Longrightarrow>
      subs w' = subs w \<and> rest w' = rest w \<and>
      (case q of Inl e \<Rightarrow> external e
       | Inr gs \<Rightarrow> grouped (subs w) (\<lambda>s. status s = ACTIVE) repository gs)"
    and getOutdatedSubscribers_law: "\<And>w q w'. getOutdatedSubscribers R repo tag w = (q, w') \<Longrightarrow>
      subs w' = subs w \<and> rest w' = rest w \<and>
      (case q of Inl e \<Rightarrow> external e
       | Inr xs \<Rightarrow> \<exists>ss. distinct ss \<and> set ss = {s \<in> subs w. outdated repo tag s} \<and>
           xs = map subscriber_of ss)"
    and advanceTag_law: "\<And>w q w'. advanceTag R email repo tag w = (q, w') \<Longrightarrow> rest w' = rest w \<and>
      (case q of Inl e \<Rightarrow> external e \<and> subs w' = subs w
       | Inr u \<Rightarrow> subs w' = updated (subs w) (\<lambda>s. sub_email s = email \<and> repository s = repo)
           (\<lambda>s. s\<lparr>lastSeenTag := Some tag\<rparr>))"
begin

text \<open>Whatever a method writes, the unique indexes still hold.\<close>

lemma upsertPending_wf:
  assumes "subscriptions_wf (subs w)" and "upsertPending R email repo w = (q, w')"
  shows "subscriptions_wf (subs w')"
  using upsertPending_law [OF assms(2)] assms(1)
  by (cases q) (auto intro!: subscriptions_wf_updated [OF assms(1)] subscriptions_wf_insert [OF assms(1)])

lemma activate_wf:
  assumes "subscriptions_wf (subs w)" and "activate R i w = (q, w')"
  shows "subscriptions_wf (subs w')"
  using activate_law [OF assms(2)] assms(1)
  by (cases q) (auto intro!: subscriptions_wf_updated [OF assms(1)])

lemma delete_wf:
  assumes "subscriptions_wf (subs w)" and "delete_subscription R i w = (q, w')"
  shows "subscriptions_wf (subs w')"
  using delete_law [OF assms(2)] assms(1)
  by (cases q) (auto intro!: subscriptions_wf_subset [OF assms(1)])

lemma deleteIfPending_wf:
  assumes "subscriptions_wf (subs w)" and "deleteIfPending R i w = (q, w')"
  shows "subscriptions_wf (subs w')"
  using deleteIfPending_law [OF assms(2)] assms(1)
  by (cases q) (auto intro!: subscriptions_wf_subset [OF assms(1)])

lemma advanceTag_wf:
  assumes "subscriptions_wf (subs w)" and "advanceTag R email repo tag w = (q, w')"
  shows "subscriptions_wf (subs w')"
  using advanceTag_law [OF assms(2)] assms(1)
  by (cases q) (auto intro!: subscriptions_wf_updated [OF assms(1)])

text \<open>Writing back the status of the only row with an id.\<close>

lemma activate_one:
  assumes "subscriptions_wf (subs w)" and "s \<in> subs w"
    and "activate R (sub_id s) w = (Inr s', w')"
  shows "s' = s\<lparr>status := ACTIVE\<rparr> \<and> subs w' = insert s' (subs w - {s})"
proof -
  from activate_law [OF assms(3)] obtain t where t: "t \<in> subs w" "sub_id t = sub_id s"
    "s' = t\<lparr>status := ACTIVE\<rparr>"
    and w': "subs w' = updated (subs w) (\<lambda>t. sub_id t = sub_id s) (\<lambda>s. s\<lparr>status := ACTIVE\<rparr>)"
    by auto
  from t(1,2) assms(1,2) have "t = s" by (auto dest: subscriptions_wfD(1))
  moreover have "subs w' = insert (s\<lparr>status := ACTIVE\<rparr>) (subs w - {s})"
    unfolding w' using assms(1,2) by (intro updated_one) (auto dest: subscriptions_wfD(1))
  ultimately show ?thesis using t(3) by simp
qed

lemma delete_one:
  assumes "subscriptions_wf (subs w)" and "s \<in> subs w"
    and "delete_subscription R (sub_id s) w = (Inr s', w')"
  shows "s' = s \<and> subs w' = subs w - {s}"
  using delete_law [OF assms(3)] assms(1,2) by (auto dest: subscriptions_wfD(1))

text \<open>After its tag has been advanced, a subscriber is not outdated for that tag.\<close>

lemma advanceTag_not_outdated:
  assumes adv: "advanceTag R email repo tag w = (Inr u, w1)"
    and get: "getOutdatedSubscribers R repo tag w1 = (Inr xs, w2)"
  shows "email \<notin> out_email ` set xs"
proof -
  have "lastSeenTag s = Some tag" if "s \<in> subs w1" "sub_email s = email" "repository s = repo" for s
  proof -
    from advanceTag_law [OF adv] that(1)
    have "s \<in> updated (subs w) (\<lambda>s. sub_email s = email \<and> repository s = repo)
        (\<lambda>s. s\<lparr>lastSeenTag := Some tag\<rparr>)" by simp
    then show ?thesis using that(2,3) by (cases rule: updated_cases) simp_all
  qed
  then have "\<forall>s \<in> subs w1. outdated repo tag s \<longrightarrow> sub_email s \<noteq> email"
    by (auto simp: outdated_def)
  moreover obtain ss where "set ss = {s \<in> subs w1. outdated repo tag s}" "xs = map subscriber_of ss"
    using getOutdatedSubscribers_law [OF get] by auto
  ultimately show ?thesis by (auto simp: subscriber_of_def)
qed

end

section \<open>The repository over Prisma meets it\<close>

text \<open>The columns of this table Prisma maintains by itself: none.\<close>

definition no_stamp :: "'w \<Rightarrow> subscription \<Rightarrow> subscription" where
  "no_stamp w s = s"

locale subscription_prisma =
  prisma_table db subs rest "\<lambda>w. subscription_row (subs w)" no_stamp
  for db :: "'w subscription_delegate"
    and subs :: "'w \<Rightarrow> subscription set"
    and rest :: "'w \<Rightarrow> 'x"
begin

lemma store: "subscription_store (SubscriptionRepository db) subs rest"
  apply unfold_locales
  unfolding SubscriptionRepository_def subscription_query_defs subscription_repository.simps
  subgoal by (rule finite_rows)
  subgoal by (erule await_outcome; drule findFirst_reads; auto simp: found_def split: option.splits)
  subgoal by (drule upsert_applies; auto simp: no_stamp_def split: sum.splits)
  subgoal by (drule findUnique_reads; auto split: sum.splits)
  subgoal by (drule update_applies; auto simp: no_stamp_def split: sum.splits)
  subgoal by (drule findUnique_reads; auto split: sum.splits)
  subgoal by (drule delete_removes; auto split: sum.splits)
  subgoal by (erule await_outcome; drule deleteMany_removes; auto simp: count_positive)
  subgoal by (erule await_outcome; drule findMany_reads; auto)
  subgoal by (drule groupBy_reads; auto split: sum.splits)
  subgoal by (erule await_outcome; drule findMany_reads;
      auto simp: outdated_query subscriber_of_def [abs_def])
  subgoal by (erule await_outcome; drule updateMany_applies; auto simp: no_stamp_def)
  done

end

section \<open>An instance for evaluation\<close>

text \<open>
  Rows kept in a list held by some world; an id or a token is new because it is longer than
  every id and token in the table, and a creation that repeats an email and a repository is
  refused, as by the unique index.
\<close>

definition fresh_string :: "string list \<Rightarrow> string" where
  "fresh_string used = replicate (Suc (sum_list (map length used))) (CHR ''x'')"

lemma fresh_string: "fresh_string used \<notin> set used"
proof
  assume "fresh_string used \<in> set used"
  then have "length (fresh_string used) \<le> sum_list (map length used)"
    by (intro member_le_sum_list) auto
  then show False by (simp add: fresh_string_def)
qed

definition build_subscription :: "('w \<Rightarrow> subscription list) \<Rightarrow> 'w \<Rightarrow> new_subscription \<Rightarrow> subscription option" where
  "build_subscription get w n =
     (if \<exists>s \<in> set (get w). sub_email s = new_email n \<and> repository s = new_repository n then None
      else Some \<lparr>sub_id = fresh_string (map sub_id (get w)), sub_email = new_email n,
        repository = new_repository n, status = new_status n,
        confirmToken = fresh_string (map confirmToken (get w)),
        unsubscribeToken = fresh_string (map unsubscribeToken (get w)),
        lastSeenTag = None, createdAt = 0\<rparr>)"

definition listed_subscriptions ::
  "('w \<Rightarrow> subscription list) \<Rightarrow> (subscription list \<Rightarrow> 'w \<Rightarrow> 'w) \<Rightarrow> 'w subscription_delegate" where
  "listed_subscriptions get put = listed get put (build_subscription get) no_stamp"

lemma build_subscription_row:
  "build_subscription get w n = Some s \<Longrightarrow> subscription_row (set (get w)) n s"
  using fresh_string [of "map sub_id (get w)"] fresh_string [of "map confirmToken (get w)"]
    fresh_string [of "map unsubscribeToken (get w)"]
  by (auto simp: build_subscription_def subscription_row_def split: if_splits)

lemma listed_subscription_prisma:
  assumes "\<And>xs w. get (put xs w) = xs" and "\<And>xs w. rest (put xs w) = rest w"
  shows "subscription_prisma (listed_subscriptions get put) (\<lambda>w. set (get w)) rest"
  unfolding subscription_prisma_def listed_subscriptions_def
  using assms by (intro listed_prisma_table) (auto dest: build_subscription_row)

abbreviation only_subscriptions :: "subscription list subscription_delegate" where
  "only_subscriptions \<equiv> listed_subscriptions (\<lambda>xs. xs) (\<lambda>xs _. xs)"

interpretation sub_table: subscription_prisma only_subscriptions set "\<lambda>_. ()"
  using listed_subscription_prisma [of "\<lambda>xs. xs" "\<lambda>xs _. xs" "\<lambda>_. ()"] by simp

interpretation sub_store: subscription_store "SubscriptionRepository only_subscriptions" set "\<lambda>_. ()"
  by (rule sub_table.store)

end
