(* ===== verification/Saga_Repository.thy ===== *)
theory Saga_Repository
  imports Subscription_Repository
begin

text \<open>
  \<open>modules/saga/repositories/saga.repository.ts\<close>: the table of saga instances over its
  Prisma delegate. Times are milliseconds; \<open>updatedAt\<close> is maintained by Prisma, so it is part
  of \<open>stamp\<close>, read off the clock of the world. \<open>transition\<close> is the conditional update that
  the orchestrator uses as a compare-and-set: the contract \<open>saga_store\<close> says that it succeeds
  exactly when the row is in one of the given states, and then moves that row only.
\<close>

section \<open>Rows\<close>

datatype SagaState = STARTED | AWAITING_EMAIL | COMPLETED | COMPENSATING | COMPENSATED

record saga_payload =
  pl_subscriptionId :: string
  pl_email :: string
  pl_repo :: string

record saga_record =
  saga_id :: string
  saga_type :: string
  saga_state :: SagaState
  payload :: saga_payload
  lastError :: "string option"
  saga_createdAt :: nat
  updatedAt :: nat

definition SUBSCRIBE_SAGA_TYPE :: string where
  "SUBSCRIBE_SAGA_TYPE = ''SUBSCRIBE''"

definition CONFIRMATION_TIMEOUT_MS :: nat where
  "CONFIRMATION_TIMEOUT_MS = 120000"

type_synonym new_saga = "string \<times> saga_payload"
type_synonym 'w saga_delegate = "('w, saga_record, new_saga) prisma_delegate"

text \<open>The row of a creation, with the defaults of the schema, at time \<open>t\<close>.\<close>

definition saga_row :: "nat \<Rightarrow> saga_record set \<Rightarrow> new_saga \<Rightarrow> saga_record \<Rightarrow> bool" where
  "saga_row t S n g \<longleftrightarrow>
     saga_type g = fst n \<and> payload g = snd n \<and> saga_state g = STARTED \<and> lastError g = None \<and>
     saga_createdAt g = t \<and> updatedAt g = t \<and> saga_id g \<notin> saga_id ` S"

definition touch :: "nat \<Rightarrow> saga_record \<Rightarrow> saga_record" where
  "touch t g = g\<lparr>updatedAt := t\<rparr>"

section \<open>The methods\<close>

definition with_state :: "SagaState \<Rightarrow> string option \<Rightarrow> saga_record \<Rightarrow> saga_record" where
  "with_state st err g =
     (case err of None \<Rightarrow> g\<lparr>saga_state := st\<rparr> | Some m \<Rightarrow> g\<lparr>saga_state := st, lastError := Some m\<rparr>)"

definition create_q :: "'w saga_delegate \<Rightarrow> string \<Rightarrow> saga_payload \<Rightarrow> ('w, saga_record) async" where
  "create_q db ty pl = p_create db (ty, pl)"

definition findById_q :: "'w saga_delegate \<Rightarrow> string \<Rightarrow> ('w, saga_record option) async" where
  "findById_q db i = p_findUnique db (\<lambda>g. saga_id g = i)"

definition findStuck_q ::
  "'w saga_delegate \<Rightarrow> SagaState list \<Rightarrow> int \<Rightarrow> ('w, saga_record list) async" where
  "findStuck_q db states olderThan =
     p_findMany db (\<lambda>g. saga_state g \<in> set states \<and> int (updatedAt g) < olderThan)"

definition updateState_q ::
  "'w saga_delegate \<Rightarrow> string \<Rightarrow> SagaState \<Rightarrow> string option \<Rightarrow> ('w, unit) async" where
  "updateState_q db i st err =
     await (p_update db (\<lambda>g. saga_id g = i) (with_state st err)) (\<lambda>_. ret ())"

definition transition_q ::
  "'w saga_delegate \<Rightarrow> string \<Rightarrow> SagaState list \<Rightarrow> SagaState \<Rightarrow> string option \<Rightarrow> ('w, bool) async" where
  "transition_q db i from to err =
     await (p_updateMany db (\<lambda>g. saga_id g = i \<and> saga_state g \<in> set from) (with_state to err))
       (\<lambda>count. ret (count > 0))"

record 'w saga_repository =
  create_saga :: "string \<Rightarrow> saga_payload \<Rightarrow> ('w, saga_record) async"
  findById :: "string \<Rightarrow> ('w, saga_record option) async"
  findStuck :: "SagaState list \<Rightarrow> int \<Rightarrow> ('w, saga_record list) async"
  updateState :: "string \<Rightarrow> SagaState \<Rightarrow> string option \<Rightarrow> ('w, unit) async"
  transition :: "string \<Rightarrow> SagaState list \<Rightarrow> SagaState \<Rightarrow> string option \<Rightarrow> ('w, bool) async"

definition SagaRepository :: "'w saga_delegate \<Rightarrow> 'w saga_repository" where
  "SagaRepository db =
     \<lparr>create_saga = create_q db, findById = findById_q db, findStuck = findStuck_q db,
      updateState = updateState_q db, transition = transition_q db\<rparr>"

lemmas saga_query_defs =
  create_q_def findById_q_def findStuck_q_def updateState_q_def transition_q_def

section \<open>The contract\<close>

definition sagas_wf :: "saga_record set \<Rightarrow> bool" where
  "sagas_wf G \<longleftrightarrow> unique_by saga_id G"

lemma sagas_wfD: "sagas_wf G \<Longrightarrow> g \<in> G \<Longrightarrow> h \<in> G \<Longrightarrow> saga_id g = saga_id h \<Longrightarrow> g = h"
  by (auto simp: sagas_wf_def dest: unique_byD)

lemma with_state_simps [simp]:
  "saga_id (with_state st err g) = saga_id g" "saga_state (with_state st err g) = st"
  "payload (with_state st err g) = payload g" "saga_type (with_state st err g) = saga_type g"
  "updatedAt (with_state st err g) = updatedAt g"
  "saga_createdAt (with_state st err g) = saga_createdAt g"
  "lastError (with_state st err g) = (case err of None \<Rightarrow> lastError g | Some m \<Rightarrow> Some m)"
  by (simp_all add: with_state_def split: option.split)

lemma touch_simps [simp]:
  "saga_id (touch t g) = saga_id g" "saga_state (touch t g) = saga_state g"
  "payload (touch t g) = payload g" "saga_type (touch t g) = saga_type g"
  "updatedAt (touch t g) = t" "saga_createdAt (touch t g) = saga_createdAt g"
  "lastError (touch t g) = lastError g"
  by (simp_all add: touch_def)

text \<open>\<open>moved t i from to err G\<close>: the rows after row \<open>i\<close>, if in a state of \<open>from\<close>, went to \<open>to\<close>.\<close>

definition moved :: "nat \<Rightarrow> string \<Rightarrow> SagaState set \<Rightarrow> SagaState \<Rightarrow> string option \<Rightarrow>
    saga_record set \<Rightarrow> saga_record set" where
  "moved t i from to err G =
     updated G (\<lambda>g. saga_id g = i \<and> saga_state g \<in> from) (\<lambda>g. touch t (with_state to err g))"

lemma moved_wf [simp]: "sagas_wf G \<Longrightarrow> sagas_wf (moved t i from to err G)"
  by (auto simp: sagas_wf_def moved_def intro: unique_by_updated)

lemma moved_none: "(\<And>g. g \<in> G \<Longrightarrow> saga_id g = i \<Longrightarrow> saga_state g \<notin> from) \<Longrightarrow> moved t i from to err G = G"
  unfolding moved_def by (rule updated_none) auto

lemma moved_one:
  assumes "sagas_wf G" and "g \<in> G" and "saga_state g \<in> from"
  shows "moved t (saga_id g) from to err G = insert (touch t (with_state to err g)) (G - {g})"
  unfolding moved_def
  by (rule updated_one) (use assms in \<open>auto dest: sagas_wfD\<close>)

lemma moved_other: "g \<in> G \<Longrightarrow> saga_id g \<noteq> i \<Longrightarrow> g \<in> moved t i from to err G"
  by (force simp: moved_def updated_def)

locale saga_store =
  fixes G :: "'w saga_repository"
    and sagas :: "'w \<Rightarrow> saga_record set"
    and clock :: "'w \<Rightarrow> nat"
    and rest :: "'w \<Rightarrow> 'x"
  assumes finite_sagas: "finite (sagas w)"
    and create_law: "\<And>w q w'. create_saga G ty pl w = (q, w') \<Longrightarrow> rest w' = rest w \<and>
      (case q of Inl e \<Rightarrow> external e \<and> sagas w' = sagas w
       | Inr g \<Rightarrow> saga_row (clock w) (sagas w) (ty, pl) g \<and> sagas w' = insert g (sagas w))"
    and findById_law: "\<And>w q w'. findById G i w = (q, w') \<Longrightarrow>
      sagas w' = sagas w \<and> rest w' = rest w \<and>
      (case q of Inl e \<Rightarrow> external e | Inr res \<Rightarrow> found (sagas w) (\<lambda>g. saga_id g = i) res)"
    and findStuck_law: "\<And>w q w'. findStuck G states olderThan w = (q, w') \<Longrightarrow>
      sagas w' = sagas w \<and> rest w' = rest w \<and>
      (case q of Inl e \<Rightarrow> external e
       | Inr gs \<Rightarrow> distinct gs \<and>
           set gs = {g \<in> sagas w. saga_state g \<in> set states \<and> int (updatedAt g) < olderThan})"
    and updateState_law: "\<And>w q w'. updateState G i st err w = (q, w') \<Longrightarrow> rest w' = rest w \<and>
      (case q of Inl e \<Rightarrow> external e \<and> sagas w' = sagas w
       | Inr u \<Rightarrow> sagas w' = moved (clock w) i UNIV st err (sagas w)
           \<and> (\<exists>g \<in> sagas w. saga_id g = i))"
    and transition_law: "\<And>w q w'. transition G i from to err w = (q, w') \<Longrightarrow> rest w' = rest w \<and>
      (case q of Inl e \<Rightarrow> external e \<and> sagas w' = sagas w
       | Inr b \<Rightarrow> sagas w' = moved (clock w) i (set from) to err (sagas w) \<and>
           (b \<longleftrightarrow> (\<exists>g \<in> sagas w. saga_id g = i \<and> saga_state g \<in> set from)))"
begin

lemma create_wf:
  assumes "sagas_wf (sagas w)" and "create_saga G ty pl w = (q, w')"
  shows "sagas_wf (sagas w')"
  using create_law [OF assms(2)] assms(1)
  by (cases q) (auto simp: saga_row_def sagas_wf_def intro!: unique_by_insert)

lemma updateState_wf:
  assumes "sagas_wf (sagas w)" and "updateState G i st err w = (q, w')"
  shows "sagas_wf (sagas w')"
  using updateState_law [OF assms(2)] assms(1) by (cases q) auto

lemma transition_wf:
  assumes "sagas_wf (sagas w)" and "transition G i from to err w = (q, w')"
  shows "sagas_wf (sagas w')"
  using transition_law [OF assms(2)] assms(1) by (cases q) auto

text \<open>A lost race: the state is no longer one of those expected, and nothing changes.\<close>

lemma transition_lost:
  assumes "transition G i from to err w = (Inr False, w')"
  shows "sagas w' = sagas w \<and> rest w' = rest w"
  using transition_law [OF assms] by (auto intro!: moved_none)

lemma transition_won:
  assumes "sagas_wf (sagas w)" and "transition G i from to err w = (Inr True, w')"
  obtains g where "g \<in> sagas w" and "saga_id g = i" and "saga_state g \<in> set from"
    and "sagas w' = insert (touch (clock w) (with_state to err g)) (sagas w - {g})"
    and "rest w' = rest w"
  using transition_law [OF assms(2)] moved_one [OF assms(1)] by auto

end

locale saga_prisma =
  prisma_table db sagas rest "\<lambda>w. saga_row (clock w) (sagas w)" "\<lambda>w. touch (clock w)"
  for db :: "'w saga_delegate"
    and sagas :: "'w \<Rightarrow> saga_record set"
    and clock :: "'w \<Rightarrow> nat"
    and rest :: "'w \<Rightarrow> 'x"
begin

lemma saga_store: "saga_store (SagaRepository db) sagas clock rest"
  apply unfold_locales
  unfolding SagaRepository_def saga_query_defs saga_repository.simps
  subgoal by (rule finite_rows)
  subgoal by (drule create_inserts; auto split: sum.splits)
  subgoal by (drule findUnique_reads; auto split: sum.splits)
  subgoal by (drule findMany_reads; auto split: sum.splits)
  subgoal by (erule await_outcome; drule update_applies; auto simp: moved_def)
  subgoal by (erule await_outcome; drule updateMany_applies; auto simp: moved_def count_positive)
  done

end

section \<open>An instance for evaluation\<close>

definition build_saga :: "('w \<Rightarrow> saga_record list) \<Rightarrow> ('w \<Rightarrow> nat) \<Rightarrow> 'w \<Rightarrow> new_saga \<Rightarrow> saga_record option" where
  "build_saga get clock w n =
     Some \<lparr>saga_id = fresh_string (map saga_id (get w)), saga_type = fst n, saga_state = STARTED,
       payload = snd n, lastError = None, saga_createdAt = clock w, updatedAt = clock w\<rparr>"

definition listed_sagas :: "('w \<Rightarrow> saga_record list) \<Rightarrow> (saga_record list \<Rightarrow> 'w \<Rightarrow> 'w) \<Rightarrow>
    ('w \<Rightarrow> nat) \<Rightarrow> 'w saga_delegate" where
  "listed_sagas get put clock = listed get put (build_saga get clock) (\<lambda>w. touch (clock w))"

lemma listed_saga_prisma:
  assumes "\<And>xs w. get (put xs w) = xs" and "\<And>xs w. rest (put xs w) = rest w"
  shows "saga_prisma (listed_sagas get put clock) (\<lambda>w. set (get w)) clock rest"
proof -
  have "build_saga get clock w n = Some g \<Longrightarrow> saga_row (clock w) (set (get w)) n g" for w n g
    using fresh_string [of "map saga_id (get w)"] by (auto simp: build_saga_def saga_row_def)
  then show ?thesis
    unfolding saga_prisma_def listed_sagas_def using assms by (intro listed_prisma_table) auto
qed

abbreviation only_sagas :: "(saga_record list \<times> nat) saga_delegate" where
  "only_sagas \<equiv> listed_sagas fst (\<lambda>xs w. (xs, snd w)) snd"

interpretation saga_table: saga_prisma only_sagas "\<lambda>w. set (fst w)" snd snd
  by (rule listed_saga_prisma) simp_all

interpretation saga_rows: saga_store "SagaRepository only_sagas" "\<lambda>w. set (fst w)" snd snd
  by (rule saga_table.saga_store)

end
