(* ===== verification/Contracts.thy ===== *)
theory Contracts
  imports App_Error
begin

text \<open>
  \<open>packages/contracts/src\<close>: the messages the services exchange, the schemas that validate
  them on arrival, the idempotency keys and the queue names.

  A message body is a \<open>content\<close>: the text of some JSON value, or a text that
  \<open>JSON.parse\<close> rejects. The formats \<open>email\<close> and \<open>uuid\<close> are regular expressions inside
  the zod library, so they are the arguments \<open>email_ok\<close> and \<open>uuid_ok\<close> of the schemas.
\<close>

section \<open>JSON values\<close>

datatype json =
    JNull | JBool bool | JNum int | JStr string | JArr "json list" | JObj "(string \<times> json) list"

datatype content = Text json | Garbage string

definition JSON_parse :: "content \<Rightarrow> json option" where
  "JSON_parse c = (case c of Text j \<Rightarrow> Some j | Garbage _ \<Rightarrow> None)"

lemma JSON_parse_simps [simp]: "JSON_parse (Text j) = Some j" "JSON_parse (Garbage s) = None"
  by (simp_all add: JSON_parse_def)

text \<open>A property of an object: the last of its keys wins. \<open>None\<close> is \<open>undefined\<close>.\<close>

definition field :: "json \<Rightarrow> string \<Rightarrow> json option" where
  "field j k = (case j of JObj kvs \<Rightarrow> map_of (rev kvs) k | _ \<Rightarrow> None)"

lemma field_simps_json [simp]:
  "field (JObj []) k = None"
  "field (JObj (kvs @ [(k', v)])) k = (if k = k' then Some v else field (JObj kvs) k)"
  by (simp_all add: field_def)

text \<open>\<open>z.string()\<close> and its refinements on a property.\<close>

definition z_string :: "json option \<Rightarrow> string option" where
  "z_string v = (case v of Some (JStr s) \<Rightarrow> Some s | _ \<Rightarrow> None)"

definition z_refined :: "(string \<Rightarrow> bool) \<Rightarrow> json option \<Rightarrow> string option" where
  "z_refined ok v = (case z_string v of Some s \<Rightarrow> if ok s then Some s else None | None \<Rightarrow> None)"

lemma z_string_simps [simp]: "z_string (Some (JStr s)) = Some s" "z_string None = None"
  by (simp_all add: z_string_def)

lemma z_refined_simps [simp]:
  "z_refined ok (Some (JStr s)) = (if ok s then Some s else None)" "z_refined ok None = None"
  by (simp_all add: z_refined_def)

lemma z_refined_ok: "z_refined ok v = Some s \<Longrightarrow> ok s"
  by (auto simp: z_refined_def split: option.splits if_splits)

section \<open>Queues and idempotency keys\<close>

definition EMAIL_QUEUE_NAME :: string where "EMAIL_QUEUE_NAME = ''email-send-queue''"
definition EMAIL_RETRY_QUEUE_NAME :: string where "EMAIL_RETRY_QUEUE_NAME = ''email-send-retry-queue''"
definition EMAIL_DEAD_QUEUE_NAME :: string where "EMAIL_DEAD_QUEUE_NAME = ''email-dead-queue''"
definition RELEASE_DELIVERED_QUEUE_NAME :: string where
  "RELEASE_DELIVERED_QUEUE_NAME = ''release-delivered-queue''"
definition SAGA_CONFIRMATION_REPLY_QUEUE :: string where
  "SAGA_CONFIRMATION_REPLY_QUEUE = ''saga.confirmation.reply''"

lemmas queue_names =
  EMAIL_QUEUE_NAME_def EMAIL_RETRY_QUEUE_NAME_def EMAIL_DEAD_QUEUE_NAME_def
  RELEASE_DELIVERED_QUEUE_NAME_def SAGA_CONFIRMATION_REPLY_QUEUE_def

definition releaseIdempotencyKey :: "string \<Rightarrow> string \<Rightarrow> string \<Rightarrow> string" where
  "releaseIdempotencyKey email repo tag = ''release:'' @ email @ '':'' @ repo @ '':'' @ tag"

definition confirmationIdempotencyKey :: "string \<Rightarrow> string \<Rightarrow> string \<Rightarrow> string" where
  "confirmationIdempotencyKey email repo token =
     ''confirmation:'' @ email @ '':'' @ repo @ '':'' @ token"

lemma split_at_separator:
  assumes "c \<notin> set xs" and "c \<notin> set us"
  shows "xs @ c # ys = us @ c # vs \<longleftrightarrow> xs = us \<and> ys = vs"
  using assms
proof (induction xs arbitrary: us)
  case Nil
  then show ?case by (cases us) auto
next
  case (Cons x xs)
  then show ?case by (cases us) auto
qed

section \<open>Email messages\<close>

datatype email_message =
    Release (idempotencyKey: string) (msg_email: string) (msg_repo: string)
      (msg_tag: string) (msg_unsubscribeToken: string)
  | Confirmation (idempotencyKey: string) (msg_email: string) (msg_repo: string)
      (msg_confirmToken: string) (sagaId: string)

fun email_message_json :: "email_message \<Rightarrow> json" where
  "email_message_json (Release k e r t u) =
     JObj [(''type'', JStr ''release''), (''idempotencyKey'', JStr k), (''email'', JStr e),
           (''repo'', JStr r), (''tag'', JStr t), (''unsubscribeToken'', JStr u)]"
| "email_message_json (Confirmation k e r t g) =
     JObj [(''type'', JStr ''confirmation''), (''idempotencyKey'', JStr k), (''email'', JStr e),
           (''repo'', JStr r), (''confirmToken'', JStr t), (''sagaId'', JStr g)]"

definition emailMessageSchema ::
  "(string \<Rightarrow> bool) \<Rightarrow> (string \<Rightarrow> bool) \<Rightarrow> json \<Rightarrow> email_message option" where
  "emailMessageSchema email_ok uuid_ok j =
     (if z_string (field j ''type'') = Some ''release'' then
        (case (z_string (field j ''idempotencyKey''), z_refined email_ok (field j ''email''),
               z_string (field j ''repo''), z_string (field j ''tag''),
               z_string (field j ''unsubscribeToken'')) of
           (Some k, Some e, Some r, Some t, Some u) \<Rightarrow> Some (Release k e r t u)
         | _ \<Rightarrow> None)
      else if z_string (field j ''type'') = Some ''confirmation'' then
        (case (z_string (field j ''idempotencyKey''), z_refined email_ok (field j ''email''),
               z_string (field j ''repo''), z_string (field j ''confirmToken''),
               z_refined uuid_ok (field j ''sagaId'')) of
           (Some k, Some e, Some r, Some t, Some g) \<Rightarrow> Some (Confirmation k e r t g)
         | _ \<Rightarrow> None)
      else None)"

fun valid_message :: "(string \<Rightarrow> bool) \<Rightarrow> (string \<Rightarrow> bool) \<Rightarrow> email_message \<Rightarrow> bool" where
  "valid_message email_ok uuid_ok (Release k e r t u) = email_ok e"
| "valid_message email_ok uuid_ok (Confirmation k e r t g) = (email_ok e \<and> uuid_ok g)"

lemma emailMessageSchema_valid:
  "emailMessageSchema email_ok uuid_ok j = Some m \<Longrightarrow> valid_message email_ok uuid_ok m"
  by (auto simp: emailMessageSchema_def dest: z_refined_ok split: if_splits option.splits)

lemma emailMessageSchema_accepts:
  "emailMessageSchema email_ok uuid_ok (email_message_json m) =
     (if valid_message email_ok uuid_ok m then Some m else None)"
  by (cases m) (simp_all add: emailMessageSchema_def field_def)

lemma valid_message_trivial: "valid_message (\<lambda>_. True) (\<lambda>_. True) m"
  by (cases m) simp_all

text \<open>The payload of a release notification; both services declare the same type.\<close>

record release_payload =
  rp_email :: string
  rp_repo :: string
  rp_tag :: string
  rp_unsubscribeToken :: string

section \<open>Replies to the saga and delivery events\<close>

datatype reply_status = SENT | FAILED

record confirmation_reply =
  rep_sagaId :: string
  rep_status :: reply_status
  rep_reason :: "string option"

definition confirmation_reply_json :: "confirmation_reply \<Rightarrow> json" where
  "confirmation_reply_json r =
     JObj ([(''sagaId'', JStr (rep_sagaId r)),
            (''status'', JStr (case rep_status r of SENT \<Rightarrow> ''SENT'' | FAILED \<Rightarrow> ''FAILED''))]
           @ (case rep_reason r of None \<Rightarrow> [] | Some m \<Rightarrow> [(''reason'', JStr m)]))"

definition confirmationReplySchema :: "(string \<Rightarrow> bool) \<Rightarrow> json \<Rightarrow> confirmation_reply option" where
  "confirmationReplySchema uuid_ok j =
     (case (z_refined uuid_ok (field j ''sagaId''), z_string (field j ''status'')) of
        (Some g, Some s) \<Rightarrow>
          (case (if s = ''SENT'' then Some SENT else if s = ''FAILED'' then Some FAILED else None) of
             None \<Rightarrow> None
           | Some st \<Rightarrow>
               (case field j ''reason'' of
                  None \<Rightarrow> Some \<lparr>rep_sagaId = g, rep_status = st, rep_reason = None\<rparr>
                | Some (JStr m) \<Rightarrow> Some \<lparr>rep_sagaId = g, rep_status = st, rep_reason = Some m\<rparr>
                | Some _ \<Rightarrow> None))
      | _ \<Rightarrow> None)"

lemma confirmationReplySchema_accepts:
  "confirmationReplySchema uuid_ok (confirmation_reply_json r) =
     (if uuid_ok (rep_sagaId r) then Some r else None)"
  by (cases r; cases "rep_reason r"; cases "rep_status r")
    (simp_all add: confirmationReplySchema_def confirmation_reply_json_def field_def)

record release_delivered =
  dlv_email :: string
  dlv_repo :: string
  dlv_tag :: string

definition release_delivered_json :: "release_delivered \<Rightarrow> json" where
  "release_delivered_json d =
     JObj [(''email'', JStr (dlv_email d)), (''repo'', JStr (dlv_repo d)), (''tag'', JStr (dlv_tag d))]"

definition releaseDeliveredSchema :: "(string \<Rightarrow> bool) \<Rightarrow> json \<Rightarrow> release_delivered option" where
  "releaseDeliveredSchema email_ok j =
     (case (z_refined email_ok (field j ''email''), z_string (field j ''repo''),
            z_string (field j ''tag'')) of
        (Some e, Some r, Some t) \<Rightarrow> Some \<lparr>dlv_email = e, dlv_repo = r, dlv_tag = t\<rparr>
      | _ \<Rightarrow> None)"

lemma releaseDeliveredSchema_accepts:
  "releaseDeliveredSchema email_ok (release_delivered_json d) =
     (if email_ok (dlv_email d) then Some d else None)"
  by (simp add: releaseDeliveredSchema_def release_delivered_json_def field_def)

section \<open>Properties\<close>

text \<open>
  The keys name what they are built from: two release notifications share a key only if they
  are the same notification, and a release never shares a key with a confirmation.
\<close>

lemma releaseIdempotencyKey_inj:
  assumes "CHR '':'' \<notin> set e" "CHR '':'' \<notin> set r" "CHR '':'' \<notin> set e'" "CHR '':'' \<notin> set r'"
  shows "releaseIdempotencyKey e r t = releaseIdempotencyKey e' r' t'
    \<longleftrightarrow> e = e' \<and> r = r' \<and> t = t'"
  using assms by (simp add: releaseIdempotencyKey_def split_at_separator)

lemma confirmationIdempotencyKey_inj:
  assumes "CHR '':'' \<notin> set e" "CHR '':'' \<notin> set r" "CHR '':'' \<notin> set e'" "CHR '':'' \<notin> set r'"
  shows "confirmationIdempotencyKey e r t = confirmationIdempotencyKey e' r' t'
    \<longleftrightarrow> e = e' \<and> r = r' \<and> t = t'"
  using assms by (simp add: confirmationIdempotencyKey_def split_at_separator)

lemma idempotency_keys_disjoint: "releaseIdempotencyKey e r t \<noteq> confirmationIdempotencyKey e' r' t'"
  by (simp add: releaseIdempotencyKey_def confirmationIdempotencyKey_def)

end
