(* ===== verification/Amqp_Client.thy ===== *)
theory Amqp_Client
  imports Contracts
begin

text \<open>
  The part of the RabbitMQ client (\<open>amqplib\<close>) the services call. A channel is a record of
  operations; what a consumer or a publisher told the broker through it is the list
  \<open>broker w\<close> of events. The laws of \<open>amqp_channel\<close>:
  \<^item> an acknowledgement, a negative acknowledgement or a send that returns has been handed
    to the broker, one that throws (a closed channel) has not;
  \<^item> the boolean of \<open>sendToQueue\<close> is back pressure only: the message is sent either way;
  \<^item> a confirmed send that is rejected may or may not have reached the queue.
  Every send of the program is persistent, every negative acknowledgement is for one message.
\<close>

record amqp_headers =
  retry_count :: "int option"
  dead_reason :: "string option"
  other_headers :: "(string \<times> string) list"

definition no_headers :: amqp_headers where
  "no_headers = \<lparr>retry_count = None, dead_reason = None, other_headers = []\<rparr>"

record consume_message =
  deliveryTag :: nat
  msg_content :: content
  msg_headers :: "amqp_headers option"

text \<open>\<open>{...msg.properties.headers}\<close> and \<open>headers?.['x-retry-count'] ?? 0\<close>.\<close>

definition spread_headers :: "consume_message \<Rightarrow> amqp_headers" where
  "spread_headers m = (case msg_headers m of None \<Rightarrow> no_headers | Some h \<Rightarrow> h)"

definition retryCount :: "consume_message \<Rightarrow> int" where
  "retryCount m = (case retry_count (spread_headers m) of None \<Rightarrow> 0 | Some n \<Rightarrow> n)"

record 'w channel =
  ack :: "consume_message \<Rightarrow> ('w, unit) async"
  nack :: "consume_message \<Rightarrow> bool \<Rightarrow> ('w, unit) async"
  sendToQueue :: "string \<Rightarrow> content \<Rightarrow> amqp_headers \<Rightarrow> ('w, bool) async"
  sendConfirmed :: "string \<Rightarrow> content \<Rightarrow> amqp_headers \<Rightarrow> ('w, unit) async"
  assertQueue :: "string \<Rightarrow> ('w, unit) async"
  close_channel :: "('w, unit) async"

datatype broker_event =
    Acked consume_message
  | Nacked consume_message bool
  | Sent string content amqp_headers

text \<open>
  What a delivery did to the broker: nothing (only when the channel refused), or settle this
  delivery once.
\<close>

definition settled_with :: "broker_event list \<Rightarrow> broker_event list \<Rightarrow> broker_event \<Rightarrow> bool" where
  "settled_with evs evs' e \<longleftrightarrow> evs' = evs \<or> evs' = evs @ [e]"

locale amqp_channel =
  fixes ch :: "'w channel"
    and broker :: "'w \<Rightarrow> broker_event list"
    and rest :: "'w \<Rightarrow> 'x"
  assumes ack_law: "\<And>w q w'. ack ch m w = (q, w') \<Longrightarrow> rest w' = rest w \<and>
      (case q of Inl e \<Rightarrow> external e \<and> broker w' = broker w
       | Inr u \<Rightarrow> broker w' = broker w @ [Acked m])"
    and nack_law: "\<And>w q w'. nack ch m requeue w = (q, w') \<Longrightarrow> rest w' = rest w \<and>
      (case q of Inl e \<Rightarrow> external e \<and> broker w' = broker w
       | Inr u \<Rightarrow> broker w' = broker w @ [Nacked m requeue])"
    and sendToQueue_law: "\<And>w q w'. sendToQueue ch to c h w = (q, w') \<Longrightarrow> rest w' = rest w \<and>
      (case q of Inl e \<Rightarrow> external e \<and> broker w' = broker w
       | Inr b \<Rightarrow> broker w' = broker w @ [Sent to c h])"
    and sendConfirmed_law: "\<And>w q w'. sendConfirmed ch to c h w = (q, w') \<Longrightarrow> rest w' = rest w \<and>
      (case q of Inl e \<Rightarrow> external e \<and> (broker w' = broker w \<or> broker w' = broker w @ [Sent to c h])
       | Inr u \<Rightarrow> broker w' = broker w @ [Sent to c h])"
    and assertQueue_law: "\<And>w q w'. assertQueue ch to w = (q, w') \<Longrightarrow>
      broker w' = broker w \<and> rest w' = rest w \<and> (case q of Inl e \<Rightarrow> external e | Inr u \<Rightarrow> True)"
    and close_law: "\<And>w q w'. close_channel ch w = (q, w') \<Longrightarrow>
      broker w' = broker w \<and> rest w' = rest w \<and> (case q of Inl e \<Rightarrow> external e | Inr u \<Rightarrow> True)"
begin

lemma channel_preserves_rest:
  "preserves rest (ack ch m)" "preserves rest (nack ch m requeue)"
  "preserves rest (sendToQueue ch to c h)" "preserves rest (sendConfirmed ch to c h)"
  "preserves rest (assertQueue ch to)" "preserves rest (close_channel ch)"
  by (rule preservesI;
      auto dest: ack_law nack_law sendToQueue_law sendConfirmed_law assertQueue_law close_law)+

lemma swallow_ack:
  assumes "swallow (ack ch m) w = (q, w')"
  shows "q = Inr () \<and> rest w' = rest w \<and> settled_with (broker w) (broker w') (Acked m)"
proof -
  from swallow_resolves [OF assms] obtain q' where q: "q = Inr ()" and run: "ack ch m w = (q', w')"
    by blast
  from q ack_law [OF run] show ?thesis by (cases q') (simp_all add: settled_with_def)
qed

lemma swallow_nack:
  assumes "swallow (nack ch m requeue) w = (q, w')"
  shows "q = Inr () \<and> rest w' = rest w \<and> settled_with (broker w) (broker w') (Nacked m requeue)"
proof -
  from swallow_resolves [OF assms] obtain q' where q: "q = Inr ()"
    and run: "nack ch m requeue w = (q', w')" by blast
  from q nack_law [OF run] show ?thesis by (cases q') (simp_all add: settled_with_def)
qed

text \<open>
  What the consumers on the server's side do with a delivery: acknowledge a message that does not parse,
  handle the others, acknowledge those that were handled and drop those that failed; an \<open>ack\<close> or
  \<open>nack\<close> that throws is only logged. The delivery is settled at most once, by what came of it.
\<close>

lemma handled_delivery:
  assumes silent: "\<And>m. preserves broker (on_it m)"
    and run: "try_catch (case parsed of
        None \<Rightarrow> swallow (ack ch msg)
      | Some m \<Rightarrow> try_catch (await (on_it m) (\<lambda>_. swallow (ack ch msg))) (\<lambda>err. swallow (nack ch msg False)))
      (\<lambda>err. swallow (nack ch msg False)) w = (q, w')"
  shows "q = Inr () \<and>
    (case parsed of
       None \<Rightarrow> rest w' = rest w \<and> settled_with (broker w) (broker w') (Acked msg)
     | Some m \<Rightarrow>
         (\<exists>u w1. on_it m w = (Inr u, w1) \<and> rest w' = rest w1 \<and>
            settled_with (broker w) (broker w') (Acked msg)) \<or>
         (\<exists>e w1. on_it m w = (Inl e, w1) \<and> rest w' = rest w1 \<and>
            settled_with (broker w) (broker w') (Nacked msg False)))"
proof (cases parsed)
  case None
  with run have 1: "try_catch (swallow (ack ch msg)) (\<lambda>err. swallow (nack ch msg False)) w = (q, w')" by simp
  obtain q1 w1 where a: "swallow (ack ch msg) w = (q1, w1)" by fastforce
  from swallow_ack [OF a] 1 a show ?thesis
    using None by (auto simp: try_catch_def)
next
  case (Some reply)
  let ?a = "swallow (ack ch msg)" and ?n = "swallow (nack ch msg False)"
  from run Some have 1: "try_catch (try_catch (await (on_it reply) (\<lambda>_. ?a)) (\<lambda>err. ?n)) (\<lambda>err. ?n) w
      = (q, w')" by simp
  obtain q1 w1 where 2: "on_it reply w = (q1, w1)" by fastforce
  from preservesD [OF silent 2] have b: "broker w1 = broker w" .
  show ?thesis
  proof (cases q1)
    case (Inl e)
    obtain q2 w2 where n: "?n w1 = (q2, w2)" by fastforce
    note out = swallow_nack [OF n]
    from 1 2 Inl n out have "q = Inr ()" "w' = w2"
      by (simp_all add: try_catch_def await_def)
    with out 2 Inl b Some show ?thesis by simp
  next
    case (Inr u)
    obtain q2 w2 where a: "?a w1 = (q2, w2)" by fastforce
    note out = swallow_ack [OF a]
    from 1 2 Inr a out have "q = Inr ()" "w' = w2"
      by (simp_all add: try_catch_def await_def)
    with out 2 Inr b Some show ?thesis by simp
  qed
qed

end

text \<open>
  A channel closes for good: an operation other than a confirmed send throws only when it is
  closed, and then every operation throws.
\<close>

locale closing_channel = amqp_channel ch broker rest
  for ch :: "'w channel" and broker and rest :: "'w \<Rightarrow> 'x" +
  fixes closed :: "'w \<Rightarrow> bool"
  assumes ack_closed: "\<And>w e w'. ack ch m w = (Inl e, w') \<Longrightarrow> closed w'"
    and nack_closed: "\<And>w e w'. nack ch m requeue w = (Inl e, w') \<Longrightarrow> closed w'"
    and send_closed: "\<And>w e w'. sendToQueue ch to c h w = (Inl e, w') \<Longrightarrow> closed w'"
    and closed_ack: "\<And>w q w'. closed w \<Longrightarrow> ack ch m w = (q, w') \<Longrightarrow> isl q \<and> closed w'"
    and closed_nacks: "\<And>w q w'. closed w \<Longrightarrow> nack ch m requeue w = (q, w') \<Longrightarrow> isl q \<and> closed w'"
    and closed_sends: "\<And>w q w'. closed w \<Longrightarrow> sendToQueue ch to c h w = (q, w') \<Longrightarrow> isl q \<and> closed w'"
    and closed_confirms: "\<And>w q w'. closed w \<Longrightarrow> sendConfirmed ch to c h w = (q, w') \<Longrightarrow>
      isl q \<and> closed w' \<and> broker w' = broker w"
begin

lemma closed_nack: "closed w \<Longrightarrow> nack ch m requeue w = (q, w') \<Longrightarrow>
    \<exists>e. q = Inl e \<and> closed w' \<and> broker w' = broker w \<and> rest w' = rest w"
  using closed_nacks [of w m requeue q w'] nack_law [of m requeue w q w'] by (auto simp: isl_def)

lemma closed_confirmed: "closed w \<Longrightarrow> sendConfirmed ch to c h w = (q, w') \<Longrightarrow>
    \<exists>e. q = Inl e \<and> closed w' \<and> broker w' = broker w \<and> rest w' = rest w"
  using closed_confirms [of w to c h q w'] sendConfirmed_law [of to c h w q w'] by (auto simp: isl_def)

lemma closed_send: "closed w \<Longrightarrow> sendToQueue ch to c h w = (q, w') \<Longrightarrow>
    \<exists>e. q = Inl e \<and> closed w' \<and> broker w' = broker w \<and> rest w' = rest w"
  using closed_sends [of w to c h q w'] sendToQueue_law [of to c h w q w'] by (auto simp: isl_def)

lemma swallow_nack_closed:
  assumes "swallow (nack ch m requeue) w = (q, w')" and "closed w"
  shows "q = Inr () \<and> broker w' = broker w \<and> rest w' = rest w \<and> closed w'"
proof -
  from swallow_resolves [OF assms(1)] obtain q1 where "q = Inr ()" "nack ch m requeue w = (q1, w')" by blast
  with closed_nack [OF assms(2)] show ?thesis by blast
qed

end

text \<open>What was published on a queue, and how often a delivery was settled.\<close>

definition published :: "string \<Rightarrow> broker_event list \<Rightarrow> content list" where
  "published to evs =
     List.map_filter (\<lambda>e. case e of Sent q c h \<Rightarrow> if q = to then Some c else None | _ \<Rightarrow> None) evs"

lemma published_simps [simp]:
  "published to [] = []"
  "published to (evs @ evs') = published to evs @ published to evs'"
  "published to [Sent q c h] = (if q = to then [c] else [])"
  "published to [Acked m] = []" "published to [Nacked m b] = []"
  by (simp_all add: published_def map_filter_def)

definition settles :: "consume_message \<Rightarrow> broker_event \<Rightarrow> bool" where
  "settles m e \<longleftrightarrow> (case e of Acked n \<Rightarrow> n = m | Nacked n _ \<Rightarrow> n = m | Sent _ _ _ \<Rightarrow> False)"

lemma settles_simps [simp]:
  "settles m (Acked n) \<longleftrightarrow> n = m" "settles m (Nacked n b) \<longleftrightarrow> n = m" "\<not> settles m (Sent q c h)"
  by (simp_all add: settles_def)

section \<open>An instance for evaluation\<close>

text \<open>A channel of a world that keeps the events and says which operations throw.\<close>

definition logged :: "('w \<Rightarrow> broker_event list) \<Rightarrow> (broker_event list \<Rightarrow> 'w \<Rightarrow> 'w) \<Rightarrow>
    ('w \<Rightarrow> broker_event \<Rightarrow> bool) \<Rightarrow> 'w channel" where
  "logged get put refused =
   (let record_event = (\<lambda>e r w. if refused w e then (Inl (Other ''IllegalOperationError''), w)
          else (Inr r, put (get w @ [e]) w))
    in \<lparr>ack = (\<lambda>m. record_event (Acked m) ()),
        nack = (\<lambda>m b. record_event (Nacked m b) ()),
        sendToQueue = (\<lambda>q c h w. if refused w (Sent q c h)
            then (Inl (Other ''IllegalOperationError''), w)
            else (Inr True, put (get w @ [Sent q c h]) w)),
        sendConfirmed = (\<lambda>q c h. record_event (Sent q c h) ()),
        assertQueue = (\<lambda>q w. (Inr (), w)),
        close_channel = (\<lambda>w. (Inr (), w))\<rparr>)"

lemma logged_amqp_channel:
  assumes "\<And>xs w. get (put xs w) = xs" and "\<And>xs w. rest (put xs w) = rest w"
  shows "amqp_channel (logged get put refused) get rest"
  by unfold_locales (auto simp: logged_def Let_def assms split: if_splits)

lemma logged_closing_channel:
  assumes "\<And>xs w. get (put xs w) = xs" and "\<And>xs w. rest (put xs w) = rest w"
    and "\<And>w e. refused w e \<longleftrightarrow> closed w"
  shows "closing_channel (logged get put refused) get rest closed"
  unfolding closing_channel_def closing_channel_axioms_def
  using logged_amqp_channel [of get put rest refused, OF assms(1,2)]
  by (auto simp: logged_def Let_def assms split: if_splits)

text \<open>The same channel when its buffer is full: it takes the message and says so.\<close>

definition pressured :: "('w \<Rightarrow> bool) \<Rightarrow> 'w channel \<Rightarrow> 'w channel" where
  "pressured full ch =
     ch\<lparr>sendToQueue := (\<lambda>q c h w. case sendToQueue ch q c h w of
          (Inl e, w') \<Rightarrow> (Inl e, w') | (Inr b, w') \<Rightarrow> (Inr (b \<and> \<not> full w), w'))\<rparr>"

lemma pressured_amqp_channel:
  assumes "amqp_channel ch broker rest"
  shows "amqp_channel (pressured full ch) broker rest"
proof -
  have same: "ack (pressured full ch) = ack ch" "nack (pressured full ch) = nack ch"
    "sendConfirmed (pressured full ch) = sendConfirmed ch"
    "assertQueue (pressured full ch) = assertQueue ch" "close_channel (pressured full ch) = close_channel ch"
    by (simp_all add: pressured_def)
  have send: "rest w' = rest w \<and> (case q of Inl e \<Rightarrow> external e \<and> broker w' = broker w
      | Inr b \<Rightarrow> broker w' = broker w @ [Sent to c h])"
    if "sendToQueue (pressured full ch) to c h w = (q, w')" for to c h w q w'
  proof -
    from that obtain q1 where "sendToQueue ch to c h w = (q1, w')"
      "q = (case q1 of Inl e \<Rightarrow> Inl e | Inr b \<Rightarrow> Inr (b \<and> \<not> full w))"
      by (auto simp: pressured_def split: prod.splits sum.splits)
    with amqp_channel.sendToQueue_law [OF assms, of to c h w q1 w'] show ?thesis
      by (cases q1) simp_all
  qed
  show ?thesis
    by (rule amqp_channel.intro, unfold same)
      (fact send amqp_channel.ack_law [OF assms] amqp_channel.nack_law [OF assms]
        amqp_channel.sendConfirmed_law [OF assms] amqp_channel.assertQueue_law [OF assms]
        amqp_channel.close_law [OF assms])+
qed

lemma pressured_closing_channel:
  assumes "closing_channel ch broker rest closed"
  shows "closing_channel (pressured full ch) broker rest closed"
proof -
  have same: "ack (pressured full ch) = ack ch" "nack (pressured full ch) = nack ch"
    "sendConfirmed (pressured full ch) = sendConfirmed ch" by (simp_all add: pressured_def)
  have send: "\<exists>q1. sendToQueue ch to c h w = (q1, w') \<and> isl q1 = isl q"
    if "sendToQueue (pressured full ch) to c h w = (q, w')" for to c h w q w'
    using that by (auto simp: pressured_def split: prod.splits sum.splits)
  show ?thesis
  proof (intro closing_channel.intro closing_channel_axioms.intro)
    show "amqp_channel (pressured full ch) broker rest"
      by (rule pressured_amqp_channel) (rule closing_channel.axioms(1) [OF assms])
    fix w e w' to c h
    assume "sendToQueue (pressured full ch) to c h w = (Inl e, w')"
    from send [OF this] obtain e1 where "sendToQueue ch to c h w = (Inl e1, w')" by (auto simp: isl_def)
    then show "closed w'" by (rule closing_channel.send_closed [OF assms])
  next
    fix w to c h q w'
    assume cl: "closed w" and run: "sendToQueue (pressured full ch) to c h w = (q, w')"
    from send [OF run] obtain q2 where q2: "sendToQueue ch to c h w = (q2, w')" "isl q2 = isl q" by blast
    from closing_channel.closed_sends [OF assms cl q2(1)] q2(2) show "isl q \<and> closed w'" by simp
  qed (unfold same, (erule closing_channel.ack_closed [OF assms] closing_channel.nack_closed [OF assms]
      | erule (1) closing_channel.closed_ack [OF assms] closing_channel.closed_nacks [OF assms]
          closing_channel.closed_confirms [OF assms])+)
qed

abbreviation open_channel :: "broker_event list channel" where
  "open_channel \<equiv> logged (\<lambda>xs. xs) (\<lambda>xs _. xs) (\<lambda>_ _. False)"

interpretation open_ch: amqp_channel open_channel "\<lambda>xs. xs" "\<lambda>_. ()"
  by (rule logged_amqp_channel) simp_all

interpretation open_cl: closing_channel open_channel "\<lambda>xs. xs" "\<lambda>_. ()" "\<lambda>_. False"
  by (rule logged_closing_channel) simp_all

end
