(* ===== verification/Publishers.thy ===== *)
theory Publishers
  imports Amqp_Client
begin

text \<open>
  The publishers over a confirm channel: \<open>RabbitEmailQueue\<close>
  (\<open>git-release-notifier-be/src/modules/sender/adapters/rabbit-email-queue.ts\<close>),
  \<open>RabbitDeliveredPublisher\<close> and \<open>RabbitConfirmationReplyPublisher\<close>
  (\<open>notification-service/src/modules/sender/adapters\<close>). How a channel is obtained is the
  argument \<open>getChannel\<close> (see \<open>Channel_Cache\<close>; or \<open>createConfirmChannel\<close>, for the publisher that opens a channel
  for each reply). The locale \<open>outbox\<close> is the interface all of them implement towards the
  code that publishes: a publication that resolves is in the queue exactly once, one that is
  rejected is there at most once.
\<close>

locale channel_source =
  fixes getChannel :: "('w, 'w channel) async"
    and broker :: "'w \<Rightarrow> broker_event list"
    and rest :: "'w \<Rightarrow> 'x"
  assumes getChannel_law: "\<And>w q w'. getChannel w = (q, w') \<Longrightarrow>
      broker w' = broker w \<and> rest w' = rest w \<and>
      (case q of Inl e \<Rightarrow> external e | Inr ch \<Rightarrow> amqp_channel ch broker rest)"

locale outbox =
  fixes publish :: "'m \<Rightarrow> ('w, unit) async"
    and outgoing :: "'w \<Rightarrow> 'm list"
    and rest :: "'w \<Rightarrow> 'x"
  assumes publish_law: "\<And>w q w'. publish m w = (q, w') \<Longrightarrow> rest w' = rest w \<and>
      (case q of Inl e \<Rightarrow> external e \<and> (outgoing w' = outgoing w \<or> outgoing w' = outgoing w @ [m])
       | Inr u \<Rightarrow> outgoing w' = outgoing w @ [m])"
begin

lemma publish_preserves: "preserves rest (publish m)"
  by (rule preservesI) (auto dest: publish_law)

lemma publish_resolved:
  "publish m w = (Inr u, w') \<Longrightarrow> outgoing w' = outgoing w @ [m] \<and> rest w' = rest w"
  by (auto dest: publish_law)

lemma publish_at_most_once:
  "publish m w = (q, w') \<Longrightarrow> \<exists>ms. outgoing w' = outgoing w @ ms \<and> set ms \<subseteq> {m} \<and> length ms \<le> 1"
  using publish_law [of m w q w'] by (cases q) force+

end

text \<open>
  What all publishers do: tell the broker one event per message. A publication that is rejected may
  have told it. Read through \<open>decoded\<close>, which recovers the messages, such a publisher is an outbox.
  (The events need not be the broker's: sending mail is of the same kind.)
\<close>

locale broker_publisher =
  fixes publish :: "'m \<Rightarrow> ('w, unit) async"
    and event :: "'m \<Rightarrow> 'e"
    and broker :: "'w \<Rightarrow> 'e list"
    and rest :: "'w \<Rightarrow> 'x"
  assumes told_law: "\<And>w q w'. publish m w = (q, w') \<Longrightarrow> rest w' = rest w \<and>
      (case q of Inl e \<Rightarrow> external e \<and> (broker w' = broker w \<or> broker w' = broker w @ [event m])
       | Inr u \<Rightarrow> broker w' = broker w @ [event m])"
begin

lemma decoded_outbox:
  assumes one: "\<And>m. decoded [event m] = [m]" and app: "\<And>xs ys. decoded (xs @ ys) = decoded xs @ decoded ys"
  shows "outbox publish (\<lambda>w. decoded (broker w)) rest"
proof
  fix m w q w'
  assume "publish m w = (q, w')"
  from told_law [OF this] show "rest w' = rest w \<and>
      (case q of Inl e \<Rightarrow> external e \<and> (decoded (broker w') = decoded (broker w)
          \<or> decoded (broker w') = decoded (broker w) @ [m])
       | Inr u \<Rightarrow> decoded (broker w') = decoded (broker w) @ [m])"
    by (cases q) (auto simp: one app)
qed

end

text \<open>
  A confirmed send of an encoded message over a channel that is asked for first; the same when the
  queue is asserted before and the channel closed after.
\<close>

context channel_source begin

lemma confirmed_publisher:
  "broker_publisher (\<lambda>m. await getChannel (\<lambda>ch. sendConfirmed ch to (enc m) no_headers))
    (\<lambda>m. Sent to (enc m) no_headers) broker rest"
proof
  fix m w q w'
  assume "await getChannel (\<lambda>ch. sendConfirmed ch to (enc m) no_headers) w = (q, w')"
  then show "rest w' = rest w \<and>
      (case q of Inl e \<Rightarrow> external e \<and> (broker w' = broker w \<or> broker w' = broker w @ [Sent to (enc m) no_headers])
       | Inr u \<Rightarrow> broker w' = broker w @ [Sent to (enc m) no_headers])"
  proof (cases rule: await_outcome)
    case (rejected e)
    then show ?thesis using getChannel_law [OF rejected(1)] by simp
  next
    case (resolved ch w1)
    from getChannel_law [OF resolved(1)] have ch: "amqp_channel ch broker rest"
      and w1: "broker w1 = broker w" "rest w1 = rest w" by simp_all
    from amqp_channel.sendConfirmed_law [OF ch resolved(2)] show ?thesis unfolding w1 .
  qed
qed

lemma opened_publisher:
  "broker_publisher (\<lambda>m. await getChannel (\<lambda>ch. finally_do
      (await (assertQueue ch to) (\<lambda>_. sendConfirmed ch to (enc m) no_headers))
      (close_channel ch))) (\<lambda>m. Sent to (enc m) no_headers) broker rest"
proof
  fix m w q w'
  let ?e = "Sent to (enc m) no_headers"
  assume "await getChannel (\<lambda>ch. finally_do
      (await (assertQueue ch to) (\<lambda>_. sendConfirmed ch to (enc m) no_headers))
      (close_channel ch)) w = (q, w')"
  then show "rest w' = rest w \<and>
      (case q of Inl e \<Rightarrow> external e \<and> (broker w' = broker w \<or> broker w' = broker w @ [?e])
       | Inr u \<Rightarrow> broker w' = broker w @ [?e])"
  proof (cases rule: await_outcome)
    case (rejected e)
    then show ?thesis using getChannel_law [OF rejected(1)] by simp
  next
    case (resolved ch w1)
    from getChannel_law [OF resolved(1)] have ch: "amqp_channel ch broker rest"
      and w1: "broker w1 = broker w" "rest w1 = rest w" by simp_all
    obtain q2 w2 where send: "await (assertQueue ch to)
        (\<lambda>_. sendConfirmed ch to (enc m) no_headers) w1 = (q2, w2)" by fastforce
    obtain q3 w3 where close: "close_channel ch w2 = (q3, w3)" by fastforce
    have w2: "rest w2 = rest w \<and> (case q2 of
        Inl e \<Rightarrow> external e \<and> (broker w2 = broker w \<or> broker w2 = broker w @ [?e])
      | Inr u \<Rightarrow> broker w2 = broker w @ [?e])"
      using send
    proof (cases rule: await_outcome)
      case (rejected e)
      then show ?thesis using amqp_channel.assertQueue_law [OF ch rejected(1)] w1 by simp
    next
      case (resolved u w4)
      from amqp_channel.assertQueue_law [OF ch resolved(1)] w1
      have w4: "broker w4 = broker w" "rest w4 = rest w" by simp_all
      from amqp_channel.sendConfirmed_law [OF ch resolved(2)] show ?thesis unfolding w4 .
    qed
    from amqp_channel.close_law [OF ch close]
    have w3: "broker w3 = broker w2" "rest w3 = rest w2" "case q3 of Inl e \<Rightarrow> external e | Inr u \<Rightarrow> True"
      by simp_all
    from resolved(2) send close have "(q, w') = (case q3 of Inl e \<Rightarrow> (Inl e, w3) | Inr u \<Rightarrow> (q2, w3))"
      by (simp add: finally_do_def split: sum.splits)
    with w2 w3 show ?thesis by (cases q3; cases q2) auto
  qed
qed

end

section \<open>RabbitEmailQueue\<close>

definition RabbitEmailQueue_publish :: "('w, 'w channel) async \<Rightarrow> email_message \<Rightarrow> ('w, unit) async" where
  "RabbitEmailQueue_publish getChannel msg =
     await getChannel (\<lambda>ch.
       sendConfirmed ch EMAIL_QUEUE_NAME (Text (email_message_json msg)) no_headers)"

text \<open>The email messages on the queue, decoded.\<close>

definition decode_with :: "(json \<Rightarrow> 'm option) \<Rightarrow> content list \<Rightarrow> 'm list" where
  "decode_with schema cs =
     List.map_filter (\<lambda>c. case JSON_parse c of None \<Rightarrow> None | Some j \<Rightarrow> schema j) cs"

lemma decode_with_simps [simp]:
  "decode_with schema [] = []"
  "decode_with schema (cs @ cs') = decode_with schema cs @ decode_with schema cs'"
  "decode_with schema [Text j] = (case schema j of None \<Rightarrow> [] | Some m \<Rightarrow> [m])"
  by (simp_all add: decode_with_def map_filter_def split: option.split)

definition emails_on_queue :: "broker_event list \<Rightarrow> email_message list" where
  "emails_on_queue evs =
     decode_with (emailMessageSchema (\<lambda>_. True) (\<lambda>_. True)) (published EMAIL_QUEUE_NAME evs)"

lemma emails_on_queue_simps [simp]:
  "emails_on_queue [] = []"
  "emails_on_queue (evs @ evs') = emails_on_queue evs @ emails_on_queue evs'"
  "emails_on_queue [Sent EMAIL_QUEUE_NAME (Text (email_message_json m)) h] = [m]"
  by (simp_all add: emails_on_queue_def emailMessageSchema_accepts valid_message_trivial)

context channel_source begin

lemma RabbitEmailQueue_outbox:
  "outbox (RabbitEmailQueue_publish getChannel) (\<lambda>w. emails_on_queue (broker w)) rest"
  unfolding RabbitEmailQueue_publish_def [abs_def]
  by (rule broker_publisher.decoded_outbox [OF confirmed_publisher]) simp_all

end

section \<open>RabbitDeliveredPublisher\<close>

definition RabbitDeliveredPublisher_publish ::
  "('w, 'w channel) async \<Rightarrow> release_delivered \<Rightarrow> ('w, unit) async" where
  "RabbitDeliveredPublisher_publish getChannel event =
     await getChannel (\<lambda>ch.
       sendConfirmed ch RELEASE_DELIVERED_QUEUE_NAME (Text (release_delivered_json event)) no_headers)"

definition deliveries_on_queue :: "broker_event list \<Rightarrow> release_delivered list" where
  "deliveries_on_queue evs =
     decode_with (releaseDeliveredSchema (\<lambda>_. True)) (published RELEASE_DELIVERED_QUEUE_NAME evs)"

lemma deliveries_on_queue_simps [simp]:
  "deliveries_on_queue [] = []"
  "deliveries_on_queue (evs @ evs') = deliveries_on_queue evs @ deliveries_on_queue evs'"
  "deliveries_on_queue [Sent RELEASE_DELIVERED_QUEUE_NAME (Text (release_delivered_json d)) h] = [d]"
  by (simp_all add: deliveries_on_queue_def releaseDeliveredSchema_accepts)

section \<open>RabbitConfirmationReplyPublisher\<close>

definition RabbitConfirmationReplyPublisher_publish ::
  "('w, 'w channel) async \<Rightarrow> confirmation_reply \<Rightarrow> ('w, unit) async" where
  "RabbitConfirmationReplyPublisher_publish createConfirmChannel reply =
     await createConfirmChannel (\<lambda>ch.
       finally_do
         (await (assertQueue ch SAGA_CONFIRMATION_REPLY_QUEUE) (\<lambda>_.
            sendConfirmed ch SAGA_CONFIRMATION_REPLY_QUEUE
              (Text (confirmation_reply_json reply)) no_headers))
         (close_channel ch))"

definition replies_on_queue :: "broker_event list \<Rightarrow> confirmation_reply list" where
  "replies_on_queue evs =
     decode_with (confirmationReplySchema (\<lambda>_. True)) (published SAGA_CONFIRMATION_REPLY_QUEUE evs)"

lemma replies_on_queue_simps [simp]:
  "replies_on_queue [] = []"
  "replies_on_queue (evs @ evs') = replies_on_queue evs @ replies_on_queue evs'"
  "replies_on_queue [Sent SAGA_CONFIRMATION_REPLY_QUEUE (Text (confirmation_reply_json r)) h] = [r]"
  by (simp_all add: replies_on_queue_def confirmationReplySchema_accepts)

context channel_source begin

lemma RabbitDeliveredPublisher_tells:
  "broker_publisher (RabbitDeliveredPublisher_publish getChannel)
     (\<lambda>d. Sent RELEASE_DELIVERED_QUEUE_NAME (Text (release_delivered_json d)) no_headers) broker rest"
  unfolding RabbitDeliveredPublisher_publish_def [abs_def] by (rule confirmed_publisher)

lemma RabbitConfirmationReplyPublisher_tells:
  "broker_publisher (RabbitConfirmationReplyPublisher_publish getChannel)
     (\<lambda>r. Sent SAGA_CONFIRMATION_REPLY_QUEUE (Text (confirmation_reply_json r)) no_headers) broker rest"
  unfolding RabbitConfirmationReplyPublisher_publish_def [abs_def] by (rule opened_publisher)

lemma RabbitDeliveredPublisher_outbox:
  "outbox (RabbitDeliveredPublisher_publish getChannel) (\<lambda>w. deliveries_on_queue (broker w)) rest"
  by (rule broker_publisher.decoded_outbox [OF RabbitDeliveredPublisher_tells]) simp_all

lemma RabbitConfirmationReplyPublisher_outbox:
  "outbox (RabbitConfirmationReplyPublisher_publish getChannel)
     (\<lambda>w. replies_on_queue (broker w)) rest"
  by (rule broker_publisher.decoded_outbox [OF RabbitConfirmationReplyPublisher_tells]) simp_all

end

interpretation open_source: channel_source "ret open_channel" "\<lambda>xs. xs" "\<lambda>_. ()"
  by unfold_locales (auto intro: open_ch.amqp_channel_axioms)

interpretation open_delivered: broker_publisher "RabbitDeliveredPublisher_publish (ret open_channel)"
    "\<lambda>d. Sent RELEASE_DELIVERED_QUEUE_NAME (Text (release_delivered_json d)) no_headers" "\<lambda>xs. xs" "\<lambda>_. ()"
  by (rule open_source.RabbitDeliveredPublisher_tells)

interpretation email_outbox: outbox "RabbitEmailQueue_publish (ret open_channel)"
    "\<lambda>w. emails_on_queue w" "\<lambda>_. ()"
  by (rule open_source.RabbitEmailQueue_outbox)

end
