(* ===== verification/Subscribe_Saga.thy ===== *)
theory Subscribe_Saga
  imports Saga_Repository Publishers
begin

text \<open>
  The orchestrator of a subscription,
  \<open>modules/saga/orchestrator/subscribe.saga.ts\<close>: how a subscription is started, what a
  confirmation reply does to it, and the sweep over the instances that never got one. The class \<open>SubscribeSaga\<close> gets its
  collaborators as arguments, in the order of its constructor: the saga repository \<open>G\<close>, the
  subscription repository \<open>R\<close> and \<open>publish\<close>, the method of the email queue.

  The lemmas of the locale \<open>saga_env\<close> say what one run of a method does when nothing runs
  between its statements; \<open>Saga_Interleaving\<close> is about runs that overlap.
\<close>

section \<open>The orchestrator\<close>

definition saga_start :: "'w saga_repository \<Rightarrow> 'w subscription_repository \<Rightarrow>
    (email_message \<Rightarrow> ('w, unit) async) \<Rightarrow> string \<Rightarrow> string \<Rightarrow> ('w, subscription) async" where
  "saga_start G R publish email repo =
     await (upsertPending R email repo) (\<lambda>s.
     await (create_saga G SUBSCRIBE_SAGA_TYPE
              \<lparr>pl_subscriptionId = sub_id s, pl_email = email, pl_repo = repo\<rparr>) (\<lambda>saga.
     await (publish (Confirmation (confirmationIdempotencyKey email repo (confirmToken s))
              email repo (confirmToken s) (saga_id saga))) (\<lambda>_.
     await (updateState G (saga_id saga) AWAITING_EMAIL None) (\<lambda>_.
     ret s))))"

definition removePendingSubscription ::
  "'w subscription_repository \<Rightarrow> string \<Rightarrow> ('w, unit) async" where
  "removePendingSubscription R subscriptionId =
     try_catch (await (deleteIfPending R subscriptionId) (\<lambda>deleted. ret ())) (\<lambda>err. ret ())"

definition compensate :: "'w saga_repository \<Rightarrow> 'w subscription_repository \<Rightarrow>
    saga_record \<Rightarrow> string option \<Rightarrow> ('w, unit) async" where
  "compensate G R saga reason =
     await (transition G (saga_id saga) [STARTED, AWAITING_EMAIL] COMPENSATING reason) (\<lambda>claimed.
     if \<not> claimed then ret ()
     else
       await (removePendingSubscription R (pl_subscriptionId (payload saga))) (\<lambda>_.
       updateState G (saga_id saga) COMPENSATED reason))"

definition onReply :: "'w saga_repository \<Rightarrow> 'w subscription_repository \<Rightarrow>
    confirmation_reply \<Rightarrow> ('w, unit) async" where
  "onReply G R reply =
     await (findById G (rep_sagaId reply)) (\<lambda>found_saga.
     case found_saga of
       None \<Rightarrow> ret ()
     | Some saga \<Rightarrow>
         if saga_state saga \<noteq> AWAITING_EMAIL then ret ()
         else if rep_status reply = SENT then
           await (transition G (saga_id saga) [AWAITING_EMAIL] COMPLETED None) (\<lambda>completed. ret ())
         else compensate G R saga (rep_reason reply))"

definition timed_out :: string where
  "timed_out = ''confirmation reply timed out''"

text \<open>\<open>Date.now()\<close> is \<open>clock\<close>, the clock that also stamps the rows.\<close>

definition compensateStuck :: "'w saga_repository \<Rightarrow> 'w subscription_repository \<Rightarrow>
    ('w \<Rightarrow> nat) \<Rightarrow> nat \<Rightarrow> ('w, unit) async" where
  "compensateStuck G R clock timeoutMs =
     (\<lambda>w. await (findStuck G [STARTED, AWAITING_EMAIL] (int (clock w) - int timeoutMs))
       (\<lambda>stuck. for_each stuck (\<lambda>saga. compensate G R saga (Some timed_out))) w)"

text \<open>The class, as the record of its methods.\<close>

record 'w subscribe_saga =
  start_saga :: "string \<Rightarrow> string \<Rightarrow> ('w, subscription) async"
  on_reply :: "confirmation_reply \<Rightarrow> ('w, unit) async"
  compensate_stuck :: "nat \<Rightarrow> ('w, unit) async"

definition SubscribeSaga :: "'w saga_repository \<Rightarrow> 'w subscription_repository \<Rightarrow>
    (email_message \<Rightarrow> ('w, unit) async) \<Rightarrow> ('w \<Rightarrow> nat) \<Rightarrow> 'w subscribe_saga" where
  "SubscribeSaga G R publish clock =
     \<lparr>start_saga = saga_start G R publish, on_reply = onReply G R,
      compensate_stuck = compensateStuck G R clock\<rparr>"

text \<open>
  \<open>waiting S i G\<close>: instance \<open>i\<close> is there in a state of \<open>S\<close>. \<open>settled_as st i G G'\<close>: that one
  instance, which was still open, is now in state \<open>st\<close>, and no other row differs.
\<close>

abbreviation open_states :: "SagaState set" where
  "open_states \<equiv> {STARTED, AWAITING_EMAIL}"

definition waiting :: "SagaState set \<Rightarrow> string \<Rightarrow> saga_record set \<Rightarrow> bool" where
  "waiting S i G \<longleftrightarrow> (\<exists>g \<in> G. saga_id g = i \<and> saga_state g \<in> S)"

definition settled_as :: "SagaState \<Rightarrow> string \<Rightarrow> saga_record set \<Rightarrow> saga_record set \<Rightarrow> bool" where
  "settled_as st i G G' \<longleftrightarrow>
     (\<exists>g \<in> G. \<exists>h. saga_id g = i \<and> saga_state g \<in> open_states \<and>
        saga_id h = i \<and> saga_state h = st \<and> payload h = payload g \<and>
        G' = insert h (G - {g}))"

lemma settled_asI:
  assumes "g \<in> G" "saga_id g = i" "saga_state g \<in> open_states"
    and "G' = insert h (G - {g})"
    and "saga_id h = i" "saga_state h = st" "payload h = payload g"
  shows "settled_as st i G G'"
  unfolding settled_as_def using assms by blast

text \<open>Other instances are not touched, and the instance itself is no longer waiting.\<close>

lemma settled_as_other:
  assumes "settled_as st i G G'" and "saga_id g \<noteq> i"
  shows "g \<in> G' \<longleftrightarrow> g \<in> G"
  using assms by (auto simp: settled_as_def)

lemma settled_as_state:
  assumes "sagas_wf G" and "settled_as st i G G'" and "g \<in> G'" and "saga_id g = i"
  shows "saga_state g = st"
  using assms by (auto simp: settled_as_def dest: sagas_wfD)

lemma settled_not_waiting:
  assumes "sagas_wf G" and "settled_as st i G G'" and "st \<notin> S"
  shows "\<not> waiting S i G'"
  using settled_as_state [OF assms(1,2)] assms(3) by (auto simp: waiting_def)

text \<open>\<open>without_pending i S\<close>: the rows once the pending row \<open>i\<close> is gone.\<close>

definition without_pending :: "string \<Rightarrow> subscription set \<Rightarrow> subscription set" where
  "without_pending i S = {s \<in> S. \<not> (sub_id s = i \<and> status s = PENDING)}"

lemma without_pending_subset: "without_pending i S \<subseteq> S"
  by (auto simp: without_pending_def)

lemma without_pending_active: "s \<in> S \<Longrightarrow> status s = ACTIVE \<Longrightarrow> s \<in> without_pending i S"
  by (auto simp: without_pending_def)

text \<open>The state a reply settles its instance in.\<close>

definition reply_state :: "reply_status \<Rightarrow> SagaState" where
  "reply_state st = (case st of SENT \<Rightarrow> COMPLETED | FAILED \<Rightarrow> COMPENSATED)"

text \<open>
  What a start leaves behind. \<open>made_pending\<close>: the pending row \<open>s\<close> of the address and the repository,
  the old one reset or a new one. \<open>stopped_start\<close>: a start that was rejected did nothing, or only made
  the pending row, or also recorded its instance, which is still \<open>STARTED\<close>, and sent its message or not.
\<close>

definition made_pending :: "string \<Rightarrow> string \<Rightarrow> subscription set \<Rightarrow> subscription \<Rightarrow> subscription set \<Rightarrow> bool" where
  "made_pending email repo S s S' \<longleftrightarrow> sub_email s = email \<and> repository s = repo \<and> status s = PENDING \<and>
     ((\<exists>old \<in> S. s = old\<lparr>status := PENDING\<rparr> \<and> S' = insert s (S - {old}))
      \<or> (\<forall>x \<in> S. (sub_email x, repository x) \<noteq> (email, repo)) \<and>
         subscription_row S \<lparr>new_email = email, new_repository = repo, new_status = PENDING\<rparr> s \<and> S' = insert s S)"

definition stopped_start :: "string \<Rightarrow> string \<Rightarrow> subscription set \<times> saga_record set \<times> email_message list \<Rightarrow>
    subscription set \<times> saga_record set \<times> email_message list \<Rightarrow> bool" where
  "stopped_start email repo before after \<longleftrightarrow>
     (case (before, after) of ((S, G, ms), (S', G', ms')) \<Rightarrow>
        S' = S \<and> G' = G \<and> ms' = ms
        \<or> (\<exists>s. made_pending email repo S s S' \<and> G' = G \<and> ms' = ms)
        \<or> (\<exists>s g. made_pending email repo S s S' \<and> G' = insert g G \<and> saga_id g \<notin> saga_id ` G \<and>
             saga_state g = STARTED \<and>
             payload g = \<lparr>pl_subscriptionId = sub_id s, pl_email = email, pl_repo = repo\<rparr> \<and>
             (ms' = ms \<or> ms' = ms @ [Confirmation (confirmationIdempotencyKey email repo (confirmToken s))
                email repo (confirmToken s) (saga_id g)])))"

section \<open>What one run does\<close>

locale saga_env =
  st: subscription_store R subs "\<lambda>w. (sagas w, mailq w, other w)" +
  sg: saga_store G sagas clock "\<lambda>w. (subs w, mailq w, other w)" +
  mq: outbox publish mailq "\<lambda>w. (subs w, sagas w, other w)"
  for R :: "'w subscription_repository"
    and subs :: "'w \<Rightarrow> subscription set"
    and G :: "'w saga_repository"
    and sagas :: "'w \<Rightarrow> saga_record set"
    and clock :: "'w \<Rightarrow> nat"
    and publish :: "email_message \<Rightarrow> ('w, unit) async"
    and mailq :: "'w \<Rightarrow> email_message list"
    and other :: "'w \<Rightarrow> 'x"
begin

text \<open>The subscription a start works on: a pending row for the address and the repository.\<close>

lemma upsertPending_resolved:
  assumes wf: "subscriptions_wf (subs w)" and up: "upsertPending R email repo w = (Inr s, w')"
  shows "s \<in> subs w'" "status s = PENDING" "sub_email s = email" "repository s = repo"
    and "sagas w' = sagas w" "mailq w' = mailq w" "other w' = other w" "subscriptions_wf (subs w')"
proof -
  note law = st.upsertPending_law [OF up]
  from law show "status s = PENDING" "sub_email s = email" "repository s = repo"
    by (auto simp: subscription_row_def)
  from law show "s \<in> subs w'"
    by (auto simp: updated_def image_iff)
  from law show "sagas w' = sagas w" "mailq w' = mailq w" "other w' = other w" by simp_all
  show "subscriptions_wf (subs w')" using st.upsertPending_wf [OF wf up] .
qed

theorem start_resolved:
  assumes wf: "subscriptions_wf (subs w)" "sagas_wf (sagas w)"
    and run: "saga_start G R publish email repo w = (Inr s, w')"
  shows "s \<in> subs w' \<and> status s = PENDING \<and> sub_email s = email \<and> repository s = repo \<and>
    (\<exists>g. saga_id g \<notin> saga_id ` sagas w \<and> saga_state g = AWAITING_EMAIL \<and>
       payload g = \<lparr>pl_subscriptionId = sub_id s, pl_email = email, pl_repo = repo\<rparr> \<and>
       sagas w' = insert g (sagas w) \<and>
       mailq w' = mailq w @ [Confirmation (confirmationIdempotencyKey email repo (confirmToken s))
         email repo (confirmToken s) (saga_id g)]) \<and> other w' = other w"
proof -
  let ?pl = "\<lambda>s. \<lparr>pl_subscriptionId = sub_id s, pl_email = email, pl_repo = repo\<rparr>"
  let ?msg = "\<lambda>s g. Confirmation (confirmationIdempotencyKey email repo (confirmToken s))
      email repo (confirmToken s) (saga_id g)"
  from run obtain g w1 w2 w3 u v where
    1: "upsertPending R email repo w = (Inr s, w1)" and
    2: "create_saga G SUBSCRIBE_SAGA_TYPE (?pl s) w1 = (Inr g, w2)" and
    3: "publish (?msg s g) w2 = (Inr u, w3)" and
    4: "updateState G (saga_id g) AWAITING_EMAIL None w3 = (Inr v, w')"
    unfolding saga_start_def by (auto elim!: await_outcome)
  note s = upsertPending_resolved [OF wf(1) 1]
  from sg.create_law [OF 2] have g: "saga_row (clock w1) (sagas w) (SUBSCRIBE_SAGA_TYPE, ?pl s) g"
    and w2: "sagas w2 = insert g (sagas w)" "subs w2 = subs w1" "mailq w2 = mailq w"
      "other w2 = other w" using s by auto
  from mq.publish_resolved [OF 3] have w3: "mailq w3 = mailq w @ [?msg s g]"
    "sagas w3 = insert g (sagas w)" "subs w3 = subs w1" "other w3 = other w" using w2 by auto
  have fresh: "saga_id g \<notin> saga_id ` sagas w" using g by (simp add: saga_row_def)
  then have "g \<notin> sagas w" by auto
  have "sagas_wf (insert g (sagas w))"
    using wf(2) fresh by (auto simp: sagas_wf_def intro: unique_by_insert)
  from moved_one [OF this, of g UNIV] \<open>g \<notin> sagas w\<close> sg.updateState_law [OF 4] w3
  have w': "sagas w' = insert (touch (clock w3) (with_state AWAITING_EMAIL None g)) (sagas w)"
    "subs w' = subs w1" "mailq w' = mailq w @ [?msg s g]" "other w' = other w" by auto
  show ?thesis
    using s(1-4) w' fresh g
    by (auto simp: saga_row_def intro!: exI [of _ "touch (clock w3) (with_state AWAITING_EMAIL None g)"])
qed

lemma start_wf:
  assumes wf: "subscriptions_wf (subs w)"
    and run: "saga_start G R publish email repo w = (Inr s, w')"
  shows "subscriptions_wf (subs w')"
proof -
  from run obtain g w1 w2 w3 u v k pl m where
    1: "upsertPending R email repo w = (Inr s, w1)" and
    2: "create_saga G k pl w1 = (Inr g, w2)" and
    3: "publish m w2 = (Inr u, w3)" and
    4: "updateState G (saga_id g) AWAITING_EMAIL None w3 = (Inr v, w')"
    unfolding saga_start_def by (auto elim!: await_outcome)
  from sg.create_law [OF 2] mq.publish_resolved [OF 3] sg.updateState_law [OF 4]
  have "subs w' = subs w1" by simp
  then show ?thesis using st.upsertPending_wf [OF wf 1] by simp
qed

lemma upsertPending_made:
  assumes wf: "subscriptions_wf (subs w)" and up: "upsertPending R email repo w = (Inr s, w')"
  shows "made_pending email repo (subs w) s (subs w')"
proof -
  have one: "updated (subs w) (\<lambda>s. sub_email s = email \<and> repository s = repo) (\<lambda>s. s\<lparr>status := PENDING\<rparr>)
      = insert (old\<lparr>status := PENDING\<rparr>) (subs w - {old})"
    if "old \<in> subs w" "sub_email old = email" "repository old = repo" for old
    by (rule updated_one) (use that wf in \<open>auto simp: subscriptions_wf_def dest: unique_byD\<close>)
  note s = upsertPending_resolved(2-4) [OF wf up]
  from st.upsertPending_law [OF up] consider
    (reset) old where "subs w' = updated (subs w) (\<lambda>s. sub_email s = email \<and> repository s = repo) (\<lambda>s. s\<lparr>status := PENDING\<rparr>)"
      "old \<in> subs w" "sub_email old = email" "repository old = repo" "s = old\<lparr>status := PENDING\<rparr>"
  | (new) "\<forall>s \<in> subs w. \<not> (sub_email s = email \<and> repository s = repo)" "subs w' = insert s (subs w)"
      "subscription_row (subs w) \<lparr>new_email = email, new_repository = repo, new_status = PENDING\<rparr> s"
    unfolding sum.case by blast
  then show ?thesis
  proof cases
    case reset
    then show ?thesis unfolding made_pending_def using s one [OF reset(2-4)] by blast
  next
    case new
    then show ?thesis unfolding made_pending_def using s by blast
  qed
qed

text \<open>A start that is rejected stops at the statement that failed.\<close>

theorem start_rejected:
  assumes wf: "subscriptions_wf (subs w)" "sagas_wf (sagas w)"
    and run: "saga_start G R publish email repo w = (Inl e, w')"
  shows "external e \<and> other w' = other w \<and>
    stopped_start email repo (subs w, sagas w, mailq w) (subs w', sagas w', mailq w')"
proof -
  let ?pl = "\<lambda>s. \<lparr>pl_subscriptionId = sub_id s, pl_email = email, pl_repo = repo\<rparr>"
  let ?msg = "\<lambda>s g. Confirmation (confirmationIdempotencyKey email repo (confirmToken s))
      email repo (confirmToken s) (saga_id g)"
  from run consider
    (upsert) "upsertPending R email repo w = (Inl e, w')"
  | (create_row) s w1 where "upsertPending R email repo w = (Inr s, w1)"
      "create_saga G SUBSCRIBE_SAGA_TYPE (?pl s) w1 = (Inl e, w')"
  | (later) s g w1 w2 where "upsertPending R email repo w = (Inr s, w1)"
      "create_saga G SUBSCRIBE_SAGA_TYPE (?pl s) w1 = (Inr g, w2)"
      "publish (?msg s g) w2 = (Inl e, w') \<or>
       (\<exists>w3 u. publish (?msg s g) w2 = (Inr u, w3) \<and>
          updateState G (saga_id g) AWAITING_EMAIL None w3 = (Inl e, w'))"
    unfolding saga_start_def by (auto elim!: await_outcome)
  then show ?thesis
  proof cases
    case upsert
    then show ?thesis using st.upsertPending_law [OF upsert] by (auto simp: stopped_start_def)
  next
    case create_row
    note s = upsertPending_resolved [OF wf(1) create_row(1)] and made = upsertPending_made [OF wf(1) create_row(1)]
    show ?thesis using sg.create_law [OF create_row(2)] s made by (auto simp: stopped_start_def)
  next
    case later
    note s = upsertPending_resolved [OF wf(1) later(1)] and made = upsertPending_made [OF wf(1) later(1)]
    from sg.create_law [OF later(2)] s
    have g: "saga_row (clock w1) (sagas w) (SUBSCRIBE_SAGA_TYPE, ?pl s) g"
      and w2: "sagas w2 = insert g (sagas w)" "subs w2 = subs w1" "mailq w2 = mailq w"
        "other w2 = other w" by auto
    from later(3) have "external e \<and> sagas w' = insert g (sagas w) \<and> subs w' = subs w1 \<and>
        other w' = other w \<and> (mailq w' = mailq w \<or> mailq w' = mailq w @ [?msg s g])"
    proof
      assume fail: "publish (?msg s g) w2 = (Inl e, w')"
      from mq.publish_law [OF fail] w2 show ?thesis by auto
    next
      assume "\<exists>w3 u. publish (?msg s g) w2 = (Inr u, w3) \<and>
          updateState G (saga_id g) AWAITING_EMAIL None w3 = (Inl e, w')"
      then obtain w3 u where 3: "publish (?msg s g) w2 = (Inr u, w3)"
        and 4: "updateState G (saga_id g) AWAITING_EMAIL None w3 = (Inl e, w')" by blast
      from mq.publish_resolved [OF 3] sg.updateState_law [OF 4] w2 show ?thesis by auto
    qed
    moreover have "saga_state g = STARTED" "saga_id g \<notin> saga_id ` sagas w" "payload g = ?pl s"
      using g by (simp_all add: saga_row_def)
    ultimately show ?thesis using made unfolding stopped_start_def prod.case by metis
  qed
qed

text \<open>Compensation removes the pending row, and swallows a failure to do so.\<close>

lemma removePendingSubscription_outcome:
  assumes "removePendingSubscription R i w = (q, w')"
  shows "q = Inr () \<and> sagas w' = sagas w \<and> mailq w' = mailq w \<and> other w' = other w \<and>
    (subs w' = subs w \<or> subs w' = without_pending i (subs w))"
  using assms unfolding removePendingSubscription_def
proof (cases rule: try_catch_outcome)
  case (rejected e w1)
  then show ?thesis
    by (auto elim!: await_outcome dest: st.deleteIfPending_law simp: without_pending_def)
next
  case (resolved u)
  then show ?thesis
    by (auto elim!: await_outcome dest: st.deleteIfPending_law simp: without_pending_def)
qed

lemma compensate_outcome:
  assumes wf: "sagas_wf (sagas w)"
    and run: "compensate G R saga reason w = (q, w')"
  shows "mailq w' = mailq w \<and> other w' = other w \<and> sagas_wf (sagas w') \<and>
    (subs w' = subs w \<or> subs w' = without_pending (pl_subscriptionId (payload saga)) (subs w)) \<and>
    (case q of
       Inl e \<Rightarrow> external e \<and> (sagas w' = sagas w \<and> subs w' = subs w
                \<or> settled_as COMPENSATING (saga_id saga) (sagas w) (sagas w'))
     | Inr u \<Rightarrow> if waiting open_states (saga_id saga) (sagas w)
                then settled_as COMPENSATED (saga_id saga) (sagas w) (sagas w')
                else sagas w' = sagas w \<and> subs w' = subs w)"
  using run unfolding compensate_def
proof (cases rule: await_outcome)
  case (rejected e)
  then show ?thesis using sg.transition_law [OF rejected(1)] wf by auto
next
  case (resolved claimed w1)
  show ?thesis
  proof (cases claimed)
    case False
    with resolved have lost: "transition G (saga_id saga) [STARTED, AWAITING_EMAIL] COMPENSATING reason w
        = (Inr False, w1)" and "q = Inr ()" "w' = w1" by simp_all
    moreover have "\<not> waiting open_states (saga_id saga) (sagas w)"
      using sg.transition_law [OF lost] by (auto simp: waiting_def)
    ultimately show ?thesis using sg.transition_lost [OF lost] wf by auto
  next
    case True
    with resolved have won: "transition G (saga_id saga) [STARTED, AWAITING_EMAIL] COMPENSATING reason w
        = (Inr True, w1)" by simp
    obtain g where g0: "g \<in> sagas w" "saga_id g = saga_id saga"
        "saga_state g \<in> set [STARTED, AWAITING_EMAIL]"
      and w10: "sagas w1 = insert (touch (clock w) (with_state COMPENSATING reason g)) (sagas w - {g})"
        "(subs w1, mailq w1, other w1) = (subs w, mailq w, other w)"
      by (rule sg.transition_won [OF wf won])
    then have g: "g \<in> sagas w" "saga_id g = saga_id saga" "saga_state g \<in> open_states"
      and w1: "sagas w1 = insert (touch (clock w) (with_state COMPENSATING reason g)) (sagas w - {g})"
        "subs w1 = subs w" "mailq w1 = mailq w" "other w1 = other w" by simp_all
    let ?h = "touch (clock w) (with_state COMPENSATING reason g)"
    from resolved(2) True obtain u w2 where
      2: "removePendingSubscription R (pl_subscriptionId (payload saga)) w1 = (Inr u, w2)" and
      3: "updateState G (saga_id saga) COMPENSATED reason w2 = (q, w')"
      by (auto elim!: await_outcome dest: removePendingSubscription_outcome)
    note rem = removePendingSubscription_outcome [OF 2]
    have wf1: "sagas_wf (sagas w1)" using sg.transition_wf [OF wf won] .
    then have wf2: "sagas_wf (sagas w2)" using rem by simp
    have wf': "sagas_wf (sagas w')" using sg.updateState_wf [OF wf2 3] .
    have gone: "?h \<notin> sagas w - {g}"
      using g(1,2) wf by (auto dest: sagas_wfD [of _ _ g])
    have "sagas w' = (case q of Inl e \<Rightarrow> sagas w1
        | Inr u \<Rightarrow> insert (touch (clock w2) (with_state COMPENSATED reason ?h)) (sagas w - {g}))"
      using sg.updateState_law [OF 3] rem w1 gone
        moved_one [OF wf1, of ?h UNIV "clock w2" COMPENSATED reason] g(2)
      by (auto split: sum.splits)
    then have set: "case q of Inl e \<Rightarrow> settled_as COMPENSATING (saga_id saga) (sagas w) (sagas w')
        | Inr u \<Rightarrow> settled_as COMPENSATED (saga_id saga) (sagas w) (sagas w')"
      unfolding w1(1)
      by (cases q) (simp_all add: settled_asI [OF g] g(2))
    have wait: "waiting open_states (saga_id saga) (sagas w)"
      unfolding waiting_def using g by blast
    show ?thesis
      using sg.updateState_law [OF 3] rem w1 wf' set wait by (cases q) auto
  qed
qed

lemma compensate_other:
  assumes wf: "sagas_wf (sagas w)" and run: "compensate G R saga reason w = (q, w')"
    and "saga_id g \<noteq> saga_id saga"
  shows "g \<in> sagas w' \<longleftrightarrow> g \<in> sagas w"
  using compensate_outcome [OF wf run] settled_as_other [OF _ assms(3)]
  by (auto split: sum.splits if_splits)

lemma compensate_settles:
  assumes wf: "sagas_wf (sagas w)" and run: "compensate G R saga reason w = (Inr u, w')"
  shows "\<not> waiting open_states (saga_id saga) (sagas w')"
proof (cases "waiting open_states (saga_id saga) (sagas w)")
  case True
  then have "settled_as COMPENSATED (saga_id saga) (sagas w) (sagas w')"
    using compensate_outcome [OF wf run] by simp
  from settled_not_waiting [OF wf this] show ?thesis by simp
next
  case False
  then show ?thesis using compensate_outcome [OF wf run] by simp
qed

lemma compensate_subs:
  assumes wf: "sagas_wf (sagas w)" and run: "compensate G R saga reason w = (q, w')"
  shows "subs w' \<subseteq> subs w \<and> (\<forall>s \<in> subs w. status s = ACTIVE \<longrightarrow> s \<in> subs w')"
proof -
  from compensate_outcome [OF wf run]
  have "subs w' = subs w \<or> subs w' = without_pending (pl_subscriptionId (payload saga)) (subs w)"
    by simp
  then show ?thesis
  proof
    assume "subs w' = subs w"
    then show ?thesis by simp
  next
    assume eq: "subs w' = without_pending (pl_subscriptionId (payload saga)) (subs w)"
    show ?thesis
      unfolding eq by (intro conjI without_pending_subset ballI impI without_pending_active)
  qed
qed

text \<open>What a reply does, for each status and each state of the instance.\<close>

lemma onReply_sent:
  assumes wf: "sagas_wf (sagas w)" and g: "g \<in> sagas w" "saga_state g = AWAITING_EMAIL"
    and run: "await (transition G (saga_id g) [AWAITING_EMAIL] COMPLETED None) (\<lambda>_. ret ()) w = (q, w')"
  shows "mailq w' = mailq w \<and> other w' = other w \<and> sagas_wf (sagas w') \<and> subs w' = subs w \<and>
    (case q of Inl e \<Rightarrow> external e
     | Inr u \<Rightarrow> settled_as COMPLETED (saga_id g) (sagas w) (sagas w'))"
  using run
proof (cases rule: await_outcome)
  case (rejected e)
  then show ?thesis using sg.transition_law [OF rejected(1)] wf by auto
next
  case (resolved b w2)
  then have q: "q = Inr ()" "w2 = w'" by simp_all
  have upd: "sagas w' = insert (touch (clock w) (with_state COMPLETED None g)) (sagas w - {g})"
    using sg.transition_law [OF resolved(1)] moved_one [OF wf, of g] g q by simp
  have "settled_as COMPLETED (saga_id g) (sagas w) (sagas w')"
    by (rule settled_asI [OF g(1) _ _ upd]) (simp_all add: g)
  then show ?thesis
    using sg.transition_law [OF resolved(1)] sg.transition_wf [OF wf resolved(1)] q by simp
qed

theorem onReply_outcome:
  assumes wf: "sagas_wf (sagas w)" and run: "onReply G R reply w = (q, w')"
  shows "mailq w' = mailq w \<and> other w' = other w \<and> sagas_wf (sagas w') \<and>
    subs w' \<subseteq> subs w \<and> (\<forall>s \<in> subs w. status s = ACTIVE \<longrightarrow> s \<in> subs w') \<and>
    (rep_status reply = SENT \<longrightarrow> subs w' = subs w) \<and>
    (case q of
       Inl e \<Rightarrow> external e
     | Inr u \<Rightarrow> if waiting {AWAITING_EMAIL} (rep_sagaId reply) (sagas w)
         then settled_as (reply_state (rep_status reply)) (rep_sagaId reply) (sagas w) (sagas w')
         else sagas w' = sagas w \<and> subs w' = subs w)"
  using run unfolding onReply_def
proof (cases rule: await_outcome)
  case (rejected e)
  then show ?thesis using sg.findById_law [OF rejected(1)] wf by auto
next
  case (resolved res w1)
  note find = sg.findById_law [OF resolved(1)]
  then have w1: "sagas w1 = sagas w" "subs w1 = subs w" "mailq w1 = mailq w" "other w1 = other w"
    and res: "found (sagas w) (\<lambda>g. saga_id g = rep_sagaId reply) res" by simp_all
  have wf1: "sagas_wf (sagas w1)" using wf w1 by simp
  show ?thesis
  proof (cases "\<exists>g. res = Some g \<and> saga_state g = AWAITING_EMAIL")
    case False
    have "\<not> waiting {AWAITING_EMAIL} (rep_sagaId reply) (sagas w)"
      using False res wf by (cases res) (auto simp: waiting_def dest: sagas_wfD)
    moreover have "q = Inr () \<and> w' = w1" using resolved(2) False by (auto split: option.splits)
    ultimately show ?thesis using w1 wf by simp
  next
    case True
    then obtain g where g: "res = Some g" "saga_state g = AWAITING_EMAIL" by blast
    with res w1 have mem: "g \<in> sagas w1" "saga_id g = rep_sagaId reply" by simp_all
    have wait: "waiting {AWAITING_EMAIL} (rep_sagaId reply) (sagas w)"
      "waiting open_states (rep_sagaId reply) (sagas w)"
      using mem g(2) w1(1) by (auto simp: waiting_def)
    show ?thesis
    proof (cases "rep_status reply")
      case SENT
      with resolved(2) g have
        run': "await (transition G (saga_id g) [AWAITING_EMAIL] COMPLETED None) (\<lambda>_. ret ()) w1 = (q, w')"
        by simp
      show ?thesis
        using onReply_sent [OF wf1 mem(1) g(2) run'] wait w1 mem(2) SENT
        by (cases q) (simp_all add: reply_state_def)
    next
      case FAILED
      with resolved(2) g have run': "compensate G R g (rep_reason reply) w1 = (q, w')" by simp
      note out = compensate_outcome [OF wf1 run'] and kept = compensate_subs [OF wf1 run']
      show ?thesis
        using out kept wait w1 mem(2) FAILED by (cases q) (simp_all add: reply_state_def)
    qed
  qed
qed

text \<open>A second reply for the same instance, whatever it says, changes nothing.\<close>

lemma onReply_again:
  assumes wf: "sagas_wf (sagas w)"
    and first: "onReply G R r w = (Inr u, w1)" and second: "onReply G R r' w1 = (Inr v, w2)"
    and same: "rep_sagaId r' = rep_sagaId r"
  shows "sagas w2 = sagas w1 \<and> subs w2 = subs w1"
proof -
  note one = onReply_outcome [OF wf first]
  have "\<not> waiting {AWAITING_EMAIL} (rep_sagaId r) (sagas w1)"
  proof (cases "waiting {AWAITING_EMAIL} (rep_sagaId r) (sagas w)")
    case True
    with one have "settled_as (reply_state (rep_status r)) (rep_sagaId r) (sagas w) (sagas w1)"
      by simp
    then show ?thesis
      by (rule settled_not_waiting [OF wf]) (simp add: reply_state_def split: reply_status.split)
  next
    case False
    with one show ?thesis by simp
  qed
  moreover from one have "sagas_wf (sagas w1)" by simp
  ultimately show ?thesis using onReply_outcome [OF _ second] same by simp
qed

section \<open>The sweep\<close>

lemma sweep_loop:
  assumes "sagas_wf (sagas w)"
    and "for_each gs (\<lambda>saga. compensate G R saga reason) w = (q, w')"
  shows "sagas_wf (sagas w') \<and> mailq w' = mailq w \<and> other w' = other w \<and>
    subs w' \<subseteq> subs w \<and> (\<forall>s \<in> subs w. status s = ACTIVE \<longrightarrow> s \<in> subs w') \<and>
    (\<forall>g. saga_id g \<notin> saga_id ` set gs \<longrightarrow> (g \<in> sagas w' \<longleftrightarrow> g \<in> sagas w)) \<and>
    (case q of Inl e \<Rightarrow> external e
     | Inr u \<Rightarrow> \<forall>i \<in> saga_id ` set gs. \<not> waiting open_states i (sagas w'))"
  using assms
proof (induction gs arbitrary: w)
  case Nil
  then show ?case by simp
next
  case (Cons x gs)
  from Cons.prems(2) have "await (compensate G R x reason)
      (\<lambda>_. for_each gs (\<lambda>saga. compensate G R saga reason)) w = (q, w')" by simp
  then show ?case
  proof (cases rule: await_outcome)
    case (rejected e)
    note out = compensate_outcome [OF Cons.prems(1) rejected(1)]
      and kept = compensate_subs [OF Cons.prems(1) rejected(1)]
      and oth = compensate_other [OF Cons.prems(1) rejected(1)]
    have "\<forall>g. saga_id g \<notin> saga_id ` set (x # gs) \<longrightarrow> (g \<in> sagas w' \<longleftrightarrow> g \<in> sagas w)"
      using oth by simp
    with out kept rejected(2) show ?thesis by simp
  next
    case (resolved u w1)
    note out = compensate_outcome [OF Cons.prems(1) resolved(1)]
      and kept = compensate_subs [OF Cons.prems(1) resolved(1)]
      and oth = compensate_other [OF Cons.prems(1) resolved(1)]
      and set = compensate_settles [OF Cons.prems(1) resolved(1)]
    from out have wf1: "sagas_wf (sagas w1)" by simp
    note IH = Cons.IH [OF wf1 resolved(2)]
    have other: "\<forall>g. saga_id g \<notin> saga_id ` set (x # gs) \<longrightarrow> (g \<in> sagas w' \<longleftrightarrow> g \<in> sagas w)"
      using IH oth by simp
    have first: "\<not> waiting open_states (saga_id x) (sagas w')"
      if "saga_id x \<notin> saga_id ` set gs"
    proof -
      from that IH have same: "\<And>g. saga_id g = saga_id x \<Longrightarrow> g \<in> sagas w' \<longleftrightarrow> g \<in> sagas w1" by simp
      show ?thesis using set same unfolding waiting_def by blast
    qed
    have last: "case q of Inl e \<Rightarrow> external e
      | Inr u \<Rightarrow> \<forall>i \<in> saga_id ` set (x # gs). \<not> waiting open_states i (sagas w')"
    proof (cases q)
      case (Inl e)
      with IH show ?thesis by simp
    next
      case (Inr v)
      with IH have "\<forall>i \<in> saga_id ` set gs. \<not> waiting open_states i (sagas w')" by simp
      moreover from this have "\<not> waiting open_states (saga_id x) (sagas w')"
        using first by blast
      ultimately show ?thesis using Inr by simp
    qed
    have "subs w' \<subseteq> subs w" "\<forall>s \<in> subs w. status s = ACTIVE \<longrightarrow> s \<in> subs w'"
      using IH kept by blast+
    with IH out last other show ?thesis by simp
  qed
qed

theorem compensateStuck_outcome:
  assumes wf: "sagas_wf (sagas w)"
    and run: "compensateStuck G R clock timeoutMs w = (q, w')"
  shows "sagas_wf (sagas w') \<and> mailq w' = mailq w \<and> other w' = other w \<and>
    subs w' \<subseteq> subs w \<and> (\<forall>s \<in> subs w. status s = ACTIVE \<longrightarrow> s \<in> subs w') \<and>
    (\<forall>g \<in> sagas w. saga_state g \<notin> open_states \<or> clock w \<le> updatedAt g + timeoutMs
       \<longrightarrow> g \<in> sagas w') \<and>
    (case q of Inl e \<Rightarrow> external e
     | Inr u \<Rightarrow> \<forall>g \<in> sagas w'. saga_state g \<in> open_states \<longrightarrow>
         g \<in> sagas w \<and> clock w \<le> updatedAt g + timeoutMs)"
  using run unfolding compensateStuck_def
proof (cases rule: await_outcome)
  case (rejected e)
  then show ?thesis using sg.findStuck_law [OF rejected(1)] wf by auto
next
  case (resolved gs w1)
  from sg.findStuck_law [OF resolved(1)]
  have gs: "set gs = {g \<in> sagas w. saga_state g \<in> open_states \<and> updatedAt g + timeoutMs < clock w}"
    and w1: "sagas w1 = sagas w" "subs w1 = subs w" "mailq w1 = mailq w" "other w1 = other w"
    by auto
  have wf1: "sagas_wf (sagas w1)" using wf w1 by simp
  note loop = sweep_loop [OF wf1 resolved(2), unfolded w1]
  have same: "\<And>g. saga_id g \<notin> saga_id ` set gs \<Longrightarrow> g \<in> sagas w' \<longleftrightarrow> g \<in> sagas w"
    using loop by simp
  have ids: "g \<in> set gs" if "g \<in> sagas w" "saga_id g \<in> saga_id ` set gs" for g
  proof -
    from that(2) obtain h where h: "h \<in> set gs" "saga_id g = saga_id h" by blast
    with gs have "h \<in> sagas w" by simp
    from sagas_wfD [OF wf that(1) this h(2)] h(1) show ?thesis by simp
  qed
  have keep: "g \<in> sagas w'"
    if g: "g \<in> sagas w" "saga_state g \<notin> open_states \<or> clock w \<le> updatedAt g + timeoutMs" for g
  proof -
    have "g \<notin> set gs" using g(2) by (auto simp: gs)
    with ids [OF g(1)] have "saga_id g \<notin> saga_id ` set gs" by blast
    from same [OF this] g(1) show ?thesis by simp
  qed
  have fresh: "g \<in> sagas w \<and> clock w \<le> updatedAt g + timeoutMs"
    if q: "q = Inr u" and g: "g \<in> sagas w'" "saga_state g \<in> open_states" for u g
  proof -
    from loop q have "\<forall>i \<in> saga_id ` set gs. \<not> waiting open_states i (sagas w')" by simp
    moreover have "waiting open_states (saga_id g) (sagas w')"
      unfolding waiting_def using g by blast
    ultimately have notin: "saga_id g \<notin> saga_id ` set gs" by blast
    from same [OF this] g(1) have "g \<in> sagas w" by simp
    moreover from notin have "g \<notin> set gs" by blast
    ultimately show ?thesis using g(2) unfolding gs by auto
  qed
  show ?thesis
  proof (cases q)
    case (Inl e)
    with loop keep show ?thesis by simp
  next
    case (Inr u)
    with loop keep fresh [OF Inr] show ?thesis by simp
  qed
qed

text \<open>The sweep removes rows of the instances it compensates only: a pending row no open instance
  belongs to stays.\<close>

lemma sweep_keeps:
  assumes "sagas_wf (sagas w)" and "list_all (\<lambda>g. pl_subscriptionId (payload g) \<noteq> sub_id s) gs"
    and "s \<in> subs w" and "for_each gs (\<lambda>saga. compensate G R saga reason) w = (q, w')"
  shows "s \<in> subs w'"
  using assms
proof (induction gs arbitrary: w)
  case (Cons g gs)
  have kept: "sagas_wf (sagas w1) \<and> s \<in> subs w1" if "compensate G R g reason w = (r, w1)" for r w1
  proof -
    note out = compensate_outcome [OF Cons.prems(1) that]
    then consider "subs w1 = subs w" | "subs w1 = without_pending (pl_subscriptionId (payload g)) (subs w)" by blast
    moreover from Cons.prems(2) have "sub_id s \<noteq> pl_subscriptionId (payload g)" by auto
    ultimately have "s \<in> subs w1" using Cons.prems(3) by cases (simp_all add: without_pending_def)
    with out show ?thesis by blast
  qed
  from Cons.prems(4) have "await (compensate G R g reason)
      (\<lambda>_. for_each gs (\<lambda>saga. compensate G R saga reason)) w = (q, w')" by simp
  then show ?case
  proof (cases rule: await_outcome)
    case (rejected e)
    with kept show ?thesis by blast
  next
    case (resolved u w1)
    from kept [OF resolved(1)] have "sagas_wf (sagas w1)" "s \<in> subs w1" by blast+
    moreover from Cons.prems(2) have "list_all (\<lambda>g. pl_subscriptionId (payload g) \<noteq> sub_id s) gs" by simp
    ultimately show ?thesis using Cons.IH resolved(2) by blast
  qed
qed simp

lemma row_without_instance_stays:
  assumes wf: "sagas_wf (sagas w)" and run: "compensateStuck G R clock timeoutMs w = (q, w')"
    and s: "s \<in> subs w" and none: "\<forall>g \<in> sagas w. saga_state g \<in> open_states \<longrightarrow> pl_subscriptionId (payload g) \<noteq> sub_id s"
  shows "s \<in> subs w'"
  using run unfolding compensateStuck_def
proof (cases rule: await_outcome)
  case (rejected e)
  then show ?thesis using sg.findStuck_law [OF rejected(1)] s by auto
next
  case (resolved gs w1)
  from sg.findStuck_law [OF resolved(1)] none
  have "list_all (\<lambda>g. pl_subscriptionId (payload g) \<noteq> sub_id s) gs" "sagas w1 = sagas w" "subs w1 = subs w"
    by (auto simp: list_all_iff)
  with sweep_keeps [OF _ _ _ resolved(2)] wf s show ?thesis by metis
qed

end

end
