(* ===== verification/Server_World.thy ===== *)
theory Server_World
  imports Subscribe_Saga
begin

text \<open>
  What the server runs on: the two tables behind Prisma, the broker behind a confirm channel
  and a clock. \<open>server_env\<close> collects the documented behaviour of these services; in it the
  repositories and the email queue of the code meet the contract \<open>saga_env\<close> of the
  orchestrator. \<open>server_world\<close> is an instance for evaluation: tables kept as lists, a log of
  what the broker was told, and a flag that makes the broker refuse every operation.
\<close>

locale server_env =
  sp: subscription_prisma sdb subs "\<lambda>w. (sagas w, broker w, other w)" +
  gp: saga_prisma gdb sagas clock "\<lambda>w. (subs w, broker w, other w)" +
  cs: channel_source getChannel broker "\<lambda>w. (subs w, sagas w, other w)"
  for sdb :: "'w subscription_delegate"
    and subs :: "'w \<Rightarrow> subscription set"
    and gdb :: "'w saga_delegate"
    and sagas :: "'w \<Rightarrow> saga_record set"
    and clock :: "'w \<Rightarrow> nat"
    and getChannel :: "('w, 'w channel) async"
    and broker :: "'w \<Rightarrow> broker_event list"
    and other :: "'w \<Rightarrow> 'x"
begin

lemma subscriptions_prisma:
  "subscription_prisma sdb subs (\<lambda>w. (sagas w, emails_on_queue (broker w), other w))"
  unfolding subscription_prisma_def by (rule sp.viewed) simp

lemma sagas_prisma:
  "saga_prisma gdb sagas clock (\<lambda>w. (subs w, emails_on_queue (broker w), other w))"
  unfolding saga_prisma_def by (rule gp.viewed) simp

lemma saga_env:
  "saga_env (SubscriptionRepository sdb) subs (SagaRepository gdb) sagas clock
     (RabbitEmailQueue_publish getChannel) (\<lambda>w. emails_on_queue (broker w)) other"
  unfolding saga_env_def
  by (intro conjI subscription_prisma.store saga_prisma.saga_store subscriptions_prisma
      sagas_prisma cs.RabbitEmailQueue_outbox)

end

sublocale server_env \<subseteq> run: saga_env "SubscriptionRepository sdb" subs "SagaRepository gdb" sagas
    clock "RabbitEmailQueue_publish getChannel" "\<lambda>w. emails_on_queue (broker w)" other
  by (rule saga_env)

section \<open>An instance for evaluation\<close>

record server_world =
  w_subs :: "subscription list"
  w_sagas :: "saga_record list"
  w_clock :: nat
  w_broker :: "broker_event list"
  w_closed :: bool

definition mem_subscriptions :: "server_world subscription_delegate" where
  "mem_subscriptions = listed_subscriptions w_subs (\<lambda>xs w. w\<lparr>w_subs := xs\<rparr>)"

definition mem_sagas :: "server_world saga_delegate" where
  "mem_sagas = listed_sagas w_sagas (\<lambda>xs w. w\<lparr>w_sagas := xs\<rparr>) w_clock"

definition mem_channel :: "server_world channel" where
  "mem_channel = logged w_broker (\<lambda>xs w. w\<lparr>w_broker := xs\<rparr>) (\<lambda>w _. w_closed w)"

lemma mem_server: "server_env mem_subscriptions (\<lambda>w. set (w_subs w)) mem_sagas
    (\<lambda>w. set (w_sagas w)) w_clock (ret mem_channel) w_broker w_closed"
  unfolding server_env_def mem_subscriptions_def mem_sagas_def mem_channel_def channel_source_def
  by (auto intro!: listed_subscription_prisma listed_saga_prisma logged_amqp_channel)

interpretation mem: server_env mem_subscriptions "\<lambda>w. set (w_subs w)" mem_sagas
    "\<lambda>w. set (w_sagas w)" w_clock "ret mem_channel" w_broker w_closed
  by (rule mem_server)

definition empty_server :: server_world where
  "empty_server = \<lparr>w_subs = [], w_sagas = [], w_clock = 0, w_broker = [], w_closed = False\<rparr>"

lemmas server_instance_defs =
  mem_subscriptions_def mem_sagas_def mem_channel_def empty_server_def listed_subscriptions_def
  listed_sagas_def listed_def logged_def Let_def build_subscription_def build_saga_def
  fresh_string_def no_stamp_def touch_def with_state_def
  SubscriptionRepository_def subscription_query_defs SagaRepository_def saga_query_defs

end
