(* ===== verification/Saga_Consumer.thy ===== *)
theory Saga_Consumer
  imports Server_World
begin

text \<open>
  The consumer of confirmation replies,
  \<open>modules/saga/adapters/rabbit-confirmation-reply.consumer.ts\<close>, and the properties of the
  saga on the server's own repositories and queue. An \<open>ack\<close> or \<open>nack\<close> that throws is only
  logged, so the callback of the channel never rejects; a reply that cannot be parsed is
  acknowledged, one the saga fails on is dropped (no requeue).
\<close>

section \<open>The consumer\<close>

definition parseReply :: "(string \<Rightarrow> bool) \<Rightarrow> consume_message \<Rightarrow> confirmation_reply option" where
  "parseReply uuid_ok msg =
     (case JSON_parse (msg_content msg) of
        None \<Rightarrow> None
      | Some parsed \<Rightarrow> confirmationReplySchema uuid_ok parsed)"

definition saga_handleMessage :: "(string \<Rightarrow> bool) \<Rightarrow> consume_message \<Rightarrow> ('w, unit) async \<Rightarrow>
    ('w, unit) async \<Rightarrow> (confirmation_reply \<Rightarrow> ('w, unit) async) \<Rightarrow> ('w, unit) async" where
  "saga_handleMessage uuid_ok msg ack_it nack_it on_reply_it =
     (case parseReply uuid_ok msg of
        None \<Rightarrow> ack_it
      | Some reply \<Rightarrow>
          try_catch (await (on_reply_it reply) (\<lambda>_. ack_it)) (\<lambda>err. nack_it))"

text \<open>The callback given to \<open>channel.consume\<close>, with its own \<open>ack\<close>, \<open>nack\<close> and \<open>catch\<close>.\<close>

definition saga_onDelivery :: "(string \<Rightarrow> bool) \<Rightarrow> 'w channel \<Rightarrow>
    (confirmation_reply \<Rightarrow> ('w, unit) async) \<Rightarrow> consume_message \<Rightarrow> ('w, unit) async" where
  "saga_onDelivery uuid_ok ch on_reply_it msg =
     (let ack_it = swallow (ack ch msg);
          nack_it = swallow (nack ch msg False)
      in try_catch (saga_handleMessage uuid_ok msg ack_it nack_it on_reply_it) (\<lambda>err. nack_it))"

text \<open>A \<open>null\<close> message (the consumer was cancelled) is ignored.\<close>

definition saga_onMessage :: "(string \<Rightarrow> bool) \<Rightarrow> 'w channel \<Rightarrow>
    (confirmation_reply \<Rightarrow> ('w, unit) async) \<Rightarrow> consume_message option \<Rightarrow> ('w, unit) async" where
  "saga_onMessage uuid_ok ch on_reply_it m =
     (case m of None \<Rightarrow> ret () | Some msg \<Rightarrow> saga_onDelivery uuid_ok ch on_reply_it msg)"

context amqp_channel begin

text \<open>The delivery is settled at most once, by what came of the reply.\<close>

lemma saga_onDelivery_outcome:
  assumes silent: "\<And>r. preserves broker (on_reply_it r)"
    and run: "saga_onDelivery uuid_ok ch on_reply_it msg w = (q, w')"
  shows "q = Inr () \<and>
    (case parseReply uuid_ok msg of
       None \<Rightarrow> rest w' = rest w \<and> settled_with (broker w) (broker w') (Acked msg)
     | Some reply \<Rightarrow>
         (\<exists>u w1. on_reply_it reply w = (Inr u, w1) \<and> rest w' = rest w1 \<and>
            settled_with (broker w) (broker w') (Acked msg)) \<or>
         (\<exists>e w1. on_reply_it reply w = (Inl e, w1) \<and> rest w' = rest w1 \<and>
            settled_with (broker w) (broker w') (Nacked msg False)))"
  using run unfolding saga_onDelivery_def saga_handleMessage_def Let_def
  by (rule handled_delivery [OF silent])

end

text \<open>On a channel that refuses only once it is closed, the delivery is settled unless the channel is closed.\<close>

context closing_channel begin

lemma swallow_settles:
  "swallow (ack ch m) w = (q, w') \<Longrightarrow>
     q = Inr () \<and> rest w' = rest w \<and> (broker w' = broker w @ [Acked m] \<or> broker w' = broker w \<and> closed w')"
  "swallow (nack ch m requeue) w = (q, w') \<Longrightarrow>
     q = Inr () \<and> rest w' = rest w \<and> (broker w' = broker w @ [Nacked m requeue] \<or> broker w' = broker w \<and> closed w')"
proof -
  assume "swallow (ack ch m) w = (q, w')"
  from swallow_resolves [OF this] obtain q' where q: "q = Inr ()" and run: "ack ch m w = (q', w')" by blast
  from q ack_law [OF run] ack_closed [of m w _ w'] run
  show "q = Inr () \<and> rest w' = rest w \<and> (broker w' = broker w @ [Acked m] \<or> broker w' = broker w \<and> closed w')"
    by (cases q') simp_all
next
  assume "swallow (nack ch m requeue) w = (q, w')"
  from swallow_resolves [OF this] obtain q' where q: "q = Inr ()" and run: "nack ch m requeue w = (q', w')" by blast
  from q nack_law [OF run] nack_closed [of m requeue w _ w'] run
  show "q = Inr () \<and> rest w' = rest w \<and> (broker w' = broker w @ [Nacked m requeue] \<or> broker w' = broker w \<and> closed w')"
    by (cases q') simp_all
qed

lemma saga_onDelivery_settles:
  assumes silent: "\<And>r. preserves broker (on_reply_it r)"
    and run: "saga_onDelivery uuid_ok ch on_reply_it msg w = (q, w')"
  shows "q = Inr () \<and> (\<exists>w1 e. rest w' = rest w1 \<and>
    (broker w' = broker w @ [e] \<or> broker w' = broker w \<and> closed w') \<and>
    (case parseReply uuid_ok msg of
       None \<Rightarrow> w1 = w \<and> e = Acked msg
     | Some reply \<Rightarrow> \<exists>r. on_reply_it reply w = (r, w1) \<and>
         e = (case r of Inr u \<Rightarrow> Acked msg | Inl err \<Rightarrow> Nacked msg False)))"
proof (cases "parseReply uuid_ok msg")
  case None
  obtain q2 w2 where "swallow (ack ch msg) w = (q2, w2)" by fastforce
  with run None swallow_settles(1) [OF this] show ?thesis
    by (auto simp: saga_onDelivery_def saga_handleMessage_def Let_def try_catch_def)
next
  case (Some reply)
  obtain r w1 where on: "on_reply_it reply w = (r, w1)" by fastforce
  then have b: "broker w1 = broker w" by (rule preservesD [OF silent])
  obtain q2 w2 where settle: "(case r of Inr u \<Rightarrow> swallow (ack ch msg) | Inl e \<Rightarrow> swallow (nack ch msg False)) w1 = (q2, w2)"
    by fastforce
  then have out: "q2 = Inr () \<and> rest w2 = rest w1 \<and> (broker w2 = broker w @
      [case r of Inr u \<Rightarrow> Acked msg | Inl e \<Rightarrow> Nacked msg False] \<or> broker w2 = broker w \<and> closed w2)"
    using swallow_settles b by (cases r) fastforce+
  moreover from run Some on settle out have "q = q2" "w' = w2"
    by (cases r; simp add: saga_onDelivery_def saga_handleMessage_def Let_def try_catch_def await_def)+
  ultimately show ?thesis using on Some by (auto split: sum.splits)
qed

end

section \<open>The saga never writes to the broker except to start\<close>

context server_env begin

lemma saga_repository_silent:
  "preserves broker (findById (SagaRepository gdb) i)"
  "preserves broker (transition (SagaRepository gdb) i from to err)"
  "preserves broker (updateState (SagaRepository gdb) i st err)"
  "preserves broker (deleteIfPending (SubscriptionRepository sdb) i)"
proof -
  have g: "preserves (\<lambda>w. (subs w, broker w, other w)) m \<Longrightarrow> preserves broker m"
    and s: "preserves (\<lambda>w. (sagas w, broker w, other w)) m \<Longrightarrow> preserves broker m"
    for m :: "('w, 'e, 'a) io" by (simp_all add: preserves_pair)
  show "preserves broker (findById (SagaRepository gdb) i)"
    "preserves broker (transition (SagaRepository gdb) i from to err)"
    "preserves broker (updateState (SagaRepository gdb) i st err)"
    by (auto simp: SagaRepository_def saga_query_defs intro!: preserves_await gp.preserves_rest [THEN g])
  show "preserves broker (deleteIfPending (SubscriptionRepository sdb) i)"
    by (auto simp: SubscriptionRepository_def subscription_query_defs
        intro!: preserves_await sp.preserves_rest [THEN s])
qed

lemma onReply_silent: "preserves broker (onReply (SagaRepository gdb) (SubscriptionRepository sdb) r)"
  unfolding onReply_def compensate_def removePendingSubscription_def
  by (auto intro!: preserves_await preserves_try_catch saga_repository_silent split: option.split)

end

section \<open>Properties of the saga\<close>

text \<open>
  The server's saga: its repositories over the two tables and its queue over the broker.
\<close>

definition server_saga :: "'w subscription_delegate \<Rightarrow> 'w saga_delegate \<Rightarrow> ('w \<Rightarrow> nat) \<Rightarrow>
    ('w, 'w channel) async \<Rightarrow> 'w subscribe_saga" where
  "server_saga sdb gdb clock getChannel =
     SubscribeSaga (SagaRepository gdb) (SubscriptionRepository sdb)
       (RabbitEmailQueue_publish getChannel) clock"

lemmas server_saga_simps = server_saga_def SubscribeSaga_def subscribe_saga.simps

abbreviation mem_saga :: "server_world subscribe_saga" where
  "mem_saga \<equiv> server_saga mem_subscriptions mem_sagas w_clock (ret mem_channel)"

text \<open>A world with one pending subscription and its instance in a given state.\<close>

definition pending_sub :: subscription where
  "pending_sub = \<lparr>sub_id = ''x'', sub_email = ''a@b'', repository = ''o/r'', status = PENDING,
     confirmToken = ''x'', unsubscribeToken = ''x'', lastSeenTag = None, createdAt = 0\<rparr>"

definition saga_in :: "SagaState \<Rightarrow> string option \<Rightarrow> nat \<Rightarrow> saga_record" where
  "saga_in st err t = \<lparr>saga_id = ''x'', saga_type = SUBSCRIBE_SAGA_TYPE, saga_state = st,
     payload = \<lparr>pl_subscriptionId = ''x'', pl_email = ''a@b'', pl_repo = ''o/r''\<rparr>,
     lastError = err, saga_createdAt = 0, updatedAt = t\<rparr>"

definition started_server :: "SagaState \<Rightarrow> nat \<Rightarrow> server_world" where
  "started_server st now = empty_server\<lparr>w_subs := [pending_sub], w_sagas := [saga_in st None 0],
     w_clock := now\<rparr>"

lemma started_server_wf [simp]:
  "subscriptions_wf (set (w_subs (started_server st now)))"
  "sagas_wf (set (w_sagas (started_server st now)))"
  "subscriptions_wf (set (w_subs empty_server))" "sagas_wf (set (w_sagas empty_server))"
  by (simp_all add: started_server_def empty_server_def subscriptions_wf_def sagas_wf_def
      unique_by_def)

text \<open>C1. A start that resolves has left one pending subscription for the address and the
  repository, one new saga instance awaiting the email and one confirmation message that
  carries the token of that subscription and the id of that instance.\<close>

theorem start_sends_one_confirmation:
  assumes env: "server_env sdb subs gdb sagas clock getChannel broker other"
    and wf: "subscriptions_wf (subs w)" "sagas_wf (sagas w)"
    and run: "start_saga (server_saga sdb gdb clock getChannel) email repo w = (Inr s, w')"
  shows "s \<in> subs w' \<and> status s = PENDING \<and> sub_email s = email \<and> repository s = repo \<and>
    (\<exists>g. saga_id g \<notin> saga_id ` sagas w \<and> saga_state g = AWAITING_EMAIL \<and>
       payload g = \<lparr>pl_subscriptionId = sub_id s, pl_email = email, pl_repo = repo\<rparr> \<and>
       sagas w' = insert g (sagas w) \<and>
       emails_on_queue (broker w') = emails_on_queue (broker w)
         @ [Confirmation (confirmationIdempotencyKey email repo (confirmToken s))
              email repo (confirmToken s) (saga_id g)]) \<and> other w' = other w"
  using run unfolding server_saga_simps
  by (rule saga_env.start_resolved [OF server_env.saga_env [OF env] wf])

definition after_start :: server_world where
  "after_start = started_server AWAITING_EMAIL 0\<lparr>w_broker := [Sent EMAIL_QUEUE_NAME
     (Text (email_message_json
       (Confirmation ''confirmation:a@b:o/r:x'' ''a@b'' ''o/r'' ''x'' ''x''))) no_headers]\<rparr>"

lemma start_example:
  "start_saga mem_saga ''a@b'' ''o/r'' empty_server = (Inr pending_sub, after_start)"
  by code_simp

theorem start_sends_one_confirmation_witness:
  "pending_sub \<in> set (w_subs after_start) \<and> status pending_sub = PENDING \<and>
   (\<exists>g. saga_state g = AWAITING_EMAIL \<and>
      set (w_sagas after_start) = insert g (set (w_sagas empty_server)))"
  using start_sends_one_confirmation [OF mem_server started_server_wf(3,4) start_example] by blast

text \<open>C31. A start that is rejected was rejected by the database or the broker, and stopped there:
  it left everything as it was; or it made the row of the address and the repository pending and
  nothing else; or it also recorded one new instance for that row, in state \<open>STARTED\<close>, and sent
  the confirmation of that row and that instance, or nothing. The last kind is found by the timeout
  sweep.\<close>

theorem start_rejected_stops:
  assumes env: "server_env sdb subs gdb sagas clock getChannel broker other"
    and wf: "subscriptions_wf (subs w)" "sagas_wf (sagas w)"
    and run: "start_saga (server_saga sdb gdb clock getChannel) email repo w = (Inl e, w')"
  shows "external e \<and> other w' = other w \<and>
    (subs w' = subs w \<and> sagas w' = sagas w \<and> emails_on_queue (broker w') = emails_on_queue (broker w)
     \<or> (\<exists>s. made_pending email repo (subs w) s (subs w') \<and>
          (sagas w' = sagas w \<and> emails_on_queue (broker w') = emails_on_queue (broker w)
           \<or> (\<exists>g. sagas w' = insert g (sagas w) \<and> saga_id g \<notin> saga_id ` sagas w \<and> saga_state g = STARTED \<and>
                payload g = \<lparr>pl_subscriptionId = sub_id s, pl_email = email, pl_repo = repo\<rparr> \<and>
                (emails_on_queue (broker w') = emails_on_queue (broker w)
                 \<or> emails_on_queue (broker w') = emails_on_queue (broker w)
                    @ [Confirmation (confirmationIdempotencyKey email repo (confirmToken s))
                         email repo (confirmToken s) (saga_id g)])))))"
  using saga_env.start_rejected [OF server_env.saga_env [OF env] wf run [unfolded server_saga_simps]]
  by (auto simp: stopped_start_def)

lemma start_refused_example:
  "start_saga mem_saga ''a@b'' ''o/r'' (empty_server\<lparr>w_closed := True\<rparr>) =
     (Inl (Other ''IllegalOperationError''), started_server STARTED 0\<lparr>w_closed := True\<rparr>)"
  by code_simp

lemma closed_server_wf:
  "subscriptions_wf (set (w_subs (empty_server\<lparr>w_closed := True\<rparr>)))"
  "sagas_wf (set (w_sagas (empty_server\<lparr>w_closed := True\<rparr>)))"
  using started_server_wf(3,4) by simp_all

theorem start_rejected_stops_witness:
  "\<exists>s. made_pending ''a@b'' ''o/r'' {} s (set (w_subs (started_server STARTED 0)))"
  using start_rejected_stops [OF mem_server closed_server_wf start_refused_example]
  by (auto simp: started_server_def empty_server_def)

text \<open>A start whose instance cannot be recorded leaves a pending row that belongs to no instance: no
  sweep ever removes it, however late it runs. It lasts until the same pair is subscribed again.\<close>

lemma failed_create_leaves_row:
  "start_saga (server_saga mem_subscriptions (mem_sagas\<lparr>p_create := (\<lambda>_. throw (Other ''P1001''))\<rparr>) w_clock
       (ret mem_channel)) ''a@b'' ''o/r'' empty_server =
     (Inl (Other ''P1001''), empty_server\<lparr>w_subs := [pending_sub]\<rparr>)"
  "compensate_stuck mem_saga timeoutMs (empty_server\<lparr>w_subs := [pending_sub], w_clock := late\<rparr>) = (q, w') \<Longrightarrow>
     pending_sub \<in> set (w_subs w')"
proof -
  show "start_saga (server_saga mem_subscriptions (mem_sagas\<lparr>p_create := (\<lambda>_. throw (Other ''P1001''))\<rparr>) w_clock
       (ret mem_channel)) ''a@b'' ''o/r'' empty_server =
     (Inl (Other ''P1001''), empty_server\<lparr>w_subs := [pending_sub]\<rparr>)" by code_simp
  assume "compensate_stuck mem_saga timeoutMs (empty_server\<lparr>w_subs := [pending_sub], w_clock := late\<rparr>) = (q, w')"
  from mem.run.row_without_instance_stays [OF _ this [unfolded server_saga_simps]]
  show "pending_sub \<in> set (w_subs w')" by (simp add: empty_server_def sagas_wf_def unique_by_def)
qed

text \<open>C2. What a confirmation reply does. An instance that awaits the email is settled as
  \<open>COMPLETED\<close> by \<open>SENT\<close> and as \<open>COMPENSATED\<close> by \<open>FAILED\<close>; for any other instance, or
  none, the reply changes nothing. No message is sent, a \<open>SENT\<close> reply leaves the
  subscriptions alone, and a \<open>FAILED\<close> reply never removes an active one.\<close>

theorem onReply_settles_the_instance:
  assumes env: "server_env sdb subs gdb sagas clock getChannel broker other"
    and wf: "sagas_wf (sagas w)"
    and run: "on_reply (server_saga sdb gdb clock getChannel) reply w = (q, w')"
  shows "emails_on_queue (broker w') = emails_on_queue (broker w) \<and> other w' = other w \<and>
    sagas_wf (sagas w') \<and> subs w' \<subseteq> subs w \<and>
    (\<forall>s \<in> subs w. status s = ACTIVE \<longrightarrow> s \<in> subs w') \<and>
    (rep_status reply = SENT \<longrightarrow> subs w' = subs w) \<and>
    (case q of
       Inl e \<Rightarrow> external e
     | Inr u \<Rightarrow> if waiting {AWAITING_EMAIL} (rep_sagaId reply) (sagas w)
         then settled_as (reply_state (rep_status reply)) (rep_sagaId reply) (sagas w) (sagas w')
         else sagas w' = sagas w \<and> subs w' = subs w)"
  using run unfolding server_saga_simps
  by (rule saga_env.onReply_outcome [OF server_env.saga_env [OF env] wf])

definition failed_reply :: confirmation_reply where
  "failed_reply = \<lparr>rep_sagaId = ''x'', rep_status = FAILED, rep_reason = Some ''bounced''\<rparr>"

definition compensated_server :: server_world where
  "compensated_server = started_server AWAITING_EMAIL 7
     \<lparr>w_subs := [], w_sagas := [saga_in COMPENSATED (Some ''bounced'') 7]\<rparr>"

lemma onReply_failed_example:
  "on_reply mem_saga failed_reply (started_server AWAITING_EMAIL 7) = (Inr (), compensated_server)"
  by code_simp

theorem onReply_settles_the_instance_witness:
  "settled_as COMPENSATED ''x'' (set (w_sagas (started_server AWAITING_EMAIL 7)))
     (set (w_sagas compensated_server))"
proof -
  have "waiting {AWAITING_EMAIL} (rep_sagaId failed_reply)
      (set (w_sagas (started_server AWAITING_EMAIL 7)))"
    by (simp add: waiting_def failed_reply_def started_server_def saga_in_def)
  then show ?thesis
    using onReply_settles_the_instance [OF mem_server started_server_wf(2) onReply_failed_example]
    by (simp add: failed_reply_def reply_state_def)
qed

text \<open>A reply that is delivered again, or contradicted by a later one, changes nothing.\<close>

lemma onReply_second_reply_ignored:
  assumes env: "server_env sdb subs gdb sagas clock getChannel broker other"
    and wf: "sagas_wf (sagas w)"
    and first: "on_reply (server_saga sdb gdb clock getChannel) r w = (Inr u, w1)"
    and second: "on_reply (server_saga sdb gdb clock getChannel) r' w1 = (Inr v, w2)"
    and same: "rep_sagaId r' = rep_sagaId r"
  shows "sagas w2 = sagas w1 \<and> subs w2 = subs w1"
  using saga_env.onReply_again [OF server_env.saga_env [OF env] wf] first second same
  unfolding server_saga_simps by blast

definition sent_reply :: confirmation_reply where
  "sent_reply = \<lparr>rep_sagaId = ''x'', rep_status = SENT, rep_reason = None\<rparr>"

lemma onReply_late_example: "on_reply mem_saga sent_reply compensated_server = (Inr (), compensated_server)"
  by code_simp

text \<open>C13. A timeout sweep that resolves leaves no instance open that was last written more
  than the timeout ago; whatever it ends with, it keeps every instance that is closed or was
  written within the timeout, keeps every active subscription, and sends nothing.\<close>

theorem compensateStuck_closes_the_stuck:
  assumes env: "server_env sdb subs gdb sagas clock getChannel broker other"
    and wf: "sagas_wf (sagas w)"
    and run: "compensate_stuck (server_saga sdb gdb clock getChannel) timeoutMs w = (q, w')"
  shows "sagas_wf (sagas w') \<and> emails_on_queue (broker w') = emails_on_queue (broker w) \<and>
    other w' = other w \<and> subs w' \<subseteq> subs w \<and>
    (\<forall>s \<in> subs w. status s = ACTIVE \<longrightarrow> s \<in> subs w') \<and>
    (\<forall>g \<in> sagas w. saga_state g \<notin> open_states \<or> clock w \<le> updatedAt g + timeoutMs
       \<longrightarrow> g \<in> sagas w') \<and>
    (case q of Inl e \<Rightarrow> external e
     | Inr u \<Rightarrow> \<forall>g \<in> sagas w'. saga_state g \<in> open_states \<longrightarrow>
         g \<in> sagas w \<and> clock w \<le> updatedAt g + timeoutMs)"
  using run unfolding server_saga_simps
  by (rule saga_env.compensateStuck_outcome [OF server_env.saga_env [OF env] wf])

definition swept_server :: server_world where
  "swept_server = started_server STARTED 5
     \<lparr>w_subs := [], w_sagas := [saga_in COMPENSATED (Some timed_out) 5]\<rparr>"

lemma compensateStuck_example:
  "compensate_stuck mem_saga 3 (started_server STARTED 5)
     = (Inr (), swept_server)"
  by code_simp

theorem compensateStuck_closes_the_stuck_witness:
  "sagas_wf (set (w_sagas swept_server)) \<and> saga_state (hd (w_sagas swept_server)) \<notin> open_states"
proof -
  note sweep = compensateStuck_closes_the_stuck
    [OF mem_server started_server_wf(2) compensateStuck_example, unfolded sum.case]
  have "hd (w_sagas swept_server) \<in> set (w_sagas swept_server)"
    "hd (w_sagas swept_server) \<notin> set (w_sagas (started_server STARTED 5))"
    by (simp_all add: swept_server_def started_server_def saga_in_def)
  with sweep show ?thesis by blast
qed

definition reply_message :: consume_message where
  "reply_message = \<lparr>deliveryTag = 1, msg_content = Text (confirmation_reply_json failed_reply),
     msg_headers = None\<rparr>"

lemma reply_delivery_example:
  "saga_onMessage (\<lambda>_. True) mem_channel (on_reply mem_saga) (Some reply_message)
     (started_server AWAITING_EMAIL 7)
   = (Inr (), compensated_server\<lparr>w_broker := [Acked reply_message]\<rparr>)"
  by code_simp

lemma mem_channel_laws:
  "amqp_channel mem_channel w_broker (\<lambda>w. (set (w_subs w), set (w_sagas w), w_closed w))"
  unfolding mem_channel_def by (rule logged_amqp_channel) simp_all

text \<open>C9. A delivery to the reply consumer is settled exactly once, unless the channel is closed by then and
  the broker delivers it again: acknowledged when the reply was invalid or the saga has handled it,
  dropped without requeue when the saga rejected it. Nothing else is told to the broker, an invalid
  reply reaches nothing, a valid one is given to the saga once, and the callback itself never rejects.\<close>

theorem reply_delivery_settled:
  assumes env: "server_env sdb subs gdb sagas clock getChannel broker other"
    and ch: "closing_channel ch broker (\<lambda>w. (subs w, sagas w, other w)) closed"
    and run: "saga_onMessage uuid_ok ch (on_reply (server_saga sdb gdb clock getChannel)) (Some msg) w
      = (q, w')"
  shows "q = Inr () \<and> (\<exists>w1 e. subs w' = subs w1 \<and> sagas w' = sagas w1 \<and> other w' = other w1 \<and>
    (broker w' = broker w @ [e] \<or> broker w' = broker w \<and> closed w') \<and>
    (case parseReply uuid_ok msg of
       None \<Rightarrow> w1 = w \<and> e = Acked msg
     | Some reply \<Rightarrow> \<exists>r. on_reply (server_saga sdb gdb clock getChannel) reply w = (r, w1) \<and>
         e = (case r of Inr u \<Rightarrow> Acked msg | Inl err \<Rightarrow> Nacked msg False)))"
proof -
  have "preserves broker (on_reply (server_saga sdb gdb clock getChannel) r)" for r
    unfolding server_saga_simps by (rule server_env.onReply_silent [OF env])
  from closing_channel.saga_onDelivery_settles [OF ch this run [unfolded saga_onMessage_def option.case]]
  show ?thesis by simp
qed

lemma mem_channel_closes:
  "closing_channel mem_channel w_broker (\<lambda>w. (set (w_subs w), set (w_sagas w), w_closed w)) w_closed"
  unfolding mem_channel_def by (rule logged_closing_channel) simp_all

theorem reply_delivery_settled_witness:
  "\<exists>e. [Acked reply_message] = [] @ [e] \<and> parseReply (\<lambda>_. True) reply_message = Some failed_reply"
proof -
  have "parseReply (\<lambda>_. True) reply_message = Some failed_reply" by code_simp
  with reply_delivery_settled [OF mem_server mem_channel_closes reply_delivery_example]
  show ?thesis by (auto simp: started_server_def empty_server_def)
qed

end
