(* ===== verification/Subscription_Service.thy ===== *)
theory Subscription_Service
  imports Saga_Consumer
begin

text \<open>
  \<open>modules/subscriptions/services/subscription.service.ts\<close>: subscribing, confirming,
  unsubscribing and listing, over the repository, the provider that knows which repositories
  exist and the saga. The provider is an interface of the code (\<open>IRepositoryProvider\<close>); its
  contract is the locale \<open>repo_provider\<close>, which \<open>Github\<close> discharges for the adapter.
\<close>

section \<open>The service\<close>

record 'w subscription_service =
  subscribeToRepo :: "string \<Rightarrow> string \<Rightarrow> ('w, subscription) async"
  confirmSubscription :: "string \<Rightarrow> ('w, subscription) async"
  unsubscribeFromRepo :: "string \<Rightarrow> ('w, subscription) async"
  getSubscriptionsByEmail :: "string \<Rightarrow> ('w, subscription_summary list) async"
  groupRepositories :: "('w, (string \<times> nat) list) async"

definition subscribe_to :: "'w subscription_repository \<Rightarrow> (string \<Rightarrow> ('w, bool) async) \<Rightarrow>
    'w subscribe_saga \<Rightarrow> string \<Rightarrow> string \<Rightarrow> ('w, subscription) async" where
  "subscribe_to R exists_repo saga email repo =
     await (checkIfActiveExists R email repo) (\<lambda>isAlreadySubscribed.
     if isAlreadySubscribed then throw (App (ConflictError ALREADY_SUBSCRIBED))
     else
       await (exists_repo repo) (\<lambda>there.
       if \<not> there then throw (App (NotFoundError REPOSITORY_NOT_FOUND))
       else start_saga saga email repo))"

definition confirm_token :: "'w subscription_repository \<Rightarrow> string \<Rightarrow> ('w, subscription) async" where
  "confirm_token R token =
     await (findByConfirmToken R token) (\<lambda>found_sub.
     case found_sub of
       None \<Rightarrow> throw (App (NotFoundError INVALID_CONFIRM_TOKEN))
     | Some s \<Rightarrow>
         if status s = ACTIVE then throw (App (ConflictError ALREADY_SUBSCRIBED))
         else activate R (sub_id s))"

definition unsubscribe_token :: "'w subscription_repository \<Rightarrow> string \<Rightarrow> ('w, subscription) async" where
  "unsubscribe_token R token =
     await (findByUnsubscribeToken R token) (\<lambda>found_sub.
     case found_sub of
       None \<Rightarrow> throw (App (NotFoundError INVALID_UNSUBSCRIBE_TOKEN))
     | Some s \<Rightarrow> delete_subscription R (sub_id s))"

definition SubscriptionService :: "'w subscription_repository \<Rightarrow> (string \<Rightarrow> ('w, bool) async) \<Rightarrow>
    'w subscribe_saga \<Rightarrow> 'w subscription_service" where
  "SubscriptionService R exists_repo saga =
     \<lparr>subscribeToRepo = subscribe_to R exists_repo saga,
      confirmSubscription = confirm_token R, unsubscribeFromRepo = unsubscribe_token R,
      getSubscriptionsByEmail = findByEmail R, groupRepositories = groupByRepository R\<rparr>"

section \<open>The provider of repositories\<close>

definition provider_error :: "js_error \<Rightarrow> bool" where
  "provider_error e \<longleftrightarrow> external e \<or> e = App (GithubError GITHUB_UNAVAILABLE) \<or> e = App GithubRateLimitError"

lemma provider_error_simps [simp]:
  "provider_error (Other m)" "provider_error (App (GithubError GITHUB_UNAVAILABLE))"
  "provider_error (App GithubRateLimitError)"
  by (simp_all add: provider_error_def)

text \<open>Asking for a repository touches none of what the service works on.\<close>

locale repo_provider =
  fixes exists_repo :: "string \<Rightarrow> ('w, bool) async"
    and rest :: "'w \<Rightarrow> 'x"
  assumes exists_law: "\<And>w q w'. exists_repo repo w = (q, w') \<Longrightarrow> rest w' = rest w \<and>
      (case q of Inl e \<Rightarrow> provider_error e | Inr b \<Rightarrow> True)"

section \<open>What the operations do\<close>

locale service_env =
  saga_env R subs G sagas clock publish mailq other +
  rp: repo_provider exists_repo "\<lambda>w. (subs w, sagas w, mailq w, other w)"
  for R :: "'w subscription_repository"
    and subs :: "'w \<Rightarrow> subscription set"
    and G :: "'w saga_repository"
    and sagas :: "'w \<Rightarrow> saga_record set"
    and clock :: "'w \<Rightarrow> nat"
    and publish :: "email_message \<Rightarrow> ('w, unit) async"
    and mailq :: "'w \<Rightarrow> email_message list"
    and other :: "'w \<Rightarrow> 'x"
    and exists_repo :: "string \<Rightarrow> ('w, bool) async"

definition active_for :: "string \<Rightarrow> string \<Rightarrow> subscription set \<Rightarrow> bool" where
  "active_for email repo S \<longleftrightarrow>
     (\<exists>s \<in> S. sub_email s = email \<and> repository s = repo \<and> status s = ACTIVE)"

context service_env begin

abbreviation untouched :: "'w \<Rightarrow> 'w \<Rightarrow> bool" where
  "untouched w w' \<equiv> subs w' = subs w \<and> sagas w' = sagas w \<and> mailq w' = mailq w \<and> other w' = other w"

text \<open>
  The exits of \<open>subscribeToRepo\<close> before the saga: the two questions leave everything alone.
  \<open>start\<close> is only reached for a pair that is not active.
\<close>

lemma subscribe_outcome:
  assumes run: "subscribe_to R exists_repo saga email repo w = (q, w')"
  obtains (failed) e where "q = Inl e" "external e" "untouched w w'"
    | (conflict) "q = Inl (App (ConflictError ALREADY_SUBSCRIBED))"
        "active_for email repo (subs w)" "untouched w w'"
    | (unavailable) e where "q = Inl e" "provider_error e" "\<not> active_for email repo (subs w)"
        "untouched w w'"
    | (missing) "q = Inl (App (NotFoundError REPOSITORY_NOT_FOUND))"
        "\<not> active_for email repo (subs w)" "untouched w w'"
    | (started) w1 where "start_saga saga email repo w1 = (q, w')"
        "\<not> active_for email repo (subs w)" "untouched w w1"
  using run unfolding subscribe_to_def
proof (cases rule: await_outcome)
  case (rejected e)
  then show ?thesis using st.checkIfActiveExists_law [OF rejected(1)] failed by simp
next
  case (resolved b w1)
  from st.checkIfActiveExists_law [OF resolved(1)]
  have w1: "untouched w w1" and b: "b \<longleftrightarrow> active_for email repo (subs w)"
    by (simp_all add: active_for_def)
  show ?thesis
  proof (cases b)
    case True
    with resolved(2) b w1 conflict show ?thesis by simp
  next
    case False
    with resolved(2) have "await (exists_repo repo) (\<lambda>there.
        if \<not> there then throw (App (NotFoundError REPOSITORY_NOT_FOUND))
        else start_saga saga email repo) w1 = (q, w')" by simp
    then show ?thesis
    proof (cases rule: await_outcome)
      case (rejected e)
      note law = rp.exists_law [OF rejected(1)]
      show ?thesis
      proof (rule unavailable)
        show "q = Inl e" by (rule rejected(2))
        show "provider_error e" using law by simp
        show "\<not> active_for email repo (subs w)" using False b by simp
        show "untouched w w'" using law w1 by simp
      qed
    next
      case (resolved there w2)
      from rp.exists_law [OF resolved(1)] w1 have w2: "untouched w w2" by simp
      show ?thesis
      proof (cases there)
        case True
        with resolved(2) w2 False b show ?thesis by (intro started) simp_all
      next
        case there: False
        with resolved(2) w2 False b show ?thesis by (intro missing) simp_all
      qed
    qed
  qed
qed

lemma confirm_outcome:
  assumes wf: "subscriptions_wf (subs w)" and run: "confirm_token R token w = (q, w')"
  shows "sagas w' = sagas w \<and> mailq w' = mailq w \<and> other w' = other w \<and>
    subscriptions_wf (subs w') \<and>
    (case q of
       Inl e \<Rightarrow> subs w' = subs w \<and>
         (external e
          \<or> e = App (NotFoundError INVALID_CONFIRM_TOKEN) \<and> (\<forall>s \<in> subs w. confirmToken s \<noteq> token)
          \<or> e = App (ConflictError ALREADY_SUBSCRIBED) \<and>
            (\<exists>s \<in> subs w. confirmToken s = token \<and> status s = ACTIVE))
     | Inr s' \<Rightarrow> \<exists>s \<in> subs w. confirmToken s = token \<and> status s = PENDING \<and>
         s' = s\<lparr>status := ACTIVE\<rparr> \<and> subs w' = insert s' (subs w - {s}))"
  using run unfolding confirm_token_def
proof (cases rule: await_outcome)
  case (rejected e)
  then show ?thesis using st.findByConfirmToken_law [OF rejected(1)] wf by simp
next
  case (resolved res w1)
  note find = st.findByConfirmToken_law [OF resolved(1)]
  then have w1: "subs w1 = subs w" "sagas w1 = sagas w" "mailq w1 = mailq w" "other w1 = other w"
    by simp_all
  show ?thesis
  proof (cases res)
    case None
    with resolved(2) find wf show ?thesis by simp
  next
    case (Some s)
    with find have s: "s \<in> subs w" "confirmToken s = token" by simp_all
    show ?thesis
    proof (cases "status s")
      case ACTIVE
      with resolved(2) Some s w1 wf show ?thesis by auto
    next
      case PENDING
      with resolved(2) Some have act: "activate R (sub_id s) w1 = (q, w')" by simp
      have wf1: "subscriptions_wf (subs w1)" using wf w1 by simp
      note wf' = st.activate_wf [OF wf1 act]
      show ?thesis
      proof (cases q)
        case (Inl e)
        with st.activate_law [OF act] w1 wf' show ?thesis by simp
      next
        case (Inr s')
        with act have act': "activate R (sub_id s) w1 = (Inr s', w')" by simp
        have "s \<in> subs w1" using s w1 by simp
        from st.activate_one [OF wf1 this act'] have one: "s' = s\<lparr>status := ACTIVE\<rparr>"
          "subs w' = insert s' (subs w - {s})" using w1 by simp_all
        with s PENDING have "\<exists>s \<in> subs w. confirmToken s = token \<and> status s = PENDING \<and>
            s' = s\<lparr>status := ACTIVE\<rparr> \<and> subs w' = insert s' (subs w - {s})" by blast
        with st.activate_law [OF act] w1 wf' Inr show ?thesis by simp
      qed
    qed
  qed
qed

lemma unsubscribe_outcome:
  assumes wf: "subscriptions_wf (subs w)" and run: "unsubscribe_token R token w = (q, w')"
  shows "sagas w' = sagas w \<and> mailq w' = mailq w \<and> other w' = other w \<and>
    subscriptions_wf (subs w') \<and>
    (case q of
       Inl e \<Rightarrow> subs w' = subs w \<and>
         (external e
          \<or> e = App (NotFoundError INVALID_UNSUBSCRIBE_TOKEN) \<and>
            (\<forall>s \<in> subs w. unsubscribeToken s \<noteq> token))
     | Inr s \<Rightarrow> s \<in> subs w \<and> unsubscribeToken s = token \<and> subs w' = subs w - {s})"
  using run unfolding unsubscribe_token_def
proof (cases rule: await_outcome)
  case (rejected e)
  then show ?thesis using st.findByUnsubscribeToken_law [OF rejected(1)] wf by simp
next
  case (resolved res w1)
  note find = st.findByUnsubscribeToken_law [OF resolved(1)]
  then have w1: "subs w1 = subs w" "sagas w1 = sagas w" "mailq w1 = mailq w" "other w1 = other w"
    by simp_all
  show ?thesis
  proof (cases res)
    case None
    with resolved(2) find wf show ?thesis by simp
  next
    case (Some s)
    with find have s: "s \<in> subs w" "unsubscribeToken s = token" by simp_all
    from resolved(2) Some have del: "delete_subscription R (sub_id s) w1 = (q, w')" by simp
    have wf1: "subscriptions_wf (subs w1)" using wf w1 by simp
    note wf' = st.delete_wf [OF wf1 del]
    show ?thesis
    proof (cases q)
      case (Inl e)
      with st.delete_law [OF del] w1 wf' show ?thesis by simp
    next
      case (Inr s')
      with del have del': "delete_subscription R (sub_id s) w1 = (Inr s', w')" by simp
      have "s \<in> subs w1" using s w1 by simp
      from st.delete_one [OF wf1 this del'] st.delete_law [OF del] w1 wf' Inr s
      show ?thesis by simp
    qed
  qed
qed

text \<open>Confirming twice, and unsubscribing twice.\<close>

lemma confirm_twice:
  assumes wf: "subscriptions_wf (subs w)"
    and first: "confirm_token R token w = (Inr s, w1)" and second: "confirm_token R token w1 = (q, w2)"
  shows "subs w2 = subs w1 \<and> (\<exists>e. q = Inl e \<and> (external e \<or> e = App (ConflictError ALREADY_SUBSCRIBED)))"
proof -
  note one = confirm_outcome [OF wf first, unfolded sum.case]
  then obtain t where t: "t \<in> subs w" "confirmToken t = token"
    "s = t\<lparr>status := ACTIVE\<rparr>" "subs w1 = insert s (subs w - {t})" by blast
  from one have wf1: "subscriptions_wf (subs w1)" by blast
  from t have s: "s \<in> subs w1" "confirmToken s = token" "status s = ACTIVE" by simp_all
  have other: "u = s" if "u \<in> subs w1" "confirmToken u = token" for u
    using subscriptions_wfD(2) [OF wf1 that(1) s(1)] that(2) s(2) by simp
  show ?thesis
  proof (cases q)
    case (Inl e)
    note out = confirm_outcome [OF wf1 second, unfolded Inl sum.case]
    with s Inl show ?thesis by metis
  next
    case (Inr s')
    note out = confirm_outcome [OF wf1 second, unfolded Inr sum.case]
    then obtain u where u: "u \<in> subs w1" "confirmToken u = token" "status u = PENDING" by blast
    from other [OF u(1,2)] u(3) s(3) show ?thesis by simp
  qed
qed

lemma unsubscribe_twice:
  assumes wf: "subscriptions_wf (subs w)"
    and first: "unsubscribe_token R token w = (Inr s, w1)"
    and second: "unsubscribe_token R token w1 = (q, w2)"
  shows "subs w2 = subs w1 \<and>
    (\<exists>e. q = Inl e \<and> (external e \<or> e = App (NotFoundError INVALID_UNSUBSCRIBE_TOKEN)))"
proof -
  note one = unsubscribe_outcome [OF wf first, unfolded sum.case]
  then have s: "s \<in> subs w" "unsubscribeToken s = token" "subs w1 = subs w - {s}" by simp_all
  from one have wf1: "subscriptions_wf (subs w1)" by (elim conjE)
  have none: "\<forall>u \<in> subs w1. unsubscribeToken u \<noteq> token"
    using s(2) subscriptions_wfD(3) [OF wf _ s(1)] unfolding s(3) by auto
  show ?thesis
  proof (cases q)
    case (Inl e)
    from unsubscribe_outcome [OF wf1 second, unfolded Inl sum.case] Inl show ?thesis by simp blast
  next
    case (Inr u)
    from unsubscribe_outcome [OF wf1 second, unfolded Inr sum.case] none have False by blast
    then show ?thesis ..
  qed
qed

text \<open>
  After a confirmation the pair is active, and subscribing to it again is a conflict.
\<close>

lemma subscribe_active:
  assumes "active_for email repo (subs w)"
    and run: "subscribe_to R exists_repo saga email repo w = (q, w')"
  shows "untouched w w' \<and> (\<exists>e. q = Inl e \<and> (external e \<or> e = App (ConflictError ALREADY_SUBSCRIBED)))"
  using assms(1) by (cases rule: subscribe_outcome [OF run]) simp_all

text \<open>Once its row is gone, an address is outdated for no release of the repository.\<close>

lemma outdated_others:
  assumes wf: "subscriptions_wf (subs w)" and s: "s \<in> subs w" and w1: "subs w1 = subs w - {s}"
    and get: "getOutdatedSubscribers R (repository s) tag w1 = (Inr xs, w2)"
  shows "sub_email s \<notin> out_email ` set xs"
proof
  assume "sub_email s \<in> out_email ` set xs"
  with st.getOutdatedSubscribers_law [OF get] obtain t
    where "t \<in> subs w1" "repository t = repository s" "sub_email t = sub_email s"
    by (auto simp: subscriber_of_def outdated_def)
  with subscriptions_wfD(4) [OF wf _ s] w1 show False by auto
qed

lemma confirm_pending:
  assumes wf: "subscriptions_wf (subs w)" and s: "s \<in> subs w" "status s = PENDING"
    and run: "confirm_token R (confirmToken s) w = (q, w')"
  shows "case q of Inl e \<Rightarrow> external e \<and> subs w' = subs w
    | Inr s' \<Rightarrow> s' = s\<lparr>status := ACTIVE\<rparr> \<and> subs w' = insert s' (subs w - {s})"
proof (cases q)
  case (Inl e)
  have "t = s" if "t \<in> subs w" "confirmToken t = confirmToken s" for t
    using subscriptions_wfD(2) [OF wf that(1) s(1) that(2)] .
  with confirm_outcome [OF wf run, unfolded Inl sum.case] s show ?thesis
    unfolding Inl sum.case by (metis subscription_status.distinct(1))
next
  case (Inr s')
  from confirm_outcome [OF wf run, unfolded Inr sum.case]
  obtain t where t: "t \<in> subs w" "confirmToken t = confirmToken s"
    "s' = t\<lparr>status := ACTIVE\<rparr>" "subs w' = insert s' (subs w - {t})" by blast
  from subscriptions_wfD(2) [OF wf t(1) s(1) t(2)] t(3,4) show ?thesis
    unfolding Inr sum.case by simp
qed

end

section \<open>The service of the server\<close>

locale server_service_env =
  server_env sdb subs gdb sagas clock getChannel broker other +
  kept: repo_provider exists_repo "\<lambda>w. (subs w, sagas w, broker w, other w)"
  for sdb :: "'w subscription_delegate"
    and subs :: "'w \<Rightarrow> subscription set"
    and gdb :: "'w saga_delegate"
    and sagas :: "'w \<Rightarrow> saga_record set"
    and clock :: "'w \<Rightarrow> nat"
    and getChannel :: "('w, 'w channel) async"
    and broker :: "'w \<Rightarrow> broker_event list"
    and other :: "'w \<Rightarrow> 'x"
    and exists_repo :: "string \<Rightarrow> ('w, bool) async"
begin

lemma service_env:
  "service_env (SubscriptionRepository sdb) subs (SagaRepository gdb) sagas clock
     (RabbitEmailQueue_publish getChannel) (\<lambda>w. emails_on_queue (broker w)) other exists_repo"
proof -
  have "repo_provider exists_repo (\<lambda>w. (subs w, sagas w, emails_on_queue (broker w), other w))"
    by unfold_locales (drule kept.exists_law, simp)
  with saga_env show ?thesis unfolding service_env_def by blast
qed

end

sublocale server_service_env \<subseteq> service: service_env "SubscriptionRepository sdb" subs
    "SagaRepository gdb" sagas clock "RabbitEmailQueue_publish getChannel"
    "\<lambda>w. emails_on_queue (broker w)" other exists_repo
  by (rule service_env)

definition server_service :: "'w subscription_delegate \<Rightarrow> 'w saga_delegate \<Rightarrow> ('w \<Rightarrow> nat) \<Rightarrow>
    ('w, 'w channel) async \<Rightarrow> (string \<Rightarrow> ('w, bool) async) \<Rightarrow> 'w subscription_service" where
  "server_service sdb gdb clock getChannel exists_repo =
     SubscriptionService (SubscriptionRepository sdb) exists_repo
       (server_saga sdb gdb clock getChannel)"

lemmas server_service_simps =
  server_service_def SubscriptionService_def subscription_service.simps

abbreviation mem_service :: "server_world subscription_service" where
  "mem_service \<equiv> server_service mem_subscriptions mem_sagas w_clock (ret mem_channel)
     (\<lambda>repo. ret (repo = ''o/r''))"

interpretation mem_env: server_service_env mem_subscriptions "\<lambda>w. set (w_subs w)" mem_sagas
    "\<lambda>w. set (w_sagas w)" w_clock "ret mem_channel" w_broker w_closed "\<lambda>repo. ret (repo = ''o/r'')"
  by (intro server_service_env.intro mem_server repo_provider.intro) auto

section \<open>Properties\<close>

text \<open>A subscription request that ends with an error leaves the tables and the queue as they
  were, except for an error of the database or the broker once the saga is started; a pair that
  is active is a conflict, a repository the provider does not know is not found, and nothing is
  started for either.\<close>

lemma subscribe_guards:
  assumes env: "server_service_env sdb subs gdb sagas clock getChannel broker other exists_repo"
    and run: "subscribeToRepo (server_service sdb gdb clock getChannel exists_repo) email repo w = (q, w')"
  shows "(\<exists>e. q = Inl e \<and> subs w' = subs w \<and> sagas w' = sagas w \<and>
        emails_on_queue (broker w') = emails_on_queue (broker w) \<and>
        (external e
         \<or> e = App (ConflictError ALREADY_SUBSCRIBED) \<and> active_for email repo (subs w)
         \<or> \<not> active_for email repo (subs w) \<and>
           (provider_error e \<or> e = App (NotFoundError REPOSITORY_NOT_FOUND))))
    \<or> \<not> active_for email repo (subs w) \<and>
      (\<exists>w1. subs w1 = subs w \<and> sagas w1 = sagas w \<and>
         emails_on_queue (broker w1) = emails_on_queue (broker w) \<and>
         start_saga (server_saga sdb gdb clock getChannel) email repo w1 = (q, w'))"
proof -
  from run have "subscribe_to (SubscriptionRepository sdb) exists_repo
      (server_saga sdb gdb clock getChannel) email repo w = (q, w')"
    by (simp add: server_service_simps)
  then show ?thesis
    by (cases rule: service_env.subscribe_outcome
          [OF server_service_env.service_env [OF env], consumes 1]) auto
qed

lemma subscribe_unknown_example:
  "subscribeToRepo mem_service ''a@b'' ''no/repo'' empty_server =
     (Inl (App (NotFoundError REPOSITORY_NOT_FOUND)), empty_server)"
  by code_simp

text \<open>C20. Subscribing and then confirming with the token of the message that was queued. The
  subscription is active unless the database fails; while it is, subscribing to the same
  repository again is a conflict that starts no second saga.\<close>

theorem subscribe_then_confirm:
  assumes env: "server_service_env sdb subs gdb sagas clock getChannel broker other exists_repo"
    and svc: "svc = server_service sdb gdb clock getChannel exists_repo"
    and wf: "subscriptions_wf (subs w)" "sagas_wf (sagas w)"
    and run: "subscribeToRepo svc email repo w = (Inr s, w1)"
  shows "\<exists>m. emails_on_queue (broker w1) = emails_on_queue (broker w) @ [m] \<and> msg_email m = email \<and>
    (\<forall>q w2. confirmSubscription svc (msg_confirmToken m) w1 = (q, w2) \<longrightarrow>
      (case q of
         Inl e \<Rightarrow> external e \<and> subs w2 = subs w1
       | Inr s' \<Rightarrow> s' = s\<lparr>status := ACTIVE\<rparr> \<and> active_for email repo (subs w2) \<and>
           (\<forall>r w3. subscribeToRepo svc email repo w2 = (r, w3) \<longrightarrow>
              subs w3 = subs w2 \<and> sagas w3 = sagas w2 \<and>
              (\<exists>e. r = Inl e \<and> (external e \<or> e = App (ConflictError ALREADY_SUBSCRIBED))))))"
proof -
  note E = server_service_env.service_env [OF env]
  note S = server_env.saga_env [OF server_service_env.axioms(1) [OF env]]
  note ops = svc server_service_simps
  from run have "subscribe_to (SubscriptionRepository sdb) exists_repo
      (server_saga sdb gdb clock getChannel) email repo w = (Inr s, w1)" by (simp add: ops)
  then obtain w0 where w0: "subs w0 = subs w" "sagas w0 = sagas w"
      "emails_on_queue (broker w0) = emails_on_queue (broker w)"
    and start: "saga_start (SagaRepository gdb) (SubscriptionRepository sdb)
      (RabbitEmailQueue_publish getChannel) email repo w0 = (Inr s, w1)"
    by (cases rule: service_env.subscribe_outcome [OF E, consumes 1])
      (auto simp: server_saga_simps)
  have wf0: "subscriptions_wf (subs w0)" "sagas_wf (sagas w0)" using wf w0 by simp_all
  note st = saga_env.start_resolved [OF S wf0 start]
  have wf1: "subscriptions_wf (subs w1)" by (rule saga_env.start_wf [OF S wf0(1) start])
  from st have s: "s \<in> subs w1" "status s = PENDING" "sub_email s = email" "repository s = repo"
    by simp_all
  from st [unfolded w0] obtain g :: saga_record where mail: "emails_on_queue (broker w1) = emails_on_queue (broker w)
      @ [Confirmation (confirmationIdempotencyKey email repo (confirmToken s))
           email repo (confirmToken s) (saga_id g)]"
    by (elim conjE exE) (rule that)
  have confirmed: "case q of
         Inl e \<Rightarrow> external e \<and> subs w2 = subs w1
       | Inr s' \<Rightarrow> s' = s\<lparr>status := ACTIVE\<rparr> \<and> active_for email repo (subs w2) \<and>
           (\<forall>r w3. subscribeToRepo svc email repo w2 = (r, w3) \<longrightarrow>
              subs w3 = subs w2 \<and> sagas w3 = sagas w2 \<and>
              (\<exists>e. r = Inl e \<and> (external e \<or> e = App (ConflictError ALREADY_SUBSCRIBED))))"
    if "confirmSubscription svc (confirmToken s) w1 = (q, w2)" for q w2
  proof -
    from that have "confirm_token (SubscriptionRepository sdb) (confirmToken s) w1 = (q, w2)"
      by (simp add: ops)
    note conf = service_env.confirm_pending [OF E wf1 s(1,2) this]
    show ?thesis
    proof (cases q)
      case (Inl e)
      with conf show ?thesis by simp
    next
      case (Inr s')
      with conf s have "active_for email repo (subs w2)" by (auto simp: active_for_def)
      with service_env.subscribe_active [OF E this, where saga = "server_saga sdb gdb clock getChannel"]
        conf Inr show ?thesis by (simp add: ops)
    qed
  qed
  show ?thesis
    by (rule exI, rule conjI, rule mail) (use confirmed in simp)
qed

lemma subscribe_example: "subscribeToRepo mem_service ''a@b'' ''o/r'' empty_server = (Inr pending_sub, after_start)"
  by code_simp

theorem subscribe_then_confirm_witness:
  "\<exists>m. emails_on_queue (w_broker after_start) = emails_on_queue (w_broker empty_server) @ [m] \<and>
     msg_email m = ''a@b''"
  using subscribe_then_confirm [OF mem_env.server_service_env_axioms refl started_server_wf(3,4)
      subscribe_example] by blast

text \<open>Confirming. With the token of a pending subscription it activates that subscription and
  touches no other row, no saga and no queue; with the token of an active one it is a conflict,
  with an unknown token not found, and no error changes anything. Confirming the same token a
  second time is a conflict that changes nothing.\<close>

lemma confirm_activates_once:
  assumes env: "server_service_env sdb subs gdb sagas clock getChannel broker other exists_repo"
    and svc: "svc = server_service sdb gdb clock getChannel exists_repo"
    and wf: "subscriptions_wf (subs w)"
    and run: "confirmSubscription svc token w = (q, w')"
  shows "sagas w' = sagas w \<and> emails_on_queue (broker w') = emails_on_queue (broker w) \<and>
    (case q of
       Inl e \<Rightarrow> subs w' = subs w \<and>
         (external e
          \<or> e = App (NotFoundError INVALID_CONFIRM_TOKEN) \<and> (\<forall>s \<in> subs w. confirmToken s \<noteq> token)
          \<or> e = App (ConflictError ALREADY_SUBSCRIBED) \<and>
            (\<exists>s \<in> subs w. confirmToken s = token \<and> status s = ACTIVE))
     | Inr s' \<Rightarrow>
         (\<exists>s \<in> subs w. confirmToken s = token \<and> status s = PENDING \<and>
            s' = s\<lparr>status := ACTIVE\<rparr> \<and> subs w' = insert s' (subs w - {s})) \<and>
         (\<forall>r w2. confirmSubscription svc token w' = (r, w2) \<longrightarrow> subs w2 = subs w' \<and>
            (\<exists>e. r = Inl e \<and> (external e \<or> e = App (ConflictError ALREADY_SUBSCRIBED)))))"
proof -
  note E = server_service_env.service_env [OF env]
  have ops: "confirmSubscription svc token = confirm_token (SubscriptionRepository sdb) token"
    by (simp add: svc server_service_simps)
  note one = service_env.confirm_outcome [OF E wf run [unfolded ops]]
  show ?thesis
  proof (cases q)
    case (Inl e)
    from one [unfolded Inl sum.case] show ?thesis unfolding Inl sum.case by (elim conjE) (intro conjI)
  next
    case (Inr s')
    note twice = service_env.confirm_twice [OF E wf run [unfolded ops Inr]]
    from one [unfolded Inr sum.case] show ?thesis
      unfolding Inr sum.case ops by (elim conjE, intro conjI allI impI) (assumption+, rule twice [THEN conjunct1], assumption, rule twice [THEN conjunct2], assumption)
  qed
qed

definition confirmed_server :: server_world where
  "confirmed_server = (started_server AWAITING_EMAIL 0)\<lparr>w_subs := [pending_sub\<lparr>status := ACTIVE\<rparr>]\<rparr>"

lemma confirm_example:
  "confirmSubscription mem_service ''x'' (started_server AWAITING_EMAIL 0)
     = (Inr (pending_sub\<lparr>status := ACTIVE\<rparr>), confirmed_server)"
  by code_simp

text \<open>C30. Unsubscribing deletes the one subscription with the token and nothing else, and from
  then on no release of its repository finds it outdated, so no notification goes to that
  address for it; the same link a second time is not found.\<close>

theorem unsubscribe_silences:
  assumes env: "server_service_env sdb subs gdb sagas clock getChannel broker other exists_repo"
    and svc: "svc = server_service sdb gdb clock getChannel exists_repo"
    and wf: "subscriptions_wf (subs w)"
    and run: "unsubscribeFromRepo svc token w = (Inr s, w1)"
  shows "s \<in> subs w \<and> unsubscribeToken s = token \<and> subs w1 = subs w - {s} \<and> sagas w1 = sagas w \<and>
    (\<forall>tag xs w2. getOutdatedSubscribers (SubscriptionRepository sdb) (repository s) tag w1 = (Inr xs, w2)
       \<longrightarrow> sub_email s \<notin> out_email ` set xs) \<and>
    (\<forall>q w2. unsubscribeFromRepo svc token w1 = (q, w2) \<longrightarrow> subs w2 = subs w1 \<and>
       (\<exists>e. q = Inl e \<and> (external e \<or> e = App (NotFoundError INVALID_UNSUBSCRIBE_TOKEN))))"
proof -
  note E = server_service_env.service_env [OF env]
  have ops: "unsubscribeFromRepo svc token = unsubscribe_token (SubscriptionRepository sdb) token"
    by (simp add: svc server_service_simps)
  note one = service_env.unsubscribe_outcome [OF E wf run [unfolded ops], unfolded sum.case]
  then have s: "s \<in> subs w" "unsubscribeToken s = token" "subs w1 = subs w - {s}" "sagas w1 = sagas w"
    by simp_all
  have "sub_email s \<notin> out_email ` set xs"
    if "getOutdatedSubscribers (SubscriptionRepository sdb) (repository s) tag w1 = (Inr xs, w2)"
    for tag xs w2
    by (rule service_env.outdated_others [OF E wf s(1,3) that])
  with s service_env.unsubscribe_twice [OF E wf run [unfolded ops]] show ?thesis
    unfolding ops by blast
qed

lemma unsubscribe_example:
  "unsubscribeFromRepo mem_service ''x'' confirmed_server
     = (Inr (pending_sub\<lparr>status := ACTIVE\<rparr>), confirmed_server\<lparr>w_subs := []\<rparr>)"
  by code_simp

theorem unsubscribe_silences_witness:
  "unsubscribeToken (pending_sub\<lparr>status := ACTIVE\<rparr>) = ''x'' \<and>
   set (w_subs (confirmed_server\<lparr>w_subs := []\<rparr>))
     = set (w_subs confirmed_server) - {pending_sub\<lparr>status := ACTIVE\<rparr>}"
proof -
  have wf: "subscriptions_wf (set (w_subs confirmed_server))"
    by (simp add: confirmed_server_def subscriptions_wf_def unique_by_def)
  show ?thesis
    using unsubscribe_silences [OF mem_env.server_service_env_axioms refl wf unsubscribe_example]
    by blast
qed

end
