(* ===== verification/Saga_Interleaving.thy ===== *)
theory Saga_Interleaving
  imports Subscription_Service
begin

text \<open>
  Runs that overlap. An \<open>async\<close> function gives way at every \<open>await\<close>, so between two statements
  of one call the server runs statements of others: a start, replies, the sweep, confirmations
  and unsubscriptions, in one process or several. A call in flight is a \<open>saga_pc\<close>, which says
  which statement is next and what the call remembers; \<open>exec\<close> runs that statement on the
  repositories. \<open>run_onReply\<close> and its companions say that a call that is never interrupted does
  what the functions of \<open>Subscribe_Saga\<close> and \<open>Subscription_Service\<close> do.
\<close>

section \<open>Calls in flight\<close>

datatype saga_pc =
    P_Check string string
  | P_Exists string string
  | P_Upsert string string
  | P_Create string string subscription
  | P_Publish string string subscription saga_record
  | P_Await saga_record
  | P_Find confirmation_reply
  | P_Complete saga_record
  | P_Scan nat
  | P_Claim saga_record "string option" "saga_record list"
  | P_Remove saga_record "string option" "saga_record list"
  | P_Settle saga_record "string option" "saga_record list"
  | P_Token string
  | P_Activate string
  | P_Leave string
  | P_Delete string
  | P_Done
  | P_Failed js_error

text \<open>What a server's calls work on: the arguments of the functions they come from.\<close>

record 'w server_ops =
  op_sagas :: "'w saga_repository"
  op_subs :: "'w subscription_repository"
  op_publish :: "email_message \<Rightarrow> ('w, unit) async"
  op_exists :: "string \<Rightarrow> ('w, bool) async"
  op_clock :: "'w \<Rightarrow> nat"

definition then_pc :: "('w, 'a) async \<Rightarrow> ('a \<Rightarrow> saga_pc) \<Rightarrow> 'w \<Rightarrow> saga_pc \<times> 'w" where
  "then_pc m k w = (case m w of (Inl e, w') \<Rightarrow> (P_Failed e, w') | (Inr a, w') \<Rightarrow> (k a, w'))"

text \<open>The next instance of the sweep's loop.\<close>

definition sweep_next :: "saga_record list \<Rightarrow> saga_pc" where
  "sweep_next gs = (case gs of [] \<Rightarrow> P_Done | g # gs' \<Rightarrow> P_Claim g (Some timed_out) gs')"

fun exec :: "'w server_ops \<Rightarrow> saga_pc \<Rightarrow> 'w \<Rightarrow> saga_pc \<times> 'w" where
  "exec p (P_Check email repo) w =
     then_pc (checkIfActiveExists (op_subs p) email repo)
       (\<lambda>active. if active then P_Failed (App (ConflictError ALREADY_SUBSCRIBED))
          else P_Exists email repo) w"
| "exec p (P_Exists email repo) w =
     then_pc (op_exists p repo)
       (\<lambda>there. if \<not> there then P_Failed (App (NotFoundError REPOSITORY_NOT_FOUND))
          else P_Upsert email repo) w"
| "exec p (P_Upsert email repo) w =
     then_pc (upsertPending (op_subs p) email repo) (P_Create email repo) w"
| "exec p (P_Create email repo s) w =
     then_pc (create_saga (op_sagas p) SUBSCRIBE_SAGA_TYPE
         \<lparr>pl_subscriptionId = sub_id s, pl_email = email, pl_repo = repo\<rparr>)
       (P_Publish email repo s) w"
| "exec p (P_Publish email repo s g) w =
     then_pc (op_publish p (Confirmation (confirmationIdempotencyKey email repo (confirmToken s))
         email repo (confirmToken s) (saga_id g)))
       (\<lambda>_. P_Await g) w"
| "exec p (P_Await g) w =
     then_pc (updateState (op_sagas p) (saga_id g) AWAITING_EMAIL None) (\<lambda>_. P_Done) w"
| "exec p (P_Find reply) w =
     then_pc (findById (op_sagas p) (rep_sagaId reply))
       (\<lambda>found_saga. case found_saga of
          None \<Rightarrow> P_Done
        | Some g \<Rightarrow>
            if saga_state g \<noteq> AWAITING_EMAIL then P_Done
            else if rep_status reply = SENT then P_Complete g
            else P_Claim g (rep_reason reply) []) w"
| "exec p (P_Complete g) w =
     then_pc (transition (op_sagas p) (saga_id g) [AWAITING_EMAIL] COMPLETED None) (\<lambda>_. P_Done) w"
| "exec p (P_Scan timeoutMs) w =
     then_pc (findStuck (op_sagas p) [STARTED, AWAITING_EMAIL]
         (int (op_clock p w) - int timeoutMs)) sweep_next w"
| "exec p (P_Claim g reason gs) w =
     then_pc (transition (op_sagas p) (saga_id g) [STARTED, AWAITING_EMAIL] COMPENSATING reason)
       (\<lambda>claimed. if \<not> claimed then sweep_next gs else P_Remove g reason gs) w"
| "exec p (P_Remove g reason gs) w =
     (case deleteIfPending (op_subs p) (pl_subscriptionId (payload g)) w of
        (_, w') \<Rightarrow> (P_Settle g reason gs, w'))"
| "exec p (P_Settle g reason gs) w =
     then_pc (updateState (op_sagas p) (saga_id g) COMPENSATED reason) (\<lambda>_. sweep_next gs) w"
| "exec p (P_Token token) w =
     then_pc (findByConfirmToken (op_subs p) token)
       (\<lambda>found_sub. case found_sub of
          None \<Rightarrow> P_Failed (App (NotFoundError INVALID_CONFIRM_TOKEN))
        | Some s \<Rightarrow> if status s = ACTIVE then P_Failed (App (ConflictError ALREADY_SUBSCRIBED))
            else P_Activate (sub_id s)) w"
| "exec p (P_Activate i) w = then_pc (activate (op_subs p) i) (\<lambda>_. P_Done) w"
| "exec p (P_Leave token) w =
     then_pc (findByUnsubscribeToken (op_subs p) token)
       (\<lambda>found_sub. case found_sub of
          None \<Rightarrow> P_Failed (App (NotFoundError INVALID_UNSUBSCRIBE_TOKEN))
        | Some s \<Rightarrow> P_Delete (sub_id s)) w"
| "exec p (P_Delete i) w = then_pc (delete_subscription (op_subs p) i) (\<lambda>_. P_Done) w"
| "exec p P_Done w = (P_Done, w)"
| "exec p (P_Failed e) w = (P_Failed e, w)"

section \<open>Uninterrupted, they are the functions of the code\<close>

inductive alone :: "'w server_ops \<Rightarrow> saga_pc \<times> 'w \<Rightarrow> saga_pc \<times> 'w \<Rightarrow> bool" for p where
  alone_refl: "alone p c c"
| alone_step: "alone p (exec p pc w) c \<Longrightarrow> alone p (pc, w) c"

definition ended :: "js_error + 'a \<Rightarrow> saga_pc" where
  "ended q = (case q of Inl e \<Rightarrow> P_Failed e | Inr _ \<Rightarrow> P_Done)"

lemma ended_simps [simp]: "ended (Inl e) = P_Failed e" "ended (Inr a) = P_Done"
  by (simp_all add: ended_def)

lemma then_pc_rejected: "m w = (Inl e, w') \<Longrightarrow> then_pc m k w = (P_Failed e, w')"
  by (simp add: then_pc_def)

lemma then_pc_resolved: "m w = (Inr a, w') \<Longrightarrow> then_pc m k w = (k a, w')"
  by (simp add: then_pc_def)

lemma alone_then:
  assumes pc: "exec p pc w = then_pc m k w"
    and run: "await m f w = (q, w')"
    and cont: "\<And>a w1. m w = (Inr a, w1) \<Longrightarrow> f a w1 = (q, w') \<Longrightarrow> alone p (k a, w1) (ended q, w')"
  shows "alone p (pc, w) (ended q, w')"
proof (rule alone_step)
  from run show "alone p (exec p pc w) (ended q, w')"
  proof (cases rule: await_outcome)
    case (rejected e)
    then show ?thesis unfolding pc by (simp add: then_pc_rejected alone_refl)
  next
    case (resolved a w1)
    then show ?thesis unfolding pc using cont by (simp add: then_pc_resolved)
  qed
qed

lemma alone_last:
  assumes pc: "exec p pc w = then_pc m k w" and run: "m w = (q, w')"
    and k: "\<And>a. k a = P_Done"
  shows "alone p (pc, w) (ended q, w')"
  by (rule alone_step) (use run in \<open>cases q; simp add: pc then_pc_def k alone_refl\<close>)

lemma run_start:
  assumes "saga_start (op_sagas p) (op_subs p) (op_publish p) email repo w = (q, w')"
  shows "alone p (P_Upsert email repo, w) (ended q, w')"
  using assms unfolding saga_start_def
  by (intro alone_then [OF exec.simps(3)] alone_then [OF exec.simps(4)]
      alone_then [OF exec.simps(5)] alone_then [OF exec.simps(6)]) (auto intro: alone_refl)

lemma run_confirm:
  assumes "confirm_token (op_subs p) token w = (q, w')"
  shows "alone p (P_Token token, w) (ended q, w')"
  using assms unfolding confirm_token_def
  by (intro alone_then [OF exec.simps(13)])
    (auto intro: alone_refl alone_last [OF exec.simps(14)] split: option.splits if_splits)

lemma run_unsubscribe:
  assumes "unsubscribe_token (op_subs p) token w = (q, w')"
  shows "alone p (P_Leave token, w) (ended q, w')"
  using assms unfolding unsubscribe_token_def
  by (intro alone_then [OF exec.simps(15)])
    (auto intro: alone_refl alone_last [OF exec.simps(16)] split: option.splits if_splits)

lemma run_exists:
  assumes "await (op_exists p repo) (\<lambda>there.
      if \<not> there then throw (App (NotFoundError REPOSITORY_NOT_FOUND))
      else saga_start (op_sagas p) (op_subs p) (op_publish p) email repo) w = (q, w')"
  shows "alone p (P_Exists email repo, w) (ended q, w')"
  using assms
  by (rule alone_then [OF exec.simps(2)]) (auto intro: alone_refl run_start split: if_splits)

lemma run_subscribe:
  assumes "subscribe_to (op_subs p) (op_exists p)
    (SubscribeSaga (op_sagas p) (op_subs p) (op_publish p) clock) email repo w = (q, w')"
  shows "alone p (P_Check email repo, w) (ended q, w')"
  using assms unfolding subscribe_to_def SubscribeSaga_def subscribe_saga.simps
  by (intro alone_then [OF exec.simps(1)])
    (auto intro: alone_refl run_exists split: if_splits)

lemma removePending_eq:
  "removePendingSubscription R i w = (Inr (), snd (deleteIfPending R i w))"
  by (simp add: removePendingSubscription_def try_catch_def await_def ret_def split: prod.split sum.split)

text \<open>A compensation, and whatever the call does after it.\<close>

lemma run_compensate:
  assumes run: "compensate (op_sagas p) (op_subs p) g reason w = (q, w')"
    and next_one: "\<And>u. q = Inr u \<Longrightarrow> alone p (sweep_next gs, w') (ended q', w'')"
    and failed: "\<And>e. q = Inl e \<Longrightarrow> ended q' = P_Failed e \<and> w'' = w'"
  shows "alone p (P_Claim g reason gs, w) (ended q', w'')"
proof (rule alone_step)
  from run show "alone p (exec p (P_Claim g reason gs) w) (ended q', w'')"
    unfolding compensate_def
  proof (cases rule: await_outcome)
    case (rejected e)
    with failed [OF rejected(2)] show ?thesis by (simp add: then_pc_rejected alone_refl)
  next
    case (resolved claimed w1)
    show ?thesis
    proof (cases claimed)
      case False
      with resolved next_one show ?thesis by (simp add: then_pc_resolved)
    next
      case True
      with resolved(2) have "await (removePendingSubscription (op_subs p) (pl_subscriptionId (payload g)))
          (\<lambda>_. updateState (op_sagas p) (saga_id g) COMPENSATED reason) w1 = (q, w')" by simp
      then obtain w2 where
        del: "snd (deleteIfPending (op_subs p) (pl_subscriptionId (payload g)) w1) = w2"
        and upd: "updateState (op_sagas p) (saga_id g) COMPENSATED reason w2 = (q, w')"
        by (auto elim!: await_outcome simp: removePending_eq)
      have "alone p (P_Settle g reason gs, w2) (ended q', w'')"
        using upd next_one failed
        by (cases q) (auto intro!: alone_step [of p _ w2] simp: then_pc_def intro: alone_refl)
      with del have "alone p (P_Remove g reason gs, w1) (ended q', w'')"
        by (auto intro!: alone_step [of p _ w1] split: prod.splits)
      with True resolved(1) show ?thesis by (simp add: then_pc_resolved)
    qed
  qed
qed

lemma run_onReply:
  assumes "onReply (op_sagas p) (op_subs p) reply w = (q, w')"
  shows "alone p (P_Find reply, w) (ended q, w')"
  using assms unfolding onReply_def
proof (intro alone_then [OF exec.simps(7)], assumption)
  fix res w1
  assume k: "(case res of None \<Rightarrow> ret ()
     | Some saga \<Rightarrow>
         if saga_state saga \<noteq> AWAITING_EMAIL then ret ()
         else if rep_status reply = SENT then
           await (transition (op_sagas p) (saga_id saga) [AWAITING_EMAIL] COMPLETED None) (\<lambda>completed. ret ())
         else compensate (op_sagas p) (op_subs p) saga (rep_reason reply)) w1 = (q, w')"
  show "alone p (case res of None \<Rightarrow> P_Done
     | Some g \<Rightarrow> if saga_state g \<noteq> AWAITING_EMAIL then P_Done
         else if rep_status reply = SENT then P_Complete g
         else P_Claim g (rep_reason reply) [], w1) (ended q, w')"
  proof (cases res)
    case None
    with k show ?thesis by (simp add: alone_refl)
  next
    case (Some g)
    consider (other) "saga_state g \<noteq> AWAITING_EMAIL"
      | (sent) "saga_state g = AWAITING_EMAIL" "rep_status reply = SENT"
      | (failed) "saga_state g = AWAITING_EMAIL" "rep_status reply \<noteq> SENT" by blast
    then show ?thesis
    proof cases
      case other
      with Some k show ?thesis by (simp add: alone_refl)
    next
      case sent
      with Some k have "await (transition (op_sagas p) (saga_id g) [AWAITING_EMAIL] COMPLETED None)
          (\<lambda>completed. ret ()) w1 = (q, w')" by simp
      then have "alone p (P_Complete g, w1) (ended q, w')"
        by (rule alone_then [OF exec.simps(8)]) (simp add: alone_refl)
      with Some sent show ?thesis by simp
    next
      case failed
      with Some k have "compensate (op_sagas p) (op_subs p) g (rep_reason reply) w1 = (q, w')" by simp
      then have "alone p (P_Claim g (rep_reason reply) [], w1) (ended q, w')"
        by (rule run_compensate) (auto simp: sweep_next_def intro: alone_refl)
      with Some failed show ?thesis by simp
    qed
  qed
qed

lemma run_sweep_loop:
  assumes "for_each gs (\<lambda>g. compensate (op_sagas p) (op_subs p) g (Some timed_out)) w = (q, w')"
  shows "alone p (sweep_next gs, w) (ended q, w')"
  using assms
proof (induction gs arbitrary: w)
  case Nil
  then show ?case by (simp add: sweep_next_def alone_refl)
next
  case (Cons g gs)
  from Cons.prems have "await (compensate (op_sagas p) (op_subs p) g (Some timed_out))
      (\<lambda>_. for_each gs (\<lambda>g. compensate (op_sagas p) (op_subs p) g (Some timed_out))) w = (q, w')"
    by simp
  then have "alone p (P_Claim g (Some timed_out) gs, w) (ended q, w')"
  proof (cases rule: await_outcome)
    case (rejected e)
    then show ?thesis by (intro run_compensate [OF rejected(1)]) auto
  next
    case (resolved u w1)
    then show ?thesis by (intro run_compensate [OF resolved(1)] Cons.IH) auto
  qed
  then show ?case by (simp add: sweep_next_def)
qed

lemma run_compensateStuck:
  assumes "compensateStuck (op_sagas p) (op_subs p) (op_clock p) timeoutMs w = (q, w')"
  shows "alone p (P_Scan timeoutMs, w) (ended q, w')"
  using assms unfolding compensateStuck_def
  by (rule alone_then [OF exec.simps(9)]) (rule run_sweep_loop)

section \<open>Any number of calls, in any order\<close>

text \<open>
  A configuration is a world and the calls in flight. A step spawns a call, runs the next
  statement of one call, or lets time pass (\<open>pass n\<close> only moves the clock). \<open>run_schedule\<close>
  follows a given sequence of steps.
\<close>

datatype event = Spawn saga_pc | Run nat | Pass nat

type_synonym 'w config = "'w \<times> saga_pc list"

fun apply_event :: "'w server_ops \<Rightarrow> (nat \<Rightarrow> 'w \<Rightarrow> 'w) \<Rightarrow> event \<Rightarrow> 'w config \<Rightarrow> 'w config" where
  "apply_event p pass (Spawn pc) (w, ts) = (w, ts @ [pc])"
| "apply_event p pass (Run i) (w, ts) =
     (if i < length ts then (case exec p (ts ! i) w of (pc, w') \<Rightarrow> (w', ts[i := pc])) else (w, ts))"
| "apply_event p pass (Pass n) (w, ts) = (pass n w, ts)"

definition run_schedule :: "'w server_ops \<Rightarrow> (nat \<Rightarrow> 'w \<Rightarrow> 'w) \<Rightarrow> event list \<Rightarrow> 'w config \<Rightarrow> 'w config" where
  "run_schedule p pass es c = fold (apply_event p pass) es c"

text \<open>The first statement of each kind of call.\<close>

fun entry :: "saga_pc \<Rightarrow> bool" where
  "entry (P_Check _ _) = True"
| "entry (P_Find _) = True"
| "entry (P_Scan _) = True"
| "entry (P_Token _) = True"
| "entry (P_Leave _) = True"
| "entry _ = False"

text \<open>\<open>may\<close> says which calls clients and consumers make; each begins with its first statement.\<close>

inductive step :: "'w server_ops \<Rightarrow> (nat \<Rightarrow> 'w \<Rightarrow> 'w) \<Rightarrow> (saga_pc \<Rightarrow> bool) \<Rightarrow> 'w config \<Rightarrow> 'w config \<Rightarrow> bool"
  for p pass may where
  step_spawn: "entry pc \<Longrightarrow> may pc \<Longrightarrow> step p pass may (w, ts) (w, ts @ [pc])"
| step_run: "i < length ts \<Longrightarrow> exec p (ts ! i) w = (pc, w') \<Longrightarrow>
    step p pass may (w, ts) (w', ts[i := pc])"
| step_pass: "step p pass may (w, ts) (pass n w, ts)"

inductive_cases stepE: "step p pass may (w, ts) (w', ts')"

lemma step_cases:
  assumes "step p pass may (w, ts) (w', ts')"
  obtains (spawn) pc where "entry pc" "may pc" "w' = w" "ts' = ts @ [pc]"
    | (run) j pc where "j < length ts" "exec p (ts ! j) w = (pc, w')" "ts' = ts[j := pc]"
    | (pass) n where "w' = pass n w" "ts' = ts"
  using assms by (elim stepE) blast+

inductive reachable :: "'w server_ops \<Rightarrow> (nat \<Rightarrow> 'w \<Rightarrow> 'w) \<Rightarrow> (saga_pc \<Rightarrow> bool) \<Rightarrow> 'w config \<Rightarrow> 'w config \<Rightarrow> bool"
  for p pass may c where
  reachable_refl: "reachable p pass may c c"
| reachable_step: "reachable p pass may c c1 \<Longrightarrow> step p pass may c1 c2 \<Longrightarrow> reachable p pass may c c2"

fun legal :: "(saga_pc \<Rightarrow> bool) \<Rightarrow> event \<Rightarrow> bool" where
  "legal may (Spawn pc) = (entry pc \<and> may pc)"
| "legal may _ = True"

lemma apply_event_step:
  "legal may e \<Longrightarrow> reachable p pass may c c1 \<Longrightarrow>
    reachable p pass may c (apply_event p pass e c1)"
  by (cases e; cases c1)
    (auto split: prod.split intro: reachable_step [OF _ step_spawn] reachable_step [OF _ step_run]
      reachable_step [OF _ step_pass])

lemma run_schedule_reachable:
  "list_all (legal may) es \<Longrightarrow> reachable p pass may c (run_schedule p pass es c)"
proof (induction es rule: rev_induct)
  case Nil
  then show ?case by (simp add: run_schedule_def reachable_refl)
next
  case (snoc e es)
  then show ?case by (simp add: run_schedule_def apply_event_step)
qed

text \<open>An invariant of single steps is an invariant of runs.\<close>

lemma reachable_invariant:
  assumes "reachable p pass may (w, ts) (w', ts')" and "I w ts"
    and keeps: "\<And>w ts w' ts'. I w ts \<Longrightarrow> step p pass may (w, ts) (w', ts') \<Longrightarrow> I w' ts'"
  shows "I w' ts'"
proof -
  from assms(1) have "case (w', ts') of (v, us) \<Rightarrow> I v us"
  proof induction
    case reachable_refl
    with assms(2) show ?case by simp
  next
    case (reachable_step c1 c2)
    then show ?case by (cases c1; cases c2) (auto intro: keeps)
  qed
  then show ?thesis by simp
qed

section \<open>What one statement does to one instance\<close>

text \<open>
  \<open>starting pc\<close>: the instance a start has created and not yet marked as waiting;
  \<open>compensating pc\<close>: the instance the call has claimed for compensation;
  \<open>target pc\<close>: the instance the next statement writes.
\<close>

fun starting :: "saga_pc \<Rightarrow> string option" where
  "starting (P_Publish _ _ _ g) = Some (saga_id g)"
| "starting (P_Await g) = Some (saga_id g)"
| "starting _ = None"

fun compensating :: "saga_pc \<Rightarrow> string option" where
  "compensating (P_Remove g _ _) = Some (saga_id g)"
| "compensating (P_Settle g _ _) = Some (saga_id g)"
| "compensating _ = None"

fun target :: "saga_pc \<Rightarrow> string option" where
  "target (P_Await g) = Some (saga_id g)"
| "target (P_Complete g) = Some (saga_id g)"
| "target (P_Claim g _ _) = Some (saga_id g)"
| "target (P_Settle g _ _) = Some (saga_id g)"
| "target _ = None"

lemma sweep_next_simps [simp]:
  "starting (sweep_next gs) = None" "compensating (sweep_next gs) = None"
  by (simp_all add: sweep_next_def split: list.split)

definition same_row :: "string \<Rightarrow> saga_record set \<Rightarrow> saga_record set \<Rightarrow> bool" where
  "same_row i G G' \<longleftrightarrow> (\<forall>g. saga_id g = i \<longrightarrow> (g \<in> G' \<longleftrightarrow> g \<in> G))"

lemma same_row_refl [simp]: "same_row i G G"
  by (simp add: same_row_def)

lemma same_row_insert: "saga_id g \<noteq> i \<Longrightarrow> same_row i G (insert g G)"
  by (auto simp: same_row_def)

lemma same_row_moved: "j \<noteq> i \<Longrightarrow> same_row i G (moved t j from to err G)"
  unfolding same_row_def moved_def updated_def by (auto simp: image_iff)

lemma same_row_waiting: "same_row i G G' \<Longrightarrow> waiting S i G' \<longleftrightarrow> waiting S i G"
  by (auto simp: same_row_def waiting_def)

lemma waiting_moved:
  assumes "j = i" and "waiting from i G" and "sagas_wf G" and "to \<in> S"
  shows "waiting S i (moved t j from to err G)"
proof -
  from assms obtain g where g: "g \<in> G" "saga_id g = i" "saga_state g \<in> from" by (auto simp: waiting_def)
  from moved_one [OF assms(3) g(1,3)] g(2) assms(1)
  have "moved t j from to err G = insert (touch t (with_state to err g)) (G - {g})" by simp
  with g(2) assms(4) show ?thesis by (auto simp: waiting_def)
qed

lemma not_waiting_moved:
  assumes "\<not> waiting S i G" and "to \<notin> S"
  shows "\<not> waiting S i (moved t j from to err G)"
  using assms by (auto simp: waiting_def moved_def elim!: updated_cases)

lemma moved_not_waiting: "\<not> waiting from i G \<Longrightarrow> moved t i from to err G = G"
  by (rule moved_none) (auto simp: waiting_def)

lemma waiting_mono: "waiting S i G \<Longrightarrow> S \<subseteq> T \<Longrightarrow> waiting T i G"
  by (auto simp: waiting_def)

lemma waiting_unique:
  "sagas_wf G \<Longrightarrow> waiting S i G \<Longrightarrow> waiting T i G \<Longrightarrow> S \<inter> T \<noteq> {}"
  by (auto simp: waiting_def dest: sagas_wfD)

definition ops_of :: "'w saga_repository \<Rightarrow> 'w subscription_repository \<Rightarrow>
    (email_message \<Rightarrow> ('w, unit) async) \<Rightarrow> (string \<Rightarrow> ('w, bool) async) \<Rightarrow> ('w \<Rightarrow> nat) \<Rightarrow> 'w server_ops" where
  "ops_of G R publish exists_repo clock = \<lparr>op_sagas = G, op_subs = R, op_publish = publish,
     op_exists = exists_repo, op_clock = clock\<rparr>"

lemma ops_of_simps [simp]:
  "op_sagas (ops_of G R publish exists_repo clock) = G"
  "op_subs (ops_of G R publish exists_repo clock) = R"
  "op_publish (ops_of G R publish exists_repo clock) = publish"
  "op_exists (ops_of G R publish exists_repo clock) = exists_repo"
  "op_clock (ops_of G R publish exists_repo clock) = clock"
  by (simp_all add: ops_of_def)

lemma then_pc_cases:
  assumes "then_pc m k w = (pc, w')"
  obtains (rejected) e where "m w = (Inl e, w')" "pc = P_Failed e"
    | (resolved) a where "m w = (Inr a, w')" "pc = k a"
  using assms by (auto simp: then_pc_def split: prod.splits sum.splits)

lemma then_pc_preserves: "then_pc m k w = (pc, w') \<Longrightarrow> preserves v m \<Longrightarrow> v w' = v w"
  by (auto elim!: then_pc_cases dest: preservesD)

text \<open>Who starts, and who compensates, after a statement.\<close>

lemma exec_starting:
  assumes "exec p pc w = (pc', w')" and "starting pc' = Some i"
  shows "starting pc = Some i \<or> (\<exists>email repo s g. pc = P_Create email repo s \<and>
    pc' = P_Publish email repo s g \<and> i = saga_id g)"
  using assms
  by (cases pc) (auto elim!: then_pc_cases split: if_splits option.splits prod.splits)

lemma exec_compensating:
  assumes "exec p pc w = (pc', w')" and "compensating pc' = Some i"
  shows "compensating pc = Some i \<or> (\<exists>g reason gs. pc = P_Claim g reason gs \<and> i = saga_id g \<and>
    transition (op_sagas p) i [STARTED, AWAITING_EMAIL] COMPENSATING reason w = (Inr True, w'))"
  using assms
  by (cases pc) (auto elim!: then_pc_cases split: if_splits option.splits prod.splits)

text \<open>
  \<open>compensators i ts\<close>: the calls that have claimed instance \<open>i\<close>. \<open>controlled\<close>: the instance
  exists, no start is still working on it, and there is at most one such call, which has put it
  in \<open>COMPENSATING\<close>.
\<close>

definition compensators :: "string \<Rightarrow> saga_pc list \<Rightarrow> nat" where
  "compensators i ts = length (filter (\<lambda>t. compensating t = Some i) ts)"

definition controlled :: "string \<Rightarrow> saga_record set \<Rightarrow> saga_pc list \<Rightarrow> bool" where
  "controlled i G ts \<longleftrightarrow> sagas_wf G \<and> i \<in> saga_id ` G \<and> (\<forall>t \<in> set ts. starting t \<noteq> Some i) \<and>
     (compensators i ts = 0 \<or> compensators i ts = 1 \<and> waiting {COMPENSATING} i G)"

lemma compensators_append [simp]:
  "compensators i (ts @ us) = compensators i ts + compensators i us"
  by (simp add: compensators_def)

lemma compensators_Cons [simp]:
  "compensators i (t # ts) = (if compensating t = Some i then 1 else 0) + compensators i ts"
  "compensators i [] = 0"
  by (simp_all add: compensators_def)

lemma compensators_update:
  "j < length ts \<Longrightarrow> compensators i (ts[j := pc]) + (if compensating (ts ! j) = Some i then 1 else 0)
     = compensators i ts + (if compensating pc = Some i then 1 else 0)"
proof (induction ts arbitrary: j)
  case Nil
  then show ?case by simp
next
  case (Cons t ts)
  then show ?case by (cases j) auto
qed

lemma entry_idle: "entry pc \<Longrightarrow> starting pc = None \<and> compensating pc = None"
  by (cases pc) simp_all

text \<open>\<open>threatens s pc\<close>: a subscription to the pair of \<open>s\<close> is past its check, or a deletion of
  \<open>s\<close> is under way.\<close>

fun threatens :: "subscription \<Rightarrow> saga_pc \<Rightarrow> bool" where
  "threatens s (P_Exists email repo) = (email = sub_email s \<and> repo = repository s)"
| "threatens s (P_Upsert email repo) = (email = sub_email s \<and> repo = repository s)"
| "threatens s (P_Delete i) = (i = sub_id s)"
| "threatens s (P_Leave token) = (token = unsubscribeToken s)"
| "threatens s _ = False"

lemma threatens_sweep_next [simp]: "\<not> threatens s (sweep_next gs)"
  by (simp add: sweep_next_def split: list.split)

context service_env begin

abbreviation ops :: "'w server_ops" where
  "ops \<equiv> ops_of G R publish exists_repo clock"

lemma preserves_sagas:
  "preserves sagas (checkIfActiveExists R email repo)" "preserves sagas (exists_repo repo)"
  "preserves sagas (upsertPending R email repo)" "preserves sagas (publish m)"
  "preserves sagas (findById G i)" "preserves sagas (findStuck G states t)"
  "preserves sagas (deleteIfPending R i)" "preserves sagas (findByConfirmToken R token)"
  "preserves sagas (activate R i)" "preserves sagas (findByUnsubscribeToken R token)"
  "preserves sagas (delete_subscription R i)"
  by (rule preservesI;
      drule st.checkIfActiveExists_law rp.exists_law st.upsertPending_law mq.publish_law
        sg.findById_law sg.findStuck_law st.deleteIfPending_law st.findByConfirmToken_law
        st.activate_law st.findByUnsubscribeToken_law st.delete_law; simp)+

lemma exec_silent:
  assumes "exec ops pc w = (pc', w')" and "target pc = None" and "\<nexists>email repo s. pc = P_Create email repo s"
  shows "sagas w' = sagas w"
  using assms
  by (cases pc)
    (auto elim!: then_pc_preserves intro: preserves_sagas dest: preservesD [OF preserves_sagas(7)]
      split: prod.splits)

text \<open>An instance that exists, is not being started and is not the target is left alone.\<close>

lemma exec_frame:
  assumes run: "exec ops pc w = (pc', w')" and i: "i \<in> saga_id ` sagas w"
    and t: "target pc \<noteq> Some i"
  shows "same_row i (sagas w) (sagas w')"
proof (cases "target pc = None \<and> (\<nexists>email repo s. pc = P_Create email repo s)")
  case True
  with exec_silent [OF run] show ?thesis by simp
next
  case False
  note laws = sg.create_law sg.updateState_law sg.transition_law
  from False t run i show ?thesis
    by (cases pc)
      (auto elim!: then_pc_cases dest!: laws simp: saga_row_def same_row_moved intro!: same_row_insert)
qed

lemma exec_wf:
  assumes run: "exec ops pc w = (pc', w')" and wf: "sagas_wf (sagas w)"
  shows "sagas_wf (sagas w')"
proof (cases "target pc = None \<and> (\<nexists>email repo s. pc = P_Create email repo s)")
  case True
  with exec_silent [OF run] wf show ?thesis by simp
next
  case False
  with run show ?thesis
    by (cases pc)
      (auto elim!: then_pc_cases dest: sg.create_wf [OF wf] sg.updateState_wf [OF wf]
        sg.transition_wf [OF wf])
qed

lemma exec_ids:
  assumes run: "exec ops pc w = (pc', w')"
  shows "saga_id ` sagas w \<subseteq> saga_id ` sagas w'"
proof -
  have upd: "saga_id ` moved t j from to err S = saga_id ` S" for t j "from" to err S
    unfolding moved_def updated_def image_image by (intro image_cong) auto
  note laws = sg.create_law sg.updateState_law sg.transition_law
  show ?thesis
  proof (cases "target pc = None \<and> (\<nexists>email repo s. pc = P_Create email repo s)")
    case True
    with exec_silent [OF run] show ?thesis by simp
  next
    case False
    with run show ?thesis
      by (cases pc) (auto elim!: then_pc_cases dest!: laws simp: upd)
  qed
qed

text \<open>The statements that write instance \<open>i\<close>, once no start works on it.\<close>

lemma exec_target:
  assumes run: "exec ops pc w = (pc', w')" and wf: "sagas_wf (sagas w)"
    and t: "target pc = Some i" and st: "starting pc \<noteq> Some i"
  obtains (settle) "compensating pc = Some i" "compensating pc' \<noteq> Some i"
      "\<not> waiting open_states i (sagas w) \<Longrightarrow> \<not> waiting open_states i (sagas w')"
    | (claim) "compensating pc \<noteq> Some i" "compensating pc' = Some i" "waiting open_states i (sagas w)"
      "waiting {COMPENSATING} i (sagas w')"
    | (other) "compensating pc \<noteq> Some i" "compensating pc' \<noteq> Some i"
      "\<not> waiting open_states i (sagas w) \<Longrightarrow> sagas w' = sagas w"
proof (cases pc)
  case (P_Await g)
  with t st show ?thesis by simp
next
  case (P_Settle g reason gs)
  with run t have "\<not> waiting open_states i (sagas w')" if "\<not> waiting open_states i (sagas w)"
    using that by (auto elim!: then_pc_cases dest!: sg.updateState_law simp: not_waiting_moved)
  moreover from P_Settle run have "compensating pc' \<noteq> Some i" by (auto elim!: then_pc_cases)
  ultimately show ?thesis using P_Settle t by (intro settle) simp_all
next
  case (P_Complete g)
  have "sagas w' = sagas w" if "\<not> waiting open_states i (sagas w)"
  proof -
    from that have "\<not> waiting {AWAITING_EMAIL} i (sagas w)" by (auto simp: waiting_def)
    then have "moved (clock w) i {AWAITING_EMAIL} COMPLETED None (sagas w) = sagas w"
      by (rule moved_not_waiting)
    with P_Complete run t show ?thesis by (auto elim!: then_pc_cases dest!: sg.transition_law)
  qed
  moreover have "compensating pc' \<noteq> Some i"
    using P_Complete run by (auto elim!: then_pc_cases)
  ultimately show ?thesis using P_Complete by (intro other) simp_all
next
  case (P_Claim g reason gs)
  with t have g: "saga_id g = i" by simp
  from P_Claim run have "then_pc (transition G i [STARTED, AWAITING_EMAIL] COMPENSATING reason)
      (\<lambda>claimed. if \<not> claimed then sweep_next gs else P_Remove g reason gs) w = (pc', w')"
    by (simp add: g)
  then show ?thesis
  proof (cases rule: then_pc_cases)
    case (rejected e)
    with sg.transition_law [OF rejected(1)] P_Claim show ?thesis by (intro other) auto
  next
    case (resolved claimed)
    note law = sg.transition_law [OF resolved(1)]
    show ?thesis
    proof (cases claimed)
      case True
      with law have "waiting open_states i (sagas w)"
        "sagas w' = moved (clock w) i (set [STARTED, AWAITING_EMAIL]) COMPENSATING reason (sagas w)"
        by (auto simp: waiting_def)
      with True resolved(2) g P_Claim wf show ?thesis by (intro claim) (auto intro!: waiting_moved)
    next
      case False
      with resolved have "transition G i [STARTED, AWAITING_EMAIL] COMPENSATING reason w = (Inr False, w')"
        by simp
      from sg.transition_lost [OF this] False resolved(2) P_Claim show ?thesis by (intro other) auto
    qed
  qed
qed (use t in auto)

lemma exec_controlled:
  assumes run: "exec ops (ts ! j) w = (pc, w')" and j: "j < length ts"
    and inv: "controlled i (sagas w) ts"
  shows "controlled i (sagas w') (ts[j := pc]) \<and>
    (\<not> waiting open_states i (sagas w) \<longrightarrow> \<not> waiting open_states i (sagas w'))"
proof -
  let ?t = "ts ! j"
  from inv have wf: "sagas_wf (sagas w)" and ids: "i \<in> saga_id ` sagas w"
    and st: "\<forall>t \<in> set ts. starting t \<noteq> Some i"
    and comp: "compensators i ts = 0 \<or> compensators i ts = 1 \<and> waiting {COMPENSATING} i (sagas w)"
    by (auto simp: controlled_def)
  from st j have stj: "starting ?t \<noteq> Some i" by simp
  have stpc: "starting pc \<noteq> Some i"
  proof
    assume "starting pc = Some i"
    from exec_starting [OF run this] stj obtain email repo s g where
      *: "?t = P_Create email repo s" "pc = P_Publish email repo s g" "i = saga_id g" by blast
    with run have "then_pc (create_saga G SUBSCRIBE_SAGA_TYPE
        \<lparr>pl_subscriptionId = sub_id s, pl_email = email, pl_repo = repo\<rparr>) (P_Publish email repo s) w = (pc, w')"
      by simp
    then show False
      using * ids by (cases rule: then_pc_cases) (auto dest!: sg.create_law simp: saga_row_def)
  qed
  have base: "sagas_wf (sagas w')" "i \<in> saga_id ` sagas w'"
    "\<forall>t \<in> set (ts[j := pc]). starting t \<noteq> Some i"
    using exec_wf [OF run wf] exec_ids [OF run] ids st stpc
    by (auto dest: set_update_subset_insert [THEN subsetD])
  note upd = compensators_update [OF j, of i pc]
  show ?thesis
  proof (cases "target ?t = Some i")
    case False
    note row = exec_frame [OF run ids False]
    have keep: "compensating pc = Some i \<longrightarrow> compensating ?t = Some i"
      using exec_compensating [OF run] False by auto
    have "compensators i (ts[j := pc]) \<le> compensators i ts"
      using upd keep by (auto split: if_splits)
    with comp row base show ?thesis
      unfolding controlled_def by (auto simp: same_row_waiting)
  next
    case True
    show ?thesis
      using run wf True stj
    proof (cases rule: exec_target)
      case settle
      with upd comp have "compensators i (ts[j := pc]) = 0" by (auto split: if_splits)
      with settle(3) base show ?thesis unfolding controlled_def by blast
    next
      case claim
      have "\<not> waiting {COMPENSATING} i (sagas w)"
        using waiting_unique [OF wf claim(3), of "{COMPENSATING}"] by auto
      with comp have "compensators i ts = 0" by blast
      with upd claim have "compensators i (ts[j := pc]) = 1" by simp
      with claim(3,4) base show ?thesis unfolding controlled_def by blast
    next
      case other
      with upd have same: "compensators i (ts[j := pc]) = compensators i ts" by simp
      show ?thesis
      proof (cases "compensators i ts = 0")
        case True
        with same base other(3) show ?thesis unfolding controlled_def by auto
      next
        case False
        with comp have c: "compensators i ts = 1" "waiting {COMPENSATING} i (sagas w)" by auto
        have "\<not> waiting open_states i (sagas w)"
          using waiting_unique [OF wf c(2), of open_states] by auto
        from other(3) [OF this] have eq: "sagas w' = sagas w" .
        show ?thesis unfolding controlled_def eq using same c base unfolding eq by simp
      qed
    qed
  qed
qed

text \<open>A confirmed row stays as long as no call threatens it, and no call comes to threaten it.\<close>

lemma preserves_subs:
  "preserves subs (checkIfActiveExists R email repo)" "preserves subs (exists_repo repo)"
  "preserves subs (create_saga G ty pl)" "preserves subs (publish m)"
  "preserves subs (findById G i)" "preserves subs (findStuck G states t)"
  "preserves subs (findByConfirmToken R token)" "preserves subs (findByUnsubscribeToken R token)"
  "preserves subs (updateState G i st err)" "preserves subs (transition G i from st err)"
  by (rule preservesI;
      drule st.checkIfActiveExists_law rp.exists_law sg.create_law mq.publish_law
        sg.findById_law sg.findStuck_law st.findByConfirmToken_law st.findByUnsubscribeToken_law
        sg.updateState_law sg.transition_law; simp)+

fun writes_subs :: "saga_pc \<Rightarrow> bool" where
  "writes_subs (P_Upsert _ _) = True"
| "writes_subs (P_Remove _ _ _) = True"
| "writes_subs (P_Activate _) = True"
| "writes_subs (P_Delete _) = True"
| "writes_subs _ = False"

lemma exec_reads_subs:
  assumes "exec ops pc w = (pc', w')" and "\<not> writes_subs pc"
  shows "subs w' = subs w"
  using assms by (cases pc) (auto elim!: then_pc_preserves intro: preserves_subs)

lemma exec_subs_wf:
  assumes run: "exec ops pc w = (pc', w')" and wf: "subscriptions_wf (subs w)"
  shows "subscriptions_wf (subs w')"
proof (cases "writes_subs pc")
  case True
  with run show ?thesis
    by (cases pc)
      (auto elim!: then_pc_cases dest: st.upsertPending_wf [OF wf] st.deleteIfPending_wf [OF wf]
        st.activate_wf [OF wf] st.delete_wf [OF wf] split: prod.splits)
next
  case False
  with exec_reads_subs [OF run] wf show ?thesis by simp
qed

lemma updated_keeps: "s \<in> S \<Longrightarrow> f s = s \<or> \<not> P s \<Longrightarrow> s \<in> updated S P f"
  by (force simp: updated_def)

lemma exec_keeps_active:
  assumes run: "exec ops pc w = (pc', w')" and s: "s \<in> subs w" "status s = ACTIVE"
    and safe: "\<not> threatens s pc"
  shows "s \<in> subs w'"
proof (cases "writes_subs pc")
  case False
  with exec_reads_subs [OF run] s show ?thesis by simp
next
  case True
  then show ?thesis
  proof (cases pc)
    case (P_Upsert email repo)
    with run safe s show ?thesis
      by (auto elim!: then_pc_cases dest!: st.upsertPending_law intro!: updated_keeps)
  next
    case (P_Remove g reason gs)
    obtain q where "deleteIfPending R (pl_subscriptionId (payload g)) w = (q, w')"
      using P_Remove run by (auto split: prod.splits)
    from st.deleteIfPending_law [OF this] s show ?thesis by (cases q) auto
  next
    case (P_Activate i)
    have "s\<lparr>status := ACTIVE\<rparr> = s" using s(2) by simp
    with P_Activate run s show ?thesis
      by (auto elim!: then_pc_cases dest!: st.activate_law intro!: updated_keeps)
  next
    case (P_Delete i)
    with run safe s show ?thesis by (auto elim!: then_pc_cases dest!: st.delete_law)
  qed simp_all
qed

lemma exec_no_new_threat:
  assumes run: "exec ops pc w = (pc', w')" and wf: "subscriptions_wf (subs w)"
    and s: "s \<in> subs w" "status s = ACTIVE" and safe: "\<not> threatens s pc"
  shows "\<not> threatens s pc'"
proof (cases pc)
  case (P_Check email repo)
  with run s show ?thesis
    by (auto elim!: then_pc_cases dest!: st.checkIfActiveExists_law split: if_splits)
next
  case (P_Leave token)
  with run have "then_pc (findByUnsubscribeToken R token) (\<lambda>found_sub. case found_sub of
          None \<Rightarrow> P_Failed (App (NotFoundError INVALID_UNSUBSCRIBE_TOKEN))
        | Some s \<Rightarrow> P_Delete (sub_id s)) w = (pc', w')" by simp
  then show ?thesis
  proof (cases rule: then_pc_cases)
    case (resolved res)
    have "sub_id t \<noteq> sub_id s" if "res = Some t" for t
    proof -
      from st.findByUnsubscribeToken_law [OF resolved(1)] that
      have t: "t \<in> subs w" "unsubscribeToken t = token" by simp_all
      with P_Leave safe show ?thesis using subscriptions_wfD(1) [OF wf t(1) s(1)] by auto
    qed
    with resolved(2) show ?thesis by (auto split: option.splits)
  qed simp
qed (use run safe in \<open>auto elim!: then_pc_cases split: option.splits if_splits prod.splits\<close>)

end

section \<open>Runs of any length\<close>

locale interleaved_env = service_env +
  fixes pass :: "nat \<Rightarrow> 'a \<Rightarrow> 'a"
  assumes pass_law: "subs (pass n w) = subs w \<and> sagas (pass n w) = sagas w"
begin

lemma controlled_step:
  assumes "step ops pass may (w, ts) (w', ts')" and inv: "controlled i (sagas w) ts"
  shows "controlled i (sagas w') ts' \<and>
    (\<not> waiting open_states i (sagas w) \<longrightarrow> \<not> waiting open_states i (sagas w'))"
  using assms(1)
proof (cases rule: step_cases)
  case (spawn pc)
  with inv show ?thesis by (auto simp: controlled_def dest: entry_idle)
next
  case (run j pc)
  with exec_controlled [of ts j w pc w' i] inv show ?thesis by simp
next
  case (pass n)
  with inv pass_law [of n w] show ?thesis by simp
qed

lemma controlled_run:
  assumes "reachable ops pass may (w, ts) (w', ts')" and inv: "controlled i (sagas w) ts"
  shows "controlled i (sagas w') ts' \<and>
    (\<not> waiting open_states i (sagas w) \<longrightarrow> \<not> waiting open_states i (sagas w'))"
  by (rule reachable_invariant [OF assms(1), where I = "\<lambda>v us. controlled i (sagas v) us \<and>
      (\<not> waiting open_states i (sagas w) \<longrightarrow> \<not> waiting open_states i (sagas v))"])
    (use inv controlled_step in blast)+

lemma active_step:
  assumes "step ops pass may (w, ts) (w', ts')"
    and may: "\<not> may (P_Leave (unsubscribeToken s))" and act: "status s = ACTIVE"
    and inv: "subscriptions_wf (subs w) \<and> s \<in> subs w \<and> (\<forall>t \<in> set ts. \<not> threatens s t)"
  shows "subscriptions_wf (subs w') \<and> s \<in> subs w' \<and> (\<forall>t \<in> set ts'. \<not> threatens s t)"
  using assms(1)
proof (cases rule: step_cases)
  case (spawn pc)
  then have "\<not> threatens s pc" using may by (cases pc) auto
  with spawn inv show ?thesis by simp
next
  case (run j pc)
  then have ex: "exec ops (ts ! j) w = (pc, w')" and safe: "\<not> threatens s (ts ! j)"
    using inv by simp_all
  from exec_subs_wf [OF ex] exec_keeps_active [OF ex _ act safe]
    exec_no_new_threat [OF ex _ _ act safe] run inv
  show ?thesis by (auto dest: set_update_subset_insert [THEN subsetD])
next
  case (pass n)
  with inv pass_law [of n w] show ?thesis by simp
qed

lemma active_run:
  assumes "reachable ops pass may (w, ts) (w', ts')"
    and may: "\<not> may (P_Leave (unsubscribeToken s))" and act: "status s = ACTIVE"
    and inv: "subscriptions_wf (subs w) \<and> s \<in> subs w \<and> (\<forall>t \<in> set ts. \<not> threatens s t)"
  shows "subscriptions_wf (subs w') \<and> s \<in> subs w' \<and> (\<forall>t \<in> set ts'. \<not> threatens s t)"
  by (rule reachable_invariant [OF assms(1), where I = "\<lambda>v us. subscriptions_wf (subs v) \<and>
      s \<in> subs v \<and> (\<forall>t \<in> set us. \<not> threatens s t)", OF inv])
    (rule active_step [where may = may, OF _ may act])

end

section \<open>The calls of the server\<close>

definition server_calls :: "'w subscription_delegate \<Rightarrow> 'w saga_delegate \<Rightarrow> ('w \<Rightarrow> nat) \<Rightarrow>
    ('w, 'w channel) async \<Rightarrow> (string \<Rightarrow> ('w, bool) async) \<Rightarrow> 'w server_ops" where
  "server_calls sdb gdb clock getChannel exists_repo =
     ops_of (SagaRepository gdb) (SubscriptionRepository sdb) (RabbitEmailQueue_publish getChannel)
       exists_repo clock"

lemma server_interleaved:
  assumes "server_service_env sdb subs gdb sagas clock getChannel broker other exists_repo"
    and "\<And>n w. subs (pass n w) = subs w \<and> sagas (pass n w) = sagas w"
  shows "interleaved_env (SubscriptionRepository sdb) subs (SagaRepository gdb) sagas clock
     (RabbitEmailQueue_publish getChannel) (\<lambda>w. emails_on_queue (broker w)) other exists_repo pass"
  using assms by (intro interleaved_env.intro server_service_env.service_env interleaved_env_axioms.intro)

definition mem_pass :: "nat \<Rightarrow> server_world \<Rightarrow> server_world" where
  "mem_pass n w = w\<lparr>w_clock := w_clock w + n\<rparr>"

lemma mem_pass_law:
  "set (w_subs (mem_pass n w)) = set (w_subs w) \<and> set (w_sagas (mem_pass n w)) = set (w_sagas w)"
  by (simp add: mem_pass_def)

abbreviation mem_calls :: "server_world server_ops" where
  "mem_calls \<equiv> server_calls mem_subscriptions mem_sagas w_clock (ret mem_channel) (\<lambda>repo. ret (repo = ''o/r''))"

interpretation mem_interleaved: interleaved_env "SubscriptionRepository mem_subscriptions"
    "\<lambda>w. set (w_subs w)" "SagaRepository mem_sagas" "\<lambda>w. set (w_sagas w)" w_clock
    "RabbitEmailQueue_publish (ret mem_channel)" "\<lambda>w. emails_on_queue (w_broker w)" w_closed
    "\<lambda>repo. ret (repo = ''o/r'')" mem_pass
  by (rule server_interleaved [where pass = mem_pass, OF mem_env.server_service_env_axioms mem_pass_law])

lemmas mem_exec_defs =
  server_calls_def run_schedule_def mem_pass_def then_pc_def sweep_next_def server_instance_defs
  RabbitEmailQueue_publish_def io_defs started_server_def pending_sub_def saga_in_def

section \<open>Properties\<close>

text \<open>The interleaving semantics runs the code: a call of each kind that is never interrupted
  ends as the function it stands for ends, in the same world.\<close>

lemma uninterrupted_calls_run_the_code:
  fixes p :: "'w server_ops"
  defines "saga \<equiv> SubscribeSaga (op_sagas p) (op_subs p) (op_publish p) (op_clock p)"
  shows "(subscribe_to (op_subs p) (op_exists p) saga email repo w = (q, w') \<longrightarrow>
      alone p (P_Check email repo, w) (ended q, w')) \<and>
    (on_reply saga reply w = (u, w') \<longrightarrow> alone p (P_Find reply, w) (ended u, w')) \<and>
    (compensate_stuck saga timeoutMs w = (u, w') \<longrightarrow> alone p (P_Scan timeoutMs, w) (ended u, w')) \<and>
    (confirm_token (op_subs p) token w = (q, w') \<longrightarrow> alone p (P_Token token, w) (ended q, w')) \<and>
    (unsubscribe_token (op_subs p) token w = (q, w') \<longrightarrow> alone p (P_Leave token, w) (ended q, w'))"
  unfolding saga_def
  using run_subscribe run_onReply run_compensateStuck run_confirm run_unsubscribe
  by (auto simp: SubscribeSaga_def)

text \<open>C12. Whatever calls run and however their statements interleave, an instance whose start is
  over is compensated by at most one call at a time, which holds it in \<open>COMPENSATING\<close>, and once it
  has left \<open>STARTED\<close> and \<open>AWAITING_EMAIL\<close> it never returns to them.\<close>

theorem at_most_one_compensation:
  assumes env: "server_service_env sdb subs gdb sagas clock getChannel broker other exists_repo"
    and pass: "\<And>n w. subs (pass n w) = subs w \<and> sagas (pass n w) = sagas w"
    and reach: "reachable (server_calls sdb gdb clock getChannel exists_repo) pass may (w, ts) (w', ts')"
    and inv: "controlled i (sagas w) ts"
  shows "compensators i ts' \<le> 1 \<and>
    (compensators i ts' = 1 \<longrightarrow> waiting {COMPENSATING} i (sagas w')) \<and>
    (\<not> waiting open_states i (sagas w) \<longrightarrow> \<not> waiting open_states i (sagas w'))"
  using interleaved_env.controlled_run [OF server_interleaved [where pass = pass, OF env pass]
      reach [unfolded server_calls_def] inv]
  by (auto simp: controlled_def)

definition two_compensations :: "event list" where
  "two_compensations = [Spawn (P_Find failed_reply), Spawn (P_Scan 3), Run 0, Run 1, Run 0, Run 1]"

lemma two_compensations_example:
  "run_schedule mem_calls mem_pass two_compensations (started_server AWAITING_EMAIL 7, []) =
     ((started_server AWAITING_EMAIL 7)\<lparr>w_sagas := [saga_in COMPENSATING (Some ''bounced'') 7]\<rparr>,
      [P_Remove (saga_in AWAITING_EMAIL None 0) (Some ''bounced'') [], P_Done])"
  by code_simp

theorem at_most_one_compensation_witness:
  "compensators ''x'' (snd (run_schedule mem_calls mem_pass two_compensations
     (started_server AWAITING_EMAIL 7, []))) \<le> 1"
proof -
  have r: "reachable mem_calls mem_pass (\<lambda>_. True) (started_server AWAITING_EMAIL 7, [])
      (run_schedule mem_calls mem_pass two_compensations (started_server AWAITING_EMAIL 7, []))"
    by (rule run_schedule_reachable) (simp add: two_compensations_def)
  have inv: "controlled ''x'' (set (w_sagas (started_server AWAITING_EMAIL 7))) []"
    unfolding controlled_def
    by (intro conjI started_server_wf) (simp_all add: started_server_def saga_in_def)
  show ?thesis
    using at_most_one_compensation [OF mem_env.server_service_env_axioms mem_pass_law
        r [unfolded two_compensations_example] inv]
    by (simp add: two_compensations_example)
qed

text \<open>C11. A confirmed subscription survives every interleaving of starts, replies, sweeps and
  confirmations, as long as its own unsubscribe link is not used and no subscription to the same
  pair was past its check when it was confirmed.\<close>

theorem confirmed_subscription_survives:
  assumes env: "server_service_env sdb subs gdb sagas clock getChannel broker other exists_repo"
    and pass: "\<And>n w. subs (pass n w) = subs w \<and> sagas (pass n w) = sagas w"
    and reach: "reachable (server_calls sdb gdb clock getChannel exists_repo) pass may (w, ts) (w', ts')"
    and link: "\<not> may (P_Leave (unsubscribeToken s))"
    and wf: "subscriptions_wf (subs w)" and s: "s \<in> subs w" "status s = ACTIVE"
    and safe: "\<forall>t \<in> set ts. \<not> threatens s t"
  shows "s \<in> subs w' \<and> subscriptions_wf (subs w')"
  using interleaved_env.active_run [OF server_interleaved [where pass = pass, OF env pass]
      reach [unfolded server_calls_def] link s(2)] wf s safe
  by blast

definition compensate_confirmed :: "event list" where
  "compensate_confirmed = [Spawn (P_Find failed_reply), Run 0, Run 0, Run 0, Run 0]"

definition saga_only :: "saga_pc \<Rightarrow> bool" where
  "saga_only pc \<longleftrightarrow> pc = P_Find failed_reply"

lemma compensate_confirmed_example:
  "run_schedule mem_calls mem_pass compensate_confirmed (confirmed_server, []) =
     (confirmed_server\<lparr>w_sagas := [saga_in COMPENSATED (Some ''bounced'') 0]\<rparr>, [P_Done])"
  by code_simp

theorem confirmed_subscription_survives_witness:
  "pending_sub\<lparr>status := ACTIVE\<rparr>
     \<in> set (w_subs (confirmed_server\<lparr>w_sagas := [saga_in COMPENSATED (Some ''bounced'') 0]\<rparr>))"
proof -
  have r: "reachable mem_calls mem_pass saga_only (confirmed_server, [])
      (run_schedule mem_calls mem_pass compensate_confirmed (confirmed_server, []))"
    by (rule run_schedule_reachable) (simp add: compensate_confirmed_def saga_only_def)
  have no_link: "\<not> saga_only (P_Leave (unsubscribeToken (pending_sub\<lparr>status := ACTIVE\<rparr>)))"
    by (simp add: saga_only_def)
  have wf: "subscriptions_wf (set (w_subs confirmed_server))"
    "pending_sub\<lparr>status := ACTIVE\<rparr> \<in> set (w_subs confirmed_server)"
    "status (pending_sub\<lparr>status := ACTIVE\<rparr>) = ACTIVE"
    "\<forall>t \<in> set []. \<not> threatens (pending_sub\<lparr>status := ACTIVE\<rparr>) t"
    by (simp_all add: confirmed_server_def subscriptions_wf_def unique_by_def)
  show ?thesis
    using confirmed_subscription_survives [OF mem_env.server_service_env_axioms mem_pass_law
        r [unfolded compensate_confirmed_example] no_link wf] by (rule conjunct1)
qed

definition early_reply :: "nat \<Rightarrow> event list" where
  "early_reply T = [Spawn (P_Check ''a@b'' ''o/r''), Run 0, Run 0, Run 0, Run 0, Run 0,
     Spawn (P_Find sent_reply), Run 1, Run 0, Pass (Suc T), Spawn (P_Scan T), Run 2, Run 2, Run 2, Run 2]"

text \<open>A reply can overtake the start. Between the publication and the last statement of a start
  the instance is still \<open>STARTED\<close>: a \<open>SENT\<close> reply that arrives there is dropped, the instance then
  waits for an email that has been sent, and the sweep removes the pending subscription, whatever
  the timeout is. All three calls end without an error.\<close>

lemma reply_before_awaiting_is_lost:
  "\<exists>w. run_schedule mem_calls mem_pass (early_reply T) (empty_server, []) = (w, [P_Done, P_Done, P_Done])
     \<and> rep_status sent_reply = SENT \<and> w_subs w = [] \<and> map saga_state (w_sagas w) = [COMPENSATED]"
  by (simp add: early_reply_def sent_reply_def mem_exec_defs)

definition late_start :: "nat \<Rightarrow> event list" where
  "late_start T = [Spawn (P_Check ''a@b'' ''o/r''), Run 0, Run 0, Run 0, Run 0,
     Pass (Suc T), Spawn (P_Scan T), Run 1, Run 1, Run 1, Run 1, Run 0, Run 0,
     Spawn (P_Find sent_reply), Run 2, Run 2, Spawn (P_Token ''x''), Run 3]"

text \<open>The last statement of a start overwrites whatever happened to its instance. When the
  broker takes longer than the timeout to confirm the message, the sweep compensates the instance
  and removes the subscription; the start then still ends without an error, its instance waits
  again, and a \<open>SENT\<close> reply completes it, while the subscription is gone: the token the message
  carries can no longer be confirmed.\<close>

lemma late_start_revives_instance:
  "\<exists>w. run_schedule mem_calls mem_pass (late_start T) (empty_server, []) =
       (w, [P_Done, P_Done, P_Done, P_Failed (App (NotFoundError INVALID_CONFIRM_TOKEN))]) \<and>
     map saga_state (w_sagas w) = [COMPLETED] \<and> w_subs w = [] \<and>
     map msg_confirmToken (emails_on_queue (w_broker w)) = [''x'']"
proof -
  have mail: "emails_on_queue [Sent EMAIL_QUEUE_NAME (Text (email_message_json m)) h] = [m]" for m h
    by (rule emails_on_queue_simps)
  show ?thesis
    by (simp add: late_start_def sent_reply_def mem_exec_defs mail del: email_message_json.simps)
qed

definition demoted :: "event list" where
  "demoted = [Spawn (P_Check ''a@b'' ''o/r''), Run 0, Spawn (P_Token ''x''), Run 1, Run 1, Run 0, Run 0]"

text \<open>A subscription request that passed its check before the subscription was confirmed puts
  the confirmed row back to \<open>PENDING\<close>: the confirmation ended without an error, and yet the
  address is no longer subscribed.\<close>

lemma concurrent_subscribe_demotes_confirmed:
  "\<exists>w t. run_schedule mem_calls mem_pass demoted (started_server AWAITING_EMAIL 0, []) = (w, [t, P_Done])
     \<and> w_subs w = [pending_sub]"
  by (simp add: demoted_def mem_exec_defs)

end
