(* ===== verification/Mail_Service.thy ===== *)
theory Mail_Service
  imports Publishers
begin

text \<open>
  The mails of \<open>notification-service/src/modules/sender\<close>: the templates
  (\<open>templates/mail.template.ts\<close>), \<open>NotifierService\<close> (\<open>services/mail.service.ts\<close>), \<open>SmtpProvider\<close>
  (\<open>mail.provider.ts\<close>) and the metered decorator. The transporter of nodemailer is the parameter
  \<open>sendMail\<close>, the base URL of the configuration is the parameter \<open>baseUrl\<close>. A text outside ASCII is
  written as the code points of the source; a \<open>string\<close> holds their UTF-8 encoding.
\<close>

section \<open>Text\<close>

definition utf8_bytes :: "nat \<Rightarrow> nat list" where
  "utf8_bytes n =
     (if n < 128 then [n]
      else if n < 2048 then [192 + n div 64, 128 + n mod 64]
      else if n < 65536 then [224 + n div 4096, 128 + n div 64 mod 64, 128 + n mod 64]
      else [240 + n div 262144, 128 + n div 4096 mod 64, 128 + n div 64 mod 64, 128 + n mod 64])"

definition utf8 :: "nat list \<Rightarrow> string" where
  "utf8 ns = map char_of (concat (map utf8_bytes ns))"

fun text_lines :: "string list \<Rightarrow> string" where
  "text_lines [] = []"
| "text_lines [l] = l"
| "text_lines (l # ls) = l @ CHR 0x0A # text_lines ls"

section \<open>Templates\<close>

definition getReleaseEmailTemplate :: "string \<Rightarrow> string \<Rightarrow> string \<Rightarrow> string" where
  \<open>getReleaseEmailTemplate repoName tagName unsubscribeUrl = text_lines [
      '''',
      ''    <div style="font-family: Arial, sans-serif; max-width: 600px; margin: 0 auto; padding: 20px; border: 1px solid #eaeaea; border-radius: 10px;">'',
      ''      <h2 style="color: #2b3137;"> '' @ utf8 [1053, 1086, 1074, 1080, 1081, 32, 1088, 1077, 1083, 1110,
        1079, 32, 1085, 1072] @ '' GitHub!</h2>'',
      ''      <p style="font-size: 16px; color: #24292e;">'',
      ''        '' @ utf8 [1055, 1088, 1080, 1074, 1110, 1090, 33, 32, 1056, 1077, 1087, 1086, 1079, 1080, 1090,
        1086, 1088, 1110, 1081, 44, 32, 1079, 1072, 32, 1103, 1082, 1080, 1084, 32, 1090, 1080, 32, 1089, 1090,
        1077, 1078, 1080, 1096, 44, 32, 1097, 1086, 1081, 1085, 1086, 32, 1086, 1085, 1086, 1074, 1080, 1074, 1089,
        1103] @ ''.'',
      ''      </p>'',
      ''      <div style="background-color: #f6f8fa; padding: 15px; border-radius: 6px; margin: 20px 0;">'',
      ''        <p style="margin: 0; font-size: 18px;">'' @ utf8 [128230] @ '' <strong>'' @ utf8 [1056, 1077, 1087,
        1086, 1079, 1080, 1090, 1086, 1088, 1110, 1081] @ '':</strong> '' @ repoName @ ''</p>'',
      ''        <p style="margin: 10px 0 0 0; font-size: 18px; color: #0366d6;">'' @ utf8 [127991, 65039] @
        '' <strong>'' @ utf8 [1058, 1077, 1075] @ '':</strong> '' @ tagName @ ''</p>'',
      ''      </div>'',
      ''      <div style="text-align: center;">'',
      ''        <a href="https://github.com/'' @ repoName @ ''/releases/tag/'' @ tagName @ ''"'',
      ''           style="display: inline-block; background-color: #2ea44f; color: white; padding: 10px 20px; text-decoration: none; border-radius: 5px; font-weight: bold;">'',
      ''          '' @ utf8 [1055, 1077, 1088, 1077, 1075, 1083, 1103, 1085, 1091, 1090, 1080, 32, 1085, 1072] @
        '' GitHub'',
      ''        </a>'',
      ''      </div>'',
      '''',
      ''      <hr style="border: 0; border-top: 1px solid #eaeaea; margin: 30px 0;">'',
      '''',
      ''      <p style="font-size: 12px; color: #6a737d; text-align: center;">'',
      ''        '' @ utf8 [1042, 1080, 32, 1086, 1090, 1088, 1080, 1084, 1072, 1083, 1080, 32, 1094, 1077, 1081,
        32, 1083, 1080, 1089, 1090, 44, 32, 1073, 1086, 32, 1087, 1110, 1076, 1087, 1080, 1089, 1072, 1083, 1080,
        1089, 1103, 32, 1085, 1072, 32, 1086, 1085, 1086, 1074, 1083, 1077, 1085, 1085, 1103, 32, 1095, 1077, 1088,
        1077, 1079] @ '' Git Release Notifier.'',
      ''        <br><br>'',
      ''        <a href="'' @ unsubscribeUrl @ ''" style="color: #0366d6; text-decoration: underline;">'',
      ''          '' @ utf8 [1057, 1082, 1072, 1089, 1091, 1074, 1072, 1090, 1080, 32, 1087, 1110, 1076, 1087,
        1080, 1089, 1082, 1091, 32, 1085, 1072, 32, 1094, 1077, 1081, 32, 1088, 1077, 1087, 1086, 1079, 1080, 1090,
        1086, 1088, 1110, 1081],
      ''        </a>'',
      ''      </p>'',
      ''    </div>'',
      ''  ''
   ]\<close>

definition getConfirmationEmailTemplate :: "string \<Rightarrow> string \<Rightarrow> string" where
  \<open>getConfirmationEmailTemplate repoName confirmUrl = text_lines [
      '''',
      ''    <div style="font-family: Arial, sans-serif; max-width: 600px; margin: 0 auto; padding: 20px; border: 1px solid #eaeaea; border-radius: 10px;">'',
      ''      <h2 style="color: #2b3137;"> '' @ utf8 [1055, 1110, 1076, 1090, 1074, 1077, 1088, 1076, 1078, 1077,
        1085, 1085, 1103, 32, 1087, 1110, 1076, 1087, 1080, 1089, 1082, 1080] @ ''</h2>'',
      ''      <p style="font-size: 16px; color: #24292e;">'',
      ''        '' @ utf8 [1042, 1080, 32, 40, 1072, 1073, 1086, 32, 1093, 1090, 1086, 1089, 1100, 32, 1110, 1085,
        1096, 1080, 1081, 41, 32, 1079, 1072, 1087, 1088, 1086, 1089, 1080, 1083, 1080, 32, 1087, 1110, 1076, 1087,
        1080, 1089, 1082, 1091, 32, 1085, 1072, 32, 1086, 1085, 1086, 1074, 1083, 1077, 1085, 1085, 1103, 32, 1088,
        1077, 1087, 1086, 1079, 1080, 1090, 1086, 1088, 1110, 1102] @ '' <strong>'' @ repoName @ ''</strong>.'',
      ''      </p>'',
      ''      <p style="font-size: 16px; color: #24292e;">'',
      ''        '' @ utf8 [1065, 1086, 1073, 32, 1087, 1086, 1095, 1072, 1090, 1080, 32, 1086, 1090, 1088, 1080,
        1084, 1091, 1074, 1072, 1090, 1080, 32, 1089, 1087, 1086, 1074, 1110, 1097, 1077, 1085, 1085, 1103, 32,
        1087, 1088, 1086, 32, 1085, 1086, 1074, 1110, 32, 1088, 1077, 1083, 1110, 1079, 1080, 44, 32, 1073, 1091,
        1076, 1100, 32, 1083, 1072, 1089, 1082, 1072, 44, 32, 1087, 1110, 1076, 1090, 1074, 1077, 1088, 1076, 1110,
        1090, 1100, 32, 1089, 1074, 1086, 1102, 32, 1077, 1083, 1077, 1082, 1090, 1088, 1086, 1085, 1085, 1091, 32,
        1072, 1076, 1088, 1077, 1089, 1091, 44, 32, 1085, 1072, 1090, 1080, 1089, 1085, 1091, 1074, 1096, 1080, 32,
        1085, 1072, 32, 1082, 1085, 1086, 1087, 1082, 1091, 32, 1085, 1080, 1078, 1095, 1077] @ '':'',
      ''      </p>'',
      ''      <div style="text-align: center; margin: 30px 0;">'',
      ''        <a href="'' @ confirmUrl @ ''"'',
      ''           style="display: inline-block; background-color: #2ea44f; color: white; padding: 12px 24px; text-decoration: none; border-radius: 5px; font-weight: bold; font-size: 16px;">'',
      ''          '' @ utf8 [1055, 1110, 1076, 1090, 1074, 1077, 1088, 1076, 1080, 1090, 1080, 32, 1087, 1110,
        1076, 1087, 1080, 1089, 1082, 1091],
      ''        </a>'',
      ''      </div>'',
      ''      <p style="margin-top: 30px; font-size: 12px; color: #6a737d;">'',
      ''        '' @ utf8 [1071, 1082, 1097, 1086, 32, 1074, 1080, 32, 1085, 1077, 32, 1088, 1086, 1073, 1080,
        1083, 1080, 32, 1094, 1077, 1081, 32, 1079, 1072, 1087, 1080, 1090, 44, 32, 1087, 1088, 1086, 1089, 1090,
        1086, 32, 1087, 1088, 1086, 1110, 1075, 1085, 1086, 1088, 1091, 1081, 1090, 1077, 32, 1094, 1077, 1081, 32,
        1083, 1080, 1089, 1090] @ ''.'',
      ''        <br>'' @ utf8 [1055, 1086, 1089, 1080, 1083, 1072, 1085, 1085, 1103, 32, 1076, 1110, 1081, 1089,
        1085, 1077, 32, 1076, 1083, 1103, 32, 1086, 1076, 1085, 1086, 1088, 1072, 1079, 1086, 1074, 1086, 1075,
        1086, 32, 1074, 1080, 1082, 1086, 1088, 1080, 1089, 1090, 1072, 1085, 1085, 1103] @ ''.'',
      ''      </p>'',
      ''    </div>'',
      ''  ''
   ]\<close>

section \<open>The provider\<close>

record send_options =
  mail_to :: string
  mail_subject :: string
  mail_html :: string

definition MAIL_FROM :: string where
  \<open>MAIL_FROM = ''"Git Release Notifier" <noreply@notifier.com>''\<close>

definition SmtpProvider_sendEmail :: "(string \<Rightarrow> send_options \<Rightarrow> ('w, unit) async) \<Rightarrow> send_options \<Rightarrow> ('w, unit) async" where
  "SmtpProvider_sendEmail sendMail options =
     try_catch (await (sendMail MAIL_FROM options) (\<lambda>info. ret ())) (\<lambda>error. throw error)"

section \<open>The notifier\<close>

record 'w notifier =
  sendReleaseNotification :: "release_payload \<Rightarrow> ('w, unit) async"
  sendConfirmationEmail :: "string \<Rightarrow> string \<Rightarrow> string \<Rightarrow> ('w, unit) async"

definition release_mail :: "string \<Rightarrow> release_payload \<Rightarrow> send_options" where
  "release_mail baseUrl p =
     \<lparr>mail_to = rp_email p,
      mail_subject = utf8 [1053, 1086, 1074, 1080, 1081, 32, 1088, 1077, 1083, 1110, 1079] @ '': '' @ rp_repo p @ '' '' @ rp_tag p,
      mail_html = getReleaseEmailTemplate (rp_repo p) (rp_tag p) (baseUrl @ ''/unsubscribe/'' @ rp_unsubscribeToken p)\<rparr>"

definition confirmation_mail :: "string \<Rightarrow> string \<Rightarrow> string \<Rightarrow> string \<Rightarrow> send_options" where
  "confirmation_mail baseUrl email repoFullName token =
     \<lparr>mail_to = email,
      mail_subject = utf8 [1055, 1110, 1076, 1090, 1074, 1077, 1088, 1076, 1110, 1090, 1100, 32, 1087, 1110, 1076, 1087, 1080, 1089, 1082, 1091, 32, 1085, 1072] @ '' '' @ repoFullName,
      mail_html = getConfirmationEmailTemplate repoFullName (baseUrl @ ''/confirm/'' @ token)\<rparr>"

definition NotifierService :: "string \<Rightarrow> (send_options \<Rightarrow> ('w, unit) async) \<Rightarrow> 'w notifier" where
  "NotifierService baseUrl sendEmail =
     \<lparr>sendReleaseNotification = (\<lambda>p. sendEmail (release_mail baseUrl p)),
      sendConfirmationEmail = (\<lambda>email repoFullName token. sendEmail (confirmation_mail baseUrl email repoFullName token))\<rparr>"

text \<open>The decorator, with the timer and the counters (\<open>release\<close> or \<open>confirmation\<close>, success or failure) as operations.\<close>

definition timed :: "('w, unit) async \<Rightarrow> ('w, 'a) async \<Rightarrow> ('w, 'a) async" where
  "timed stop_timer fn = finally_do fn stop_timer"

definition metered :: "('w, unit) async \<Rightarrow> (bool \<Rightarrow> ('w, unit) async) \<Rightarrow> ('w, unit) async \<Rightarrow> ('w, unit) async" where
  "metered stop_timer tally send_it =
     try_catch (await (timed stop_timer send_it) (\<lambda>_. tally True)) (\<lambda>error. await (tally False) (\<lambda>_. throw error))"

definition MeteredNotifierService :: "('w, unit) async \<Rightarrow> (string \<Rightarrow> bool \<Rightarrow> ('w, unit) async) \<Rightarrow> 'w notifier \<Rightarrow> 'w notifier" where
  "MeteredNotifierService stop_timer tally N =
     \<lparr>sendReleaseNotification = (\<lambda>p. metered stop_timer (tally ''release'') (sendReleaseNotification N p)),
      sendConfirmationEmail = (\<lambda>email repo token. metered stop_timer (tally ''confirmation'') (sendConfirmationEmail N email repo token))\<rparr>"

section \<open>Markup\<close>

text \<open>How often a character that ends or begins markup occurs. Text outside ASCII has none.\<close>

definition markup :: "string \<Rightarrow> nat" where
  "markup s = count_list s (CHR ''<'')"

lemma markup_simps [simp]:
  "markup [] = 0" "markup (s @ t) = markup s + markup t"
  "markup (c # s) = (if c = CHR ''<'' then Suc (markup s) else markup s)"
  by (simp_all add: markup_def)

lemma markup_text_lines: "markup (text_lines ls) = sum_list (map markup ls)"
  by (induction ls rule: text_lines.induct) simp_all

lemma utf8_bytes_markup:
  assumes "n < 1114112" and "n \<noteq> 60" and "b \<in> set (utf8_bytes n)"
  shows "b < 256 \<and> b \<noteq> 60"
proof -
  consider "n < 128" | "128 \<le> n" "n < 2048" | "2048 \<le> n" "n < 65536" | "65536 \<le> n" by linarith
  then show ?thesis
  proof cases
    case 1
    with assms show ?thesis by (simp add: utf8_bytes_def)
  next
    case 2
    then have "n div 64 < 32" by (simp add: less_mult_imp_div_less)
    moreover have "n mod 64 < 64" by simp
    ultimately show ?thesis using 2 assms(3) by (auto simp: utf8_bytes_def)
  next
    case 3
    then have "n div 4096 < 16" by (simp add: less_mult_imp_div_less)
    moreover have "n mod 64 < 64" "n div 64 mod 64 < 64" by simp_all
    ultimately show ?thesis using 3 assms(3) by (auto simp: utf8_bytes_def)
  next
    case 4
    have "n div 262144 < 5" using assms(1) by (simp add: less_mult_imp_div_less)
    moreover have "n mod 64 < 64" "n div 64 mod 64 < 64" "n div 4096 mod 64 < 64" by simp_all
    ultimately show ?thesis using 4 assms(3) by (auto simp: utf8_bytes_def)
  qed
qed

lemma markup_utf8:
  assumes "list_all (\<lambda>n. n < 1114112 \<and> n \<noteq> 60) ns"
  shows "markup (utf8 ns) = 0"
proof -
  have "CHR ''<'' \<notin> set (utf8 ns)"
  proof
    assume "CHR ''<'' \<in> set (utf8 ns)"
    then obtain n b where "n \<in> set ns" "b \<in> set (utf8_bytes n)" "char_of b = CHR ''<''" by (auto simp: utf8_def)
    with assms utf8_bytes_markup [of n b] have "b < 256" "b \<noteq> 60" "char_of b = CHR ''<''"
      by (auto simp: list_all_iff)
    moreover have "(of_char (char_of b :: char) :: nat) = b mod 256" by (rule of_char_of)
    ultimately show False by simp
  qed
  then show ?thesis by (simp add: markup_def)
qed

lemma release_template_markup:
  "markup (getReleaseEmailTemplate repo tag url) = 27 + 2 * markup repo + 2 * markup tag + markup url"
  unfolding getReleaseEmailTemplate_def markup_text_lines by (simp add: markup_utf8)

lemma confirmation_template_markup:
  "markup (getConfirmationEmailTemplate repo url) = 17 + markup repo + markup url"
  unfolding getConfirmationEmailTemplate_def markup_text_lines by (simp add: markup_utf8)

end
