(* ===== verification/Redis_Client.thy ===== *)
theory Redis_Client
  imports App_Error
begin

text \<open>
  The part of the Redis client (\<open>ioredis\<close>) the services call: \<open>GET\<close>, \<open>SET key value EX ttl\<close>
  with and without \<open>NX\<close>, \<open>DEL\<close> and \<open>EVAL\<close> of a script on one key and one argument. A key has a
  value and the second it expires at; an expired key is as good as absent. A script is a function
  of the time and the keys, run atomically.

  \<open>keys w\<close> are the keys and \<open>now w\<close> is the time of the last command, both as the Redis server
  sees them, so time passes from one command to the next. A command that is rejected (a lost
  connection) may or may not have been carried out.
\<close>

section \<open>Keys with an expiry\<close>

type_synonym keyspace = "string \<Rightarrow> (string \<times> nat) option"

definition live :: "keyspace \<Rightarrow> nat \<Rightarrow> string \<Rightarrow> string option" where
  "live ks t k = (case ks k of None \<Rightarrow> None | Some (v, deadline) \<Rightarrow> if t < deadline then Some v else None)"

definition kv_set :: "string \<Rightarrow> string \<Rightarrow> nat \<Rightarrow> nat \<Rightarrow> keyspace \<Rightarrow> keyspace" where
  "kv_set k v ttl t ks = ks(k \<mapsto> (v, t + ttl))"

definition kv_set_nx :: "string \<Rightarrow> string \<Rightarrow> nat \<Rightarrow> nat \<Rightarrow> keyspace \<Rightarrow> bool \<times> keyspace" where
  "kv_set_nx k v ttl t ks =
     (if live ks t k = None then (True, kv_set k v ttl t ks) else (False, ks))"

definition kv_del :: "string \<Rightarrow> keyspace \<Rightarrow> keyspace" where
  "kv_del k ks = ks(k := None)"

text \<open>\<open>DEL\<close> answers how many keys it removed.\<close>

definition kv_del_count :: "string \<Rightarrow> nat \<Rightarrow> keyspace \<Rightarrow> int \<times> keyspace" where
  "kv_del_count k t ks = (if live ks t k = None then 0 else 1, kv_del k ks)"

lemma live_kv_set [simp]:
  "live (kv_set k v ttl t ks) t' k' = (if k' = k then (if t' < t + ttl then Some v else None) else live ks t' k')"
  by (simp add: live_def kv_set_def)

lemma live_kv_del [simp]: "live (kv_del k ks) t k' = (if k' = k then None else live ks t k')"
  by (simp add: live_def kv_del_def)

lemma live_later: "live ks t' k = Some v \<Longrightarrow> t \<le> t' \<Longrightarrow> live ks t k = Some v"
  by (auto simp: live_def split: option.splits if_splits)

lemma dead_later: "live ks t k = None \<Longrightarrow> t \<le> t' \<Longrightarrow> live ks t' k = None"
  by (auto simp: live_def split: option.splits if_splits)

lemma still_live: "live ks t' k \<noteq> None \<Longrightarrow> t \<le> t' \<Longrightarrow> live ks t k \<noteq> None"
  by (auto simp: live_def split: option.splits if_splits)

lemma live_before_deadline: "ks k = Some (v, d) \<Longrightarrow> t < d \<Longrightarrow> live ks t k = Some v"
  by (simp add: live_def)

section \<open>The client\<close>

type_synonym script = "string \<Rightarrow> string \<Rightarrow> nat \<Rightarrow> keyspace \<Rightarrow> int \<times> keyspace"

record 'w redis_client =
  redis_get :: "string \<Rightarrow> ('w, string option) async"
  redis_set :: "string \<Rightarrow> string \<Rightarrow> nat \<Rightarrow> ('w, unit) async"
  redis_set_nx :: "string \<Rightarrow> string \<Rightarrow> nat \<Rightarrow> ('w, bool) async"
  redis_del :: "string \<Rightarrow> ('w, unit) async"
  redis_eval :: "script \<Rightarrow> string \<Rightarrow> string \<Rightarrow> ('w, int) async"

text \<open>\<open>commanded f q w w'\<close>: a command with effect and answer \<open>f\<close> was carried out at some time not
  before \<open>now w\<close>, or it was rejected.\<close>

definition commanded :: "('w \<Rightarrow> keyspace) \<Rightarrow> ('w \<Rightarrow> nat) \<Rightarrow> ('w \<Rightarrow> 'x) \<Rightarrow> (nat \<Rightarrow> keyspace \<Rightarrow> 'a \<times> keyspace) \<Rightarrow>
    js_error + 'a \<Rightarrow> 'w \<Rightarrow> 'w \<Rightarrow> bool" where
  "commanded keys now rest f q w w' \<longleftrightarrow> now w \<le> now w' \<and> rest w' = rest w \<and>
     (case q of
        Inl e \<Rightarrow> external e \<and> (keys w' = keys w \<or> keys w' = snd (f (now w') (keys w)))
      | Inr a \<Rightarrow> f (now w') (keys w) = (a, keys w'))"

locale redis_server =
  fixes redis :: "'w redis_client"
    and keys :: "'w \<Rightarrow> keyspace"
    and now :: "'w \<Rightarrow> nat"
    and rest :: "'w \<Rightarrow> 'x"
  assumes get_law: "\<And>w q w'. redis_get redis k w = (q, w') \<Longrightarrow>
      commanded keys now rest (\<lambda>t ks. (live ks t k, ks)) q w w'"
    and set_law: "\<And>w q w'. redis_set redis k v ttl w = (q, w') \<Longrightarrow>
      commanded keys now rest (\<lambda>t ks. ((), kv_set k v ttl t ks)) q w w'"
    and set_nx_law: "\<And>w q w'. redis_set_nx redis k v ttl w = (q, w') \<Longrightarrow>
      commanded keys now rest (kv_set_nx k v ttl) q w w'"
    and del_law: "\<And>w q w'. redis_del redis k w = (q, w') \<Longrightarrow>
      commanded keys now rest (\<lambda>t ks. ((), kv_del k ks)) q w w'"
    and eval_law: "\<And>w q w'. redis_eval redis scr k v w = (q, w') \<Longrightarrow>
      commanded keys now rest (scr k v) q w w'"
begin

lemma redis_preserves_rest:
  "preserves rest (redis_get redis k)" "preserves rest (redis_set redis k v ttl)"
  "preserves rest (redis_set_nx redis k v ttl)" "preserves rest (redis_del redis k)"
  "preserves rest (redis_eval redis scr k v)"
  by (rule preservesI;
      drule get_law set_law set_nx_law del_law eval_law; simp add: commanded_def)+

lemma get_outcome:
  assumes "redis_get redis k w = (q, w')"
  shows "now w \<le> now w'" "rest w' = rest w" "keys w' = keys w"
    "case q of Inl e \<Rightarrow> external e | Inr a \<Rightarrow> a = live (keys w) (now w') k"
  using get_law [OF assms] by (auto simp: commanded_def split: sum.splits)

end

section \<open>An instance for evaluation\<close>

text \<open>Keys and a clock kept in a world; \<open>refused\<close> says when the connection is down.\<close>

definition stored_command :: "('w \<Rightarrow> keyspace) \<Rightarrow> (keyspace \<Rightarrow> 'w \<Rightarrow> 'w) \<Rightarrow> ('w \<Rightarrow> nat) \<Rightarrow> ('w \<Rightarrow> bool) \<Rightarrow>
    (nat \<Rightarrow> keyspace \<Rightarrow> 'a \<times> keyspace) \<Rightarrow> ('w, 'a) async" where
  "stored_command get put clock refused f w =
     (if refused w then (Inl (Other ''MaxRetriesPerRequestError''), w)
      else (case f (clock w) (get w) of (a, ks) \<Rightarrow> (Inr a, put ks w)))"

definition stored :: "('w \<Rightarrow> keyspace) \<Rightarrow> (keyspace \<Rightarrow> 'w \<Rightarrow> 'w) \<Rightarrow> ('w \<Rightarrow> nat) \<Rightarrow> ('w \<Rightarrow> bool) \<Rightarrow>
    'w redis_client" where
  "stored get put clock refused =
   \<lparr>redis_get = (\<lambda>k. stored_command get put clock refused (\<lambda>t ks. (live ks t k, ks))),
    redis_set = (\<lambda>k v ttl. stored_command get put clock refused (\<lambda>t ks. ((), kv_set k v ttl t ks))),
    redis_set_nx = (\<lambda>k v ttl. stored_command get put clock refused (kv_set_nx k v ttl)),
    redis_del = (\<lambda>k. stored_command get put clock refused (\<lambda>t ks. ((), kv_del k ks))),
    redis_eval = (\<lambda>scr k v. stored_command get put clock refused (scr k v))\<rparr>"

lemma stored_redis_server:
  assumes "\<And>ks w. get (put ks w) = ks" and "\<And>ks w. rest (put ks w) = rest w"
    and "\<And>ks w. clock (put ks w) = clock w"
  shows "redis_server (stored get put clock refused) get clock rest"
  by unfold_locales
    (auto simp: stored_def stored_command_def commanded_def assms split: if_splits prod.splits)

record redis_world =
  rw_keys :: keyspace
  rw_now :: nat
  rw_uuids :: nat
  rw_down :: bool

definition mem_redis :: "'z redis_world_scheme redis_client" where
  "mem_redis = stored rw_keys (\<lambda>ks w. w\<lparr>rw_keys := ks\<rparr>) rw_now rw_down"

definition mem_uuid :: "('z redis_world_scheme, string) async" where
  "mem_uuid w = (Inr (replicate (rw_uuids w) (CHR ''u'')), w\<lparr>rw_uuids := Suc (rw_uuids w)\<rparr>)"

definition mem_issued :: "'z redis_world_scheme \<Rightarrow> string set" where
  "mem_issued w = (\<lambda>n. replicate n (CHR ''u'')) ` {..< rw_uuids w}"

lemma mem_redis_server:
  "redis_server mem_redis rw_keys rw_now (\<lambda>w. (mem_issued w, rw_down w, redis_world.more w))"
  unfolding mem_redis_def by (rule stored_redis_server) (simp_all add: mem_issued_def)

lemmas redis_instance_defs = mem_redis_def stored_def stored_command_def mem_uuid_def

end
