(* ===== verification/Idempotency_Store.thy ===== *)
theory Idempotency_Store
  imports Redis_Client
begin

text \<open>
  \<open>RedisIdempotencyStore\<close> (\<open>notification-service/src/modules/sender/adapters/redis-idempotency.store.ts\<close>):
  a mark per notification. \<open>claim\<close> sets it to \<open>pending\<close> for the time of the lease, if there is none,
  \<open>confirm\<close> sets it to \<open>done\<close> for the retention time, \<open>release\<close> deletes it, whoever set it. The
  theory states what the store promises to the consumer of the email queue and to the gRPC server
  (\<open>idempotency_contract\<close>), and what the two of them can rely on when any number of deliveries run at
  the same time: a confirmed notification is not sent again while its mark lives, as long as every
  delivery ends within its lease (\<open>confirmed_mail_not_repeated\<close>); a delivery that overruns its lease
  breaks this (\<open>overrun_lease_repeats_mail\<close>). A send that is rejected although the mail went out is a step
  of its own; it releases the mark of a mail that is out (\<open>lost_answer_repeats_mail\<close>).
\<close>

section \<open>The store\<close>

definition KEY_PREFIX :: string where "KEY_PREFIX = ''notif:idemp:''"
definition PENDING_MARK :: string where "PENDING_MARK = ''pending''"
definition DONE_MARK :: string where "DONE_MARK = ''done''"

definition namespaced :: "string \<Rightarrow> string" where
  "namespaced key = KEY_PREFIX @ key"

datatype claim_result = Claimed | In_Progress | Done

definition idempotency_claim :: "'w redis_client \<Rightarrow> nat \<Rightarrow> string \<Rightarrow> ('w, claim_result) async" where
  "idempotency_claim redis leaseSeconds key =
     await (redis_set_nx redis (namespaced key) PENDING_MARK leaseSeconds) (\<lambda>ok.
       if ok then ret Claimed
       else await (redis_get redis (namespaced key)) (\<lambda>current.
              ret (if current = Some DONE_MARK then Done else In_Progress)))"

definition idempotency_confirm :: "'w redis_client \<Rightarrow> nat \<Rightarrow> string \<Rightarrow> ('w, unit) async" where
  "idempotency_confirm redis doneTtlSeconds key =
     redis_set redis (namespaced key) DONE_MARK doneTtlSeconds"

definition idempotency_release :: "'w redis_client \<Rightarrow> string \<Rightarrow> ('w, unit) async" where
  "idempotency_release redis key = redis_del redis (namespaced key)"

record 'w idempotency_store =
  claim :: "string \<Rightarrow> ('w, claim_result) async"
  confirm :: "string \<Rightarrow> ('w, unit) async"
  release :: "string \<Rightarrow> ('w, unit) async"

definition RedisIdempotencyStore :: "'w redis_client \<Rightarrow> nat \<Rightarrow> nat \<Rightarrow> 'w idempotency_store" where
  "RedisIdempotencyStore redis doneTtlSeconds leaseSeconds =
     \<lparr>claim = idempotency_claim redis leaseSeconds, confirm = idempotency_confirm redis doneTtlSeconds,
      release = idempotency_release redis\<rparr>"

lemma namespaced_inj [simp]: "namespaced k = namespaced k' \<longleftrightarrow> k = k'"
  by (simp add: namespaced_def)

lemma marks_differ [simp]: "PENDING_MARK \<noteq> DONE_MARK" "DONE_MARK \<noteq> PENDING_MARK"
  by (simp_all add: PENDING_MARK_def DONE_MARK_def)

section \<open>What the store promises\<close>

locale idempotency_contract =
  fixes store :: "'w idempotency_store"
    and marks :: "'w \<Rightarrow> keyspace"
    and now :: "'w \<Rightarrow> nat"
    and rest :: "'w \<Rightarrow> 'x"
    and ttl lease :: nat
  assumes claim_law: "\<And>w q w'. claim store key w = (q, w') \<Longrightarrow> now w \<le> now w' \<and> rest w' = rest w \<and>
      (case q of
         Inl e \<Rightarrow> external e \<and> (marks w' = marks w \<or> live (marks w) (now w') (namespaced key) = None \<and>
           marks w' = kv_set (namespaced key) PENDING_MARK lease (now w') (marks w))
       | Inr Claimed \<Rightarrow> live (marks w) (now w') (namespaced key) = None \<and>
           marks w' = kv_set (namespaced key) PENDING_MARK lease (now w') (marks w)
       | Inr Done \<Rightarrow> marks w' = marks w \<and> live (marks w) (now w') (namespaced key) = Some DONE_MARK
       | Inr In_Progress \<Rightarrow> marks w' = marks w \<and> live (marks w) (now w) (namespaced key) \<noteq> None \<and>
           live (marks w) (now w') (namespaced key) \<noteq> Some DONE_MARK)"
    and confirm_law: "\<And>w q w'. confirm store key w = (q, w') \<Longrightarrow> now w \<le> now w' \<and> rest w' = rest w \<and>
      (case q of
         Inl e \<Rightarrow> external e \<and> (marks w' = marks w \<or>
           marks w' = kv_set (namespaced key) DONE_MARK ttl (now w') (marks w))
       | Inr u \<Rightarrow> marks w' = kv_set (namespaced key) DONE_MARK ttl (now w') (marks w))"
    and release_law: "\<And>w q w'. release store key w = (q, w') \<Longrightarrow> now w \<le> now w' \<and> rest w' = rest w \<and>
      (case q of
         Inl e \<Rightarrow> external e \<and> (marks w' = marks w \<or> marks w' = kv_del (namespaced key) (marks w))
       | Inr u \<Rightarrow> marks w' = kv_del (namespaced key) (marks w))"

context redis_server begin

lemma idempotency_claim_outcome:
  assumes "idempotency_claim redis lease key w = (q, w')"
  shows "now w \<le> now w' \<and> rest w' = rest w \<and>
      (case q of
         Inl e \<Rightarrow> external e \<and> (keys w' = keys w \<or> live (keys w) (now w') (namespaced key) = None \<and>
           keys w' = kv_set (namespaced key) PENDING_MARK lease (now w') (keys w))
       | Inr Claimed \<Rightarrow> live (keys w) (now w') (namespaced key) = None \<and>
           keys w' = kv_set (namespaced key) PENDING_MARK lease (now w') (keys w)
       | Inr Done \<Rightarrow> keys w' = keys w \<and> live (keys w) (now w') (namespaced key) = Some DONE_MARK
       | Inr In_Progress \<Rightarrow> keys w' = keys w \<and> live (keys w) (now w) (namespaced key) \<noteq> None \<and>
           live (keys w) (now w') (namespaced key) \<noteq> Some DONE_MARK)"
  using assms unfolding idempotency_claim_def
proof (cases rule: await_outcome)
  case (rejected e)
  from set_nx_law [OF rejected(1)] rejected(2) show ?thesis
    by (cases "live (keys w) (now w') (namespaced key)") (auto simp: commanded_def kv_set_nx_def)
next
  case (resolved ok w1)
  from set_nx_law [OF resolved(1)] have 1: "now w \<le> now w1" "rest w1 = rest w"
    "kv_set_nx (namespaced key) PENDING_MARK lease (now w1) (keys w) = (ok, keys w1)"
    by (simp_all add: commanded_def)
  show ?thesis
  proof (cases ok)
    case True
    with resolved(2) 1 show ?thesis by (auto simp: kv_set_nx_def split: if_splits)
  next
    case False
    with 1(3) have alive: "keys w1 = keys w" "live (keys w) (now w1) (namespaced key) \<noteq> None"
      by (auto simp: kv_set_nx_def split: if_splits)
    from False resolved(2) have "await (redis_get redis (namespaced key))
        (\<lambda>current. ret (if current = Some DONE_MARK then Done else In_Progress)) w1 = (q, w')" by simp
    then show ?thesis
    proof (cases rule: await_outcome)
      case (rejected e)
      from get_outcome [OF rejected(1)] rejected(2) 1(1,2) alive show ?thesis by simp
    next
      case (resolved current w2)
      from get_outcome [OF resolved(1)] have 2: "now w1 \<le> now w2" "rest w2 = rest w1" "keys w2 = keys w1"
        "current = live (keys w) (now w2) (namespaced key)" using alive by simp_all
      from still_live [OF alive(2) 1(1)] resolved(2) 1(1,2) 2 alive(1) show ?thesis by (auto split: if_splits)
    qed
  qed
qed

lemma idempotency: "idempotency_contract (RedisIdempotencyStore redis ttl lease) keys now rest ttl lease"
proof (unfold_locales, goal_cases)
  case (1 key w q w')
  then show ?case by (intro idempotency_claim_outcome) (simp add: RedisIdempotencyStore_def)
next
  case (2 key w q w')
  then have "redis_set redis (namespaced key) DONE_MARK ttl w = (q, w')"
    by (simp add: RedisIdempotencyStore_def idempotency_confirm_def)
  from set_law [OF this] show ?case by (cases q) (auto simp: commanded_def)
next
  case (3 key w q w')
  then have "redis_del redis (namespaced key) w = (q, w')"
    by (simp add: RedisIdempotencyStore_def idempotency_release_def)
  from del_law [OF this] show ?case by (cases q) (auto simp: commanded_def)
qed

end

sublocale redis_server \<subseteq> idem: idempotency_contract "RedisIdempotencyStore redis ttl lease" keys now rest ttl lease
  for ttl lease by (rule idempotency)

interpretation mem_idempotency: idempotency_contract "RedisIdempotencyStore mem_redis ttl lease" rw_keys rw_now
    "\<lambda>w. (mem_issued w, rw_down w, redis_world.more w)" ttl lease
  for ttl lease by (rule redis_server.idempotency [OF mem_redis_server])

section \<open>Deliveries at the same time\<close>

text \<open>
  Any number of deliveries run at once, in the consumer and in the gRPC server, on any number of
  instances. A \<open>holder\<close> is a delivery that got its claim at second \<open>h_claimed\<close> and has not finished;
  \<open>h_sent\<close> is the position of its mail in the log of the mails that were sent, \<open>h_refused\<close> says that the
  send was rejected: the mail may be out all the same (the answer of the SMTP server was lost), and the
  delivery releases its claim. A mail knows whether its mark was confirmed, and when. In a run with \<open>timely\<close> every delivery sends, confirms and releases
  before its lease is over. A delivery may crash at any time, every command may be rejected.
\<close>

record holder =
  h_key :: string
  h_claimed :: nat
  h_sent :: "nat option"
  h_refused :: bool

record mail =
  m_key :: string
  m_sent :: nat
  m_confirmed :: "nat option"

definition in_lease :: "nat \<Rightarrow> nat \<Rightarrow> holder \<Rightarrow> bool" where
  "in_lease lease t h \<longleftrightarrow> t < h_claimed h + lease"

inductive delivery_step :: "'w idempotency_store \<Rightarrow> ('w \<Rightarrow> keyspace) \<Rightarrow> ('w \<Rightarrow> nat) \<Rightarrow> nat \<Rightarrow> bool \<Rightarrow>
    'w \<times> holder list \<times> mail list \<Rightarrow> 'w \<times> holder list \<times> mail list \<Rightarrow> bool"
  for store marks now lease timely where
  claims: "claim store k w = (Inr Claimed, w') \<Longrightarrow>
    delivery_step store marks now lease timely (w, hs, log)
      (w', \<lparr>h_key = k, h_claimed = now w', h_sent = None, h_refused = False\<rparr> # hs, log)"
| no_claim: "claim store k w = (q, w') \<Longrightarrow> q \<noteq> Inr Claimed \<Longrightarrow>
    delivery_step store marks now lease timely (w, hs, log) (w', hs, log)"
| sends: "h \<in> set hs \<Longrightarrow> h_sent h = None \<Longrightarrow> \<not> h_refused h \<Longrightarrow> marks w' = marks w \<Longrightarrow> now w \<le> now w' \<Longrightarrow>
    (timely \<Longrightarrow> in_lease lease (now w') h) \<Longrightarrow>
    delivery_step store marks now lease timely (w, hs, log)
      (w', h\<lparr>h_sent := Some (length log)\<rparr> # remove1 h hs,
       log @ [\<lparr>m_key = h_key h, m_sent = now w', m_confirmed = None\<rparr>])"
| refused: "h \<in> set hs \<Longrightarrow> h_sent h = None \<Longrightarrow> \<not> h_refused h \<Longrightarrow> marks w' = marks w \<Longrightarrow> now w \<le> now w' \<Longrightarrow>
    (timely \<Longrightarrow> in_lease lease (now w') h) \<Longrightarrow>
    delivery_step store marks now lease timely (w, hs, log)
      (w', h\<lparr>h_refused := True\<rparr> # remove1 h hs,
       log @ (if mail_is_out then [\<lparr>m_key = h_key h, m_sent = now w', m_confirmed = None\<rparr>] else []))"
| confirms: "h \<in> set hs \<Longrightarrow> h_sent h = Some i \<Longrightarrow> confirm store (h_key h) w = (q, w') \<Longrightarrow>
    (timely \<Longrightarrow> in_lease lease (now w') h) \<Longrightarrow>
    delivery_step store marks now lease timely (w, hs, log)
      (w', remove1 h hs,
       case q of Inl e \<Rightarrow> log | Inr u \<Rightarrow> log[i := (log ! i)\<lparr>m_confirmed := Some (now w')\<rparr>])"
| releases: "h \<in> set hs \<Longrightarrow> h_refused h \<Longrightarrow> release store (h_key h) w = (q, w') \<Longrightarrow>
    (timely \<Longrightarrow> in_lease lease (now w') h) \<Longrightarrow>
    delivery_step store marks now lease timely (w, hs, log) (w', remove1 h hs, log)"
| crashes: "delivery_step store marks now lease timely (w, hs, log) (w, remove1 h hs, log)"
| other_code: "(\<And>k. marks w' (namespaced k) = marks w (namespaced k)) \<Longrightarrow> now w \<le> now w' \<Longrightarrow>
    delivery_step store marks now lease timely (w, hs, log) (w', hs, log)"

definition deliveries_valid :: "nat \<Rightarrow> nat \<Rightarrow> keyspace \<Rightarrow> nat \<Rightarrow> holder list \<Rightarrow> mail list \<Rightarrow> bool" where
  "deliveries_valid lease ttl ks t hs log \<longleftrightarrow>
     (\<forall>h \<in> set hs. in_lease lease t h \<longrightarrow>
        ks (namespaced (h_key h)) = Some (PENDING_MARK, h_claimed h + lease) \<and>
        (\<forall>i. h_sent h = Some i \<longrightarrow> i < length log \<and> m_key (log ! i) = h_key h \<and>
           (\<forall>j < length log. i < j \<longrightarrow> m_key (log ! j) \<noteq> h_key h))) \<and>
     distinct (map h_key (filter (in_lease lease t) hs)) \<and>
     (\<forall>i < length log. \<forall>c. m_confirmed (log ! i) = Some c \<longrightarrow> t < c + ttl \<longrightarrow>
        (\<exists>d \<ge> c + ttl. ks (namespaced (m_key (log ! i))) = Some (DONE_MARK, d))) \<and>
     (\<forall>j < length log. \<forall>i < j. \<forall>c. m_key (log ! i) = m_key (log ! j) \<longrightarrow> m_confirmed (log ! i) = Some c \<longrightarrow>
        c + ttl \<le> m_sent (log ! j))"

lemma deliveries_validD:
  assumes "deliveries_valid lease ttl ks t hs log"
  shows "h \<in> set hs \<Longrightarrow> in_lease lease t h \<Longrightarrow> ks (namespaced (h_key h)) = Some (PENDING_MARK, h_claimed h + lease)"
    and "h \<in> set hs \<Longrightarrow> in_lease lease t h \<Longrightarrow> h_sent h = Some i \<Longrightarrow> i < length log \<and> m_key (log ! i) = h_key h"
    and "h \<in> set hs \<Longrightarrow> in_lease lease t h \<Longrightarrow> h_sent h = Some i \<Longrightarrow> i < j \<Longrightarrow> j < length log \<Longrightarrow>
      m_key (log ! j) \<noteq> h_key h"
    and "distinct (map h_key (filter (in_lease lease t) hs))"
    and "i < length log \<Longrightarrow> m_confirmed (log ! i) = Some c \<Longrightarrow> t < c + ttl \<Longrightarrow>
      \<exists>d \<ge> c + ttl. ks (namespaced (m_key (log ! i))) = Some (DONE_MARK, d)"
    and "i < j \<Longrightarrow> j < length log \<Longrightarrow> m_key (log ! i) = m_key (log ! j) \<Longrightarrow> m_confirmed (log ! i) = Some c \<Longrightarrow>
      c + ttl \<le> m_sent (log ! j)"
  using assms unfolding deliveries_valid_def by blast+

lemma deliveries_validI:
  assumes "\<And>h. h \<in> set hs \<Longrightarrow> in_lease lease t h \<Longrightarrow> ks (namespaced (h_key h)) = Some (PENDING_MARK, h_claimed h + lease)"
    and "\<And>h i. h \<in> set hs \<Longrightarrow> in_lease lease t h \<Longrightarrow> h_sent h = Some i \<Longrightarrow> i < length log \<and> m_key (log ! i) = h_key h"
    and "\<And>h i j. h \<in> set hs \<Longrightarrow> in_lease lease t h \<Longrightarrow> h_sent h = Some i \<Longrightarrow> i < j \<Longrightarrow> j < length log \<Longrightarrow>
      m_key (log ! j) \<noteq> h_key h"
    and "distinct (map h_key (filter (in_lease lease t) hs))"
    and "\<And>i c. i < length log \<Longrightarrow> m_confirmed (log ! i) = Some c \<Longrightarrow> t < c + ttl \<Longrightarrow>
      \<exists>d \<ge> c + ttl. ks (namespaced (m_key (log ! i))) = Some (DONE_MARK, d)"
    and "\<And>i j c. i < j \<Longrightarrow> j < length log \<Longrightarrow> m_key (log ! i) = m_key (log ! j) \<Longrightarrow> m_confirmed (log ! i) = Some c \<Longrightarrow>
      c + ttl \<le> m_sent (log ! j)"
  shows "deliveries_valid lease ttl ks t hs log"
  unfolding deliveries_valid_def using assms by blast

text \<open>While a delivery holds its lease, no earlier mail of its notification is still marked as done.\<close>

lemma in_lease_not_done:
  assumes "deliveries_valid lease ttl ks t hs log" and "h \<in> set hs" and "in_lease lease t h"
    and "i < length log" and "m_key (log ! i) = h_key h" and "m_confirmed (log ! i) = Some c"
  shows "c + ttl \<le> t"
proof (rule ccontr)
  assume "\<not> c + ttl \<le> t"
  then obtain d where "ks (namespaced (h_key h)) = Some (DONE_MARK, d)"
    using deliveries_validD(5) [OF assms(1,4,6)] assms(5) by auto
  with deliveries_validD(1) [OF assms(1-3)] show False by simp
qed

lemma in_lease_mono: "in_lease lease t' h \<Longrightarrow> t \<le> t' \<Longrightarrow> in_lease lease t h"
  by (simp add: in_lease_def)

lemma distinct_map_filter_mono:
  assumes "distinct (map f (filter P xs))" and "\<And>x. Q x \<Longrightarrow> P x"
  shows "distinct (map f (filter Q xs))"
proof -
  have "filter Q xs = filter Q (filter P xs)" using assms(2) by (metis (mono_tags, lifting) filter_cong filter_filter)
  with assms(1) distinct_map_filter show ?thesis by metis
qed

lemma removed_holder:
  assumes "distinct (map h_key (filter P hs))" and "h \<in> set hs" and "P h" and "h' \<in> set (remove1 h hs)" and "P h'"
  shows "h_key h' \<noteq> h_key h"
proof
  assume eq: "h_key h' = h_key h"
  from assms have "h \<in> set (filter P hs)" "h' \<in> set (filter P hs)"
    using notin_set_remove1 [of h' hs h] by auto
  with eq assms(1) have "h' = h" by (auto simp: distinct_map dest: inj_onD)
  moreover have "distinct (filter P hs)" using assms(1) by (simp add: distinct_map)
  then have "h \<notin> set (remove1 h (filter P hs))" by simp
  then have "h \<notin> set (filter P (remove1 h hs))" using assms(3) by (simp add: filter_remove1)
  ultimately show False using assms(4,5) by simp
qed

text \<open>Time passes, deliveries end, and marks change that no delivery in its lease and no done mail relies on.\<close>

lemma deliveries_valid_update:
  assumes old: "deliveries_valid lease ttl ks t hs log" and le: "t \<le> t'"
    and sub: "set hs' \<subseteq> set hs" "distinct (map h_key (filter (in_lease lease t') hs'))"
    and keys: "\<And>k. ks' (namespaced k) = ks (namespaced k) \<or>
      (\<forall>h \<in> set hs'. in_lease lease t' h \<longrightarrow> h_key h \<noteq> k) \<and>
      (\<forall>i < length log. \<forall>c. m_key (log ! i) = k \<longrightarrow> m_confirmed (log ! i) = Some c \<longrightarrow> c + ttl \<le> t')"
  shows "deliveries_valid lease ttl ks' t' hs' log"
proof (rule deliveries_validI)
  fix h assume h: "h \<in> set hs'" "in_lease lease t' h"
  with sub(1) in_lease_mono [OF h(2) le] have h': "h \<in> set hs" "in_lease lease t h" by auto
  show "ks' (namespaced (h_key h)) = Some (PENDING_MARK, h_claimed h + lease)"
    using keys [of "h_key h"] h deliveries_validD(1) [OF old h'] by auto
  fix i assume i: "h_sent h = Some i"
  show "i < length log \<and> m_key (log ! i) = h_key h" by (rule deliveries_validD(2) [OF old h' i])
  fix j assume "i < j" "j < length log"
  then show "m_key (log ! j) \<noteq> h_key h" by (rule deliveries_validD(3) [OF old h' i])
next
  fix i c assume i: "i < length log" "m_confirmed (log ! i) = Some c" "t' < c + ttl"
  with le have "t < c + ttl" by simp
  with deliveries_validD(5) [OF old i(1,2)] keys [of "m_key (log ! i)"] i
  show "\<exists>d \<ge> c + ttl. ks' (namespaced (m_key (log ! i))) = Some (DONE_MARK, d)" by auto
qed (use sub(2) deliveries_validD(6) [OF old] in blast)+

lemma mark_free:
  assumes valid: "deliveries_valid lease ttl ks t hs log" and "t \<le> t'" and free: "live ks t' (namespaced k) = None"
  shows "h \<in> set hs \<Longrightarrow> in_lease lease t' h \<Longrightarrow> h_key h \<noteq> k"
    and "i < length log \<Longrightarrow> m_key (log ! i) = k \<Longrightarrow> m_confirmed (log ! i) = Some c \<Longrightarrow> c + ttl \<le> t'"
proof -
  show "h_key h \<noteq> k" if h: "h \<in> set hs" "in_lease lease t' h"
  proof
    assume "h_key h = k"
    with deliveries_validD(1) [OF valid h(1) in_lease_mono [OF h(2) assms(2)]] h(2) free
    show False by (simp add: live_def in_lease_def)
  qed
  show "c + ttl \<le> t'" if i: "i < length log" "m_key (log ! i) = k" "m_confirmed (log ! i) = Some c"
  proof (rule ccontr)
    assume "\<not> c + ttl \<le> t'"
    with deliveries_validD(5) [OF valid i(1,3)] assms(2) i(2) obtain d where
      "ks (namespaced k) = Some (DONE_MARK, d)" "t' < d" by force
    with free show False by (simp add: live_def)
  qed
qed

lemma in_lease_alone:
  assumes valid: "deliveries_valid lease ttl ks t hs log" and le: "t \<le> t'" and h: "h \<in> set hs" "in_lease lease t' h"
  shows "h' \<in> set (remove1 h hs) \<Longrightarrow> in_lease lease t' h' \<Longrightarrow> h_key h' \<noteq> h_key h"
    and "i < length log \<Longrightarrow> m_key (log ! i) = h_key h \<Longrightarrow> m_confirmed (log ! i) = Some c \<Longrightarrow> c + ttl \<le> t'"
proof -
  have "distinct (map h_key (filter (in_lease lease t') hs))"
    using deliveries_validD(4) [OF valid] in_lease_mono [OF _ le] by (rule distinct_map_filter_mono)
  from removed_holder [OF this h] show "h' \<in> set (remove1 h hs) \<Longrightarrow> in_lease lease t' h' \<Longrightarrow> h_key h' \<noteq> h_key h" .
  show "i < length log \<Longrightarrow> m_key (log ! i) = h_key h \<Longrightarrow> m_confirmed (log ! i) = Some c \<Longrightarrow> c + ttl \<le> t'"
    using in_lease_not_done [OF valid h(1) in_lease_mono [OF h(2) le]] le by (meson le_trans)
qed

text \<open>A delivery in its lease may change its own mark as it ends; it may confirm its mail; it may send it.\<close>

lemma holder_done:
  assumes old: "deliveries_valid lease ttl ks t hs log" and le: "t \<le> t'" and h: "h \<in> set hs" "in_lease lease t' h"
    and keys: "\<And>k. k \<noteq> h_key h \<Longrightarrow> ks' (namespaced k) = ks (namespaced k)"
  shows "deliveries_valid lease ttl ks' t' (remove1 h hs) log"
proof (rule deliveries_valid_update [OF old le set_remove1_subset])
  show "distinct (map h_key (filter (in_lease lease t') (remove1 h hs)))"
    using deliveries_validD(4) [OF old] in_lease_mono [OF _ le]
    by (intro distinct_map_filter_remove1) (rule distinct_map_filter_mono)
  fix k
  show "ks' (namespaced k) = ks (namespaced k) \<or>
      (\<forall>h' \<in> set (remove1 h hs). in_lease lease t' h' \<longrightarrow> h_key h' \<noteq> k) \<and>
      (\<forall>i < length log. \<forall>c. m_key (log ! i) = k \<longrightarrow> m_confirmed (log ! i) = Some c \<longrightarrow> c + ttl \<le> t')"
    using keys [of k] in_lease_alone [OF old le h] by (cases "k = h_key h") auto
qed

lemma mail_confirmed:
  assumes valid: "deliveries_valid lease ttl ks t hs log" and i: "i < length log \<and> m_key (log ! i) = k"
    and last: "\<And>j. i < j \<Longrightarrow> j < length log \<Longrightarrow> m_key (log ! j) \<noteq> k"
    and marked: "ks (namespaced k) = Some (DONE_MARK, t + ttl)"
  shows "deliveries_valid lease ttl ks t hs (log[i := (log ! i)\<lparr>m_confirmed := Some t\<rparr>])"
proof -
  let ?log = "log[i := (log ! i)\<lparr>m_confirmed := Some t\<rparr>]"
  have same: "m_key (?log ! j) = m_key (log ! j)" "m_sent (?log ! j) = m_sent (log ! j)" if "j < length log" for j
    using that by (cases "j = i"; simp)+
  have conf: "m_confirmed (?log ! j) = (if j = i then Some t else m_confirmed (log ! j))" if "j < length log" for j
    using that i by simp
  show ?thesis
  proof (rule deliveries_validI)
    fix h assume h: "h \<in> set hs" "in_lease lease t h"
    show "ks (namespaced (h_key h)) = Some (PENDING_MARK, h_claimed h + lease)"
      by (rule deliveries_validD(1) [OF valid h])
    fix i' assume i': "h_sent h = Some i'"
    from deliveries_validD(2) [OF valid h i'] same show "i' < length ?log \<and> m_key (?log ! i') = h_key h" by simp
    fix j assume "i' < j" "j < length ?log"
    with deliveries_validD(3) [OF valid h i'] same show "m_key (?log ! j) \<noteq> h_key h" by simp
  next
    show "distinct (map h_key (filter (in_lease lease t) hs))" by (rule deliveries_validD(4) [OF valid])
  next
    fix j c assume j: "j < length ?log" "m_confirmed (?log ! j) = Some c" "t < c + ttl"
    then have "j < length log" by simp
    show "\<exists>d \<ge> c + ttl. ks (namespaced (m_key (?log ! j))) = Some (DONE_MARK, d)"
    proof (cases "j = i")
      case True
      with j conf [of j] i have "c = t" by simp
      with True i same [of j] marked show ?thesis by auto
    next
      case False
      with j conf [of j] same [of j] deliveries_validD(5) [OF valid, of j c] show ?thesis by simp
    qed
  next
    fix i' j c assume ij: "i' < j" "j < length ?log" "m_key (?log ! i') = m_key (?log ! j)" "m_confirmed (?log ! i') = Some c"
    then have j: "j < length log" "i' < length log" by simp_all
    with ij(3) same have eq: "m_key (log ! i') = m_key (log ! j)" by simp
    with last [of j] ij(1) j(1) i have "i' \<noteq> i" by auto
    with ij(1,4) conf [OF j(2)] eq deliveries_validD(6) [OF valid ij(1) j(1)] same [OF j(1)]
    show "c + ttl \<le> m_sent (?log ! j)" by simp
  qed
qed

lemma holder_replaced:
  assumes valid: "deliveries_valid lease ttl ks t hs log" and h: "h \<in> set hs" "in_lease lease t h"
    and same: "h_key h' = h_key h" "h_claimed h' = h_claimed h"
    and ms: "ms = [] \<or> ms = [\<lparr>m_key = h_key h, m_sent = t, m_confirmed = None\<rparr>]"
    and sent: "h_sent h' = None \<or> h_sent h' = Some (length log) \<and> ms \<noteq> []"
  shows "deliveries_valid lease ttl ks t (h' # remove1 h hs) (log @ ms)"
proof -
  let ?log = "log @ ms"
  have other: "g \<in> set hs \<and> h_key g \<noteq> h_key h" if "g \<in> set (remove1 h hs)" "in_lease lease t g" for g
    using in_lease_alone(1) [OF valid order_refl h that] that(1) notin_set_remove1 by fastforce
  have lease: "in_lease lease t h'" using h(2) same by (simp add: in_lease_def)
  have new: "j = length log" "?log ! length log = \<lparr>m_key = h_key h, m_sent = t, m_confirmed = None\<rparr>"
    if "j < length ?log" "\<not> j < length log" for j using that ms by (auto simp: nth_append)
  have old: "?log ! j = log ! j" if "j < length log" for j using that by (simp add: nth_append)
  show ?thesis
  proof (rule deliveries_validI)
    fix g assume g: "g \<in> set (h' # remove1 h hs)" "in_lease lease t g"
    show "ks (namespaced (h_key g)) = Some (PENDING_MARK, h_claimed g + lease)"
    proof (cases "g = h'")
      case True
      with deliveries_validD(1) [OF valid h] same show ?thesis by simp
    next
      case False
      with g(1) have "g \<in> set (remove1 h hs)" by simp
      with other [OF this g(2)] deliveries_validD(1) [OF valid _ g(2)] show ?thesis by blast
    qed
  next
    fix g i assume g: "g \<in> set (h' # remove1 h hs)" "in_lease lease t g" "h_sent g = Some i"
    show "i < length ?log \<and> m_key (?log ! i) = h_key g"
    proof (cases "g = h'")
      case True
      with g(3) sent ms same show ?thesis by (auto simp: nth_append)
    next
      case False
      with g(1) have "g \<in> set (remove1 h hs)" by simp
      with other [OF this g(2)] deliveries_validD(2) [OF valid _ g(2,3)] show ?thesis by (simp add: nth_append)
    qed
    fix j assume j: "i < j" "j < length ?log"
    show "m_key (?log ! j) \<noteq> h_key g"
    proof (cases "g = h'")
      case True
      with g(3) j sent new [of j] show ?thesis by auto
    next
      case False
      with g(1) have "g \<in> set (remove1 h hs)" by simp
      with other [OF this g(2)] deliveries_validD(3) [OF valid _ g(2,3) j(1)] new [OF j(2)] old [of j] show ?thesis
        by (cases "j < length log") auto
    qed
  next
    have "distinct (map h_key (filter (in_lease lease t) (remove1 h hs)))"
      by (rule distinct_map_filter_remove1 [OF deliveries_validD(4) [OF valid]])
    moreover have "h_key h' \<notin> h_key ` set (filter (in_lease lease t) (remove1 h hs))"
    proof
      assume "h_key h' \<in> h_key ` set (filter (in_lease lease t) (remove1 h hs))"
      then obtain g where "g \<in> set (remove1 h hs)" "in_lease lease t g" "h_key g = h_key h" using same by force
      with other [of g] show False by blast
    qed
    ultimately show "distinct (map h_key (filter (in_lease lease t) (h' # remove1 h hs)))"
      using lease by (simp only: filter.simps if_True list.map distinct.simps set_map) blast
  next
    fix i c assume i: "i < length ?log" "m_confirmed (?log ! i) = Some c" "t < c + ttl"
    with new [of i] have "i < length log" by fastforce
    with i old deliveries_validD(5) [OF valid, of i c]
    show "\<exists>d \<ge> c + ttl. ks (namespaced (m_key (?log ! i))) = Some (DONE_MARK, d)" by simp
  next
    fix i j c assume ij: "i < j" "j < length ?log" "m_key (?log ! i) = m_key (?log ! j)" "m_confirmed (?log ! i) = Some c"
    with new [of i] have i: "i < length log" by fastforce
    show "c + ttl \<le> m_sent (?log ! j)"
    proof (cases "j < length log")
      case False
      note j = new(1) [OF ij(2) False] new(2) [OF ij(2) False]
      from ij(3,4) i old j have "m_key (log ! i) = h_key h" "m_confirmed (log ! i) = Some c" by simp_all
      from in_lease_not_done [OF valid h i this] j show ?thesis by simp
    next
      case True
      with ij i old deliveries_validD(6) [OF valid, of i j c] show ?thesis by simp
    qed
  qed
qed

context idempotency_contract begin

lemma time_passes:
  assumes old: "deliveries_valid lease ttl (marks w) (now w) hs log" and "marks w' = marks w" and "now w \<le> now w'"
  shows "deliveries_valid lease ttl (marks w') (now w') hs log"
proof -
  have "distinct (map h_key (filter (in_lease lease (now w')) hs))"
    using deliveries_validD(4) [OF old] in_lease_mono [OF _ assms(3)] by (rule distinct_map_filter_mono)
  from deliveries_valid_update [OF old assms(3) subset_refl this] show ?thesis by (simp add: assms(2))
qed

lemma delivery_step_valid:
  assumes "delivery_step store marks now lease True c c'"
    and "case c of (w, hs, log) \<Rightarrow> deliveries_valid lease ttl (marks w) (now w) hs log"
  shows "case c' of (w, hs, log) \<Rightarrow> deliveries_valid lease ttl (marks w) (now w) hs log"
  using assms
proof (induction rule: delivery_step.induct)
  case (claims k w w' hs log)
  then have old: "deliveries_valid lease ttl (marks w) (now w) hs log" by simp
  from claim_law [OF claims(1)] have le: "now w \<le> now w'"
    and free: "live (marks w) (now w') (namespaced k) = None"
    and marks: "marks w' = (marks w)(namespaced k \<mapsto> (PENDING_MARK, now w' + lease))"
    by (simp_all add: kv_set_def)
  have dist: "distinct (map h_key (filter (in_lease lease (now w')) hs))"
    using deliveries_validD(4) [OF old] in_lease_mono [OF _ le] by (rule distinct_map_filter_mono)
  have new: "deliveries_valid lease ttl (marks w') (now w') hs log"
    by (rule deliveries_valid_update [OF old le subset_refl dist])
      (use mark_free [OF old le free] in \<open>auto simp: marks\<close>)
  have "deliveries_valid lease ttl (marks w') (now w') (\<lparr>h_key = k, h_claimed = now w', h_sent = None, h_refused = False\<rparr> # hs) log"
  proof (rule deliveries_validI)
    show "distinct (map h_key (filter (in_lease lease (now w')) (\<lparr>h_key = k, h_claimed = now w', h_sent = None, h_refused = False\<rparr> # hs)))"
      using dist mark_free(1) [OF old le free] by auto
  next
    fix h assume "h \<in> set (\<lparr>h_key = k, h_claimed = now w', h_sent = None, h_refused = False\<rparr> # hs)" "in_lease lease (now w') h"
    then show "marks w' (namespaced (h_key h)) = Some (PENDING_MARK, h_claimed h + lease)"
      using deliveries_validD(1) [OF new, of h] by (cases "h \<in> set hs") (simp, simp add: marks)
  next
    fix h i assume "h \<in> set (\<lparr>h_key = k, h_claimed = now w', h_sent = None, h_refused = False\<rparr> # hs)" "in_lease lease (now w') h"
      "h_sent h = Some i"
    then have h: "h \<in> set hs" "in_lease lease (now w') h" "h_sent h = Some i" by auto
    show "i < length log \<and> m_key (log ! i) = h_key h" by (rule deliveries_validD(2) [OF new h])
    show "\<And>j. i < j \<Longrightarrow> j < length log \<Longrightarrow> m_key (log ! j) \<noteq> h_key h" by (rule deliveries_validD(3) [OF new h])
  qed (use deliveries_validD(5,6) [OF new] in blast)+
  then show ?case by simp
next
  case (no_claim k w q w' hs log)
  then have old: "deliveries_valid lease ttl (marks w) (now w) hs log" by simp
  note law = claim_law [OF no_claim(1)]
  then have le: "now w \<le> now w'" by simp
  have dist: "distinct (map h_key (filter (in_lease lease (now w')) hs))"
    using deliveries_validD(4) [OF old] in_lease_mono [OF _ le] by (rule distinct_map_filter_mono)
  have "marks w' = marks w \<or> live (marks w) (now w') (namespaced k) = None \<and>
      marks w' = kv_set (namespaced k) PENDING_MARK lease (now w') (marks w)"
    using law no_claim(2) by (cases q) (auto split: claim_result.splits)
  then have "deliveries_valid lease ttl (marks w') (now w') hs log"
  proof
    assume "marks w' = marks w"
    then show ?thesis by (intro deliveries_valid_update [OF old le subset_refl dist]) simp
  next
    assume marks: "live (marks w) (now w') (namespaced k) = None \<and>
      marks w' = kv_set (namespaced k) PENDING_MARK lease (now w') (marks w)"
    show ?thesis
    proof (rule deliveries_valid_update [OF old le subset_refl dist])
      fix k'
      show "marks w' (namespaced k') = marks w (namespaced k') \<or>
          (\<forall>h \<in> set hs. in_lease lease (now w') h \<longrightarrow> h_key h \<noteq> k') \<and>
          (\<forall>i < length log. \<forall>c. m_key (log ! i) = k' \<longrightarrow> m_confirmed (log ! i) = Some c \<longrightarrow> c + ttl \<le> now w')"
      proof (cases "k' = k")
        case True
        show ?thesis unfolding True
          by (intro disjI2 conjI ballI allI impI; rule mark_free [OF old le conjunct1 [OF marks]]; assumption)
      next
        case False
        then show ?thesis by (simp add: conjunct2 [OF marks] kv_set_def)
      qed
    qed
  qed
  then show ?case by simp
next
  case (other_code w' w hs log)
  then have old: "deliveries_valid lease ttl (marks w) (now w) hs log" by simp
  have dist: "distinct (map h_key (filter (in_lease lease (now w')) hs))"
    using deliveries_validD(4) [OF old] in_lease_mono [OF _ other_code(2)] by (rule distinct_map_filter_mono)
  have "deliveries_valid lease ttl (marks w') (now w') hs log"
    by (rule deliveries_valid_update [OF old other_code(2) subset_refl dist]) (simp add: other_code(1))
  then show ?case by simp
next
  case (crashes w hs log h)
  then have old: "deliveries_valid lease ttl (marks w) (now w) hs log" by simp
  have "deliveries_valid lease ttl (marks w) (now w) (remove1 h hs) log"
    by (rule deliveries_valid_update [OF old order_refl set_remove1_subset distinct_map_filter_remove1])
      (use deliveries_validD(4) [OF old] in simp_all)
  then show ?case by simp
next
  case (releases h hs w q w' log)
  then have old: "deliveries_valid lease ttl (marks w) (now w) hs log" and h: "h \<in> set hs" "in_lease lease (now w') h"
    by simp_all
  from release_law [OF releases(3)] have le: "now w \<le> now w'"
    and marks: "marks w' = marks w \<or> marks w' = kv_del (namespaced (h_key h)) (marks w)" by (auto split: sum.splits)
  have "deliveries_valid lease ttl (marks w') (now w') (remove1 h hs) log"
    by (rule holder_done [OF old le h]) (use marks in \<open>auto simp: kv_del_def\<close>)
  then show ?case by simp
next
  case (confirms h hs i w q w' log)
  then have old: "deliveries_valid lease ttl (marks w) (now w) hs log" and h: "h \<in> set hs" "in_lease lease (now w') h"
    by simp_all
  from confirm_law [OF confirms(3)] have le: "now w \<le> now w'"
    and marks: "marks w' = marks w \<or> marks w' = kv_set (namespaced (h_key h)) DONE_MARK ttl (now w') (marks w)"
    by (auto split: sum.splits)
  have new: "deliveries_valid lease ttl (marks w') (now w') (remove1 h hs) log"
    by (rule holder_done [OF old le h]) (use marks in \<open>auto simp: kv_set_def\<close>)
  show ?case
  proof (cases q)
    case (Inl e)
    with new show ?thesis by simp
  next
    case (Inr u)
    with confirm_law [OF confirms(3)]
    have marked: "marks w' (namespaced (h_key h)) = Some (DONE_MARK, now w' + ttl)" by (simp add: kv_set_def)
    note h' = h(1) in_lease_mono [OF h(2) le] confirms(2)
    from mail_confirmed [OF new deliveries_validD(2) [OF old h'] deliveries_validD(3) [OF old h'] marked] Inr
    show ?thesis by simp
  qed
next
  case (sends h hs w' w log)
  then have "deliveries_valid lease ttl (marks w') (now w') hs log"
    using time_passes [OF _ sends(4,5)] by simp
  from holder_replaced [OF this sends(1), of "h\<lparr>h_sent := Some (length log)\<rparr>"] sends(6) show ?case by simp
next
  case (refused h hs w' w log mail_is_out)
  then have "deliveries_valid lease ttl (marks w') (now w') hs log"
    using time_passes [OF _ refused(4,5)] by simp
  from holder_replaced [OF this refused(1), of "h\<lparr>h_refused := True\<rparr>"] refused(2,6) show ?case by simp
qed

lemma delivery_run_valid:
  assumes "(delivery_step store marks now lease True)\<^sup>*\<^sup>* c c'"
    and "case c of (w, hs, log) \<Rightarrow> deliveries_valid lease ttl (marks w) (now w) hs log"
  shows "case c' of (w, hs, log) \<Rightarrow> deliveries_valid lease ttl (marks w) (now w) hs log"
  using assms(1)
proof (induction rule: rtranclp_induct)
  case base
  show ?case by (rule assms(2))
next
  case (step c1 c2)
  from delivery_step_valid [OF step(2,3)] show ?case .
qed

end

lemma no_deliveries_valid: "deliveries_valid lease ttl ks t [] []"
  by (simp add: deliveries_valid_def)

section \<open>Properties\<close>

text \<open>C10. As long as no delivery outlives its lease, and whatever crashes or is rejected by Redis: no two
  deliveries of a notification hold it at the same time, and once the mail of a notification has been
  confirmed, no further mail of it is sent before its retention time is over.\<close>

theorem confirmed_mail_not_repeated:
  assumes env: "redis_server redis keys now rest"
    and run: "(delivery_step (RedisIdempotencyStore redis ttl lease) keys now lease True)\<^sup>*\<^sup>* (w, [], []) (w', hs, log)"
  shows "distinct (map h_key (filter (in_lease lease (now w')) hs)) \<and>
    (\<forall>j < length log. \<forall>i < j. \<forall>c. m_key (log ! i) = m_key (log ! j) \<longrightarrow> m_confirmed (log ! i) = Some c \<longrightarrow>
       c + ttl \<le> m_sent (log ! j))"
proof -
  have "deliveries_valid lease ttl (keys w') (now w') hs log"
    using idempotency_contract.delivery_run_valid [OF redis_server.idempotency [OF env] run] no_deliveries_valid
    by simp
  then show ?thesis by (simp add: deliveries_valid_def)
qed

text \<open>A world with given keys at a given second, and the steps of a delivery in it.\<close>

definition redis_at :: "keyspace \<Rightarrow> nat \<Rightarrow> redis_world" where
  "redis_at ks t = \<lparr>rw_keys = ks, rw_now = t, rw_uuids = 0, rw_down = False\<rparr>"

abbreviation mem_store :: "redis_world idempotency_store" where
  "mem_store \<equiv> RedisIdempotencyStore mem_redis 86400 60"

lemma redis_at_simps [simp]: "rw_keys (redis_at ks t) = ks" "rw_now (redis_at ks t) = t" "rw_down (redis_at ks t) = False"
  by (simp_all add: redis_at_def)

lemma mem_store_runs:
  "live ks t (namespaced k) = None \<Longrightarrow>
     claim mem_store k (redis_at ks t) = (Inr Claimed, redis_at (kv_set (namespaced k) PENDING_MARK 60 t ks) t)"
  "confirm mem_store k (redis_at ks t) = (Inr (), redis_at (kv_set (namespaced k) DONE_MARK 86400 t ks) t)"
  "release mem_store k (redis_at ks t) = (Inr (), redis_at (kv_del (namespaced k) ks) t)"
  by (simp_all add: RedisIdempotencyStore_def idempotency_claim_def idempotency_confirm_def idempotency_release_def
      redis_instance_defs io_defs kv_set_nx_def redis_at_def)

abbreviation mem_delivery_step where
  "mem_delivery_step \<equiv> delivery_step mem_store rw_keys rw_now 60"

lemma mem_claims:
  assumes "live ks t (namespaced k) = None" and "ks' = kv_set (namespaced k) PENDING_MARK 60 t ks"
  shows "mem_delivery_step timely (redis_at ks t, hs, log)
    (redis_at ks' t, \<lparr>h_key = k, h_claimed = t, h_sent = None, h_refused = False\<rparr> # hs, log)"
  using delivery_step.claims [OF mem_store_runs(1) [OF assms(1)], where now = rw_now] by (simp add: assms(2))

lemma mem_waits: "t \<le> t' \<Longrightarrow> mem_delivery_step timely (redis_at ks t, hs, log) (redis_at ks t', hs, log)"
  by (rule delivery_step.other_code) simp_all

lemma mem_sends:
  assumes "h \<in> set hs" "h_sent h = None" "\<not> h_refused h" and "timely \<Longrightarrow> in_lease 60 t h"
    and "hs' = h\<lparr>h_sent := Some (length log)\<rparr> # remove1 h hs"
    and "log' = log @ [\<lparr>m_key = h_key h, m_sent = t, m_confirmed = None\<rparr>]"
  shows "mem_delivery_step timely (redis_at ks t, hs, log) (redis_at ks t, hs', log')"
  using delivery_step.sends [OF assms(1-3), where w = "redis_at ks t" and w' = "redis_at ks t" and now = rw_now and
      marks = rw_keys and timely = timely and lease = 60 and store = mem_store and log = log] assms(4-6) by simp

lemma mem_refused:
  assumes "h \<in> set hs" "h_sent h = None" "\<not> h_refused h" and "timely \<Longrightarrow> in_lease 60 t h"
    and "hs' = h\<lparr>h_refused := True\<rparr> # remove1 h hs"
    and "log' = log @ (if mail_is_out then [\<lparr>m_key = h_key h, m_sent = t, m_confirmed = None\<rparr>] else [])"
  shows "mem_delivery_step timely (redis_at ks t, hs, log) (redis_at ks t, hs', log')"
  using delivery_step.refused [OF assms(1-3), where w = "redis_at ks t" and w' = "redis_at ks t" and now = rw_now and
      marks = rw_keys and timely = timely and lease = 60 and store = mem_store and log = log and
      mail_is_out = mail_is_out] assms(4-6) by (cases mail_is_out) simp_all

lemma mem_confirms:
  assumes "h \<in> set hs" "h_sent h = Some i" and "timely \<Longrightarrow> in_lease 60 t h"
    and "hs' = remove1 h hs" and "log' = log[i := (log ! i)\<lparr>m_confirmed := Some t\<rparr>]"
    and "ks' = kv_set (namespaced (h_key h)) DONE_MARK 86400 t ks"
  shows "mem_delivery_step timely (redis_at ks t, hs, log) (redis_at ks' t, hs', log')"
  using delivery_step.confirms [OF assms(1,2) mem_store_runs(2), where now = rw_now and
      marks = rw_keys and timely = timely and lease = 60 and log = log] assms(3-6) by simp

lemma mem_releases:
  assumes "h \<in> set hs" "h_refused h" and "timely \<Longrightarrow> in_lease 60 t h"
    and "hs' = remove1 h hs" and "ks' = kv_del (namespaced (h_key h)) ks"
  shows "mem_delivery_step timely (redis_at ks t, hs, log) (redis_at ks' t, hs', log)"
  using delivery_step.releases [OF assms(1,2) mem_store_runs(3), where now = rw_now and
      marks = rw_keys and timely = timely and lease = 60 and log = log] assms(3-5) by simp

lemma mem_run_step:
  "(mem_delivery_step timely)\<^sup>*\<^sup>* c c1 \<Longrightarrow> mem_delivery_step timely c1 c2 \<Longrightarrow> (mem_delivery_step timely)\<^sup>*\<^sup>* c c2"
  by (rule rtranclp.rtrancl_into_rtrancl)

theorem confirmed_mail_not_repeated_witness:
  "\<exists>w hs log. (mem_delivery_step True)\<^sup>*\<^sup>* (redis_at Map.empty 0, [], []) (w, hs, log) \<and> length log = 2 \<and>
     m_confirmed (log ! 0) = Some 1 \<and> 1 + 86400 \<le> m_sent (log ! 1)"
proof -
  let ?a = "\<lparr>h_key = ''k'', h_claimed = 0, h_sent = None, h_refused = False\<rparr>"
  let ?b = "\<lparr>h_key = ''k'', h_claimed = 90000, h_sent = None, h_refused = False\<rparr>"
  let ?k = "namespaced ''k''"
  let ?ks1 = "kv_set ?k PENDING_MARK 60 0 Map.empty"
  let ?ks2 = "kv_set ?k DONE_MARK 86400 1 ?ks1"
  let ?ks3 = "kv_set ?k PENDING_MARK 60 90000 ?ks2"
  let ?m = "\<lparr>m_key = ''k'', m_sent = 1, m_confirmed = None\<rparr>"
  let ?log = "[?m\<lparr>m_confirmed := Some 1\<rparr>]"
  let ?log' = "?log @ [\<lparr>m_key = ''k'', m_sent = 90000, m_confirmed = None\<rparr>]"
  let ?hs = "[?b\<lparr>h_sent := Some 1\<rparr>]"
  have r1: "(mem_delivery_step True)\<^sup>*\<^sup>* (redis_at Map.empty 0, [], []) (redis_at ?ks1 0, [?a], [])"
    by (rule mem_run_step [OF rtranclp.rtrancl_refl], rule mem_claims) (simp_all add: live_def)
  have r2: "(mem_delivery_step True)\<^sup>*\<^sup>* (redis_at Map.empty 0, [], []) (redis_at ?ks1 1, [?a], [])"
    by (rule mem_run_step [OF r1], rule mem_waits) simp
  have r3: "(mem_delivery_step True)\<^sup>*\<^sup>* (redis_at Map.empty 0, [], []) (redis_at ?ks1 1, [?a\<lparr>h_sent := Some 0\<rparr>], [?m])"
    by (rule mem_run_step [OF r2], rule mem_sends [of ?a]) (simp_all add: in_lease_def)
  have r4: "(mem_delivery_step True)\<^sup>*\<^sup>* (redis_at Map.empty 0, [], []) (redis_at ?ks2 1, [], ?log)"
    by (rule mem_run_step [OF r3], rule mem_confirms [of "?a\<lparr>h_sent := Some 0\<rparr>" _ 0]) (simp_all add: in_lease_def)
  have r5: "(mem_delivery_step True)\<^sup>*\<^sup>* (redis_at Map.empty 0, [], []) (redis_at ?ks2 90000, [], ?log)"
    by (rule mem_run_step [OF r4], rule mem_waits) simp
  have r6: "(mem_delivery_step True)\<^sup>*\<^sup>* (redis_at Map.empty 0, [], []) (redis_at ?ks3 90000, [?b], ?log)"
    by (rule mem_run_step [OF r5], rule mem_claims) simp_all
  have r7: "(mem_delivery_step True)\<^sup>*\<^sup>* (redis_at Map.empty 0, [], []) (redis_at ?ks3 90000, ?hs, ?log')"
    by (rule mem_run_step [OF r6], rule mem_sends [of ?b]) (simp_all add: in_lease_def)
  note run = r7
  from confirmed_mail_not_repeated [OF mem_redis_server run]
  have "1 + 86400 \<le> m_sent (?log' ! 1)" by (auto simp: nth_Cons less_Suc_eq)
  with run show ?thesis by (intro exI [of _ "redis_at ?ks3 90000"] exI [of _ ?hs] exI [of _ ?log']) simp
qed

text \<open>A mail that is out although its send was rejected is not confirmed: its delivery releases the claim, and the
  next one sends it again, however timely both are.\<close>

lemma lost_answer_repeats_mail:
  "\<exists>w hs log. (mem_delivery_step True)\<^sup>*\<^sup>* (redis_at Map.empty 0, [], []) (w, hs, log) \<and>
     map m_key log = [''k'', ''k''] \<and> map m_sent log = [0, 0] \<and> map m_confirmed log = [None, None]"
proof -
  let ?a = "\<lparr>h_key = ''k'', h_claimed = 0, h_sent = None, h_refused = False\<rparr>"
  let ?k = "namespaced ''k''" and ?m = "\<lparr>m_key = ''k'', m_sent = 0, m_confirmed = None\<rparr>"
  let ?ks1 = "kv_set ?k PENDING_MARK 60 0 Map.empty"
  let ?ks2 = "kv_del ?k ?ks1"
  let ?ks3 = "kv_set ?k PENDING_MARK 60 0 ?ks2"
  have r1: "(mem_delivery_step True)\<^sup>*\<^sup>* (redis_at Map.empty 0, [], []) (redis_at ?ks1 0, [?a], [])"
    by (rule mem_run_step [OF rtranclp.rtrancl_refl], rule mem_claims) (simp_all add: live_def)
  have r2: "(mem_delivery_step True)\<^sup>*\<^sup>* (redis_at Map.empty 0, [], []) (redis_at ?ks1 0, [?a\<lparr>h_refused := True\<rparr>], [?m])"
    by (rule mem_run_step [OF r1], rule mem_refused [of ?a _ _ _ _ _ _ True]) (simp_all add: in_lease_def)
  have r3: "(mem_delivery_step True)\<^sup>*\<^sup>* (redis_at Map.empty 0, [], []) (redis_at ?ks2 0, [], [?m])"
    by (rule mem_run_step [OF r2], rule mem_releases [of "?a\<lparr>h_refused := True\<rparr>"]) (simp_all add: in_lease_def)
  have r4: "(mem_delivery_step True)\<^sup>*\<^sup>* (redis_at Map.empty 0, [], []) (redis_at ?ks3 0, [?a], [?m])"
    by (rule mem_run_step [OF r3], rule mem_claims) simp_all
  have r5: "(mem_delivery_step True)\<^sup>*\<^sup>* (redis_at Map.empty 0, [], []) (redis_at ?ks3 0, [?a\<lparr>h_sent := Some 1\<rparr>], [?m, ?m])"
    by (rule mem_run_step [OF r4], rule mem_sends [of ?a]) (simp_all add: in_lease_def)
  then show ?thesis
    by (intro exI [of _ "redis_at ?ks3 0"] exI [of _ "[?a\<lparr>h_sent := Some 1\<rparr>]"] exI [of _ "[?m, ?m]"]) simp
qed

text \<open>C39. A delivery that outlives its lease (60 seconds; nothing bounds how long the SMTP server takes) breaks
  both. It can send its mail although another delivery has taken over, sent and confirmed it; and when
  it fails it deletes the mark of the delivery that has taken over, because \<open>release\<close> does not look
  whose mark it is, so that a third delivery starts while the second holds its lease.\<close>

theorem overrun_lease_repeats_mail:
  "(\<exists>w hs log. (mem_delivery_step False)\<^sup>*\<^sup>* (redis_at Map.empty 0, [], []) (w, hs, log) \<and>
      map m_key log = [''k'', ''k''] \<and> m_confirmed (log ! 0) = Some 60 \<and> m_sent (log ! 1) = 61) \<and>
   (\<exists>w hs log. (mem_delivery_step False)\<^sup>*\<^sup>* (redis_at Map.empty 0, [], []) (w, hs, log) \<and>
      map h_key (filter (in_lease 60 (rw_now w)) hs) = [''k'', ''k''])"
proof -
  let ?a = "\<lparr>h_key = ''k'', h_claimed = 0, h_sent = None, h_refused = False\<rparr>"
  let ?b = "\<lparr>h_key = ''k'', h_claimed = 60, h_sent = None, h_refused = False\<rparr>"
  let ?k = "namespaced ''k''"
  let ?ks1 = "kv_set ?k PENDING_MARK 60 0 Map.empty"
  let ?ks2 = "kv_set ?k PENDING_MARK 60 60 ?ks1"
  let ?ks3 = "kv_set ?k DONE_MARK 86400 60 ?ks2"
  let ?ks4 = "kv_del ?k ?ks2"
  let ?ks5 = "kv_set ?k PENDING_MARK 60 60 ?ks4"
  let ?m = "\<lparr>m_key = ''k'', m_sent = 60, m_confirmed = None\<rparr>"
  let ?log = "[?m\<lparr>m_confirmed := Some 60\<rparr>]"
  let ?log' = "?log @ [\<lparr>m_key = ''k'', m_sent = 61, m_confirmed = None\<rparr>]"
  have r8: "(mem_delivery_step False)\<^sup>*\<^sup>* (redis_at Map.empty 0, [], []) (redis_at ?ks1 0, [?a], [])"
    by (rule mem_run_step [OF rtranclp.rtrancl_refl], rule mem_claims) (simp_all add: live_def)
  have r9: "(mem_delivery_step False)\<^sup>*\<^sup>* (redis_at Map.empty 0, [], []) (redis_at ?ks1 60, [?a], [])"
    by (rule mem_run_step [OF r8], rule mem_waits) simp
  have r10: "(mem_delivery_step False)\<^sup>*\<^sup>* (redis_at Map.empty 0, [], []) (redis_at ?ks2 60, [?b, ?a], [])"
    by (rule mem_run_step [OF r9], rule mem_claims) (simp_all add: live_def kv_set_def)
  note both = r10
  have r11: "(mem_delivery_step False)\<^sup>*\<^sup>* (redis_at Map.empty 0, [], []) (redis_at ?ks2 60, [?b\<lparr>h_sent := Some 0\<rparr>, ?a], [?m])"
    by (rule mem_run_step [OF r10], rule mem_sends [of ?b]) simp_all
  have r12: "(mem_delivery_step False)\<^sup>*\<^sup>* (redis_at Map.empty 0, [], []) (redis_at ?ks3 60, [?a], ?log)"
    by (rule mem_run_step [OF r11], rule mem_confirms [of "?b\<lparr>h_sent := Some 0\<rparr>" _ 0]) simp_all
  have r13: "(mem_delivery_step False)\<^sup>*\<^sup>* (redis_at Map.empty 0, [], []) (redis_at ?ks3 61, [?a], ?log)"
    by (rule mem_run_step [OF r12], rule mem_waits) simp
  have r14: "(mem_delivery_step False)\<^sup>*\<^sup>* (redis_at Map.empty 0, [], []) (redis_at ?ks3 61, [?a\<lparr>h_sent := Some 1\<rparr>], ?log')"
    by (rule mem_run_step [OF r13], rule mem_sends [of ?a]) simp_all
  note late = r14
  have refused: "(mem_delivery_step False)\<^sup>*\<^sup>* (redis_at Map.empty 0, [], [])
      (redis_at ?ks2 60, [?a\<lparr>h_refused := True\<rparr>, ?b], [])"
    by (rule mem_run_step [OF both], rule mem_refused [of ?a _ _ _ _ _ _ False]) simp_all
  have r15: "(mem_delivery_step False)\<^sup>*\<^sup>* (redis_at Map.empty 0, [], []) (redis_at ?ks4 60, [?b], [])"
    by (rule mem_run_step [OF refused], rule mem_releases [of "?a\<lparr>h_refused := True\<rparr>"]) simp_all
  have r16: "(mem_delivery_step False)\<^sup>*\<^sup>* (redis_at Map.empty 0, [], []) (redis_at ?ks5 60, [?b, ?b], [])"
    by (rule mem_run_step [OF r15], rule mem_claims) simp_all
  note other = r16
  from late other show ?thesis
    by (intro conjI exI [of _ "redis_at ?ks3 61"] exI [of _ "[?a\<lparr>h_sent := Some 1\<rparr>]"] exI [of _ ?log']
        exI [of _ "redis_at ?ks5 60"] exI [of _ "[?b, ?b]"] exI [of _ "[]"]) (simp_all add: in_lease_def)
qed

end
