(* ===== verification/Email_Consumer.thy ===== *)
theory Email_Consumer
  imports Mail_Service Idempotency_Store "HOL-Library.Sublist"
begin

text \<open>
  The consumer of the email queue, \<open>notification-service/src/consumer\<close> (\<open>email.consumer.ts\<close>,
  \<open>handlers.ts\<close>, \<open>email.consumer.config.ts\<close>): what it does with one delivery. \<open>email_delivery_settled\<close>
  says how every delivery ends and when a mail is sent; \<open>email_life_ends\<close> that every message is
  acknowledged or dead-lettered after at most four deliveries; \<open>crashed_claim_loses_mail\<close> what
  becomes of a message whose consumer crashed.

  The SMTP server, the channels of the publishers and the formats of the schema are parameters;
  \<open>message_of\<close> is \<open>error instanceof Error ? error.message : 'delivery failed'\<close>.
\<close>

section \<open>The handlers\<close>

definition EMAIL_MAX_RETRIES :: int where "EMAIL_MAX_RETRIES = 3"
definition RETRY_DELAY_MS :: nat where "RETRY_DELAY_MS = 5000"

definition deadLetterInvalid :: "consume_message \<Rightarrow> 'w channel \<Rightarrow> ('w, bool) async" where
  "deadLetterInvalid msg ch =
     sendToQueue ch EMAIL_DEAD_QUEUE_NAME (msg_content msg)
       ((spread_headers msg)\<lparr>dead_reason := Some ''invalid-schema''\<rparr>)"

definition next_try :: "consume_message \<Rightarrow> amqp_headers" where
  "next_try msg = (spread_headers msg)\<lparr>retry_count := Some (retryCount msg + 1)\<rparr>"

definition consumer_handleRetry :: "consume_message \<Rightarrow> 'w channel \<Rightarrow> ('w, bool) async" where
  "consumer_handleRetry msg ch =
     (if EMAIL_MAX_RETRIES \<le> retryCount msg then
        await (sendToQueue ch EMAIL_DEAD_QUEUE_NAME (msg_content msg) (spread_headers msg)) (\<lambda>_.
        await (nack ch msg False) (\<lambda>_.
        ret True))
      else
        await (sendToQueue ch EMAIL_RETRY_QUEUE_NAME (msg_content msg) (next_try msg)) (\<lambda>_.
        await (nack ch msg False) (\<lambda>_.
        ret False)))"

section \<open>The consumer\<close>

record 'w consumer_deps =
  notifier_of :: "'w notifier"
  idempotency_of :: "'w idempotency_store"
  deliveredPublisher :: "release_delivered \<Rightarrow> ('w, unit) async"

definition parseMessage :: "(string \<Rightarrow> bool) \<Rightarrow> (string \<Rightarrow> bool) \<Rightarrow> consume_message \<Rightarrow> email_message option" where
  "parseMessage email_ok uuid_ok msg =
     (case JSON_parse (msg_content msg) of
        None \<Rightarrow> None
      | Some parsed \<Rightarrow> emailMessageSchema email_ok uuid_ok parsed)"

definition deliver :: "email_message \<Rightarrow> 'w consumer_deps \<Rightarrow> ('w, unit) async" where
  "deliver message deps =
     (case message of
        Release k email repo tag token \<Rightarrow>
          sendReleaseNotification (notifier_of deps)
            \<lparr>rp_email = email, rp_repo = repo, rp_tag = tag, rp_unsubscribeToken = token\<rparr>
      | Confirmation k email repo token g \<Rightarrow> sendConfirmationEmail (notifier_of deps) email repo token)"

definition confirmDelivery :: "(confirmation_reply \<Rightarrow> ('w, unit) async) \<Rightarrow> email_message \<Rightarrow> 'w consumer_deps \<Rightarrow>
    ('w, unit) async" where
  "confirmDelivery publish_reply message deps =
     (case message of
        Release k email repo tag token \<Rightarrow>
          deliveredPublisher deps \<lparr>dlv_email = email, dlv_repo = repo, dlv_tag = tag\<rparr>
      | Confirmation k email repo token g \<Rightarrow>
          await (if g \<noteq> [] then publish_reply \<lparr>rep_sagaId = g, rep_status = SENT, rep_reason = None\<rparr> else ret ()) (\<lambda>_.
          if g \<noteq> [] then publish_reply \<lparr>rep_sagaId = g, rep_status = SENT, rep_reason = None\<rparr> else ret ()))"

definition publishSagaFailure :: "(confirmation_reply \<Rightarrow> ('w, unit) async) \<Rightarrow> (js_error \<Rightarrow> string) \<Rightarrow> email_message \<Rightarrow>
    js_error \<Rightarrow> ('w, unit) async" where
  "publishSagaFailure publish_reply message_of message error =
     (case message of
        Release k email repo tag token \<Rightarrow> ret ()
      | Confirmation k email repo token g \<Rightarrow>
          if g = [] then ret ()
          else swallow (publish_reply \<lparr>rep_sagaId = g, rep_status = FAILED, rep_reason = Some (message_of error)\<rparr>))"

text \<open>The two ways a delivery is confirmed: \<open>confirmDelivery\<close>, \<open>ack\<close>, and the retry when one of them throws.\<close>

definition confirm_and_ack :: "(confirmation_reply \<Rightarrow> ('w, unit) async) \<Rightarrow> consume_message \<Rightarrow> 'w channel \<Rightarrow>
    'w consumer_deps \<Rightarrow> email_message \<Rightarrow> ('w, unit) async" where
  "confirm_and_ack publish_reply msg ch deps message =
     try_catch
       (await (confirmDelivery publish_reply message deps) (\<lambda>_. ack ch msg))
       (\<lambda>err. await (consumer_handleRetry msg ch) (\<lambda>_. ret ()))"

definition claimed_delivery :: "(confirmation_reply \<Rightarrow> ('w, unit) async) \<Rightarrow> (js_error \<Rightarrow> string) \<Rightarrow> consume_message \<Rightarrow>
    'w channel \<Rightarrow> 'w consumer_deps \<Rightarrow> email_message \<Rightarrow> ('w, unit) async" where
  "claimed_delivery publish_reply message_of msg ch deps message =
     await
       (try_catch
          (await (deliver message deps) (\<lambda>_. ret True))
          (\<lambda>error.
             await (swallow (release (idempotency_of deps) (idempotencyKey message))) (\<lambda>_.
             await (consumer_handleRetry msg ch) (\<lambda>deadLettered.
             await (if deadLettered then publishSagaFailure publish_reply message_of message error else ret ()) (\<lambda>_.
             ret False)))))
       (\<lambda>delivered.
          if delivered then
            await (swallow (confirm (idempotency_of deps) (idempotencyKey message))) (\<lambda>_.
            confirm_and_ack publish_reply msg ch deps message)
          else ret ())"

definition consumer_processMessage :: "(string \<Rightarrow> bool) \<Rightarrow> (string \<Rightarrow> bool) \<Rightarrow>
    (confirmation_reply \<Rightarrow> ('w, unit) async) \<Rightarrow> (js_error \<Rightarrow> string) \<Rightarrow> 'w channel \<Rightarrow> 'w consumer_deps \<Rightarrow>
    consume_message \<Rightarrow> ('w, unit) async" where
  "consumer_processMessage email_ok uuid_ok publish_reply message_of ch deps msg =
     (case parseMessage email_ok uuid_ok msg of
        None \<Rightarrow> await (deadLetterInvalid msg ch) (\<lambda>_. ack ch msg)
      | Some message \<Rightarrow>
          await
            (try_catch
               (await (claim (idempotency_of deps) (idempotencyKey message)) (\<lambda>c. ret (Some c)))
               (\<lambda>err. await (consumer_handleRetry msg ch) (\<lambda>_. ret None)))
            (\<lambda>c. case c of
                None \<Rightarrow> ret ()
              | Some Done \<Rightarrow> confirm_and_ack publish_reply msg ch deps message
              | Some In_Progress \<Rightarrow> await (consumer_handleRetry msg ch) (\<lambda>_. ret ())
              | Some Claimed \<Rightarrow> claimed_delivery publish_reply message_of msg ch deps message))"

definition consumer_onMessage :: "(string \<Rightarrow> bool) \<Rightarrow> (string \<Rightarrow> bool) \<Rightarrow>
    (confirmation_reply \<Rightarrow> ('w, unit) async) \<Rightarrow> (js_error \<Rightarrow> string) \<Rightarrow> 'w channel \<Rightarrow> 'w consumer_deps \<Rightarrow>
    consume_message option \<Rightarrow> ('w, unit) async" where
  "consumer_onMessage email_ok uuid_ok publish_reply message_of ch deps m =
     (case m of
        None \<Rightarrow> ret ()
      | Some msg \<Rightarrow>
          try_catch (consumer_processMessage email_ok uuid_ok publish_reply message_of ch deps msg)
            (\<lambda>err. swallow (nack ch msg False)))"

section \<open>What the broker is told\<close>

text \<open>The event a failed delivery ends with, and the events that confirm a delivered mail. The reply of a
  confirmation is published twice.\<close>

definition failed_event :: "consume_message \<Rightarrow> broker_event" where
  "failed_event msg =
     (if EMAIL_MAX_RETRIES \<le> retryCount msg then Sent EMAIL_DEAD_QUEUE_NAME (msg_content msg) (spread_headers msg)
      else Sent EMAIL_RETRY_QUEUE_NAME (msg_content msg) (next_try msg))"

definition reply_event :: "confirmation_reply \<Rightarrow> broker_event" where
  "reply_event r = Sent SAGA_CONFIRMATION_REPLY_QUEUE (Text (confirmation_reply_json r)) no_headers"

definition delivered_event :: "release_delivered \<Rightarrow> broker_event" where
  "delivered_event d = Sent RELEASE_DELIVERED_QUEUE_NAME (Text (release_delivered_json d)) no_headers"

definition confirming_events :: "email_message \<Rightarrow> broker_event list" where
  "confirming_events message =
     (case message of
        Release k email repo tag token \<Rightarrow> [delivered_event \<lparr>dlv_email = email, dlv_repo = repo, dlv_tag = tag\<rparr>]
      | Confirmation k email repo token g \<Rightarrow>
          if g = [] then []
          else replicate 2 (reply_event \<lparr>rep_sagaId = g, rep_status = SENT, rep_reason = None\<rparr>))"

definition mail_of :: "string \<Rightarrow> email_message \<Rightarrow> send_options" where
  "mail_of baseUrl message =
     (case message of
        Release k email repo tag token \<Rightarrow>
          release_mail baseUrl \<lparr>rp_email = email, rp_repo = repo, rp_tag = tag, rp_unsubscribeToken = token\<rparr>
      | Confirmation k email repo token g \<Rightarrow> confirmation_mail baseUrl email repo token)"

context closing_channel begin

lemma consumer_handleRetry_outcome:
  assumes "consumer_handleRetry msg ch w = (q, w')"
  shows "rest w' = rest w \<and>
    (q = Inr (EMAIL_MAX_RETRIES \<le> retryCount msg) \<and> \<not> closed w \<and>
       broker w' = broker w @ [failed_event msg, Nacked msg False] \<or>
     isl q \<and> closed w' \<and> (\<exists>evs \<in> {[], [failed_event msg]}. broker w' = broker w @ evs \<and> (closed w \<longrightarrow> evs = [])))"
proof -
  obtain to h b where send: "consumer_handleRetry msg ch =
      await (sendToQueue ch to (msg_content msg) h) (\<lambda>_. await (nack ch msg False) (\<lambda>_. ret b))"
    and e: "failed_event msg = Sent to (msg_content msg) h" and b: "b = (EMAIL_MAX_RETRIES \<le> retryCount msg)"
    by (cases "EMAIL_MAX_RETRIES \<le> retryCount msg") (auto simp: consumer_handleRetry_def failed_event_def)
  from assms [unfolded send] show ?thesis
  proof (cases rule: await_outcome)
    case (rejected err)
    from sendToQueue_law [OF rejected(1)] send_closed [OF rejected(1)] rejected(2) show ?thesis by simp
  next
    case (resolved sent w1)
    from sendToQueue_law [OF resolved(1)] have w1: "broker w1 = broker w @ [failed_event msg]" "rest w1 = rest w"
      by (simp_all add: e)
    have not_closed: "\<not> closed w" using closed_send [OF _ resolved(1)] by blast
    from resolved(2) show ?thesis
    proof (cases rule: await_outcome)
      case (rejected err)
      from nack_law [OF rejected(1)] nack_closed [OF rejected(1)] rejected(2) w1 not_closed show ?thesis by simp
    next
      case (resolved u w2)
      from nack_law [OF resolved(1)] resolved(2) w1 b not_closed show ?thesis by simp
    qed
  qed
qed

end

section \<open>How a delivery ends\<close>

locale consumer_env =
  chan: closing_channel ch broker "\<lambda>w. (marks w, mailbox w)" closed +
  idem: idempotency_contract "idempotency_of deps" marks now "\<lambda>w. (broker w, mailbox w)" ttl lease +
  mails: broker_publisher "\<lambda>m. deliver m deps" "mail_of baseUrl" mailbox "\<lambda>w. (marks w, broker w)" +
  told: broker_publisher "deliveredPublisher deps" delivered_event broker "\<lambda>w. (marks w, mailbox w)" +
  replies: broker_publisher publish_reply reply_event broker "\<lambda>w. (marks w, mailbox w)"
  for ch :: "'w channel"
    and deps :: "'w consumer_deps"
    and publish_reply :: "confirmation_reply \<Rightarrow> ('w, unit) async"
    and broker :: "'w \<Rightarrow> broker_event list"
    and marks :: "'w \<Rightarrow> keyspace"
    and mailbox :: "'w \<Rightarrow> send_options list"
    and closed :: "'w \<Rightarrow> bool"
    and now :: "'w \<Rightarrow> nat"
    and ttl lease :: nat
    and baseUrl :: string

text \<open>
  \<open>email_end msg message evs sent over\<close>: the events of a delivery are those that confirm the mail (none
  unless the mail was \<open>sent\<close>; all of them, when it is acknowledged), followed by its settlement:
  acknowledged, or a copy on the retry queue or the dead letter queue, with a failure reply for the
  saga if it was a confirmation that is given up, or nothing more since the channel is \<open>over\<close>.
\<close>

definition saga_failure :: "email_message \<Rightarrow> broker_event list \<Rightarrow> bool" where
  "saga_failure message evs \<longleftrightarrow>
     (case message of
        Release k email repo tag token \<Rightarrow> evs = []
      | Confirmation k email repo token g \<Rightarrow> evs = [] \<or> g \<noteq> [] \<and>
          (\<exists>reason. evs = [reply_event \<lparr>rep_sagaId = g, rep_status = FAILED, rep_reason = Some reason\<rparr>]))"

definition email_end :: "consume_message \<Rightarrow> email_message \<Rightarrow> broker_event list \<Rightarrow> bool \<Rightarrow> bool \<Rightarrow> bool" where
  "email_end msg message evs sent over \<longleftrightarrow>
     (\<exists>conf settle. evs = conf @ settle \<and> prefix conf (confirming_events message) \<and> (conf = [] \<or> sent) \<and>
        (settle = [Acked msg] \<and> conf = confirming_events message \<and> sent \<or>
         settle = [failed_event msg, Nacked msg False] \<or>
         conf = [] \<and> EMAIL_MAX_RETRIES \<le> retryCount msg \<and>
           (\<exists>fs. settle = [failed_event msg, Nacked msg False] @ fs \<and> saga_failure message fs) \<or>
         settle \<in> {[], [failed_event msg]} \<and> over))"

text \<open>A mail was sent at most once, and only when no mark of it was alive.\<close>

definition mail_sent_if_free :: "keyspace \<Rightarrow> nat \<Rightarrow> string \<Rightarrow> send_options \<Rightarrow> send_options list \<Rightarrow> bool" where
  "mail_sent_if_free ks t key mail ms \<longleftrightarrow> ms = [] \<or> ms = [mail] \<and> (\<exists>t' \<ge> t. live ks t' (namespaced key) = None)"

definition mail_is_out :: "keyspace \<Rightarrow> nat \<Rightarrow> string \<Rightarrow> send_options \<Rightarrow> send_options list \<Rightarrow> bool" where
  "mail_is_out ks t key mail ms \<longleftrightarrow> ms = [mail] \<or> (\<exists>t' \<ge> t. live ks t' (namespaced key) = Some DONE_MARK)"

text \<open>
  \<open>email_course\<close> says which of these ends a delivery has, by what the store, the notifier and the publishers
  answered in its run. Its parts: \<open>given_back\<close>, retried or dead-lettered; \<open>told_and_acked\<close>, the deliverer's
  events and the acknowledgement, or as much of them as was accepted; \<open>given_up\<close>, given back after the mail
  failed, at the limit with the failure reply the saga is owed. The reply is missing only when its own
  publication was rejected.
\<close>

definition given_back :: "consume_message \<Rightarrow> broker_event list \<Rightarrow> bool \<Rightarrow> bool" where
  "given_back msg evs over \<longleftrightarrow>
     evs = [failed_event msg, Nacked msg False] \<or> over \<and> evs \<in> {[], [failed_event msg]}"

definition told_and_acked :: "(confirmation_reply \<Rightarrow> ('w, unit) async) \<Rightarrow> 'w consumer_deps \<Rightarrow> ('w \<Rightarrow> broker_event list) \<Rightarrow>
    consume_message \<Rightarrow> email_message \<Rightarrow> 'w \<Rightarrow> broker_event list \<Rightarrow> bool \<Rightarrow> bool" where
  "told_and_acked publish_reply deps broker msg message w evs over \<longleftrightarrow>
     (case confirmDelivery publish_reply message deps w of
        (Inr u, w1) \<Rightarrow> evs = confirming_events message @ [Acked msg] \<or> over \<and> evs = confirming_events message
      | (Inl e, w1) \<Rightarrow> \<exists>told back. evs = told @ back \<and> broker w1 = broker w @ told \<and>
          prefix told (confirming_events message) \<and> given_back msg back over)"

definition owed_failure :: "(js_error \<Rightarrow> string) \<Rightarrow> consume_message \<Rightarrow> email_message \<Rightarrow> js_error \<Rightarrow> confirmation_reply option" where
  "owed_failure message_of msg message e =
     (case message of
        Release k email repo tag token \<Rightarrow> None
      | Confirmation k email repo token g \<Rightarrow>
          if EMAIL_MAX_RETRIES \<le> retryCount msg \<and> g \<noteq> [] then
            Some \<lparr>rep_sagaId = g, rep_status = FAILED, rep_reason = Some (message_of e)\<rparr>
          else None)"

definition given_up :: "(confirmation_reply \<Rightarrow> ('w, unit) async) \<Rightarrow> ('w \<Rightarrow> broker_event list) \<Rightarrow> consume_message \<Rightarrow>
    confirmation_reply option \<Rightarrow> 'w \<Rightarrow> broker_event list \<Rightarrow> bool \<Rightarrow> bool" where
  "given_up publish_reply broker msg owed w' evs over \<longleftrightarrow>
     (case owed of
        None \<Rightarrow> given_back msg evs over
      | Some r \<Rightarrow> over \<and> evs \<in> {[], [failed_event msg]} \<or>
          (\<exists>w1 p fs. publish_reply r w1 = (p, w') \<and> broker w' = broker w1 @ fs \<and>
             evs = [failed_event msg, Nacked msg False] @ fs \<and> (fs = [reply_event r] \<or> isl p \<and> fs = [])))"

definition email_course :: "(confirmation_reply \<Rightarrow> ('w, unit) async) \<Rightarrow> (js_error \<Rightarrow> string) \<Rightarrow> 'w consumer_deps \<Rightarrow>
    ('w \<Rightarrow> broker_event list) \<Rightarrow> ('w \<Rightarrow> keyspace) \<Rightarrow> ('w \<Rightarrow> send_options list) \<Rightarrow> ('w \<Rightarrow> bool) \<Rightarrow> string \<Rightarrow>
    consume_message \<Rightarrow> email_message \<Rightarrow> 'w \<Rightarrow> 'w \<Rightarrow> bool" where
  "email_course publish_reply message_of deps broker marks mailbox closed baseUrl msg message w w' \<longleftrightarrow>
     (\<exists>evs. broker w' = broker w @ evs \<and>
       (case claim (idempotency_of deps) (idempotencyKey message) w of
          (Inr Claimed, w1) \<Rightarrow>
            (case deliver message deps w1 of
               (Inr u, w2) \<Rightarrow>
                 let w3 = snd (confirm (idempotency_of deps) (idempotencyKey message) w2) in
                 mailbox w' = mailbox w @ [mail_of baseUrl message] \<and> marks w' = marks w3 \<and>
                 told_and_acked publish_reply deps broker msg message w3 evs (closed w')
             | (Inl e, w2) \<Rightarrow>
                 (mailbox w' = mailbox w \<or> mailbox w' = mailbox w @ [mail_of baseUrl message]) \<and>
                 mailbox w' = mailbox w2 \<and>
                 marks w' = marks (snd (release (idempotency_of deps) (idempotencyKey message) w2)) \<and>
                 given_up publish_reply broker msg (owed_failure message_of msg message e) w' evs (closed w'))
        | (Inr Done, w1) \<Rightarrow> mailbox w' = mailbox w \<and> marks w' = marks w \<and>
            told_and_acked publish_reply deps broker msg message w1 evs (closed w')
        | (Inr In_Progress, w1) \<Rightarrow> mailbox w' = mailbox w \<and> marks w' = marks w \<and> given_back msg evs (closed w')
        | (Inl e, w1) \<Rightarrow> mailbox w' = mailbox w \<and> marks w' = marks w1 \<and> given_back msg evs (closed w')))"

lemma email_end_acked: "sent \<Longrightarrow> email_end msg message (confirming_events message @ [Acked msg]) sent over"
  unfolding email_end_def by blast

lemma email_end_failed:
  "prefix conf (confirming_events message) \<Longrightarrow> conf = [] \<or> sent \<Longrightarrow>
    email_end msg message (conf @ [failed_event msg, Nacked msg False]) sent over"
  unfolding email_end_def by blast

lemma email_end_over:
  "prefix conf (confirming_events message) \<Longrightarrow> conf = [] \<or> sent \<Longrightarrow> evs \<in> {[], [failed_event msg]} \<Longrightarrow>
    email_end msg message (conf @ evs) sent True"
  unfolding email_end_def by blast

lemma email_end_dead:
  "EMAIL_MAX_RETRIES \<le> retryCount msg \<Longrightarrow> saga_failure message fs \<Longrightarrow>
    email_end msg message ([failed_event msg, Nacked msg False] @ fs) sent over"
  unfolding email_end_def by (rule exI [of _ "[]"], rule exI [of _ "[failed_event msg, Nacked msg False] @ fs"]) auto

lemma email_end_mono: "email_end msg message evs sent over \<Longrightarrow> (sent \<Longrightarrow> sent') \<Longrightarrow> (over \<Longrightarrow> over') \<Longrightarrow>
    email_end msg message evs sent' over'"
  unfolding email_end_def by blast

context consumer_env begin

lemma confirmDelivery_outcome:
  assumes "confirmDelivery publish_reply message deps w = (q, w')"
  shows "marks w' = marks w \<and> mailbox w' = mailbox w \<and> (\<exists>conf. prefix conf (confirming_events message) \<and>
    broker w' = broker w @ conf \<and> (\<not> isl q \<longrightarrow> conf = confirming_events message))"
proof (cases message)
  case (Release k email repo tag token)
  with assms have run: "deliveredPublisher deps \<lparr>dlv_email = email, dlv_repo = repo, dlv_tag = tag\<rparr> w = (q, w')"
    by (simp add: confirmDelivery_def)
  from told.told_law [OF run] Release show ?thesis by (cases q) (auto simp: confirming_events_def)
next
  case (Confirmation k email repo token g)
  let ?r = "\<lparr>rep_sagaId = g, rep_status = SENT, rep_reason = None\<rparr>"
  show ?thesis
  proof (cases "g = []")
    case True
    with assms Confirmation show ?thesis by (simp add: confirmDelivery_def confirming_events_def)
  next
    case False
    with assms Confirmation have "await (publish_reply ?r) (\<lambda>_. publish_reply ?r) w = (q, w')"
      by (simp add: confirmDelivery_def)
    moreover have conf: "confirming_events message = [reply_event ?r, reply_event ?r]"
      using Confirmation False by (simp add: confirming_events_def numeral_2_eq_2)
    ultimately show ?thesis
    proof (cases rule: await_outcome)
      case (rejected e)
      from replies.told_law [OF rejected(1)] rejected(2) show ?thesis by (auto simp: conf)
    next
      case (resolved u w1)
      from replies.told_law [OF resolved(1)] have "marks w1 = marks w" "mailbox w1 = mailbox w"
        "broker w1 = broker w @ [reply_event ?r]" by simp_all
      with replies.told_law [OF resolved(2)] show ?thesis by (cases q) (auto simp: conf)
    qed
  qed
qed

lemma handleRetry_back:
  assumes run: "await (consumer_handleRetry msg ch) (\<lambda>_. ret x) w = (q, w')"
  shows "marks w' = marks w \<and> mailbox w' = mailbox w \<and> (isl q \<longrightarrow> closed w') \<and>
    (\<exists>evs. broker w' = broker w @ evs \<and> given_back msg evs (closed w') \<and> (closed w \<longrightarrow> evs = [] \<and> closed w'))"
  using run
proof (cases rule: await_outcome)
  case (rejected e)
  from chan.consumer_handleRetry_outcome [OF rejected(1)] rejected(2) show ?thesis by (auto simp: given_back_def)
next
  case (resolved d w1)
  then have w1: "w' = w1" "q = Inr x" by simp_all
  from chan.consumer_handleRetry_outcome [OF resolved(1)] w1 show ?thesis by (auto simp: given_back_def)
qed

lemma confirm_and_ack_course:
  assumes run: "confirm_and_ack publish_reply msg ch deps message w = (q, w')"
  shows "marks w' = marks w \<and> mailbox w' = mailbox w \<and> (isl q \<longrightarrow> closed w') \<and>
    (\<exists>evs. broker w' = broker w @ evs \<and> told_and_acked publish_reply deps broker msg message w evs (closed w'))"
proof -
  obtain t w1 where t: "confirmDelivery publish_reply message deps w = (t, w1)" by fastforce
  from confirmDelivery_outcome [OF t] obtain conf where
    1: "marks w1 = marks w" "mailbox w1 = mailbox w" "prefix conf (confirming_events message)"
      "broker w1 = broker w @ conf" "\<not> isl t \<longrightarrow> conf = confirming_events message" by blast
  have retry: ?thesis if "t = Inl e" "await (consumer_handleRetry msg ch) (\<lambda>_. ret ()) w1 = (q, w')" for e
    using handleRetry_back [OF that(2)] 1(1-4) by (auto simp: told_and_acked_def t that(1))
  show ?thesis
  proof (cases t)
    case (Inl e)
    with run t have "await (consumer_handleRetry msg ch) (\<lambda>_. ret ()) w1 = (q, w')"
      by (simp add: confirm_and_ack_def try_catch_def await_def)
    with retry Inl show ?thesis by blast
  next
    case (Inr u)
    then have conf: "conf = confirming_events message" using 1(5) by simp
    obtain a w2 where a: "ack ch msg w1 = (a, w2)" by fastforce
    show ?thesis
    proof (cases a)
      case (Inl e)
      from chan.ack_law [OF a] chan.ack_closed [OF a [unfolded Inl]] Inl have
        2: "marks w2 = marks w1" "mailbox w2 = mailbox w1" "broker w2 = broker w1" "closed w2" by simp_all
      from run t Inr a Inl have "await (consumer_handleRetry msg ch) (\<lambda>_. ret ()) w2 = (q, w')"
        by (simp add: confirm_and_ack_def try_catch_def await_def)
      from handleRetry_back [OF this] 1 2 conf Inr t show ?thesis by (simp add: told_and_acked_def)
    next
      case r: (Inr v)
      with run t Inr a have "q = Inr ()" "w' = w2" by (simp_all add: confirm_and_ack_def try_catch_def await_def)
      with chan.ack_law [OF a] r 1 conf Inr t show ?thesis by (simp add: told_and_acked_def)
    qed
  qed
qed

lemma release_swallowed:
  assumes "swallow (release (idempotency_of deps) key) w = (q, w')"
  shows "q = Inr () \<and> w' = snd (release (idempotency_of deps) key w) \<and> broker w' = broker w \<and> mailbox w' = mailbox w"
  using swallow_resolves [OF assms] idem.release_law by fastforce

lemma confirm_swallowed:
  assumes "swallow (confirm (idempotency_of deps) key) w = (q, w')"
  shows "q = Inr () \<and> w' = snd (confirm (idempotency_of deps) key w) \<and> broker w' = broker w \<and> mailbox w' = mailbox w"
  using swallow_resolves [OF assms] idem.confirm_law by fastforce

lemma publishSagaFailure_outcome:
  assumes "publishSagaFailure publish_reply message_of message error w = (q, w')"
    and limit: "EMAIL_MAX_RETRIES \<le> retryCount msg"
  shows "q = Inr () \<and> marks w' = marks w \<and> mailbox w' = mailbox w \<and>
    (case owed_failure message_of msg message error of
       None \<Rightarrow> w' = w
     | Some r \<Rightarrow> \<exists>p fs. publish_reply r w = (p, w') \<and> broker w' = broker w @ fs \<and> (fs = [reply_event r] \<or> isl p \<and> fs = []))"
proof (cases "owed_failure message_of msg message error")
  case None
  with assms show ?thesis
    by (cases message) (auto simp: publishSagaFailure_def owed_failure_def split: if_splits)
next
  case (Some r)
  with assms(1) have run: "swallow (publish_reply r) w = (q, w')"
    by (cases message) (auto simp: publishSagaFailure_def owed_failure_def split: if_splits)
  from swallow_resolves [OF run] obtain p where p: "q = Inr ()" "publish_reply r w = (p, w')" by blast
  from replies.told_law [OF p(2)] p Some show ?thesis by (cases p) auto
qed

text \<open>In the following, \<open>w''\<close> is where the callback ends when its body ended in \<open>w'\<close> with \<open>q\<close>: they differ
  only after a rejection, on a closed channel, by a \<open>nack\<close> in vain.\<close>

lemma failed_delivery_course:
  assumes run: "await (consumer_handleRetry msg ch) (\<lambda>deadLettered.
      await (if deadLettered then publishSagaFailure publish_reply message_of message error else ret ()) (\<lambda>_. ret x)) w = (q, w')"
    and fin: "\<not> isl q \<Longrightarrow> w'' = w'"
  shows "marks w' = marks w \<and> mailbox w' = mailbox w \<and> (isl q \<longrightarrow> closed w') \<and> (\<not> isl q \<longrightarrow> q = Inr x) \<and>
    (\<exists>evs. broker w' = broker w @ evs \<and>
       given_up publish_reply broker msg (owed_failure message_of msg message error) w'' evs (closed w'))"
  using run
proof (cases rule: await_outcome)
  case (rejected e)
  from chan.consumer_handleRetry_outcome [OF rejected(1)] rejected(2) show ?thesis
    by (auto simp: given_up_def given_back_def split: option.split)
next
  case (resolved dead w1)
  from chan.consumer_handleRetry_outcome [OF resolved(1)] have
    out: "marks w1 = marks w" "mailbox w1 = mailbox w" "broker w1 = broker w @ [failed_event msg, Nacked msg False]"
      "dead \<longleftrightarrow> EMAIL_MAX_RETRIES \<le> retryCount msg" by auto
  show ?thesis
  proof (cases dead)
    case True
    with resolved(2) have "await (publishSagaFailure publish_reply message_of message error) (\<lambda>_. ret x) w1 = (q, w')" by simp
    moreover obtain u w2 where f: "publishSagaFailure publish_reply message_of message error w1 = (u, w2)" by fastforce
    moreover note told = publishSagaFailure_outcome [OF f, of msg]
    moreover have "u = Inr ()" using told True out(4) by blast
    ultimately have w2: "w' = w2" "q = Inr x" by (simp_all add: await_def)
    with fin have w'': "w'' = w2" by simp
    show ?thesis
    proof (cases "owed_failure message_of msg message error")
      case None
      with told True w2 w'' out show ?thesis by (simp add: given_up_def given_back_def)
    next
      case (Some r)
      with told True out(4) obtain p fs where p: "publish_reply r w1 = (p, w2)" "broker w2 = broker w1 @ fs"
        "fs = [reply_event r] \<or> isl p \<and> fs = []" "marks w2 = marks w1" "mailbox w2 = mailbox w1" by auto
      then have "given_up publish_reply broker msg (Some r) w2 ([failed_event msg, Nacked msg False] @ fs) (closed w')"
        unfolding given_up_def option.case by blast
      with p(2,4,5) w2 w'' out Some show ?thesis by simp
    qed
  next
    case False
    with out(4) have "owed_failure message_of msg message error = None" by (cases message) (simp_all add: owed_failure_def)
    moreover from False resolved(2) have "w' = w1" "q = Inr x" by simp_all
    ultimately show ?thesis using out by (simp add: given_up_def given_back_def)
  qed
qed

lemma claimed_delivery_course:
  assumes claimed: "claim (idempotency_of deps) (idempotencyKey message) w0 = (Inr Claimed, w)"
    and run: "claimed_delivery publish_reply message_of msg ch deps message w = (q, w')"
    and fin: "\<not> isl q \<Longrightarrow> w'' = w'" "marks w'' = marks w'" "mailbox w'' = mailbox w'" "broker w'' = broker w'"
      "closed w' \<Longrightarrow> closed w''"
  shows "(isl q \<longrightarrow> closed w') \<and>
    email_course publish_reply message_of deps broker marks mailbox closed baseUrl msg message w0 w''"
proof -
  let ?key = "idempotencyKey message" and ?mail = "mail_of baseUrl message"
  from idem.claim_law [OF claimed] have 0: "broker w = broker w0" "mailbox w = mailbox w0" by simp_all
  obtain d w1 where d: "deliver message deps w = (d, w1)" by fastforce
  show ?thesis
  proof (cases d)
    case (Inr u)
    with mails.told_law [OF d] have 1: "mailbox w1 = mailbox w @ [?mail]" "broker w1 = broker w" by simp_all
    obtain r w2 where c: "swallow (confirm (idempotency_of deps) ?key) w1 = (r, w2)" by fastforce
    from confirm_swallowed [OF c] have 2: "r = Inr ()" "w2 = snd (confirm (idempotency_of deps) ?key w1)"
      "broker w2 = broker w1" "mailbox w2 = mailbox w1" by blast+
    from run d Inr c 2(1) have "confirm_and_ack publish_reply msg ch deps message w2 = (q, w')"
      by (simp add: claimed_delivery_def await_def try_catch_def)
    from confirm_and_ack_course [OF this] obtain evs where 3: "marks w' = marks w2" "mailbox w' = mailbox w2"
      "isl q \<longrightarrow> closed w'" "broker w' = broker w2 @ evs"
      "told_and_acked publish_reply deps broker msg message w2 evs (closed w')" by blast
    have "closed w'' = closed w' \<or> isl q" using fin(1) by blast
    with 3(3) fin(5) have "closed w'' = closed w'" by blast
    with 0 1 2 3 fin(2-4) show ?thesis
      by (simp add: email_course_def claimed d Inr Let_def)
  next
    case (Inl e)
    with mails.told_law [OF d] have 1: "mailbox w1 = mailbox w \<or> mailbox w1 = mailbox w @ [?mail]" "broker w1 = broker w"
      by simp_all
    obtain r w2 where c: "swallow (release (idempotency_of deps) ?key) w1 = (r, w2)" by fastforce
    from release_swallowed [OF c] have 2: "r = Inr ()" "w2 = snd (release (idempotency_of deps) ?key w1)"
      "broker w2 = broker w1" "mailbox w2 = mailbox w1" by blast+
    obtain r3 w3 where f: "await (consumer_handleRetry msg ch) (\<lambda>deadLettered.
        await (if deadLettered then publishSagaFailure publish_reply message_of message e else ret ()) (\<lambda>_. ret False)) w2 = (r3, w3)"
      by fastforce
    have body: "(case r3 of Inl e \<Rightarrow> (Inl e, w3) | Inr b \<Rightarrow> (if b then
        await (swallow (confirm (idempotency_of deps) ?key)) (\<lambda>_.
          confirm_and_ack publish_reply msg ch deps message) else ret ()) w3) = (q, w')"
      using run d Inl c 2(1) f
      by (simp add: claimed_delivery_def await_def try_catch_def split: prod.splits sum.splits)
    have r3: "\<not> isl r3 \<longrightarrow> r3 = Inr False"
      using failed_delivery_course [OF f, of w3] by blast
    with body have same: "w' = w3" "isl q = isl r3" by (auto split: sum.splits)
    from failed_delivery_course [OF f, of w''] fin(1) same obtain evs where 3: "marks w' = marks w2" "mailbox w' = mailbox w2"
      "isl q \<longrightarrow> closed w'" "broker w' = broker w2 @ evs"
      "given_up publish_reply broker msg (owed_failure message_of msg message e) w'' evs (closed w')" by auto
    have "closed w'' = closed w' \<or> isl q" using fin(1) by blast
    with 3(3) fin(5) have "closed w'' = closed w'" by blast
    with 0 1 2 3 fin(2-4) show ?thesis
      by (auto simp: email_course_def claimed d Inl)
  qed
qed

lemma processMessage_course:
  assumes parsed: "parseMessage email_ok uuid_ok msg = Some message"
    and run: "consumer_processMessage email_ok uuid_ok publish_reply message_of ch deps msg w = (q, w')"
    and fin: "\<not> isl q \<Longrightarrow> w'' = w'" "marks w'' = marks w'" "mailbox w'' = mailbox w'" "broker w'' = broker w'"
      "closed w' \<Longrightarrow> closed w''"
  shows "(isl q \<longrightarrow> closed w') \<and>
    email_course publish_reply message_of deps broker marks mailbox closed baseUrl msg message w w''"
proof -
  let ?key = "idempotencyKey message"
  have over: "closed w'' = closed w'" if "isl q \<longrightarrow> closed w'" using fin(1,5) that by blast
  obtain c w1 where c: "claim (idempotency_of deps) ?key w = (c, w1)" by fastforce
  note law = idem.claim_law [OF c]
  then have 1: "broker w1 = broker w" "mailbox w1 = mailbox w" by simp_all
  have retry: ?thesis if "c = Inl e \<or> c = Inr In_Progress"
    "await (consumer_handleRetry msg ch) (\<lambda>_. ret ()) w1 = (q, w')" for e
    using handleRetry_back [OF that(2)] that(1) law over 1 fin(2-4) by (auto simp: email_course_def c)
  show ?thesis
  proof (cases c)
    case (Inl e)
    with run c have "await (consumer_handleRetry msg ch) (\<lambda>_. ret ()) w1 = (q, w')"
      by (simp add: consumer_processMessage_def parsed await_def try_catch_def split: prod.splits sum.splits)
    with retry Inl show ?thesis by blast
  next
    case (Inr r)
    show ?thesis
    proof (cases r)
      case In_Progress
      with run c Inr have "await (consumer_handleRetry msg ch) (\<lambda>_. ret ()) w1 = (q, w')"
        by (simp add: consumer_processMessage_def parsed await_def try_catch_def ret_def)
      with retry Inr In_Progress show ?thesis by blast
    next
      case Claimed
      with run c Inr have "claimed_delivery publish_reply message_of msg ch deps message w1 = (q, w')"
        by (simp add: consumer_processMessage_def parsed await_def try_catch_def ret_def)
      from claimed_delivery_course [OF c [unfolded Inr Claimed] this fin] show ?thesis .
    next
      case Done
      with run c Inr have "confirm_and_ack publish_reply msg ch deps message w1 = (q, w')"
        by (simp add: consumer_processMessage_def parsed await_def try_catch_def ret_def)
      from confirm_and_ack_course [OF this] law over 1 fin(2-4) Inr Done show ?thesis
        by (auto simp: email_course_def c)
    qed
  qed
qed

lemma onMessage_course:
  assumes parsed: "parseMessage email_ok uuid_ok msg = Some message"
    and run: "consumer_onMessage email_ok uuid_ok publish_reply message_of ch deps (Some msg) w = (q, w')"
  shows "q = Inr () \<and>
    email_course publish_reply message_of deps broker marks mailbox closed baseUrl msg message w w'"
proof -
  let ?body = "consumer_processMessage email_ok uuid_ok publish_reply message_of ch deps msg"
  obtain q1 w1 where body: "?body w = (q1, w1)" by fastforce
  from run have "try_catch ?body (\<lambda>err. swallow (nack ch msg False)) w = (q, w')" by (simp add: consumer_onMessage_def)
  then show ?thesis
  proof (cases rule: try_catch_outcome)
    case (resolved u)
    with processMessage_course [OF parsed resolved(1)] show ?thesis by simp
  next
    case (rejected err w2)
    have "closed w2" using processMessage_course [OF parsed rejected(1), of w2] by simp
    from chan.swallow_nack_closed [OF rejected(2) this] have
      "q = Inr ()" "marks w' = marks w2" "mailbox w' = mailbox w2" "broker w' = broker w2" "closed w'" by auto
    with processMessage_course [OF parsed rejected(1), of w'] show ?thesis by simp
  qed
qed

text \<open>What the course leaves: \<open>email_end\<close>, and a mail only when no mark of it was alive.\<close>

lemma given_back_end:
  "given_back msg evs over \<Longrightarrow> prefix conf (confirming_events message) \<Longrightarrow> conf = [] \<or> sent \<Longrightarrow>
    email_end msg message (conf @ evs) sent over"
  unfolding given_back_def using email_end_failed email_end_over by metis

lemma told_and_acked_end:
  assumes "told_and_acked publish_reply deps broker msg message w evs over" and sent
  shows "email_end msg message evs sent over"
proof -
  obtain t w1 where t: "confirmDelivery publish_reply message deps w = (t, w1)" by fastforce
  have "email_end msg message (confirming_events message @ []) sent True"
    by (rule email_end_over) (simp_all add: assms(2))
  with assms(1) email_end_acked [of sent] given_back_end [of msg _ over _ message sent] assms(2) show ?thesis
    by (cases t) (auto simp: told_and_acked_def t)
qed

lemma given_up_end:
  assumes "given_up publish_reply broker msg (owed_failure message_of msg message e) w' evs over"
  shows "email_end msg message evs sent over"
proof (cases "owed_failure message_of msg message e")
  case None
  with assms given_back_end [of msg evs over "[]" message sent] show ?thesis by (simp add: given_up_def)
next
  case (Some r)
  then have r: "EMAIL_MAX_RETRIES \<le> retryCount msg" "saga_failure message [reply_event r]" "saga_failure message []"
    by (cases message; auto simp: owed_failure_def saga_failure_def split: if_splits)+
  from assms Some email_end_over [OF Nil_prefix, of sent evs msg message]
    email_end_dead [OF r(1,2)] email_end_dead [OF r(1,3)] show ?thesis
    by (auto simp: given_up_def)
qed

lemma course_end:
  assumes "email_course publish_reply message_of deps broker marks mailbox closed baseUrl msg message w w'"
  shows "\<exists>ms evs. mailbox w' = mailbox w @ ms \<and> broker w' = broker w @ evs \<and>
    mail_sent_if_free (marks w) (now w) (idempotencyKey message) (mail_of baseUrl message) ms \<and>
    email_end msg message evs (mail_is_out (marks w) (now w) (idempotencyKey message) (mail_of baseUrl message) ms) (closed w')"
proof -
  let ?key = "idempotencyKey message" and ?mail = "mail_of baseUrl message"
  obtain c w1 where c: "claim (idempotency_of deps) ?key w = (c, w1)" by fastforce
  note law = idem.claim_law [OF c]
  have none: "mail_sent_if_free (marks w) (now w) ?key ?mail []" by (simp add: mail_sent_if_free_def)
  show ?thesis
  proof (cases "c = Inr Claimed")
    case True
    obtain d w2 where d: "deliver message deps w1 = (d, w2)" by fastforce
    from law True have free: "mail_sent_if_free (marks w) (now w) ?key ?mail ms" if "ms = [] \<or> ms = [?mail]" for ms
      using that by (auto simp: mail_sent_if_free_def)
    have out: "mail_is_out (marks w) (now w) ?key ?mail [?mail]" by (simp add: mail_is_out_def)
    have c': "claim (idempotency_of deps) ?key w = (Inr Claimed, w1)" using c True by simp
    have "\<exists>ms evs. broker w' = broker w @ evs \<and> mailbox w' = mailbox w @ ms \<and> (ms = [] \<or> ms = [?mail]) \<and>
      email_end msg message evs (mail_is_out (marks w) (now w) ?key ?mail ms) (closed w')"
    proof (cases d)
      case (Inl e)
      from assms obtain evs where "broker w' = broker w @ evs" "mailbox w' = mailbox w \<or> mailbox w' = mailbox w @ [?mail]"
        "given_up publish_reply broker msg (owed_failure message_of msg message e) w' evs (closed w')"
        by (auto simp: email_course_def c' d [unfolded Inl])
      with given_up_end show ?thesis by (metis append_Nil2)
    next
      case (Inr u)
      from assms obtain evs w3 where "broker w' = broker w @ evs" "mailbox w' = mailbox w @ [?mail]"
        "told_and_acked publish_reply deps broker msg message w3 evs (closed w')"
        by (auto simp: email_course_def c' d [unfolded Inr] Let_def)
      with told_and_acked_end out show ?thesis by blast
    qed
    with free show ?thesis by blast
  next
    case False
    have "\<exists>evs. broker w' = broker w @ evs \<and> mailbox w' = mailbox w \<and> (given_back msg evs (closed w') \<or>
        c = Inr Done \<and> told_and_acked publish_reply deps broker msg message w1 evs (closed w'))"
    proof (cases c)
      case (Inl e)
      with assms show ?thesis by (auto simp: email_course_def c)
    next
      case (Inr r)
      with False assms show ?thesis by (cases r) (auto simp: email_course_def c)
    qed
    then obtain evs where b: "broker w' = broker w @ evs" "mailbox w' = mailbox w"
      and o: "given_back msg evs (closed w') \<or>
        c = Inr Done \<and> told_and_acked publish_reply deps broker msg message w1 evs (closed w')" by blast
    from law have was_sent: "c = Inr Done \<Longrightarrow> mail_is_out (marks w) (now w) ?key ?mail []"
      by (auto simp: mail_is_out_def)
    from o have "email_end msg message evs (mail_is_out (marks w) (now w) ?key ?mail []) (closed w')"
      using given_back_end [OF _ Nil_prefix] told_and_acked_end was_sent by fastforce
    with b none show ?thesis by (intro exI [of _ "[]"] exI [of _ evs]) simp
  qed
qed

lemma onMessage_end:
  assumes parsed: "parseMessage email_ok uuid_ok msg = Some message"
    and run: "consumer_onMessage email_ok uuid_ok publish_reply message_of ch deps (Some msg) w = (q, w')"
  shows "q = Inr () \<and> (\<exists>ms evs. mailbox w' = mailbox w @ ms \<and> broker w' = broker w @ evs \<and>
    mail_sent_if_free (marks w) (now w) (idempotencyKey message) (mail_of baseUrl message) ms \<and>
    email_end msg message evs (mail_is_out (marks w) (now w) (idempotencyKey message) (mail_of baseUrl message) ms) (closed w'))"
  using onMessage_course [OF parsed run] course_end by blast

end

section \<open>The life of a message\<close>

text \<open>
  The retry queue returns its messages to the email queue after \<open>RETRY_DELAY_MS\<close>. \<open>email_life\<close> follows
  a message through its deliveries until one of them does not put it on the retry queue; \<open>elapse\<close> is
  what happens in the world in between. Without an end in \<open>fuel\<close> deliveries it is \<open>None\<close>.
\<close>

definition retried_copy :: "broker_event list \<Rightarrow> (content \<times> amqp_headers) option" where
  "retried_copy evs =
     (case List.map_filter (\<lambda>e. case e of
              Sent q c h \<Rightarrow> if q = EMAIL_RETRY_QUEUE_NAME then Some (c, h) else None
            | _ \<Rightarrow> None) evs of
        [] \<Rightarrow> None
      | x # xs \<Rightarrow> Some x)"

fun email_life :: "nat \<Rightarrow> (consume_message option \<Rightarrow> ('w, unit) async) \<Rightarrow> ('w \<Rightarrow> broker_event list) \<Rightarrow>
    ('w \<Rightarrow> 'w) \<Rightarrow> consume_message \<Rightarrow> 'w \<Rightarrow> 'w option" where
  "email_life 0 on_message broker elapse msg w = None"
| "email_life (Suc fuel) on_message broker elapse msg w =
     (let w' = snd (on_message (Some msg) w) in
      case retried_copy (drop (length (broker w)) (broker w')) of
        None \<Rightarrow> Some w'
      | Some (c, h) \<Rightarrow>
          email_life fuel on_message broker elapse
            \<lparr>deliveryTag = Suc (deliveryTag msg), msg_content = c, msg_headers = Some h\<rparr> (elapse w'))"

lemma queues_differ:
  "EMAIL_RETRY_QUEUE_NAME \<noteq> EMAIL_DEAD_QUEUE_NAME" "EMAIL_DEAD_QUEUE_NAME \<noteq> EMAIL_RETRY_QUEUE_NAME"
  "RELEASE_DELIVERED_QUEUE_NAME \<noteq> EMAIL_RETRY_QUEUE_NAME" "SAGA_CONFIRMATION_REPLY_QUEUE \<noteq> EMAIL_RETRY_QUEUE_NAME"
  by (simp_all add: queue_names)

lemma retried_copy_simps:
  "retried_copy [] = None"
  "retried_copy (Acked m # evs) = retried_copy evs" "retried_copy (Nacked m b # evs) = retried_copy evs"
  "retried_copy (Sent q c h # evs) = (if q = EMAIL_RETRY_QUEUE_NAME then Some (c, h) else retried_copy evs)"
  "retried_copy (reply_event r # evs) = retried_copy evs" "retried_copy (delivered_event d # evs) = retried_copy evs"
  by (simp_all add: retried_copy_def map_filter_simps reply_event_def delivered_event_def queues_differ)

lemma confirming_not_retried:
  "prefix conf (confirming_events message) \<Longrightarrow> retried_copy (conf @ evs) = retried_copy evs"
  by (cases message) (auto simp: confirming_events_def prefix_Cons retried_copy_simps numeral_2_eq_2 split: if_splits)

lemma failed_event_retried:
  "retried_copy (failed_event msg # evs) =
     (if EMAIL_MAX_RETRIES \<le> retryCount msg then retried_copy evs else Some (msg_content msg, next_try msg))"
  by (simp add: failed_event_def retried_copy_simps queues_differ)

text \<open>After a delivery the message is acknowledged, dead, on the retry queue, or the channel is over.\<close>

lemma email_end_cases:
  assumes "email_end msg message evs sent over"
  obtains (acked) "Acked msg \<in> set evs" "retried_copy evs = None"
    | (dead) "Sent EMAIL_DEAD_QUEUE_NAME (msg_content msg) (spread_headers msg) \<in> set evs" "retried_copy evs = None"
    | (retried) "retryCount msg < EMAIL_MAX_RETRIES" "retried_copy evs = Some (msg_content msg, next_try msg)"
    | (over) "over" "retried_copy evs = None"
proof -
  from assms obtain conf settle where evs: "evs = conf @ settle" "prefix conf (confirming_events message)"
    and s: "settle = [Acked msg] \<or> settle = [failed_event msg, Nacked msg False] \<or>
      EMAIL_MAX_RETRIES \<le> retryCount msg \<and>
        (\<exists>fs. settle = [failed_event msg, Nacked msg False] @ fs \<and> saga_failure message fs) \<or>
      settle = [] \<and> over \<or> settle = [failed_event msg]"
    unfolding email_end_def by blast
  note copy = confirming_not_retried [OF evs(2)]
  have fs: "retried_copy fs = None" if "saga_failure message fs" for fs
    using that by (cases message) (auto simp: saga_failure_def retried_copy_simps)
  from s show ?thesis
  proof (elim disjE conjE exE)
    assume "settle = [Acked msg]"
    then show ?thesis by (intro acked) (simp_all add: evs(1) copy retried_copy_simps)
  next
    assume st: "settle = [failed_event msg, Nacked msg False]"
    show ?thesis
    proof (cases "EMAIL_MAX_RETRIES \<le> retryCount msg")
      case True
      then show ?thesis by (intro dead) (simp_all add: evs(1) copy st failed_event_retried retried_copy_simps failed_event_def queues_differ)
    next
      case False
      then show ?thesis by (intro retried) (simp_all add: evs(1) copy st failed_event_retried)
    qed
  next
    fix fs' assume "EMAIL_MAX_RETRIES \<le> retryCount msg" "settle = [failed_event msg, Nacked msg False] @ fs'"
      "saga_failure message fs'"
    then show ?thesis
      by (intro dead) (simp_all add: evs(1) copy failed_event_retried retried_copy_simps fs failed_event_def queues_differ)
  next
    assume "settle = []" "over"
    then show ?thesis using copy [of "[]"] by (intro over) (simp_all add: evs(1) retried_copy_simps)
  next
    assume st: "settle = [failed_event msg]"
    show ?thesis
    proof (cases "EMAIL_MAX_RETRIES \<le> retryCount msg")
      case True
      then show ?thesis by (intro dead) (simp_all add: evs(1) copy st failed_event_retried retried_copy_simps failed_event_def queues_differ)
    next
      case False
      then show ?thesis by (intro retried) (simp_all add: evs(1) copy st failed_event_retried)
    qed
  qed
qed

text \<open>How a message ends: acknowledged or on the dead letter queue, or its channel has closed.\<close>

definition email_over :: "content \<Rightarrow> broker_event list \<Rightarrow> bool \<Rightarrow> bool" where
  "email_over c evs over \<longleftrightarrow> over \<or>
     list_ex (\<lambda>e. case e of Acked m \<Rightarrow> msg_content m = c | Sent q c' h \<Rightarrow> q = EMAIL_DEAD_QUEUE_NAME \<and> c' = c | _ \<Rightarrow> False) evs"

context consumer_env begin

lemma email_life_some:
  assumes elapse: "\<And>w. broker (elapse w) = broker w"
    and "parseMessage email_ok uuid_ok msg = Some message" and "EMAIL_MAX_RETRIES < retryCount msg + int fuel"
    and "0 < fuel"
  shows "\<exists>w'. email_life fuel (consumer_onMessage email_ok uuid_ok publish_reply message_of ch deps) broker elapse msg w = Some w' \<and>
    email_over (msg_content msg) (broker w') (closed w')"
  using assms(2-)
proof (induction fuel arbitrary: msg w)
  case (Suc fuel)
  let ?on = "consumer_onMessage email_ok uuid_ok publish_reply message_of ch deps"
  obtain q w1 where run: "?on (Some msg) w = (q, w1)" by fastforce
  from onMessage_end [OF Suc.prems(1) run] obtain evs sent where
    evs: "broker w1 = broker w @ evs" "email_end msg message evs sent (closed w1)" by blast
  then have new: "drop (length (broker w)) (broker w1) = evs" by simp
  from evs(2) show ?case
  proof (cases rule: email_end_cases)
    case acked
    then have "email_over (msg_content msg) (broker w1) (closed w1)"
      using evs(1) by (force simp: email_over_def list_ex_iff)
    with acked new run show ?thesis by simp
  next
    case dead
    then have "email_over (msg_content msg) (broker w1) (closed w1)"
      using evs(1) by (force simp: email_over_def list_ex_iff)
    with dead new run show ?thesis by simp
  next
    case retried
    let ?msg = "\<lparr>deliveryTag = Suc (deliveryTag msg), msg_content = msg_content msg, msg_headers = Some (next_try msg)\<rparr>"
    have "retryCount ?msg = retryCount msg + 1" by (simp add: retryCount_def spread_headers_def next_try_def)
    moreover have "parseMessage email_ok uuid_ok ?msg = Some message" using Suc.prems(1) by (simp add: parseMessage_def)
    moreover have "0 < fuel" using Suc.prems(2) retried(1) by (cases fuel) simp_all
    ultimately have "\<exists>w'. email_life fuel ?on broker elapse ?msg (elapse w1) = Some w' \<and>
        email_over (msg_content msg) (broker w') (closed w')"
      using Suc.IH [of ?msg "elapse w1"] Suc.prems(2) by simp
    with retried new run show ?thesis by simp
  next
    case over
    with new run show ?thesis by (simp add: email_over_def)
  qed
qed simp

text \<open>While the mark of a notification is pending, its deliveries only give it back; when all of them come in
  that time, it is lost.\<close>

lemma pending_delivery:
  assumes parsed: "parseMessage email_ok uuid_ok msg = Some message"
    and run: "consumer_onMessage email_ok uuid_ok publish_reply message_of ch deps (Some msg) w = (q, w')"
    and mark: "marks w (namespaced (idempotencyKey message)) = Some (PENDING_MARK, d)"
    and quick: "now (snd (claim (idempotency_of deps) (idempotencyKey message) w)) < d"
  shows "marks w' = marks w \<and> mailbox w' = mailbox w \<and>
    (\<exists>evs. broker w' = broker w @ evs \<and> given_back msg evs (closed w'))"
proof -
  let ?key = "idempotencyKey message"
  obtain c w1 where c: "claim (idempotency_of deps) ?key w = (c, w1)" by fastforce
  from quick c have "now w1 < d" by simp
  with mark have alive: "live (marks w) (now w1) (namespaced ?key) = Some PENDING_MARK" by (rule live_before_deadline)
  from onMessage_course [OF parsed run] have course: "email_course publish_reply message_of deps broker marks mailbox
    closed baseUrl msg message w w'" by simp
  show ?thesis
  proof (cases c)
    case (Inl e)
    with idem.claim_law [OF c] alive have "marks w1 = marks w" by simp
    with course Inl show ?thesis by (auto simp: email_course_def c)
  next
    case (Inr r)
    with idem.claim_law [OF c] alive have "r = In_Progress" by (cases r) simp_all
    with course Inr show ?thesis by (auto simp: email_course_def c)
  qed
qed

lemma given_back_events:
  assumes "given_back msg evs over"
  shows "published SAGA_CONFIRMATION_REPLY_QUEUE evs = []"
    and "retried_copy evs = None \<Longrightarrow> over \<or> published EMAIL_DEAD_QUEUE_NAME evs = [msg_content msg]"
    and "retried_copy evs = Some x \<Longrightarrow> x = (msg_content msg, next_try msg) \<and> retryCount msg < EMAIL_MAX_RETRIES \<and>
      published EMAIL_DEAD_QUEUE_NAME evs = []"
  using assms
  by (auto simp: given_back_def failed_event_retried retried_copy_simps failed_event_def published_def map_filter_simps
      queues_differ queue_names split: if_splits)

lemma pending_life:
  assumes elapse: "\<And>w. broker (elapse w) = broker w" "\<And>w. marks (elapse w) = marks w"
      "\<And>w. mailbox (elapse w) = mailbox w" "\<And>w. now (elapse w) \<le> now w + pause"
    and quick: "\<And>w. now (snd (claim (idempotency_of deps) (idempotencyKey message) w)) \<le> now w + work"
      "\<And>m w. now (snd (consumer_onMessage email_ok uuid_ok publish_reply message_of ch deps (Some m) w)) \<le> now w + work"
    and "parseMessage email_ok uuid_ok msg = Some message" and "EMAIL_MAX_RETRIES < retryCount msg + int fuel"
    and "0 < fuel" and "marks w (namespaced (idempotencyKey message)) = Some (PENDING_MARK, d)"
    and "now w + fuel * work + (fuel - 1) * pause < d"
  shows "\<exists>w' evs. email_life fuel (consumer_onMessage email_ok uuid_ok publish_reply message_of ch deps) broker elapse msg w = Some w' \<and>
    mailbox w' = mailbox w \<and> marks w' = marks w \<and> broker w' = broker w @ evs \<and>
    published SAGA_CONFIRMATION_REPLY_QUEUE evs = [] \<and>
    (closed w' \<or> published EMAIL_DEAD_QUEUE_NAME evs = [msg_content msg])"
  using assms(7-)
proof (induction fuel arbitrary: msg w)
  case (Suc fuel)
  let ?on = "consumer_onMessage email_ok uuid_ok publish_reply message_of ch deps"
  obtain q w1 where run: "?on (Some msg) w = (q, w1)" by fastforce
  have "now (snd (claim (idempotency_of deps) (idempotencyKey message) w)) < d"
    using quick(1) [of w] Suc.prems(5) by simp
  from pending_delivery [OF Suc.prems(1) run Suc.prems(4) this] obtain evs where
    1: "marks w1 = marks w" "mailbox w1 = mailbox w" "broker w1 = broker w @ evs" "given_back msg evs (closed w1)" by blast
  then have new: "drop (length (broker w)) (broker w1) = evs" by simp
  note evs = given_back_events [OF 1(4)]
  show ?case
  proof (cases "retried_copy evs")
    case None
    with run new 1 evs(1,2) show ?thesis by simp
  next
    case (Some x)
    note more = evs(3) [OF Some]
    let ?msg = "\<lparr>deliveryTag = Suc (deliveryTag msg), msg_content = msg_content msg, msg_headers = Some (next_try msg)\<rparr>"
    have r: "retryCount ?msg = retryCount msg + 1" by (simp add: retryCount_def spread_headers_def next_try_def)
    have p: "parseMessage email_ok uuid_ok ?msg = Some message" using Suc.prems(1) by (simp add: parseMessage_def)
    have f: "0 < fuel" using Suc.prems(2) more by (cases fuel) simp_all
    have t: "now w1 \<le> now w + work" using quick(2) [of msg w] run by simp
    have "now (elapse w1) + fuel * work + (fuel - 1) * pause < d"
      using f t elapse(4) [of w1] Suc.prems(5) by (cases fuel) simp_all
    from Suc.IH [OF p _ f _ this] r Suc.prems(2,4) elapse(2) 1(1) obtain w' evs' where
      "email_life fuel ?on broker elapse ?msg (elapse w1) = Some w'" "mailbox w' = mailbox w1" "marks w' = marks w1"
      "broker w' = broker w1 @ evs'" "published SAGA_CONFIRMATION_REPLY_QUEUE evs' = []"
      "closed w' \<or> published EMAIL_DEAD_QUEUE_NAME evs' = [msg_content msg]"
      by (auto simp: elapse(1,2,3))
    with Some more run new 1 evs(1) show ?thesis by simp
  qed
qed simp

end

end
