(* ===== verification/Js_Strings.thy ===== *)
theory Js_Strings
  imports App_Error
begin

text \<open>
  The string operations of JavaScript the keys of the program are built with: \<open>join\<close>,
  \<open>[...xs].sort()\<close> (by code unit, the order of \<open>List_Lexorder\<close> over \<open>Char_ord\<close>),
  \<open>Buffer.from(s).toString('base64')\<close> and \<open>split\<close>. The strings they are applied to are
  ASCII, where a code unit is a byte.
\<close>

section \<open>Decimal numbers\<close>

fun dec :: "nat \<Rightarrow> string" where
  "dec n = (if n < 10 then [char_of (48 + n)] else dec (n div 10) @ [char_of (48 + n mod 10)])"

declare dec.simps [simp del]

section \<open>split\<close>

fun split_on :: "char \<Rightarrow> string \<Rightarrow> string list" where
  "split_on c [] = [[]]"
| "split_on c (x # xs) =
     (if x = c then [] # split_on c xs
      else (case split_on c xs of [] \<Rightarrow> [[x]] | y # ys \<Rightarrow> (x # y) # ys))"

lemma split_on_nonempty [simp]: "split_on c xs \<noteq> []"
  by (induction xs) (auto split: list.split)

lemma split_on_none: "c \<notin> set xs \<Longrightarrow> split_on c xs = [xs]"
  by (induction xs) auto

lemma split_on_first: "c \<notin> set xs \<Longrightarrow> split_on c (xs @ c # ys) = xs # split_on c ys"
  by (induction xs) auto

section \<open>join is injective on lists of plain strings\<close>

definition plain :: "char \<Rightarrow> string \<Rightarrow> bool" where
  "plain c s \<longleftrightarrow> s \<noteq> [] \<and> c \<notin> set s"

lemma split_join:
  assumes "\<forall>x \<in> set xs. plain c x" and "xs \<noteq> []"
  shows "split_on c (join [c] xs) = xs"
  using assms
proof (induction xs rule: induct_list012)
  case (2 x)
  then show ?case by (simp add: plain_def split_on_none)
next
  case (3 x y zs)
  then have "c \<notin> set x" "split_on c (join [c] (y # zs)) = y # zs" by (simp_all add: plain_def)
  then show ?case using split_on_first [of c x "join [c] (y # zs)"] by simp
qed simp

lemma join_empty: "join [c] xs = [] \<longleftrightarrow> xs = [] \<or> xs = [[]]"
  by (induction xs rule: induct_list012) auto

lemma join_empty_plain: "\<forall>x \<in> set xs. plain c x \<Longrightarrow> join [c] xs = [] \<longleftrightarrow> xs = []"
  by (metis join_empty join.simps(1) list.set_intros(1) plain_def)

lemma join_inj:
  assumes "\<forall>x \<in> set xs. plain c x" and "\<forall>y \<in> set ys. plain c y"
  shows "join [c] xs = join [c] ys \<longleftrightarrow> xs = ys"
proof
  assume eq: "join [c] xs = join [c] ys"
  show "xs = ys"
  proof (cases "xs = [] \<or> ys = []")
    case True
    with eq join_empty_plain [OF assms(1)] join_empty_plain [OF assms(2)] show ?thesis
      by (metis join.simps(1))
  next
    case False
    with eq split_join [OF assms(1)] split_join [OF assms(2)] show ?thesis by metis
  qed
qed simp

section \<open>base64\<close>

definition base64_table :: string where
  "base64_table = ''ABCDEFGHIJKLMNOPQRSTUVWXYZabcdefghijklmnopqrstuvwxyz0123456789+/''"

definition digit64 :: "nat \<Rightarrow> char" where
  "digit64 n = base64_table ! n"

fun base64_bytes :: "nat list \<Rightarrow> string" where
  "base64_bytes [] = []"
| "base64_bytes [a] = [digit64 (a div 4), digit64 (a mod 4 * 16), CHR ''='', CHR ''='']"
| "base64_bytes [a, b] =
     [digit64 (a div 4), digit64 (a mod 4 * 16 + b div 16), digit64 (b mod 16 * 4), CHR ''='']"
| "base64_bytes (a # b # c # bs) =
     digit64 (a div 4) # digit64 (a mod 4 * 16 + b div 16) # digit64 (b mod 16 * 4 + c div 64) #
     digit64 (c mod 64) # base64_bytes bs"

definition base64 :: "string \<Rightarrow> string" where
  "base64 s = base64_bytes (map of_char s)"

lemma base64_example: "base64 ''o/r'' = ''by9y''"
  by code_simp

lemma base64_table_facts:
  "length base64_table = 64" "distinct base64_table" "CHR ''='' \<notin> set base64_table"
  by code_simp+

lemma digit64_inj: "m < 64 \<Longrightarrow> n < 64 \<Longrightarrow> digit64 m = digit64 n \<longleftrightarrow> m = n"
  using base64_table_facts by (simp add: digit64_def nth_eq_iff_index_eq)

lemma digit64_pad: "m < 64 \<Longrightarrow> digit64 m \<noteq> CHR ''=''"
  unfolding digit64_def using base64_table_facts(1,3) by (metis nth_mem)

lemma shifted_inj:
  fixes x y :: nat
  assumes "y < k" "y' < k"
  shows "x * k + y = x' * k + y' \<longleftrightarrow> x = x' \<and> y = y'"
proof
  assume eq: "x * k + y = x' * k + y'"
  from assms have "x = (x * k + y) div k" "x' = (x' * k + y') div k" by simp_all
  with eq have "x = x'" by metis
  with eq show "x = x' \<and> y = y'" by simp
qed simp

lemma div_mod_inj: "(m :: nat) div k = n div k \<Longrightarrow> m mod k = n mod k \<Longrightarrow> m = n"
  by (metis div_mult_mod_eq)

lemma sextets:
  assumes "a < 256" "b < 256" "c < (256 :: nat)"
  shows "a div 4 < 64" "a mod 4 * 16 + b div 16 < 64" "b mod 16 * 4 + c div 64 < 64" "c mod 64 < 64"
    "a mod 4 * 16 < 64" "b mod 16 * 4 < 64"
proof -
  have m: "a mod 4 < 4" "b mod 16 < 16" "c mod 64 < 64" by simp_all
  have d: "a div 4 < 64" "b div 16 < 16" "c div 64 < 4"
    using assms by (simp_all add: less_mult_imp_div_less)
  from m d show "a div 4 < 64" "a mod 4 * 16 + b div 16 < 64" "b mod 16 * 4 + c div 64 < 64"
    "c mod 64 < 64" "a mod 4 * 16 < 64" "b mod 16 * 4 < 64" by linarith+
qed

lemma three_bytes_inj:
  assumes "a < 256" "b < 256" "c < (256 :: nat)" "a' < 256" "b' < 256" "c' < 256"
    and "a div 4 = a' div 4" "a mod 4 * 16 + b div 16 = a' mod 4 * 16 + b' div 16"
    and "b mod 16 * 4 + c div 64 = b' mod 16 * 4 + c' div 64" "c mod 64 = c' mod 64"
  shows "a = a' \<and> b = b' \<and> c = c'"
proof -
  have "b div 16 < 16" "b' div 16 < 16" "c div 64 < 4" "c' div 64 < 4"
    using assms(2,3,5,6) by (simp_all add: less_mult_imp_div_less)
  with assms(8,9) have "a mod 4 = a' mod 4" "b div 16 = b' div 16" "b mod 16 = b' mod 16"
    "c div 64 = c' div 64" using shifted_inj by metis+
  with assms(7,10) show ?thesis by (metis div_mod_inj)
qed

lemma base64_bytes_inj:
  assumes "\<forall>x \<in> set xs. x < 256" and "\<forall>y \<in> set ys. y < 256"
  shows "base64_bytes xs = base64_bytes ys \<longleftrightarrow> xs = ys"
  using assms
proof (induction xs arbitrary: ys rule: base64_bytes.induct)
  case 1
  then show ?case by (cases ys rule: base64_bytes.cases) auto
next
  case (2 a)
  show ?case
  proof (cases ys rule: base64_bytes.cases)
    case (2 a')
    have lt: "a < 256" "a' < 256" using 2 \<open>\<forall>x \<in> set [a]. x < 256\<close> \<open>\<forall>y \<in> set ys. y < 256\<close> by auto
    note s = sextets [OF lt(1,1,1)] sextets [OF lt(2,2,2)]
    have "a = a'" if "a div 4 = a' div 4" "a mod 4 * 16 = a' mod 4 * 16"
      using that by (metis div_mod_inj mult_right_cancel zero_neq_numeral)
    moreover from s have "digit64 (a div 4) = digit64 (a' div 4) \<longleftrightarrow> a div 4 = a' div 4"
      "digit64 (a mod 4 * 16) = digit64 (a' mod 4 * 16) \<longleftrightarrow> a mod 4 * 16 = a' mod 4 * 16"
      by (simp_all only: digit64_inj)
    ultimately show ?thesis unfolding 2 base64_bytes.simps by blast
  next
    case (3 a' b')
    then show ?thesis using 2 sextets [of a' b' b'] digit64_pad [of "b' mod 16 * 4"] by auto
  next
    case (4 a' b' c' bs)
    then show ?thesis using 2 sextets [of a' b' c'] digit64_pad [of "b' mod 16 * 4 + c' div 64"] by auto
  qed simp
next
  case (3 a b)
  show ?case
  proof (cases ys rule: base64_bytes.cases)
    case (2 a')
    then show ?thesis using 3 sextets [of a b b] digit64_pad [of "b mod 16 * 4"] by auto
  next
    case ys: (3 a' b')
    have lt: "a < 256" "b < 256" "a' < 256" "b' < 256" using ys 3 by auto
    note s = sextets [OF lt(1,2,2)] sextets [OF lt(3,4,4)]
    have bs: "b div 16 < 16" "b' div 16 < 16" using lt by (simp_all add: less_mult_imp_div_less)
    have "a = a' \<and> b = b'"
      if "a div 4 = a' div 4" "a mod 4 * 16 + b div 16 = a' mod 4 * 16 + b' div 16"
        "b mod 16 * 4 = b' mod 16 * 4"
    proof -
      from that(2) bs have "a mod 4 = a' mod 4" "b div 16 = b' div 16" using shifted_inj by metis+
      with that show ?thesis by (metis div_mod_inj mult_right_cancel zero_neq_numeral)
    qed
    moreover from s have "digit64 (a div 4) = digit64 (a' div 4) \<longleftrightarrow> a div 4 = a' div 4"
      "digit64 (a mod 4 * 16 + b div 16) = digit64 (a' mod 4 * 16 + b' div 16)
        \<longleftrightarrow> a mod 4 * 16 + b div 16 = a' mod 4 * 16 + b' div 16"
      "digit64 (b mod 16 * 4) = digit64 (b' mod 16 * 4) \<longleftrightarrow> b mod 16 * 4 = b' mod 16 * 4"
      by (simp_all only: digit64_inj)
    ultimately show ?thesis unfolding ys base64_bytes.simps by blast
  next
    case (4 a' b' c' bs)
    then show ?thesis using 3 sextets [of a' b' c'] digit64_pad [of "c' mod 64"] by auto
  qed simp
next
  case (4 a b c bs)
  show ?case
  proof (cases ys rule: base64_bytes.cases)
    case (2 a')
    then show ?thesis using 4 sextets [of a b c] digit64_pad [of "c mod 64"] by auto
  next
    case (3 a' b')
    then show ?thesis using 4 sextets [of a b c] digit64_pad [of "c mod 64"] by auto
  next
    case ys: (4 a' b' c' bs')
    have lt: "a < 256" "b < 256" "c < 256" "a' < 256" "b' < 256" "c' < 256" using ys 4 by auto
    have rest: "base64_bytes bs = base64_bytes bs' \<longleftrightarrow> bs = bs'" using 4 ys by auto
    note s = sextets [OF lt(1-3)] sextets [OF lt(4-6)]
    have "digit64 (a div 4) = digit64 (a' div 4) \<longleftrightarrow> a div 4 = a' div 4"
      "digit64 (a mod 4 * 16 + b div 16) = digit64 (a' mod 4 * 16 + b' div 16)
        \<longleftrightarrow> a mod 4 * 16 + b div 16 = a' mod 4 * 16 + b' div 16"
      "digit64 (b mod 16 * 4 + c div 64) = digit64 (b' mod 16 * 4 + c' div 64)
        \<longleftrightarrow> b mod 16 * 4 + c div 64 = b' mod 16 * 4 + c' div 64"
      "digit64 (c mod 64) = digit64 (c' mod 64) \<longleftrightarrow> c mod 64 = c' mod 64"
      by (simp_all only: s digit64_inj)
    with rest three_bytes_inj [OF lt] show ?thesis
      unfolding ys base64_bytes.simps list.inject by metis
  qed simp
qed

lemma base64_inj: "base64 s = base64 t \<longleftrightarrow> s = t"
proof -
  have "\<forall>x \<in> set (map of_char s). x < (256 :: nat)" "\<forall>x \<in> set (map of_char t). x < (256 :: nat)"
    by auto
  then show ?thesis
    unfolding base64_def using base64_bytes_inj inj_map_eq_map [OF inj_of_char] by metis
qed

section \<open>The key of a set of repositories\<close>

definition repos_key :: "string list \<Rightarrow> string" where
  "repos_key repos = base64 (join '','' (sort repos))"

text \<open>The key identifies the batch: two batches share it iff they hold the same repositories.\<close>

lemma repos_key_iff:
  assumes "\<forall>r \<in> set xs. plain (CHR '','') r" and "\<forall>r \<in> set ys. plain (CHR '','') r"
  shows "repos_key xs = repos_key ys \<longleftrightarrow> mset xs = mset ys"
proof -
  have "repos_key xs = repos_key ys \<longleftrightarrow> sort xs = sort ys"
    unfolding repos_key_def base64_inj using assms by (intro join_inj) auto
  also have "\<dots> \<longleftrightarrow> mset xs = mset ys"
    by (metis mset_sort properties_for_sort sorted_sort)
  finally show ?thesis .
qed

end
