(* ===== verification/Notification_Proto.thy ===== *)
theory Notification_Proto
  imports Contracts Js_Strings "HOL-Library.Word"
begin

text \<open>
  The messages of the notification service as \<open>protoc-gen-ts_proto\<close> generates them
  (\<open>packages/contracts/src/gen/notification/v1/notification.ts\<close>): encoding, decoding, JSON and
  defaults. The readers and writers of the protobuf library are the record \<open>wire\<close>, what they promise is the
  locale \<open>wire_format\<close>: what was written is read back, and reading a tag consumes bytes. \<open>varint_wire\<close>
  is the standard format. A status is a number: the decoder takes any.
\<close>

section \<open>Messages\<close>

definition DELIVERY_STATUS_UNSPECIFIED :: int where "DELIVERY_STATUS_UNSPECIFIED = 0"
definition DELIVERY_STATUS_SENT :: int where "DELIVERY_STATUS_SENT = 1"
definition DELIVERY_STATUS_DUPLICATE :: int where "DELIVERY_STATUS_DUPLICATE = 2"
definition UNRECOGNIZED :: int where "UNRECOGNIZED = -1"

lemmas delivery_status_defs =
  DELIVERY_STATUS_UNSPECIFIED_def DELIVERY_STATUS_SENT_def DELIVERY_STATUS_DUPLICATE_def UNRECOGNIZED_def

definition deliveryStatusFromJSON :: "json \<Rightarrow> int" where
  "deliveryStatusFromJSON j =
     (if j \<in> {JNum 0, JStr ''DELIVERY_STATUS_UNSPECIFIED''} then DELIVERY_STATUS_UNSPECIFIED
      else if j \<in> {JNum 1, JStr ''DELIVERY_STATUS_SENT''} then DELIVERY_STATUS_SENT
      else if j \<in> {JNum 2, JStr ''DELIVERY_STATUS_DUPLICATE''} then DELIVERY_STATUS_DUPLICATE
      else UNRECOGNIZED)"

definition deliveryStatusToJSON :: "int \<Rightarrow> string" where
  "deliveryStatusToJSON n =
     (if n = DELIVERY_STATUS_UNSPECIFIED then ''DELIVERY_STATUS_UNSPECIFIED''
      else if n = DELIVERY_STATUS_SENT then ''DELIVERY_STATUS_SENT''
      else if n = DELIVERY_STATUS_DUPLICATE then ''DELIVERY_STATUS_DUPLICATE''
      else ''UNRECOGNIZED'')"

record release_request =
  rq_email :: string
  rq_repo :: string
  rq_tag :: string
  rq_unsubscribeToken :: string
  rq_idempotencyKey :: string

record release_response =
  rs_status :: int
  rs_message :: string

definition base_request :: release_request where
  "base_request = \<lparr>rq_email = [], rq_repo = [], rq_tag = [], rq_unsubscribeToken = [], rq_idempotencyKey = []\<rparr>"

definition base_response :: release_response where
  "base_response = \<lparr>rs_status = 0, rs_message = []\<rparr>"

section \<open>The wire\<close>

type_synonym bytes = "8 word list"

record wire =
  put_uint32 :: "nat \<Rightarrow> bytes"
  put_int32 :: "int \<Rightarrow> bytes"
  put_string :: "string \<Rightarrow> bytes"
  get_uint32 :: "bytes \<Rightarrow> (nat \<times> bytes) option"
  get_int32 :: "bytes \<Rightarrow> (int \<times> bytes) option"
  get_string :: "bytes \<Rightarrow> (string \<times> bytes) option"
  skip :: "nat \<Rightarrow> bytes \<Rightarrow> bytes option"

definition range_error :: js_error where "range_error = Other ''RangeError''"

definition put_text :: "wire \<Rightarrow> nat \<Rightarrow> string \<Rightarrow> bytes" where
  "put_text W tag s = (if s \<noteq> [] then put_uint32 W tag @ put_string W s else [])"

definition request_encode :: "wire \<Rightarrow> release_request \<Rightarrow> bytes" where
  "request_encode W m =
     put_text W 10 (rq_email m) @ put_text W 18 (rq_repo m) @ put_text W 26 (rq_tag m) @
     put_text W 34 (rq_unsubscribeToken m) @ put_text W 42 (rq_idempotencyKey m)"

definition response_encode :: "wire \<Rightarrow> release_response \<Rightarrow> bytes" where
  "response_encode W m =
     (if rs_status m \<noteq> 0 then put_uint32 W 8 @ put_int32 W (rs_status m) else []) @ put_text W 18 (rs_message m)"

text \<open>The \<open>switch\<close> on the field number: the field a tag sets, if it has the right wire type.\<close>

definition request_field :: "nat \<Rightarrow> (string \<Rightarrow> release_request \<Rightarrow> release_request) option" where
  "request_field tag =
     (if tag div 8 = 1 then (if tag \<noteq> 10 then None else Some (\<lambda>s m. m\<lparr>rq_email := s\<rparr>))
      else if tag div 8 = 2 then (if tag \<noteq> 18 then None else Some (\<lambda>s m. m\<lparr>rq_repo := s\<rparr>))
      else if tag div 8 = 3 then (if tag \<noteq> 26 then None else Some (\<lambda>s m. m\<lparr>rq_tag := s\<rparr>))
      else if tag div 8 = 4 then (if tag \<noteq> 34 then None else Some (\<lambda>s m. m\<lparr>rq_unsubscribeToken := s\<rparr>))
      else if tag div 8 = 5 then (if tag \<noteq> 42 then None else Some (\<lambda>s m. m\<lparr>rq_idempotencyKey := s\<rparr>))
      else None)"

partial_function (option) request_loop :: "wire \<Rightarrow> bytes \<Rightarrow> release_request \<Rightarrow> (js_error + release_request) option" where
  "request_loop W bs m =
     (if bs = [] then Some (Inr m)
      else
        (case get_uint32 W bs of
           None \<Rightarrow> Some (Inl range_error)
         | Some (tag, bs1) \<Rightarrow>
             (case request_field tag of
                Some set_field \<Rightarrow>
                  (case get_string W bs1 of
                     None \<Rightarrow> Some (Inl range_error)
                   | Some (s, bs2) \<Rightarrow> request_loop W bs2 (set_field s m))
              | None \<Rightarrow>
                  (if tag mod 8 = 4 \<or> tag = 0 then Some (Inr m)
                   else
                     (case skip W (tag mod 8) bs1 of
                        None \<Rightarrow> Some (Inl range_error)
                      | Some bs2 \<Rightarrow> request_loop W bs2 m)))))"

definition request_decode :: "wire \<Rightarrow> bytes \<Rightarrow> (js_error + release_request) option" where
  "request_decode W bs = request_loop W bs base_request"

partial_function (option) response_loop :: "wire \<Rightarrow> bytes \<Rightarrow> release_response \<Rightarrow> (js_error + release_response) option" where
  "response_loop W bs m =
     (if bs = [] then Some (Inr m)
      else
        (case get_uint32 W bs of
           None \<Rightarrow> Some (Inl range_error)
         | Some (tag, bs1) \<Rightarrow>
             (if tag div 8 = 1 \<and> tag = 8 then
                (case get_int32 W bs1 of
                   None \<Rightarrow> Some (Inl range_error)
                 | Some (n, bs2) \<Rightarrow> response_loop W bs2 (m\<lparr>rs_status := n\<rparr>))
              else if tag div 8 = 2 \<and> tag = 18 then
                (case get_string W bs1 of
                   None \<Rightarrow> Some (Inl range_error)
                 | Some (s, bs2) \<Rightarrow> response_loop W bs2 (m\<lparr>rs_message := s\<rparr>))
              else if tag mod 8 = 4 \<or> tag = 0 then Some (Inr m)
              else
                (case skip W (tag mod 8) bs1 of
                   None \<Rightarrow> Some (Inl range_error)
                 | Some bs2 \<Rightarrow> response_loop W bs2 m))))"

definition response_decode :: "wire \<Rightarrow> bytes \<Rightarrow> (js_error + release_response) option" where
  "response_decode W bs = response_loop W bs base_response"

section \<open>What the protobuf library promises\<close>

definition short_request :: "release_request \<Rightarrow> bool" where
  "short_request m \<longleftrightarrow>
     length (rq_email m) < 2 ^ 32 \<and> length (rq_repo m) < 2 ^ 32 \<and> length (rq_tag m) < 2 ^ 32 \<and>
     length (rq_unsubscribeToken m) < 2 ^ 32 \<and> length (rq_idempotencyKey m) < 2 ^ 32"

definition short_response :: "release_response \<Rightarrow> bool" where
  "short_response r \<longleftrightarrow> - (2 ^ 31) \<le> rs_status r \<and> rs_status r < 2 ^ 31 \<and> length (rs_message r) < 2 ^ 32"

locale wire_format =
  fixes W :: wire
  assumes uint32_read: "n < 2 ^ 32 \<Longrightarrow> get_uint32 W (put_uint32 W n @ bs) = Some (n, bs)"
    and int32_read: "- (2 ^ 31) \<le> i \<Longrightarrow> i < 2 ^ 31 \<Longrightarrow> get_int32 W (put_int32 W i @ bs) = Some (i, bs)"
    and string_read: "length s < 2 ^ 32 \<Longrightarrow> get_string W (put_string W s @ bs) = Some (s, bs)"
    and uint32_consumes: "get_uint32 W bs = Some (n, bs') \<Longrightarrow> length bs' < length bs"
    and int32_left: "get_int32 W bs = Some (i, bs') \<Longrightarrow> length bs' \<le> length bs"
    and string_left: "get_string W bs = Some (s, bs') \<Longrightarrow> length bs' \<le> length bs"
    and skip_left: "skip W t bs = Some bs' \<Longrightarrow> length bs' \<le> length bs"
begin

lemma put_uint32_not_Nil: "n < 2 ^ 32 \<Longrightarrow> put_uint32 W n \<noteq> []"
  using uint32_read [of n "[]"] uint32_consumes [of "[]"] by auto

lemma request_loop_text:
  assumes "request_field tag = Some set_field" and "tag < 2 ^ 32" and "length s < 2 ^ 32"
  shows "request_loop W (put_text W tag s @ bs) m = request_loop W bs (if s = [] then m else set_field s m)"
proof (cases "s = []")
  case False
  have "request_loop W (put_uint32 W tag @ put_string W s @ bs) m = request_loop W bs (set_field s m)"
    using put_uint32_not_Nil [OF assms(2)]
    by (subst request_loop.simps) (simp add: uint32_read [OF assms(2)] assms(1) string_read [OF assms(3)])
  with False show ?thesis by (simp add: put_text_def)
qed (simp add: put_text_def)

lemma request_returns: "\<exists>r. request_loop W bs m = Some r"
proof (induction "length bs" arbitrary: bs m rule: less_induct)
  case less
  show ?case
  proof (cases "bs = [] \<or> get_uint32 W bs = None")
    case True
    then show ?thesis by (subst request_loop.simps) auto
  next
    case False
    then obtain tag bs1 where t: "bs \<noteq> []" "get_uint32 W bs = Some (tag, bs1)" by auto
    note shorter = uint32_consumes [OF t(2)]
    have s: "\<exists>r. request_loop W bs2 m = Some r" if "get_string W bs1 = Some (s, bs2)" for s bs2 m
      using less(1) [of bs2] string_left [OF that] shorter by simp
    have k: "\<exists>r. request_loop W bs2 m = Some r" if "skip W k bs1 = Some bs2" for k bs2
      using less(1) [of bs2] skip_left [OF that] shorter by simp
    from t show ?thesis
      by (subst request_loop.simps) (auto split: option.split intro: s k)
  qed
qed

lemma response_returns: "\<exists>r. response_loop W bs m = Some r"
proof (induction "length bs" arbitrary: bs m rule: less_induct)
  case less
  show ?case
  proof (cases "bs = [] \<or> get_uint32 W bs = None")
    case True
    then show ?thesis by (subst response_loop.simps) auto
  next
    case False
    then obtain tag bs1 where t: "bs \<noteq> []" "get_uint32 W bs = Some (tag, bs1)" by auto
    note shorter = uint32_consumes [OF t(2)]
    have s: "\<exists>r. response_loop W bs2 m = Some r" if "get_string W bs1 = Some (s, bs2)" for s bs2 m
      using less(1) [of bs2] string_left [OF that] shorter by simp
    have n: "\<exists>r. response_loop W bs2 m = Some r" if "get_int32 W bs1 = Some (i, bs2)" for i bs2 m
      using less(1) [of bs2] int32_left [OF that] shorter by simp
    have k: "\<exists>r. response_loop W bs2 m = Some r" if "skip W k bs1 = Some bs2" for k bs2
      using less(1) [of bs2] skip_left [OF that] shorter by simp
    from t show ?thesis
      by (subst response_loop.simps) (auto split: option.split intro: s n k)
  qed
qed

lemma request_loop_encode:
  assumes "short_request m"
  shows "request_loop W (request_encode W m @ bs) base_request = request_loop W bs m"
  using assms
  by (cases m) (simp add: request_encode_def short_request_def base_request_def request_loop_text request_field_def)

lemma response_loop_status:
  assumes "- (2 ^ 31) \<le> i" and "i < 2 ^ 31"
  shows "response_loop W (put_uint32 W 8 @ put_int32 W i @ bs) m = response_loop W bs (m\<lparr>rs_status := i\<rparr>)"
  using put_uint32_not_Nil [of 8]
  by (subst response_loop.simps) (simp add: uint32_read int32_read [OF assms])

lemma response_loop_text:
  assumes "length s < 2 ^ 32"
  shows "response_loop W (put_text W 18 s @ bs) m = response_loop W bs (if s = [] then m else m\<lparr>rs_message := s\<rparr>)"
proof (cases "s = []")
  case False
  have "response_loop W (put_uint32 W 18 @ put_string W s @ bs) m = response_loop W bs (m\<lparr>rs_message := s\<rparr>)"
    using put_uint32_not_Nil [of 18]
    by (subst response_loop.simps) (simp add: uint32_read string_read [OF assms])
  with False show ?thesis by (simp add: put_text_def)
qed (simp add: put_text_def)

lemma response_loop_encode:
  assumes "short_response r"
  shows "response_loop W (response_encode W r @ bs) base_response = response_loop W bs r"
  using assms
  by (cases r) (simp add: response_encode_def short_response_def base_response_def response_loop_status response_loop_text)

text \<open>A field the reader does not know is skipped, if its wire type can be.\<close>

lemma request_loop_unknown:
  assumes "request_field tag = None" and "tag mod 8 \<noteq> 4" "tag \<noteq> 0" "tag < 2 ^ 32" and "skip W (tag mod 8) (v @ bs) = Some bs"
  shows "request_loop W (put_uint32 W tag @ v @ bs) m = request_loop W bs m"
  using put_uint32_not_Nil [OF assms(4)]
  by (subst request_loop.simps) (simp add: uint32_read [OF assms(4)] assms(1-3,5))

end

section \<open>JSON\<close>

text \<open>\<open>String(v)\<close>.\<close>

fun js_String :: "json \<Rightarrow> string" where
  "js_String JNull = ''null''"
| "js_String (JBool b) = (if b then ''true'' else ''false'')"
| "js_String (JNum n) = (if n < 0 then CHR ''-'' # dec (nat (- n)) else dec (nat n))"
| "js_String (JStr s) = s"
| "js_String (JArr js) = join '','' (map (\<lambda>j. if j = JNull then [] else js_String j) js)"
| "js_String (JObj kvs) = ''[object Object]''"

definition isSet :: "json option \<Rightarrow> bool" where
  "isSet v \<longleftrightarrow> v \<noteq> None \<and> v \<noteq> Some JNull"

definition text_field :: "json option \<Rightarrow> string" where
  "text_field v = (if isSet v then js_String (the v) else [])"

definition request_fromJSON :: "json \<Rightarrow> release_request" where
  "request_fromJSON obj =
     \<lparr>rq_email = text_field (field obj ''email''),
      rq_repo = text_field (field obj ''repo''),
      rq_tag = text_field (field obj ''tag''),
      rq_unsubscribeToken =
        (if isSet (field obj ''unsubscribeToken'') then js_String (the (field obj ''unsubscribeToken''))
         else text_field (field obj ''unsubscribe_token'')),
      rq_idempotencyKey =
        (if isSet (field obj ''idempotencyKey'') then js_String (the (field obj ''idempotencyKey''))
         else text_field (field obj ''idempotency_key''))\<rparr>"

definition set_text :: "string \<Rightarrow> string \<Rightarrow> (string \<times> json) list" where
  "set_text k s = (if s \<noteq> [] then [(k, JStr s)] else [])"

definition request_toJSON :: "release_request \<Rightarrow> json" where
  "request_toJSON m = JObj
     (set_text ''email'' (rq_email m) @ set_text ''repo'' (rq_repo m) @ set_text ''tag'' (rq_tag m) @
      set_text ''unsubscribeToken'' (rq_unsubscribeToken m) @ set_text ''idempotencyKey'' (rq_idempotencyKey m))"

definition response_fromJSON :: "json \<Rightarrow> release_response" where
  "response_fromJSON obj =
     \<lparr>rs_status = (if isSet (field obj ''status'') then deliveryStatusFromJSON (the (field obj ''status'')) else 0),
      rs_message = text_field (field obj ''message'')\<rparr>"

definition response_toJSON :: "release_response \<Rightarrow> json" where
  "response_toJSON m = JObj
     ((if rs_status m \<noteq> 0 then [(''status'', JStr (deliveryStatusToJSON (rs_status m)))] else []) @
      set_text ''message'' (rs_message m))"

lemma field_append:
  "field (JObj (kvs @ kvs')) k = (case field (JObj kvs') k of Some v \<Rightarrow> Some v | None \<Rightarrow> field (JObj kvs) k)"
  by (simp add: field_def map_add_def split: option.split)

lemma field_set_text: "field (JObj (set_text k s)) k' = (if k = k' \<and> s \<noteq> [] then Some (JStr s) else None)"
  by (simp add: set_text_def field_def)

lemma text_field_Some: "text_field (Some (JStr s)) = s"
  by (simp add: text_field_def isSet_def)

lemma text_field_None: "text_field None = []"
  by (simp add: text_field_def isSet_def)

lemma request_json_roundtrip: "request_fromJSON (request_toJSON m) = m"
proof -
  have "text_field (field (request_toJSON m) ''email'') = rq_email m"
    "text_field (field (request_toJSON m) ''repo'') = rq_repo m"
    "text_field (field (request_toJSON m) ''tag'') = rq_tag m"
    "text_field (field (request_toJSON m) ''unsubscribeToken'') = rq_unsubscribeToken m"
    "text_field (field (request_toJSON m) ''idempotencyKey'') = rq_idempotencyKey m"
    "text_field (field (request_toJSON m) ''unsubscribe_token'') = []"
    "text_field (field (request_toJSON m) ''idempotency_key'') = []"
    by (simp_all add: request_toJSON_def field_append field_set_text text_field_Some text_field_None)
  then show ?thesis
    by (auto simp: request_fromJSON_def text_field_def)
qed

text \<open>A status that has no name comes back as \<open>UNRECOGNIZED\<close>.\<close>

definition named_status :: "int \<Rightarrow> int" where
  "named_status n = (if n \<in> {DELIVERY_STATUS_UNSPECIFIED, DELIVERY_STATUS_SENT, DELIVERY_STATUS_DUPLICATE} then n else UNRECOGNIZED)"

lemma response_json_roundtrip: "response_fromJSON (response_toJSON m) = m\<lparr>rs_status := named_status (rs_status m)\<rparr>"
  by (cases m) (auto simp: response_fromJSON_def response_toJSON_def set_text_def text_field_def isSet_def field_def
      deliveryStatusToJSON_def deliveryStatusFromJSON_def named_status_def delivery_status_defs)

section \<open>Defaults\<close>

text \<open>A partial message: a property that is absent, \<open>undefined\<close> or \<open>null\<close> is \<open>None\<close>.\<close>

record partial_request =
  part_email :: "string option"
  part_repo :: "string option"
  part_tag :: "string option"
  part_unsubscribeToken :: "string option"
  part_idempotencyKey :: "string option"

definition or_else :: "'a option \<Rightarrow> 'a \<Rightarrow> 'a" where
  "or_else v d = (case v of None \<Rightarrow> d | Some a \<Rightarrow> a)"

definition request_fromPartial :: "partial_request \<Rightarrow> release_request" where
  "request_fromPartial obj =
     base_request\<lparr>rq_email := or_else (part_email obj) [], rq_repo := or_else (part_repo obj) [],
       rq_tag := or_else (part_tag obj) [], rq_unsubscribeToken := or_else (part_unsubscribeToken obj) [],
       rq_idempotencyKey := or_else (part_idempotencyKey obj) []\<rparr>"

definition request_create :: "partial_request option \<Rightarrow> release_request" where
  "request_create base = request_fromPartial (or_else base
     \<lparr>part_email = None, part_repo = None, part_tag = None, part_unsubscribeToken = None, part_idempotencyKey = None\<rparr>)"

definition response_fromPartial :: "int option \<times> string option \<Rightarrow> release_response" where
  "response_fromPartial obj =
     base_response\<lparr>rs_status := or_else (fst obj) 0, rs_message := or_else (snd obj) []\<rparr>"

definition response_create :: "(int option \<times> string option) option \<Rightarrow> release_response" where
  "response_create base = response_fromPartial (or_else base (None, None))"

section \<open>The standard wire format\<close>

fun varint :: "nat \<Rightarrow> bytes" where
  "varint n = (if n < 128 then [word_of_nat n] else word_of_nat (128 + n mod 128) # varint (n div 128))"

declare varint.simps [simp del]

fun read_varint :: "bytes \<Rightarrow> (nat \<times> bytes) option" where
  "read_varint [] = None"
| "read_varint (b # bs) =
     (if unat b < 128 then Some (unat b, bs)
      else (case read_varint bs of
              None \<Rightarrow> None
            | Some (n, rest) \<Rightarrow> Some (unat b - 128 + 128 * n, rest)))"

definition read_chars :: "bytes \<Rightarrow> (string \<times> bytes) option" where
  "read_chars bs = (case read_varint bs of
      None \<Rightarrow> None
    | Some (n, rest) \<Rightarrow>
        if length rest < n then None else Some (map (\<lambda>b. char_of (unat b)) (take n rest), drop n rest))"

definition varint_wire :: wire where
  "varint_wire =
    \<lparr>put_uint32 = varint,
     put_int32 = (\<lambda>i. varint (nat (i mod 2 ^ 64))),
     put_string = (\<lambda>s. varint (length s) @ map (\<lambda>c. word_of_nat (of_char c)) s),
     get_uint32 = read_varint,
     get_int32 = (\<lambda>bs. case read_varint bs of
        None \<Rightarrow> None
      | Some (n, rest) \<Rightarrow>
          let m = int n mod 2 ^ 32 in Some (if m < 2 ^ 31 then m else m - 2 ^ 32, rest)),
     get_string = read_chars,
     skip = (\<lambda>t bs.
        if t = 0 then map_option snd (read_varint bs)
        else if t = 1 then (if length bs < 8 then None else Some (drop 8 bs))
        else if t = 2 then map_option snd (read_chars bs)
        else if t = 5 then (if length bs < 4 then None else Some (drop 4 bs))
        else None)\<rparr>"

lemma byte_unat: "n < 256 \<Longrightarrow> unat (word_of_nat n :: 8 word) = n"
  by (simp add: unat_of_nat)

lemma varint_read: "read_varint (varint n @ bs) = Some (n, bs)"
proof (induction n rule: varint.induct)
  case (1 n)
  show ?case
  proof (cases "n < 128")
    case True
    then have "unat (word_of_nat n :: 8 word) = n" by (intro byte_unat) simp
    with True show ?thesis by (subst varint.simps) simp
  next
    case False
    have "128 + n mod 128 < 256" by (simp add: add_less_le_mono [where b = 128 and a = 128, simplified])
    then have "unat (word_of_nat (128 + n mod 128) :: 8 word) = 128 + n mod 128" by (rule byte_unat)
    with False 1 show ?thesis by (subst varint.simps) (simp del: of_nat_add)
  qed
qed

lemma read_varint_consumes: "read_varint bs = Some (n, rest) \<Longrightarrow> length rest < length bs"
  by (induction bs arbitrary: n) (auto split: if_splits option.splits prod.splits intro: less_SucI)

lemma char_byte: "char_of (unat (word_of_nat (of_char c) :: 8 word)) = (c :: char)"
proof -
  have "(of_char c :: nat) < 256" by (rule nat_of_char_less_256)
  then show ?thesis by (simp add: byte_unat)
qed

lemma int32_mod:
  assumes "- (2 ^ 31) \<le> i" and "i < (2 ^ 31 :: int)"
  shows "i mod 2 ^ 32 = (if i < 0 then i + 2 ^ 32 else i)"
proof (cases "i < 0")
  case True
  then have "(i + 2 ^ 32) mod 2 ^ 32 = i + 2 ^ 32" using assms by (intro mod_pos_pos_trivial) auto
  with True show ?thesis by simp
qed (use assms in simp)

lemma varint_wire_format: "wire_format varint_wire"
proof
  show "n < 2 ^ 32 \<Longrightarrow> get_uint32 varint_wire (put_uint32 varint_wire n @ bs) = Some (n, bs)" for n bs
    by (simp add: varint_wire_def varint_read)
  show "get_string varint_wire (put_string varint_wire s @ bs) = Some (s, bs)" for s bs
    by (simp add: varint_wire_def varint_read read_chars_def char_byte o_def)
  show "get_int32 varint_wire (put_int32 varint_wire i @ bs) = Some (i, bs)" if "- (2 ^ 31) \<le> i" "i < 2 ^ 31" for i bs
  proof -
    have "i mod 2 ^ 64 mod 2 ^ 32 = i mod (2 ^ 32 :: int)" by (rule mod_mod_cancel) simp
    moreover have "i mod 2 ^ 32 = (if i < 0 then i + 2 ^ 32 else i)" using that by (rule int32_mod)
    ultimately show ?thesis using that by (simp add: varint_wire_def varint_read Let_def)
  qed
  show "length bs' < length bs" if "get_uint32 varint_wire bs = Some (n, bs')" for bs n bs'
    using that by (simp add: varint_wire_def read_varint_consumes)
  show "length bs' \<le> length bs" if "get_int32 varint_wire bs = Some (n, bs')" for bs n bs'
    using that by (auto simp: varint_wire_def Let_def dest: read_varint_consumes split: option.splits)
  have chars: "length bs' \<le> length bs" if "read_chars bs = Some (s, bs')" for bs s bs'
    using that by (auto simp: read_chars_def dest!: read_varint_consumes split: option.splits if_splits)
  then show "length bs' \<le> length bs" if "get_string varint_wire bs = Some (s, bs')" for bs s bs'
    using that by (simp add: varint_wire_def)
  show "length bs' \<le> length bs" if "skip varint_wire t bs = Some bs'" for t bs bs'
    using that by (auto simp: varint_wire_def dest: read_varint_consumes chars split: if_splits)
qed

interpretation varint: wire_format varint_wire
  by (rule varint_wire_format)

section \<open>Round trips\<close>

text \<open>C25. A request or response that is encoded and decoded comes back as it was, also when the sender is
  newer and appended a field this reader does not know; decoding any bytes returns a message or throws.
  Through JSON the request comes back as it was, the response with an unnamed status as \<open>UNRECOGNIZED\<close>;
  and no message is created with a missing field.\<close>

theorem notification_codec_roundtrip:
  assumes "wire_format W" and "short_request m" and "short_response r"
    and "request_field tag = None" and "0 < tag" and "tag mod 8 \<noteq> 4" and "tag < 2 ^ 32"
    and "skip W (tag mod 8) v = Some []"
  shows "request_decode W (request_encode W m) = Some (Inr m) \<and>
    request_decode W (request_encode W m @ put_uint32 W tag @ v) = Some (Inr m) \<and>
    response_decode W (response_encode W r) = Some (Inr r) \<and>
    (\<exists>a. request_decode W bs = Some a) \<and> (\<exists>a. response_decode W bs = Some a) \<and>
    request_fromJSON (request_toJSON m) = m \<and>
    response_fromJSON (response_toJSON r) = r\<lparr>rs_status := named_status (rs_status r)\<rparr> \<and>
    request_create None = base_request \<and> response_create None = base_response"
proof (intro conjI)
  note W = wire_format.request_loop_encode [OF assms(1,2)] wire_format.response_loop_encode [OF assms(1,3)]
  have base: "request_loop W [] m = Some (Inr m)" "response_loop W [] r = Some (Inr r)"
    by (simp_all add: request_loop.simps response_loop.simps)
  show "request_decode W (request_encode W m) = Some (Inr m)"
    using W(1) [of "[]"] by (simp add: request_decode_def base)
  have "request_loop W (put_uint32 W tag @ v) m = Some (Inr m)"
    using wire_format.request_loop_unknown [OF assms(1,4,6) _ assms(7), of v "[]" m] assms(5,8) by (simp add: base)
  then show "request_decode W (request_encode W m @ put_uint32 W tag @ v) = Some (Inr m)"
    by (simp add: request_decode_def W(1))
  show "response_decode W (response_encode W r) = Some (Inr r)"
    using W(2) [of "[]"] by (simp add: response_decode_def base)
qed (simp_all add: request_decode_def response_decode_def wire_format.request_returns [OF assms(1)]
  wire_format.response_returns [OF assms(1)] request_json_roundtrip response_json_roundtrip
  request_create_def request_fromPartial_def response_create_def response_fromPartial_def or_else_def
  base_request_def base_response_def)

lemma notification_codec_roundtrip_witness:
  "request_decode varint_wire (request_encode varint_wire
     \<lparr>rq_email = ''a@b.c'', rq_repo = ''o/r'', rq_tag = ''v1'', rq_unsubscribeToken = [], rq_idempotencyKey = ''k''\<rparr> @
     put_uint32 varint_wire 50 @ [1, 120]) =
   Some (Inr \<lparr>rq_email = ''a@b.c'', rq_repo = ''o/r'', rq_tag = ''v1'', rq_unsubscribeToken = [], rq_idempotencyKey = ''k''\<rparr>) \<and>
   response_fromJSON (response_toJSON \<lparr>rs_status = 7, rs_message = ''x''\<rparr>) = \<lparr>rs_status = UNRECOGNIZED, rs_message = ''x''\<rparr>"
  using notification_codec_roundtrip [OF varint_wire_format, where tag = 50 and v = "[1, 120]"
      and m = "\<lparr>rq_email = ''a@b.c'', rq_repo = ''o/r'', rq_tag = ''v1'', rq_unsubscribeToken = [], rq_idempotencyKey = ''k''\<rparr>"
      and r = "\<lparr>rs_status = 7, rs_message = ''x''\<rparr>"]
  by (simp add: short_request_def short_response_def request_field_def varint_wire_def read_chars_def named_status_def
      delivery_status_defs)

end
