(* ===== verification/Notification_Service.thy ===== *)
theory Notification_Service
  imports Email_Consumer Notification_Proto
begin

text \<open>
  The notification service on what it runs on: the broker behind the channel of its consumer and
  behind the two publishers, Redis, the SMTP server and the metrics. \<open>notification_env\<close> collects what
  they promise; on it the notifier, the idempotency store and the publishers of the code meet the
  contract \<open>consumer_env\<close> of the email consumer; \<open>email_callback\<close> is the consumer wired as the service
  wires it, and its properties follow. \<open>note_world\<close> is an instance for evaluation.
\<close>

section \<open>The notifier over the SMTP server\<close>

text \<open>Timers and counters return, and nothing but the metrics depends on them.\<close>

locale mail_metrics =
  fixes stop_timer :: "('w, unit) async"
    and tally :: "string \<Rightarrow> bool \<Rightarrow> ('w, unit) async"
    and box :: "'w \<Rightarrow> 'b list"
    and rest :: "'w \<Rightarrow> 'x"
  assumes stop_law: "\<And>w q w'. stop_timer w = (q, w') \<Longrightarrow> q = Inr () \<and> box w' = box w \<and> rest w' = rest w"
    and tally_law: "\<And>w q w'. tally kind success w = (q, w') \<Longrightarrow> q = Inr () \<and> box w' = box w \<and> rest w' = rest w"
begin

lemma metered_outcome:
  assumes "metered stop_timer (tally kind) m w = (q, w')"
  obtains w1 where "m w = (q, w1)" and "box w' = box w1" and "rest w' = rest w1"
proof -
  obtain q1 w1 where m: "m w = (q1, w1)" by fastforce
  obtain q2 w2 where s: "stop_timer w1 = (q2, w2)" by fastforce
  from stop_law [OF s] have 2: "q2 = Inr ()" "box w2 = box w1" "rest w2 = rest w1" by simp_all
  with m s have t: "timed stop_timer m w = (q1, w2)" by (simp add: timed_def finally_do_def)
  obtain q3 w3 where c: "tally kind (\<not> isl q1) w2 = (q3, w3)" by fastforce
  from tally_law [OF c] have 3: "q3 = Inr ()" "box w3 = box w2" "rest w3 = rest w2" by simp_all
  have "metered stop_timer (tally kind) m w = (q1, w3)"
    using t c 3(1) by (cases q1) (simp_all add: metered_def await_def try_catch_def throw_def)
  with assms m 2 3 that show ?thesis by simp
qed

lemma metered_tells:
  assumes "broker_publisher send event box rest"
  shows "broker_publisher (\<lambda>m. metered stop_timer (tally (kind m)) (send m)) event box rest"
proof
  fix m w q w'
  assume "metered stop_timer (tally (kind m)) (send m) w = (q, w')"
  then obtain w1 where "send m w = (q, w1)" "box w' = box w1" "rest w' = rest w1" by (rule metered_outcome)
  with broker_publisher.told_law [OF assms, of m w q w1] show "rest w' = rest w \<and>
      (case q of Inl e \<Rightarrow> external e \<and> (box w' = box w \<or> box w' = box w @ [event m])
       | Inr u \<Rightarrow> box w' = box w @ [event m])" by (cases q) auto
qed

end

text \<open>The provider logs an error and throws it again.\<close>

lemma SmtpProvider_transparent: "SmtpProvider_sendEmail sendMail options = sendMail MAIL_FROM options"
  by (rule ext) (simp add: SmtpProvider_sendEmail_def await_def try_catch_def throw_def ret_def split: prod.splits sum.splits)

definition production_notifier :: "(string \<Rightarrow> send_options \<Rightarrow> ('w, unit) async) \<Rightarrow> ('w, unit) async \<Rightarrow>
    (string \<Rightarrow> bool \<Rightarrow> ('w, unit) async) \<Rightarrow> string \<Rightarrow> 'w notifier" where
  "production_notifier sendMail stop_timer tally baseUrl =
     MeteredNotifierService stop_timer tally (NotifierService baseUrl (SmtpProvider_sendEmail sendMail))"

definition production_deps :: "(string \<Rightarrow> send_options \<Rightarrow> ('w, unit) async) \<Rightarrow> ('w, unit) async \<Rightarrow>
    (string \<Rightarrow> bool \<Rightarrow> ('w, unit) async) \<Rightarrow> 'w redis_client \<Rightarrow> ('w, 'w channel) async \<Rightarrow> nat \<Rightarrow> nat \<Rightarrow> string \<Rightarrow>
    'w consumer_deps" where
  "production_deps sendMail stop_timer tally redis getChannel ttl lease baseUrl =
     \<lparr>notifier_of = production_notifier sendMail stop_timer tally baseUrl,
      idempotency_of = RedisIdempotencyStore redis ttl lease,
      deliveredPublisher = RabbitDeliveredPublisher_publish getChannel\<rparr>"

lemma notifier_tells:
  assumes metrics: "mail_metrics stop_timer tally box rest" and smtp: "broker_publisher (sendMail MAIL_FROM) (\<lambda>m. m) box rest"
  shows "broker_publisher (sendReleaseNotification (production_notifier sendMail stop_timer tally baseUrl))
     (release_mail baseUrl) box rest"
proof -
  have "broker_publisher (\<lambda>p. sendMail MAIL_FROM (release_mail baseUrl p)) (release_mail baseUrl) box rest"
    using broker_publisher.told_law [OF smtp] by unfold_locales blast
  from mail_metrics.metered_tells [OF metrics this, of "\<lambda>_. ''release''"] show ?thesis
    by (simp add: production_notifier_def MeteredNotifierService_def NotifierService_def SmtpProvider_transparent)
qed

lemma deliver_tells:
  assumes metrics: "mail_metrics stop_timer tally box rest" and smtp: "broker_publisher (sendMail MAIL_FROM) (\<lambda>m. m) box rest"
    and deps: "notifier_of deps = production_notifier sendMail stop_timer tally baseUrl"
  shows "broker_publisher (\<lambda>m. deliver m deps) (mail_of baseUrl) box rest"
proof -
  have "broker_publisher (\<lambda>m. sendMail MAIL_FROM (mail_of baseUrl m)) (mail_of baseUrl) box rest"
    using broker_publisher.told_law [OF smtp] by unfold_locales blast
  from mail_metrics.metered_tells [OF metrics this, of "\<lambda>m. case m of Release k e r t u \<Rightarrow> ''release'' | Confirmation k e r t g \<Rightarrow> ''confirmation''"]
  show ?thesis
    by (rule back_subst [where P = "\<lambda>f. broker_publisher f (mail_of baseUrl) box rest"])
      (auto simp: fun_eq_iff deliver_def mail_of_def deps production_notifier_def MeteredNotifierService_def
        NotifierService_def SmtpProvider_transparent split: email_message.split)
qed

section \<open>What the service runs on\<close>

text \<open>Redis, the SMTP server and the metrics, for everything that sends mail; \<open>other\<close> is the rest of the world.\<close>

locale mailing_env =
  store: redis_server redis marks now "\<lambda>w. (other w, mailbox w)" +
  smtp: broker_publisher "sendMail MAIL_FROM" "\<lambda>m. m" mailbox "\<lambda>w. (marks w, other w)" +
  metrics: mail_metrics stop_timer tally mailbox "\<lambda>w. (marks w, other w)"
  for redis :: "'w redis_client"
    and sendMail :: "string \<Rightarrow> send_options \<Rightarrow> ('w, unit) async"
    and stop_timer :: "('w, unit) async"
    and tally :: "string \<Rightarrow> bool \<Rightarrow> ('w, unit) async"
    and marks :: "'w \<Rightarrow> keyspace"
    and mailbox :: "'w \<Rightarrow> send_options list"
    and now :: "'w \<Rightarrow> nat"
    and other :: "'w \<Rightarrow> 'x"

locale notification_env =
  chan: closing_channel ch broker "\<lambda>w. (marks w, mailbox w)" closed +
  mailing: mailing_env redis sendMail stop_timer tally marks mailbox now broker +
  delivered: channel_source getChannel broker "\<lambda>w. (marks w, mailbox w)" +
  replies: channel_source createConfirmChannel broker "\<lambda>w. (marks w, mailbox w)"
  for ch :: "'w channel"
    and redis :: "'w redis_client"
    and sendMail :: "string \<Rightarrow> send_options \<Rightarrow> ('w, unit) async"
    and stop_timer :: "('w, unit) async"
    and tally :: "string \<Rightarrow> bool \<Rightarrow> ('w, unit) async"
    and getChannel createConfirmChannel :: "('w, 'w channel) async"
    and broker :: "'w \<Rightarrow> broker_event list"
    and marks :: "'w \<Rightarrow> keyspace"
    and mailbox :: "'w \<Rightarrow> send_options list"
    and closed :: "'w \<Rightarrow> bool"
    and now :: "'w \<Rightarrow> nat"
begin

lemma consumer:
  "consumer_env ch (production_deps sendMail stop_timer tally redis getChannel ttl lease baseUrl)
     (RabbitConfirmationReplyPublisher_publish createConfirmChannel) broker marks mailbox closed now ttl lease baseUrl"
  unfolding consumer_env_def
proof (intro conjI)
  let ?deps = "production_deps sendMail stop_timer tally redis getChannel ttl lease baseUrl"
  show "closing_channel ch broker (\<lambda>w. (marks w, mailbox w)) closed" by (rule chan.closing_channel_axioms)
  show "idempotency_contract (idempotency_of ?deps) marks now (\<lambda>w. (broker w, mailbox w)) ttl lease"
    using mailing.store.idempotency by (simp add: production_deps_def)
  show "broker_publisher (\<lambda>m. deliver m ?deps) (mail_of baseUrl) mailbox (\<lambda>w. (marks w, broker w))"
    by (rule deliver_tells [where sendMail = sendMail and stop_timer = stop_timer and tally = tally])
      (simp_all add: production_deps_def mailing.metrics.mail_metrics_axioms mailing.smtp.broker_publisher_axioms)
  show "broker_publisher (deliveredPublisher ?deps) delivered_event broker (\<lambda>w. (marks w, mailbox w))"
    using delivered.RabbitDeliveredPublisher_tells by (simp add: production_deps_def delivered_event_def [abs_def])
  show "broker_publisher (RabbitConfirmationReplyPublisher_publish createConfirmChannel) reply_event broker
      (\<lambda>w. (marks w, mailbox w))"
    using replies.RabbitConfirmationReplyPublisher_tells by (simp add: reply_event_def [abs_def])
qed

end

section \<open>The callback of the consumer\<close>

definition invalid_event :: "consume_message \<Rightarrow> broker_event" where
  "invalid_event msg =
     Sent EMAIL_DEAD_QUEUE_NAME (msg_content msg) ((spread_headers msg)\<lparr>dead_reason := Some ''invalid-schema''\<rparr>)"

context closing_channel begin

lemma invalid_outcome:
  assumes "await (deadLetterInvalid msg ch) (\<lambda>_. ack ch msg) w = (q, w')"
  shows "rest w' = rest w \<and> (broker w' = broker w @ [invalid_event msg, Acked msg] \<and> q = Inr () \<or>
    isl q \<and> closed w' \<and> (broker w' = broker w \<or> broker w' = broker w @ [invalid_event msg]))"
  using assms [unfolded deadLetterInvalid_def]
proof (cases rule: await_outcome)
  case (rejected e)
  from sendToQueue_law [OF rejected(1)] send_closed [OF rejected(1)] rejected(2) show ?thesis by simp
next
  case (resolved sent w1)
  from sendToQueue_law [OF resolved(1)] have w1: "rest w1 = rest w" "broker w1 = broker w @ [invalid_event msg]"
    by (simp_all add: invalid_event_def)
  from ack_law [OF resolved(2)] ack_closed [of msg w1 _ w'] resolved(2) w1 show ?thesis
    by (cases q) (auto simp: invalid_event_def)
qed

end

context consumer_env begin

lemma onMessage_invalid:
  assumes "parseMessage email_ok uuid_ok msg = None"
    and "consumer_onMessage email_ok uuid_ok publish_reply message_of ch deps (Some msg) w = (q, w')"
  shows "q = Inr () \<and> marks w' = marks w \<and> mailbox w' = mailbox w \<and>
    (broker w' = broker w @ [invalid_event msg, Acked msg] \<or>
     closed w' \<and> (broker w' = broker w \<or> broker w' = broker w @ [invalid_event msg]))"
proof -
  from assms have "try_catch (await (deadLetterInvalid msg ch) (\<lambda>_. ack ch msg)) (\<lambda>err. swallow (nack ch msg False)) w = (q, w')"
    by (simp add: consumer_onMessage_def consumer_processMessage_def)
  then show ?thesis
  proof (cases rule: try_catch_outcome)
    case (rejected err w1)
    from chan.invalid_outcome [OF rejected(1)] have 1: "marks w1 = marks w" "mailbox w1 = mailbox w" "closed w1"
      "broker w1 = broker w \<or> broker w1 = broker w @ [invalid_event msg]" by auto
    from chan.swallow_nack_closed [OF rejected(2) 1(3)] 1 show ?thesis by auto
  next
    case (resolved u)
    from chan.invalid_outcome [OF resolved(1)] resolved(2) show ?thesis by auto
  qed
qed

end

text \<open>\<open>email_callback\<close> is what the consumer of the service runs for each delivery.\<close>

definition email_callback :: "(string \<Rightarrow> bool) \<Rightarrow> (string \<Rightarrow> bool) \<Rightarrow> (js_error \<Rightarrow> string) \<Rightarrow> 'w channel \<Rightarrow> 'w redis_client \<Rightarrow>
    (string \<Rightarrow> send_options \<Rightarrow> ('w, unit) async) \<Rightarrow> ('w, unit) async \<Rightarrow> (string \<Rightarrow> bool \<Rightarrow> ('w, unit) async) \<Rightarrow>
    ('w, 'w channel) async \<Rightarrow> ('w, 'w channel) async \<Rightarrow> nat \<Rightarrow> nat \<Rightarrow> string \<Rightarrow> consume_message option \<Rightarrow> ('w, unit) async" where
  "email_callback email_ok uuid_ok message_of ch redis sendMail stop_timer tally getChannel createConfirmChannel
       ttl lease baseUrl =
     consumer_onMessage email_ok uuid_ok (RabbitConfirmationReplyPublisher_publish createConfirmChannel) message_of ch
       (production_deps sendMail stop_timer tally redis getChannel ttl lease baseUrl)"

section \<open>An instance for evaluation\<close>

record note_world = redis_world +
  nw_broker :: "broker_event list"
  nw_closed :: bool
  nw_mailbox :: "send_options list"
  nw_smtp_down :: bool

definition note_channel :: "'z note_world_scheme channel" where
  "note_channel = logged nw_broker (\<lambda>xs w. w\<lparr>nw_broker := xs\<rparr>) (\<lambda>w _. nw_closed w)"

definition note_smtp :: "string \<Rightarrow> send_options \<Rightarrow> ('z note_world_scheme, unit) async" where
  "note_smtp from_address m w =
     (if nw_smtp_down w then (Inl (Other ''ECONNREFUSED''), w) else (Inr (), w\<lparr>nw_mailbox := nw_mailbox w @ [m]\<rparr>))"

definition note_at :: "keyspace \<Rightarrow> nat \<Rightarrow> note_world" where
  "note_at ks t = \<lparr>rw_keys = ks, rw_now = t, rw_uuids = 0, rw_down = False, nw_broker = [], nw_closed = False,
     nw_mailbox = [], nw_smtp_down = False\<rparr>"

lemma note_mailing:
  assumes "\<And>ks w. other (w\<lparr>rw_keys := ks\<rparr>) = other w" and "\<And>ms w. other (w\<lparr>nw_mailbox := ms\<rparr>) = other w"
  shows "mailing_env mem_redis note_smtp (ret ()) (\<lambda>_ _. ret ()) rw_keys nw_mailbox rw_now other"
proof -
  have "redis_server mem_redis rw_keys rw_now (\<lambda>w. (other w, nw_mailbox w))"
    unfolding mem_redis_def by (rule stored_redis_server) (simp_all add: assms)
  moreover have "broker_publisher (note_smtp MAIL_FROM) (\<lambda>m. m) nw_mailbox (\<lambda>w. (rw_keys w, other w))"
    by unfold_locales (auto simp: note_smtp_def assms split: if_splits)
  moreover have "mail_metrics (ret ()) (\<lambda>_ _. ret ()) nw_mailbox (\<lambda>w. (rw_keys w, other w))"
    by unfold_locales simp_all
  ultimately show ?thesis by (simp add: mailing_env_def)
qed

lemma note_env: "notification_env note_channel mem_redis note_smtp (ret ()) (\<lambda>_ _. ret ()) (ret note_channel)
    (ret note_channel) nw_broker rw_keys nw_mailbox nw_closed rw_now"
proof -
  have ch: "closing_channel note_channel nw_broker (\<lambda>w. (rw_keys w, nw_mailbox w)) nw_closed"
    unfolding note_channel_def by (rule logged_closing_channel) simp_all
  moreover have "channel_source (ret note_channel) nw_broker (\<lambda>w. (rw_keys w, nw_mailbox w))"
    using closing_channel.axioms(1) [OF ch] by unfold_locales simp_all
  ultimately show ?thesis by (simp add: notification_env_def note_mailing)
qed

interpretation note_mail: mailing_env mem_redis note_smtp "ret ()" "\<lambda>_ _. ret ()" rw_keys nw_mailbox rw_now
    "\<lambda>w. (nw_broker w, note_world.more w)"
  by (rule note_mailing) simp_all

interpretation notif: notification_env note_channel mem_redis note_smtp "ret ()" "\<lambda>_ _. ret ()" "ret note_channel"
    "ret note_channel" nw_broker rw_keys nw_mailbox nw_closed rw_now
  by (rule note_env)

interpretation note_consumer: consumer_env note_channel
    "production_deps note_smtp (ret ()) (\<lambda>_ _. ret ()) mem_redis (ret note_channel) ttl lease baseUrl"
    "RabbitConfirmationReplyPublisher_publish (ret note_channel)" nw_broker rw_keys nw_mailbox nw_closed rw_now ttl lease baseUrl
  for ttl lease baseUrl by (rule notif.consumer)

abbreviation note_callback :: "consume_message option \<Rightarrow> (note_world, unit) async" where
  "note_callback \<equiv> email_callback (\<lambda>_. True) (\<lambda>_. True) (\<lambda>_. ''delivery failed'') note_channel mem_redis note_smtp
     (ret ()) (\<lambda>_ _. ret ()) (ret note_channel) (ret note_channel) 86400 60 ''http://localhost:3000''"

definition note_release :: email_message where
  "note_release = Release ''release:a@b:o/r:v1'' ''a@b'' ''o/r'' ''v1'' ''t''"

definition note_message :: "email_message \<Rightarrow> consume_message" where
  "note_message m = \<lparr>deliveryTag = 1, msg_content = Text (email_message_json m), msg_headers = None\<rparr>"

lemma note_message_parsed: "parseMessage (\<lambda>_. True) (\<lambda>_. True) (note_message m) = Some m"
  by (simp add: parseMessage_def note_message_def emailMessageSchema_accepts valid_message_trivial)

lemmas note_instance_defs = email_callback_def production_deps_def production_notifier_def MeteredNotifierService_def
  NotifierService_def SmtpProvider_transparent note_smtp_def note_channel_def logged_def Let_def redis_instance_defs
  RedisIdempotencyStore_def idempotency_claim_def idempotency_confirm_def idempotency_release_def
  consumer_onMessage_def consumer_processMessage_def claimed_delivery_def deliver_def confirm_and_ack_def
  confirmDelivery_def publishSagaFailure_def consumer_handleRetry_def RabbitDeliveredPublisher_publish_def
  RabbitConfirmationReplyPublisher_publish_def metered_def timed_def swallow_def kv_set_nx_def io_defs

lemma note_release_run:
  "\<exists>w. note_callback (Some (note_message note_release)) (note_at Map.empty 0) = (Inr (), w) \<and>
     nw_mailbox w = [mail_of ''http://localhost:3000'' note_release] \<and> \<not> nw_closed w \<and>
     nw_broker w = confirming_events note_release @ [Acked (note_message note_release)] \<and>
     live (rw_keys w) 86399 (namespaced (idempotencyKey note_release)) = Some DONE_MARK"
proof -
  have "live Map.empty 0 k = None" for k by (simp add: live_def)
  then show ?thesis
    using note_message_parsed [of note_release]
    by (simp add: note_instance_defs note_release_def note_at_def confirming_events_def delivered_event_def mail_of_def)
qed

section \<open>Properties of the consumer\<close>

text \<open>C3. How a delivery to the email consumer ends; its callback never rejects. A message that does not parse goes
  to the dead letter queue and is acknowledged, nothing is sent. Otherwise the claim decides
  (\<open>email_course\<close>). If it is granted, the mail the message asks for is sent; once it is out, the mark is
  confirmed, the delivery event or the replies to the saga are published and the delivery is acknowledged;
  if the mail is refused, the mark is released and the delivery is retried or, at the limit, dead-lettered
  and the saga told, unless that very publication is rejected. If the mail was out before, the events are
  published again and the delivery is acknowledged, and no mail is sent. If the claim is held or cannot be
  had, the delivery is given back, and no mail is sent. A publication that is rejected gives the delivery
  back as well; only a channel that closed leaves it as it was. In all, a mail is sent only if the
  notification had no mark, and nothing is acknowledged unless its mail is out.\<close>

theorem email_delivery_settled:
  assumes env: "notification_env ch redis sendMail stop_timer tally getChannel createConfirmChannel
      broker marks mailbox closed now"
    and run: "email_callback email_ok uuid_ok message_of ch redis sendMail stop_timer tally getChannel
      createConfirmChannel ttl lease baseUrl (Some msg) w = (q, w')"
  shows "q = Inr () \<and>
    (case parseMessage email_ok uuid_ok msg of
       None \<Rightarrow> marks w' = marks w \<and> mailbox w' = mailbox w \<and>
         (broker w' = broker w @ [invalid_event msg, Acked msg] \<or>
          closed w' \<and> (broker w' = broker w \<or> broker w' = broker w @ [invalid_event msg]))
     | Some message \<Rightarrow> \<exists>ms evs. mailbox w' = mailbox w @ ms \<and> broker w' = broker w @ evs \<and>
         mail_sent_if_free (marks w) (now w) (idempotencyKey message) (mail_of baseUrl message) ms \<and>
         email_end msg message evs
           (mail_is_out (marks w) (now w) (idempotencyKey message) (mail_of baseUrl message) ms) (closed w') \<and>
         email_course (RabbitConfirmationReplyPublisher_publish createConfirmChannel) message_of
           (production_deps sendMail stop_timer tally redis getChannel ttl lease baseUrl)
           broker marks mailbox closed baseUrl msg message w w')"
proof (cases "parseMessage email_ok uuid_ok msg")
  case None
  from consumer_env.onMessage_invalid [OF notification_env.consumer [OF env] None run [unfolded email_callback_def]]
  show ?thesis by (simp add: None)
next
  case (Some message)
  note env' = notification_env.consumer [OF env] and run' = run [unfolded email_callback_def]
  from consumer_env.onMessage_end [OF env' Some run'] consumer_env.onMessage_course [OF env' Some run']
  show ?thesis by (simp add: Some)
qed

theorem email_delivery_settled_witness:
  "\<exists>w evs. note_callback (Some (note_message note_release)) (note_at Map.empty 0) = (Inr (), w) \<and>
     nw_broker w = evs \<and> email_end (note_message note_release) note_release evs True False"
proof -
  obtain w where run: "note_callback (Some (note_message note_release)) (note_at Map.empty 0) = (Inr (), w)"
    and out: "nw_mailbox w = [mail_of ''http://localhost:3000'' note_release]" "\<not> nw_closed w"
    using note_release_run by blast
  have start: "nw_broker (note_at Map.empty 0) = []" "nw_mailbox (note_at Map.empty 0) = []" by (simp_all add: note_at_def)
  from email_delivery_settled [OF note_env run] out show ?thesis
    by (intro exI [of _ w]) (auto simp: note_message_parsed start run mail_is_out_def)
qed

text \<open>C26. Every message of the email queue comes to an end: after at most four deliveries (the first and
  \<open>EMAIL_MAX_RETRIES\<close> through the retry queue), whatever the services answer and whatever happens in
  between, it is acknowledged or on the dead letter queue, unless the channel of the consumer closed.\<close>

theorem email_life_ends:
  assumes env: "notification_env ch redis sendMail stop_timer tally getChannel createConfirmChannel
      broker marks mailbox closed now"
    and "\<And>w. broker (elapse w) = broker w"
    and "parseMessage email_ok uuid_ok msg = Some message" and "0 \<le> retryCount msg"
  shows "\<exists>w'. email_life 4 (email_callback email_ok uuid_ok message_of ch redis sendMail stop_timer tally getChannel
      createConfirmChannel ttl lease baseUrl) broker elapse msg w = Some w' \<and>
    email_over (msg_content msg) (broker w') (closed w')"
  unfolding email_callback_def
  by (rule consumer_env.email_life_some [OF notification_env.consumer [OF env] assms(2,3)])
    (use assms(4) in \<open>simp_all add: EMAIL_MAX_RETRIES_def\<close>)

abbreviation five_seconds :: "note_world \<Rightarrow> note_world" where
  "five_seconds \<equiv> (\<lambda>w. w\<lparr>rw_now := rw_now w + 5\<rparr>)"

theorem email_life_ends_witness:
  "\<exists>w'. email_life 4 note_callback nw_broker five_seconds (note_message note_release) ((note_at Map.empty 0)\<lparr>nw_smtp_down := True\<rparr>)
     = Some w' \<and> email_over (Text (email_message_json note_release)) (nw_broker w') (nw_closed w')"
proof -
  have "0 \<le> retryCount (note_message note_release)" by (simp add: retryCount_def spread_headers_def note_message_def no_headers_def)
  from email_life_ends [where elapse = five_seconds, OF note_env _ note_message_parsed this] show ?thesis
    by (simp add: note_message_def)
qed

definition note_confirmation :: email_message where
  "note_confirmation = Confirmation ''confirmation:a@b:o/r:x'' ''a@b'' ''o/r'' ''x'' ''g''"

lemma note_callback_now: "preserves rw_now (note_callback m)"
proof -
  have redis: "preserves rw_now (redis_get mem_redis k)" "preserves rw_now (redis_set mem_redis k v ttl)"
    "preserves rw_now (redis_set_nx mem_redis k v ttl)" "preserves rw_now (redis_del mem_redis k)" for k v ttl
    by (auto simp: preserves_def redis_instance_defs split: prod.split)
  have chan: "preserves rw_now (ack note_channel msg)" "preserves rw_now (nack note_channel msg b)"
    "preserves rw_now (sendToQueue note_channel to c h)" "preserves rw_now (sendConfirmed note_channel to c h)"
    "preserves rw_now (assertQueue note_channel to)" "preserves rw_now (close_channel note_channel)" for msg b to c h
    by (auto simp: preserves_def note_channel_def logged_def Let_def)
  have smtp: "preserves rw_now (note_smtp from_address mail)" for from_address mail
    by (auto simp: preserves_def note_smtp_def)
  have pubs: "preserves rw_now (RabbitDeliveredPublisher_publish (ret note_channel) d)"
    "preserves rw_now (RabbitConfirmationReplyPublisher_publish (ret note_channel) r)" for d r
    by (auto simp: RabbitDeliveredPublisher_publish_def RabbitConfirmationReplyPublisher_publish_def
        intro!: preserves_await preserves_finally_do chan)
  show ?thesis
    unfolding email_callback_def consumer_onMessage_def consumer_processMessage_def claimed_delivery_def deliver_def
      deadLetterInvalid_def confirm_and_ack_def confirmDelivery_def publishSagaFailure_def consumer_handleRetry_def
      production_deps_def production_notifier_def MeteredNotifierService_def NotifierService_def SmtpProvider_transparent
      RedisIdempotencyStore_def idempotency_claim_def idempotency_confirm_def idempotency_release_def metered_def timed_def swallow_def
    by (auto intro!: preserves_await preserves_try_catch preserves_finally_do preserves_if redis chan smtp pubs
        split: option.split email_message.split claim_result.split)
qed

text \<open>C40. A consumer that crashes once it has claimed a notification and before it has sent the mail loses it. All
  that ran of its delivery is the claim, which leaves the mark \<open>pending\<close> until the lease is over (60 seconds);
  the broker delivers the message again. If the new delivery and its retries, which are over after three
  delays of 5 seconds, come within the lease, each of them finds the mark and gives the message back: it ends
  on the dead letter queue (unless the new channel closes too). No mail was sent, the saga is not told, and
  the mark is still there.\<close>

theorem crashed_claim_loses_mail:
  assumes env: "notification_env ch redis sendMail stop_timer tally getChannel createConfirmChannel
      broker marks mailbox closed now"
    and parsed: "parseMessage email_ok uuid_ok msg = Some message" and "0 \<le> retryCount msg"
    and crashed: "claim (RedisIdempotencyStore redis ttl lease) (idempotencyKey message) w0 = (Inr Claimed, w1)"
    and again: "broker w2 = broker w1" "marks w2 = marks w1" "mailbox w2 = mailbox w1"
    and elapse: "\<And>w. broker (elapse w) = broker w" "\<And>w. marks (elapse w) = marks w"
      "\<And>w. mailbox (elapse w) = mailbox w" "\<And>w. now (elapse w) \<le> now w + pause"
    and quick: "\<And>w. now (snd (claim (RedisIdempotencyStore redis ttl lease) (idempotencyKey message) w)) \<le> now w + work"
      "\<And>m w. now (snd (email_callback email_ok uuid_ok message_of ch redis sendMail stop_timer tally getChannel
         createConfirmChannel ttl lease baseUrl (Some m) w)) \<le> now w + work"
    and in_time: "now w2 + 4 * work + 3 * pause < now w1 + lease"
  shows "\<exists>w' evs. email_life 4 (email_callback email_ok uuid_ok message_of ch redis sendMail stop_timer tally getChannel
      createConfirmChannel ttl lease baseUrl) broker elapse msg w2 = Some w' \<and>
    mailbox w' = mailbox w0 \<and> broker w' = broker w0 @ evs \<and> published SAGA_CONFIRMATION_REPLY_QUEUE evs = [] \<and>
    (closed w' \<or> published EMAIL_DEAD_QUEUE_NAME evs = [msg_content msg]) \<and>
    marks w' (namespaced (idempotencyKey message)) = Some (PENDING_MARK, now w1 + lease)"
proof -
  let ?deps = "production_deps sendMail stop_timer tally redis getChannel ttl lease baseUrl"
  note env' = notification_env.consumer [OF env, of ttl lease baseUrl]
  have store: "idempotency_of ?deps = RedisIdempotencyStore redis ttl lease" by (simp add: production_deps_def)
  note contract = consumer_env.axioms(2) [OF env', unfolded store]
  from idempotency_contract.claim_law [OF contract crashed] have
    w1: "broker w1 = broker w0" "mailbox w1 = mailbox w0"
      "marks w1 (namespaced (idempotencyKey message)) = Some (PENDING_MARK, now w1 + lease)"
    by (simp_all add: kv_set_def)
  have limit: "EMAIL_MAX_RETRIES < retryCount msg + int 4" using assms(3) by (simp add: EMAIL_MAX_RETRIES_def)
  have mark: "marks w2 (namespaced (idempotencyKey message)) = Some (PENDING_MARK, now w1 + lease)"
    using again(2) w1(3) by simp
  from consumer_env.pending_life [OF env', where elapse = elapse and pause = pause and work = work and fuel = 4,
      unfolded store, OF elapse quick [unfolded email_callback_def] parsed limit _ mark] in_time
  obtain w' evs where "email_life 4 (consumer_onMessage email_ok uuid_ok
      (RabbitConfirmationReplyPublisher_publish createConfirmChannel) message_of ch ?deps) broker elapse msg w2 = Some w'"
    "mailbox w' = mailbox w2" "marks w' = marks w2" "broker w' = broker w2 @ evs"
    "published SAGA_CONFIRMATION_REPLY_QUEUE evs = []"
    "closed w' \<or> published EMAIL_DEAD_QUEUE_NAME evs = [msg_content msg]" by auto
  with w1 mark again show ?thesis by (simp add: email_callback_def)
qed

theorem crashed_claim_loses_mail_witness:
  "\<exists>w'. email_life 4 note_callback nw_broker five_seconds (note_message note_confirmation)
      (note_at (kv_set (namespaced (idempotencyKey note_confirmation)) PENDING_MARK 60 0 Map.empty) 1) = Some w' \<and>
    nw_mailbox w' = [] \<and> published SAGA_CONFIRMATION_REPLY_QUEUE (nw_broker w') = [] \<and>
    (nw_closed w' \<or> published EMAIL_DEAD_QUEUE_NAME (nw_broker w') = [Text (email_message_json note_confirmation)])"
proof -
  let ?key = "idempotencyKey note_confirmation"
  let ?w1 = "note_at (kv_set (namespaced ?key) PENDING_MARK 60 0 Map.empty)"
  have crashed: "claim (RedisIdempotencyStore mem_redis 86400 60) ?key (note_at Map.empty 0) = (Inr Claimed, ?w1 0)"
    by (simp add: RedisIdempotencyStore_def idempotency_claim_def redis_instance_defs io_defs kv_set_nx_def note_at_def live_def)
  have claims: "rw_now (snd (claim (RedisIdempotencyStore mem_redis 86400 60) ?key w)) \<le> rw_now w + 0" for w :: note_world
    by (simp add: RedisIdempotencyStore_def idempotency_claim_def redis_instance_defs io_defs kv_set_nx_def
        split: prod.split sum.split)
  have calls: "rw_now (snd (note_callback (Some m) w)) \<le> rw_now w + 0" for m w
    using note_callback_now [of "Some m"] by (simp add: preserves_def)
  have "0 \<le> retryCount (note_message note_confirmation)"
    by (simp add: retryCount_def spread_headers_def note_message_def no_headers_def)
  from crashed_claim_loses_mail [where elapse = five_seconds and pause = 5 and ?w2.0 = "?w1 1",
      OF note_env note_message_parsed this crashed _ _ _ _ _ _ _ claims calls]
  obtain w' where "email_life 4 note_callback nw_broker five_seconds (note_message note_confirmation) (?w1 1) = Some w'"
    "nw_mailbox w' = []" "published SAGA_CONFIRMATION_REPLY_QUEUE (nw_broker w') = []"
    "nw_closed w' \<or> published EMAIL_DEAD_QUEUE_NAME (nw_broker w') = [Text (email_message_json note_confirmation)]"
    by (auto simp: note_at_def note_message_def)
  then show ?thesis by blast
qed

end
