(* ===== verification/Notification_Grpc.thy ===== *)
theory Notification_Grpc
  imports Notification_Service Subscription_Repository
begin

text \<open>
  Release notifications over gRPC: the handler of the notification service
  (\<open>notification-service/src/grpc/notification.grpc-server.ts\<close>) and the notifier of the server that
  calls it (\<open>git-release-notifier-be/src/modules/sender/adapters/grpc-notifier.ts\<close>). Between them are
  the generated messages of \<open>Notification_Proto\<close> and the network: \<open>grpc_transport\<close> says what a call
  of the client comes to.
\<close>

section \<open>The handler\<close>

datatype grpc_code = GRPC_INVALID_ARGUMENT | GRPC_ABORTED | GRPC_INTERNAL | GRPC_UNAVAILABLE

text \<open>What the handler passes to the callback: an error with its code, or the response.\<close>

type_synonym grpc_answer = "(grpc_code \<times> string) + release_response"

definition validateRequest :: "release_request \<Rightarrow> string option" where
  "validateRequest req =
     (if rq_email req = [] then Some ''email is required''
      else if rq_repo req = [] then Some ''repo is required''
      else if rq_tag req = [] then Some ''tag is required''
      else if rq_unsubscribeToken req = [] then Some ''unsubscribe_token is required''
      else if rq_idempotencyKey req = [] then Some ''idempotency_key is required''
      else None)"

definition handleSendReleaseNotification :: "'w notifier \<Rightarrow> 'w idempotency_store \<Rightarrow> release_request \<Rightarrow>
    ('w, grpc_answer) async" where
  "handleSendReleaseNotification notifier idempotency req =
     (case validateRequest req of
        Some validationError \<Rightarrow> ret (Inl (GRPC_INVALID_ARGUMENT, validationError))
      | None \<Rightarrow>
          await (try_catch (await (claim idempotency (rq_idempotencyKey req)) (\<lambda>c. ret (Some c))) (\<lambda>err. ret None))
            (\<lambda>c. case c of
                None \<Rightarrow> ret (Inl (GRPC_UNAVAILABLE, ''Idempotency store unavailable''))
              | Some Done \<Rightarrow> ret (Inr \<lparr>rs_status = DELIVERY_STATUS_DUPLICATE, rs_message = ''Already delivered''\<rparr>)
              | Some In_Progress \<Rightarrow> ret (Inl (GRPC_ABORTED, ''Delivery already in progress''))
              | Some Claimed \<Rightarrow>
                  await
                    (try_catch
                       (await (sendReleaseNotification notifier
                            \<lparr>rp_email = rq_email req, rp_repo = rq_repo req, rp_tag = rq_tag req,
                             rp_unsubscribeToken = rq_unsubscribeToken req\<rparr>) (\<lambda>_. ret True))
                       (\<lambda>err. await (swallow (release idempotency (rq_idempotencyKey req))) (\<lambda>_. ret False)))
                    (\<lambda>sent.
                       if sent then
                         await (swallow (confirm idempotency (rq_idempotencyKey req))) (\<lambda>_.
                         ret (Inr \<lparr>rs_status = DELIVERY_STATUS_SENT, rs_message = ''Sent''\<rparr>))
                       else ret (Inl (GRPC_INTERNAL, ''Failed to send release notification'')))))"

definition request_mail :: "string \<Rightarrow> release_request \<Rightarrow> send_options" where
  "request_mail baseUrl req =
     release_mail baseUrl \<lparr>rp_email = rq_email req, rp_repo = rq_repo req, rp_tag = rq_tag req,
       rp_unsubscribeToken = rq_unsubscribeToken req\<rparr>"

text \<open>
  What an answer says of the mailboxes \<open>ms\<close>, \<open>ms'\<close> and the marks \<open>ks\<close>, \<open>ks'\<close> before and after; \<open>t\<close> is the
  time before.
\<close>

definition answer_means :: "string \<Rightarrow> release_request \<Rightarrow> nat \<Rightarrow> keyspace \<Rightarrow> send_options list \<Rightarrow> grpc_answer \<Rightarrow>
    keyspace \<Rightarrow> send_options list \<Rightarrow> bool" where
  "answer_means baseUrl req t ks ms a ks' ms' \<longleftrightarrow>
     (let k = namespaced (rq_idempotencyKey req) in
      case a of
        Inl (c, reason) \<Rightarrow>
          (case c of
             GRPC_INVALID_ARGUMENT \<Rightarrow> validateRequest req = Some reason \<and> ks' = ks \<and> ms' = ms
           | GRPC_ABORTED \<Rightarrow> live ks t k \<noteq> None \<and> ks' = ks \<and> ms' = ms
           | GRPC_UNAVAILABLE \<Rightarrow> (ks' = ks \<or> map_option fst (ks' k) = Some PENDING_MARK) \<and> ms' = ms
           | GRPC_INTERNAL \<Rightarrow> (ks' k = None \<or> map_option fst (ks' k) = Some PENDING_MARK) \<and>
               (ms' = ms \<or> ms' = ms @ [request_mail baseUrl req]))
      | Inr r \<Rightarrow>
          (if rs_status r = DELIVERY_STATUS_SENT then
             (\<exists>t' \<ge> t. live ks t' k = None) \<and> ms' = ms @ [request_mail baseUrl req] \<and>
             (\<exists>m \<in> {DONE_MARK, PENDING_MARK}. map_option fst (ks' k) = Some m)
           else rs_status r = DELIVERY_STATUS_DUPLICATE \<and>
             (\<exists>t' \<ge> t. live ks t' k = Some DONE_MARK) \<and> ks' = ks \<and> ms' = ms))"

text \<open>The delivery with this key was confirmed, now or in the past.\<close>

definition marked_done :: "keyspace \<Rightarrow> string \<Rightarrow> bool" where
  "marked_done ks key \<longleftrightarrow> map_option fst (ks (namespaced key)) = Some DONE_MARK"

lemma live_done: "live ks t (namespaced key) = Some DONE_MARK \<Longrightarrow> marked_done ks key"
  by (auto simp: live_def marked_done_def split: option.splits if_splits)

lemma namespaced_eq [simp]: "namespaced k = namespaced k' \<longleftrightarrow> k = k'"
  by (simp add: namespaced_def)

lemma marked_done_update [simp]:
  "marked_done (ks(namespaced k := x)) k' \<longleftrightarrow> k' = k \<and> map_option fst x = Some DONE_MARK \<or> k' \<noteq> k \<and> marked_done ks k'"
  by (auto simp: marked_done_def)

context mailing_env begin

lemma release_notifier:
  "broker_publisher (sendReleaseNotification (production_notifier sendMail stop_timer tally baseUrl))
     (release_mail baseUrl) mailbox (\<lambda>w. (marks w, other w))"
  by (rule notifier_tells [where sendMail = sendMail]) (fact metrics.mail_metrics_axioms smtp.broker_publisher_axioms)+

lemma handler_answers:
  assumes run: "handleSendReleaseNotification (production_notifier sendMail stop_timer tally baseUrl)
      (RedisIdempotencyStore redis ttl lease) req w = (q, w')"
  shows "\<exists>a. q = Inr a \<and> other w' = other w \<and> answer_means baseUrl req (now w) (marks w) (mailbox w) a (marks w') (mailbox w') \<and>
    (\<forall>k. marked_done (marks w') k \<longrightarrow> marked_done (marks w) k \<or>
      k = rq_idempotencyKey req \<and> mailbox w' = mailbox w @ [request_mail baseUrl req])"
proof (cases "validateRequest req")
  case (Some reason)
  with run show ?thesis by (simp add: handleSendReleaseNotification_def answer_means_def)
next
  case None
  let ?N = "production_notifier sendMail stop_timer tally baseUrl" and ?I = "RedisIdempotencyStore redis ttl lease"
  let ?key = "rq_idempotencyKey req" and ?k = "namespaced (rq_idempotencyKey req)"
  let ?p = "\<lparr>rp_email = rq_email req, rp_repo = rq_repo req, rp_tag = rq_tag req,
    rp_unsubscribeToken = rq_unsubscribeToken req\<rparr>"
  note law = idempotency_contract.claim_law [OF store.idempotency]
  from run [unfolded handleSendReleaseNotification_def None option.case] show ?thesis
  proof (cases rule: await_try_catch_outcome)
    case (rejected err w1)
    then have c: "claim ?I ?key w = (Inl err, w1)" by (elim await_outcome) auto
    from law [OF c] rejected(2) show ?thesis by (auto simp: answer_means_def kv_set_def)
  next
    case (resolved c w1)
    then obtain r where r: "claim ?I ?key w = (Inr r, w1)" "c = Some r" by (elim await_outcome) auto
    note 1 = law [OF r(1)]
    show ?thesis
    proof (cases r)
      case Done
      with 1 resolved(2) r(2) show ?thesis by (auto simp: answer_means_def delivery_status_defs)
    next
      case In_Progress
      with 1 resolved(2) r(2) show ?thesis by (auto simp: answer_means_def)
    next
      case Claimed
      with 1 have free: "\<exists>t' \<ge> now w. live (marks w) t' ?k = None" "map_option fst (marks w1 ?k) = Some PENDING_MARK"
        "other w1 = other w" "mailbox w1 = mailbox w" "\<And>k. marked_done (marks w1) k \<Longrightarrow> marked_done (marks w) k"
        by (auto simp: kv_set_def)
      note sends = broker_publisher.told_law [OF release_notifier]
      from resolved(2) [unfolded r(2) Claimed option.case claim_result.case] show ?thesis
      proof (cases rule: await_try_catch_outcome)
        case (rejected err w2)
        then have "sendReleaseNotification ?N ?p w1 = (Inl err, w2)" by (elim await_outcome) auto
        from sends [OF this] have 2: "marks w2 = marks w1" "other w2 = other w1"
          "mailbox w2 = mailbox w1 \<or> mailbox w2 = mailbox w1 @ [request_mail baseUrl req]" by (auto simp: request_mail_def)
        obtain u w3 where s: "swallow (release ?I ?key) w2 = (u, w3)" by fastforce
        from swallow_resolves [OF s] obtain u' where 3: "u = Inr ()" "release ?I ?key w2 = (u', w3)" by blast
        with rejected(2) s have "q = Inr (Inl (GRPC_INTERNAL, ''Failed to send release notification''))" "w' = w3"
          by (simp_all add: await_def)
        moreover from idempotency_contract.release_law [OF store.idempotency 3(2)] have
          "other w3 = other w2" "mailbox w3 = mailbox w2" "marks w3 = marks w2 \<or> marks w3 ?k = None"
          "\<And>k. marked_done (marks w3) k \<Longrightarrow> marked_done (marks w2) k"
          by (auto simp: kv_del_def split: sum.splits)
        moreover from calculation(6) free(5) 2(1) have "\<And>k. marked_done (marks w3) k \<Longrightarrow> marked_done (marks w) k"
          by simp
        ultimately show ?thesis using free(1-4) 2 by (auto simp: answer_means_def)
      next
        case (resolved sent w2)
        then obtain u where "sendReleaseNotification ?N ?p w1 = (Inr u, w2)" "sent" by (elim await_outcome) auto
        from sends [OF this(1)] have 2: "marks w2 = marks w1" "other w2 = other w1"
          "mailbox w2 = mailbox w1 @ [request_mail baseUrl req]" by (auto simp: request_mail_def)
        obtain u w3 where s: "swallow (confirm ?I ?key) w2 = (u, w3)" by fastforce
        from swallow_resolves [OF s] obtain u' where 3: "u = Inr ()" "confirm ?I ?key w2 = (u', w3)" by blast
        with resolved(2) s \<open>sent\<close> have "q = Inr (Inr \<lparr>rs_status = DELIVERY_STATUS_SENT, rs_message = ''Sent''\<rparr>)" "w' = w3"
          by (simp_all add: await_def)
        moreover from idempotency_contract.confirm_law [OF store.idempotency 3(2)] have
          "other w3 = other w2" "mailbox w3 = mailbox w2" "marks w3 = marks w2 \<or> map_option fst (marks w3 ?k) = Some DONE_MARK"
          "\<And>k. marked_done (marks w3) k \<Longrightarrow> marked_done (marks w2) k \<or> k = ?key"
          by (auto simp: kv_set_def split: sum.splits)
        moreover from calculation(6) free(5) 2(1) have
          "\<And>k. marked_done (marks w3) k \<Longrightarrow> marked_done (marks w) k \<or> k = ?key" by metis
        ultimately show ?thesis using free(1-4) 2 by (auto simp: answer_means_def)
      qed
    qed
  qed
qed

end

text \<open>C28. Every call of the handler is answered once, and the answer tells the truth about the mail. \<open>SENT\<close>: this
  call sent the mail of the request, and only because the notification had no mark; \<open>DUPLICATE\<close>: an
  earlier delivery was confirmed, nothing is sent. An error says which field is missing, that the
  notification is being delivered, that the store did not answer (nothing is sent in these cases), or
  that the mail failed, after which the mark is gone or pending, so that the call can be repeated.\<close>

theorem notification_handler_answers:
  assumes env: "mailing_env redis sendMail stop_timer tally marks mailbox now other"
    and run: "handleSendReleaseNotification (production_notifier sendMail stop_timer tally baseUrl)
      (RedisIdempotencyStore redis ttl lease) req w = (q, w')"
  shows "\<exists>a. q = Inr a \<and> other w' = other w \<and>
    answer_means baseUrl req (now w) (marks w) (mailbox w) a (marks w') (mailbox w')"
  using mailing_env.handler_answers [OF env run] by blast

abbreviation note_notifier :: "'z note_world_scheme notifier" where
  "note_notifier \<equiv> production_notifier note_smtp (ret ()) (\<lambda>_ _. ret ()) ''http://localhost:3000''"

definition note_payload :: release_payload where
  "note_payload = \<lparr>rp_email = ''a@b'', rp_repo = ''o/r'', rp_tag = ''v1'', rp_unsubscribeToken = ''t''\<rparr>"

definition release_request_of :: "release_payload \<Rightarrow> release_request" where
  "release_request_of p =
     \<lparr>rq_email = rp_email p, rq_repo = rp_repo p, rq_tag = rp_tag p, rq_unsubscribeToken = rp_unsubscribeToken p,
      rq_idempotencyKey = releaseIdempotencyKey (rp_email p) (rp_repo p) (rp_tag p)\<rparr>"

lemmas handler_run_defs = note_instance_defs handleSendReleaseNotification_def validateRequest_def
  release_request_of_def note_payload_def releaseIdempotencyKey_def

lemma handler_sends:
  assumes "live (rw_keys w) (rw_now w) (namespaced (rq_idempotencyKey (release_request_of note_payload))) = None"
    and "\<not> rw_down w" "\<not> nw_smtp_down w"
  shows "\<exists>w'. handleSendReleaseNotification note_notifier (RedisIdempotencyStore mem_redis 86400 60)
      (release_request_of note_payload) w = (Inr (Inr \<lparr>rs_status = DELIVERY_STATUS_SENT, rs_message = ''Sent''\<rparr>), w')"
  using assms by (simp add: handler_run_defs)

theorem notification_handler_answers_witness:
  "\<exists>w'. handleSendReleaseNotification note_notifier (RedisIdempotencyStore mem_redis 86400 60)
      (release_request_of note_payload) (note_at Map.empty 0)
      = (Inr (Inr \<lparr>rs_status = DELIVERY_STATUS_SENT, rs_message = ''Sent''\<rparr>), w') \<and>
    nw_mailbox w' = [request_mail ''http://localhost:3000'' (release_request_of note_payload)]"
proof -
  let ?sent = "Inr \<lparr>rs_status = DELIVERY_STATUS_SENT, rs_message = ''Sent''\<rparr> :: grpc_answer"
  have start: "live (rw_keys (note_at Map.empty 0)) (rw_now (note_at Map.empty 0)) k = None" "nw_mailbox (note_at Map.empty 0) = []"
    for k by (simp_all add: note_at_def live_def)
  obtain w' where run: "handleSendReleaseNotification note_notifier (RedisIdempotencyStore mem_redis 86400 60)
      (release_request_of note_payload) (note_at Map.empty 0) = (Inr ?sent, w')"
    using handler_sends [OF start(1)] by (auto simp: note_at_def)
  from notification_handler_answers [OF note_mail.mailing_env_axioms run] start(2) run show ?thesis
    by (simp add: answer_means_def Let_def)
qed

section \<open>The notifier of the server\<close>

definition callServer :: "(release_request \<Rightarrow> ('w, release_response) async) \<Rightarrow> release_payload \<Rightarrow> ('w, release_response) async" where
  "callServer call p = call (release_request_of p)"

definition GrpcNotifier :: "(release_request \<Rightarrow> ('w, release_response) async) \<Rightarrow> 'w subscription_repository \<Rightarrow>
    release_payload \<Rightarrow> ('w, unit) async" where
  "GrpcNotifier call tagRepository p =
     await (callServer call p) (\<lambda>response.
       if rs_status response = DELIVERY_STATUS_SENT \<or> rs_status response = DELIVERY_STATUS_DUPLICATE
       then advanceTag tagRepository (rp_email p) (rp_repo p) (rp_tag p)
       else ret ())"

text \<open>
  A call of the client: it did not reach the handler and is rejected, or the handler ran on the request
  as it was decoded from the bytes sent; then the client gets the response as decoded from the bytes of
  the answer, or a rejection: for an error of the handler, and when the answer is late or lost.
\<close>

locale grpc_transport =
  fixes W :: wire
    and call :: "release_request \<Rightarrow> ('w, release_response) async"
    and handler :: "release_request \<Rightarrow> ('w, grpc_answer) async"
    and view :: "'w \<Rightarrow> 'x"
  assumes call_law: "\<And>req w q w'. call req w = (q, w') \<Longrightarrow>
      (\<exists>e. q = Inl e \<and> external e \<and> view w' = view w) \<or>
      (\<exists>req' a w1. request_decode W (request_encode W req) = Some (Inr req') \<and> handler req' w = (Inr a, w1) \<and>
         view w' = view w1 \<and>
         (case q of Inl e \<Rightarrow> external e
          | Inr r' \<Rightarrow> \<exists>r. a = Inr r \<and> response_decode W (response_encode W r) = Some (Inr r')))"

lemma request_survives:
  assumes "wire_format W" and "short_request m"
  shows "request_decode W (request_encode W m) = Some (Inr m)"
  using wire_format.request_loop_encode [OF assms, of "[]"] by (simp add: request_decode_def request_loop.simps)

lemma response_survives:
  assumes "wire_format W" and "short_response r"
  shows "response_decode W (response_encode W r) = Some (Inr r)"
  using wire_format.response_loop_encode [OF assms, of "[]"] by (simp add: response_decode_def response_loop.simps)

text \<open>The handler's responses are short.\<close>

lemma handler_response_short:
  assumes "handleSendReleaseNotification notifier idempotency req w = (Inr (Inr r), w')"
  shows "short_response r"
proof -
  have "r \<in> {\<lparr>rs_status = DELIVERY_STATUS_DUPLICATE, rs_message = ''Already delivered''\<rparr>,
      \<lparr>rs_status = DELIVERY_STATUS_SENT, rs_message = ''Sent''\<rparr>}"
    using assms
    by (auto simp: handleSendReleaseNotification_def split: option.splits claim_result.splits if_splits
        elim!: await_outcome)
  then show ?thesis by (auto simp: short_response_def delivery_status_defs)
qed

text \<open>A transport that loses nothing.\<close>

definition wired_call :: "wire \<Rightarrow> (release_request \<Rightarrow> ('w, grpc_answer) async) \<Rightarrow> release_request \<Rightarrow> ('w, release_response) async" where
  "wired_call W handler req =
     (case request_decode W (request_encode W req) of
        Some (Inr req') \<Rightarrow>
          await (handler req') (\<lambda>a. case a of
              Inl (c, reason) \<Rightarrow> throw (Other reason)
            | Inr r \<Rightarrow>
                (case response_decode W (response_encode W r) of
                   Some (Inr r') \<Rightarrow> ret r'
                 | _ \<Rightarrow> throw (Other ''INTERNAL'')))
      | _ \<Rightarrow> throw (Other ''INTERNAL''))"

lemma wired_transport:
  assumes answers: "\<And>req w q w'. handler req w = (q, w') \<Longrightarrow> \<exists>a. q = Inr a"
  shows "grpc_transport W (wired_call W handler) handler view"
proof
  fix req w q w'
  assume run: "wired_call W handler req w = (q, w')"
  show "(\<exists>e. q = Inl e \<and> external e \<and> view w' = view w) \<or>
      (\<exists>req' a w1. request_decode W (request_encode W req) = Some (Inr req') \<and> handler req' w = (Inr a, w1) \<and>
         view w' = view w1 \<and>
         (case q of Inl e \<Rightarrow> external e
          | Inr r' \<Rightarrow> \<exists>r. a = Inr r \<and> response_decode W (response_encode W r) = Some (Inr r')))"
  proof (cases "\<exists>req'. request_decode W (request_encode W req) = Some (Inr req')")
    case False
    then have "wired_call W handler req = throw (Other ''INTERNAL'')"
      by (auto simp: wired_call_def split: option.split sum.split)
    with run show ?thesis by simp
  next
    case True
    then obtain req' where req: "request_decode W (request_encode W req) = Some (Inr req')" by blast
    obtain q1 w1 where h: "handler req' w = (q1, w1)" by fastforce
    with answers obtain a where a: "q1 = Inr a" by blast
    show ?thesis
    proof (cases a)
      case (Inl err)
      then obtain c reason where "a = Inl (c, reason)" by (cases err) simp
      with run req h a have "q = Inl (Other reason)" "w' = w1" by (simp_all add: wired_call_def await_def)
      with req h a show ?thesis by auto
    next
      case (Inr r)
      show ?thesis
      proof (cases "\<exists>r'. response_decode W (response_encode W r) = Some (Inr r')")
        case True
        with run req h a Inr show ?thesis by (auto simp: wired_call_def await_def)
      next
        case False
        with run req h a Inr have "q = Inl (Other ''INTERNAL'')" "w' = w1"
          by (auto simp: wired_call_def await_def split: option.splits sum.splits)
        with req h a show ?thesis by auto
      qed
    qed
  qed
qed

text \<open>A notifier in its surroundings: the services behind the call and the table it advances the tags in.\<close>

locale grpc_notifying =
  mail: mailing_env redis sendMail stop_timer tally marks mailbox now "\<lambda>w. (subs w, other w)" +
  table: subscription_store R subs "\<lambda>w. (marks w, mailbox w, other w)" +
  net: grpc_transport W call "handleSendReleaseNotification (production_notifier sendMail stop_timer tally baseUrl)
    (RedisIdempotencyStore redis ttl lease)" "\<lambda>w. (subs w, marks w, mailbox w, other w)" +
  format: wire_format W
  for redis :: "'w redis_client"
    and sendMail :: "string \<Rightarrow> send_options \<Rightarrow> ('w, unit) async"
    and stop_timer :: "('w, unit) async"
    and tally :: "string \<Rightarrow> bool \<Rightarrow> ('w, unit) async"
    and marks :: "'w \<Rightarrow> keyspace"
    and mailbox :: "'w \<Rightarrow> send_options list"
    and now :: "'w \<Rightarrow> nat"
    and subs :: "'w \<Rightarrow> subscription set"
    and other :: "'w \<Rightarrow> 'x"
    and R :: "'w subscription_repository"
    and W :: wire
    and call :: "release_request \<Rightarrow> ('w, release_response) async"
    and baseUrl :: string
    and ttl lease :: nat
begin

lemma request_facts:
  "request_mail baseUrl (release_request_of p) = release_mail baseUrl p"
  "rq_idempotencyKey (release_request_of p) = releaseIdempotencyKey (rp_email p) (rp_repo p) (rp_tag p)"
  by (cases p; simp add: request_mail_def release_request_of_def)+

lemma call_outcome:
  assumes short: "short_request (release_request_of p)" and c: "call (release_request_of p) w = (r, w1)"
  shows "other w1 = other w \<and> subs w1 = subs w \<and>
    (\<forall>k. marked_done (marks w1) k \<longrightarrow> marked_done (marks w) k \<or>
      k = releaseIdempotencyKey (rp_email p) (rp_repo p) (rp_tag p) \<and> mailbox w1 = mailbox w @ [release_mail baseUrl p]) \<and>
    (case r of
       Inl e \<Rightarrow> external e \<and> (mailbox w1 = mailbox w \<or> mailbox w1 = mailbox w @ [release_mail baseUrl p])
     | Inr rsp \<Rightarrow> (rs_status rsp = DELIVERY_STATUS_SENT \<or> rs_status rsp = DELIVERY_STATUS_DUPLICATE) \<and>
        (mailbox w1 = mailbox w @ [release_mail baseUrl p] \<or>
         mailbox w1 = mailbox w \<and> (\<exists>t \<ge> now w.
           live (marks w) t (namespaced (releaseIdempotencyKey (rp_email p) (rp_repo p) (rp_tag p))) = Some DONE_MARK)))"
  using net.call_law [OF c]
proof (elim disjE exE conjE)
  let ?req = "release_request_of p"
  fix req' a w2
  assume "request_decode W (request_encode W ?req) = Some (Inr req')"
    and h: "handleSendReleaseNotification (production_notifier sendMail stop_timer tally baseUrl)
      (RedisIdempotencyStore redis ttl lease) req' w = (Inr a, w2)"
    and view: "(subs w1, marks w1, mailbox w1, other w1) = (subs w2, marks w2, mailbox w2, other w2)"
    and r: "case r of Inl e \<Rightarrow> external e
        | Inr r' \<Rightarrow> \<exists>r. a = Inr r \<and> response_decode W (response_encode W r) = Some (Inr r')"
  with request_survives [OF format.wire_format_axioms short] have req': "req' = ?req" by simp
  from mail.handler_answers [OF h] req' view have
    1: "other w1 = other w" "subs w1 = subs w" "answer_means baseUrl ?req (now w) (marks w) (mailbox w) a (marks w1) (mailbox w1)"
    and marked: "\<forall>k. marked_done (marks w1) k \<longrightarrow> marked_done (marks w) k \<or>
      k = releaseIdempotencyKey (rp_email p) (rp_repo p) (rp_tag p) \<and> mailbox w1 = mailbox w @ [release_mail baseUrl p]"
    by (auto simp: request_facts)
  from 1(3) have mails: "mailbox w1 = mailbox w \<or> mailbox w1 = mailbox w @ [release_mail baseUrl p]"
    by (cases a; cases "fst (projl a)") (auto simp: answer_means_def Let_def request_facts split: if_splits)
  show ?thesis
  proof (cases r)
    case (Inl e)
    with r 1 mails marked show ?thesis by simp
  next
    case (Inr rsp)
    with r obtain r0 where r0: "a = Inr r0" "response_decode W (response_encode W r0) = Some (Inr rsp)" by auto
    from response_survives [OF format.wire_format_axioms handler_response_short [OF h [unfolded r0(1)]]] r0
    have "rsp = r0" by simp
    with 1 r0(1) Inr marked show ?thesis by (auto simp: answer_means_def Let_def request_facts split: if_splits)
  qed
qed auto

lemma notifier_outcome:
  assumes short: "short_request (release_request_of p)" and run: "GrpcNotifier call R p w = (q, w')"
  shows "other w' = other w \<and>
    (\<forall>k. marked_done (marks w') k \<longrightarrow> marked_done (marks w) k \<or>
      k = releaseIdempotencyKey (rp_email p) (rp_repo p) (rp_tag p) \<and> mailbox w' = mailbox w @ [release_mail baseUrl p]) \<and>
    (case q of
       Inl e \<Rightarrow> external e \<and> subs w' = subs w \<and>
         (mailbox w' = mailbox w \<or> mailbox w' = mailbox w @ [release_mail baseUrl p])
     | Inr u \<Rightarrow> subs w' = updated (subs w) (\<lambda>s. sub_email s = rp_email p \<and> repository s = rp_repo p)
           (\<lambda>s. s\<lparr>lastSeenTag := Some (rp_tag p)\<rparr>) \<and>
         (mailbox w' = mailbox w @ [release_mail baseUrl p] \<or>
          mailbox w' = mailbox w \<and> (\<exists>t \<ge> now w.
            live (marks w) t (namespaced (releaseIdempotencyKey (rp_email p) (rp_repo p) (rp_tag p))) = Some DONE_MARK)))"
  using run [unfolded GrpcNotifier_def callServer_def]
proof (cases rule: await_outcome)
  case (rejected e)
  with call_outcome [OF short rejected(1)] show ?thesis by simp
next
  case (resolved rsp w1)
  note 1 = call_outcome [OF short resolved(1), unfolded sum.case]
  with resolved(2) have adv: "advanceTag R (rp_email p) (rp_repo p) (rp_tag p) w1 = (q, w')" by auto
  from table.advanceTag_law [OF adv] 1 show ?thesis by (cases q) auto
qed

end

text \<open>Through the generated messages and the network, a release notification over gRPC that resolves has
  advanced the last seen tag of the subscriber, and its mail is out: sent once by this call or confirmed
  before. One that is rejected leaves the tag, so that the next scan finds the subscriber again; its mail
  may have been sent.\<close>

lemma grpc_notification_advances_tag:
  assumes env: "mailing_env redis sendMail stop_timer tally marks mailbox now (\<lambda>w. (subs w, other w))"
    and table: "subscription_store R subs (\<lambda>w. (marks w, mailbox w, other w))"
    and wire: "wire_format W"
    and net: "grpc_transport W call (handleSendReleaseNotification
      (production_notifier sendMail stop_timer tally baseUrl) (RedisIdempotencyStore redis ttl lease))
      (\<lambda>w. (subs w, marks w, mailbox w, other w))"
    and short: "short_request (release_request_of p)"
    and run: "GrpcNotifier call R p w = (q, w')"
  shows "other w' = other w \<and>
    (case q of
       Inl e \<Rightarrow> external e \<and> subs w' = subs w \<and>
         (mailbox w' = mailbox w \<or> mailbox w' = mailbox w @ [release_mail baseUrl p])
     | Inr u \<Rightarrow> subs w' = updated (subs w) (\<lambda>s. sub_email s = rp_email p \<and> repository s = rp_repo p)
           (\<lambda>s. s\<lparr>lastSeenTag := Some (rp_tag p)\<rparr>) \<and>
         (mailbox w' = mailbox w @ [release_mail baseUrl p] \<or>
          mailbox w' = mailbox w \<and> (\<exists>t \<ge> now w.
            live (marks w) t (namespaced (releaseIdempotencyKey (rp_email p) (rp_repo p) (rp_tag p))) = Some DONE_MARK)))"
  using grpc_notifying.notifier_outcome [OF grpc_notifying.intro [OF env table net wire] short run] by blast

record whole_world = note_world +
  wh_subs :: "subscription list"

definition mem_tags :: "whole_world subscription_repository" where
  "mem_tags = SubscriptionRepository (listed_subscriptions wh_subs (\<lambda>xs w. w\<lparr>wh_subs := xs\<rparr>))"

definition whole_at :: "subscription list \<Rightarrow> whole_world" where
  "whole_at ss = note_world.extend (note_at Map.empty 0) \<lparr>wh_subs = ss\<rparr>"

abbreviation mem_handler :: "release_request \<Rightarrow> (whole_world, grpc_answer) async" where
  "mem_handler \<equiv> handleSendReleaseNotification note_notifier (RedisIdempotencyStore mem_redis 86400 60)"

lemma whole_env: "mailing_env mem_redis note_smtp (ret ()) (\<lambda>_ _. ret ()) rw_keys nw_mailbox rw_now
    (\<lambda>w. (set (wh_subs w), nw_broker w))"
  by (rule note_mailing) simp_all

lemma whole_tags: "subscription_store mem_tags (\<lambda>w. set (wh_subs w)) (\<lambda>w. (rw_keys w, nw_mailbox w, nw_broker w))"
  unfolding mem_tags_def by (intro subscription_prisma.store listed_subscription_prisma) simp_all

lemma mem_handler_answers: "mem_handler req w = (q, w') \<Longrightarrow> \<exists>a. q = Inr a"
  using mailing_env.handler_answers [OF whole_env] by blast

interpretation whole_net: grpc_transport varint_wire "wired_call varint_wire mem_handler" mem_handler
    "\<lambda>w. (set (wh_subs w), rw_keys w, nw_mailbox w, nw_broker w)"
  by (rule wired_transport) (rule mem_handler_answers)

interpretation whole_grpc: grpc_notifying mem_redis note_smtp "ret ()" "\<lambda>_ _. ret ()" rw_keys nw_mailbox rw_now
    "\<lambda>w. set (wh_subs w)" nw_broker mem_tags varint_wire "wired_call varint_wire mem_handler"
    "''http://localhost:3000''" 86400 60
  by (rule grpc_notifying.intro [OF whole_env whole_tags whole_net.grpc_transport_axioms varint_wire_format])

definition subscriber_row :: "string option \<Rightarrow> subscription" where
  "subscriber_row tag = \<lparr>sub_id = ''x'', sub_email = ''a@b'', repository = ''o/r'', status = ACTIVE,
     confirmToken = ''c'', unsubscribeToken = ''t'', lastSeenTag = tag, createdAt = 0\<rparr>"

lemma note_payload_short: "short_request (release_request_of note_payload)"
  by (simp add: short_request_def release_request_of_def note_payload_def releaseIdempotencyKey_def)

lemma whole_notified:
  "\<exists>w'. GrpcNotifier (wired_call varint_wire mem_handler) mem_tags note_payload (whole_at [subscriber_row None]) = (Inr (), w')"
proof -
  let ?w = "whole_at [subscriber_row None]"
  let ?sent = "\<lparr>rs_status = DELIVERY_STATUS_SENT, rs_message = ''Sent''\<rparr>"
  have free: "live (rw_keys ?w) (rw_now ?w) k = None" "\<not> rw_down ?w" "\<not> nw_smtp_down ?w" for k
    by (simp_all add: whole_at_def note_at_def live_def note_world.defs)
  obtain w1 where h: "mem_handler (release_request_of note_payload) ?w = (Inr (Inr ?sent), w1)"
    using handler_sends [OF free(1) free(2,3)] by blast
  then have "wired_call varint_wire mem_handler (release_request_of note_payload) ?w = (Inr ?sent, w1)"
    by (simp add: wired_call_def await_def request_survives [OF varint_wire_format note_payload_short]
        response_survives [OF varint_wire_format handler_response_short [OF h]])
  then show ?thesis
    by (simp add: GrpcNotifier_def callServer_def await_def mem_tags_def SubscriptionRepository_def advanceTag_q_def
        listed_subscriptions_def listed_def ret_def)
qed

end
