(* ===== verification/Delivered_Consumer.thy ===== *)
theory Delivered_Consumer
  imports Notification_Grpc Saga_Consumer
begin

text \<open>
  The consumer of delivery events, \<open>git-release-notifier-be/src/workers/delivered/delivered.consumer.ts\<close>:
  it advances the last seen tag of the subscriber a release mail was delivered to. With it the way of a
  release closes: \<open>confirmed_release_not_found_again\<close> follows a message from the email queue over the
  delivery event to the query of the next scan. \<open>queue_messages_are_typed\<close> is about all three queues:
  what one service publishes is what the other parses.
\<close>

section \<open>The consumer\<close>

definition parseEvent :: "(string \<Rightarrow> bool) \<Rightarrow> consume_message \<Rightarrow> release_delivered option" where
  "parseEvent email_ok msg =
     (case JSON_parse (msg_content msg) of
        None \<Rightarrow> None
      | Some parsed \<Rightarrow> releaseDeliveredSchema email_ok parsed)"

definition delivered_handleMessage :: "(string \<Rightarrow> bool) \<Rightarrow> consume_message \<Rightarrow> ('w, unit) async \<Rightarrow> ('w, unit) async \<Rightarrow>
    'w subscription_repository \<Rightarrow> ('w, unit) async" where
  "delivered_handleMessage email_ok msg ack_it nack_it tagRepository =
     (case parseEvent email_ok msg of
        None \<Rightarrow> ack_it
      | Some event \<Rightarrow>
          try_catch
            (await (advanceTag tagRepository (dlv_email event) (dlv_repo event) (dlv_tag event)) (\<lambda>_. ack_it))
            (\<lambda>err. nack_it))"

definition delivered_onMessage :: "(string \<Rightarrow> bool) \<Rightarrow> 'w channel \<Rightarrow> 'w subscription_repository \<Rightarrow>
    consume_message option \<Rightarrow> ('w, unit) async" where
  "delivered_onMessage email_ok ch tagRepository m =
     (case m of
        None \<Rightarrow> ret ()
      | Some msg \<Rightarrow>
          (let ack_it = swallow (ack ch msg);
               nack_it = swallow (nack ch msg False)
           in try_catch (delivered_handleMessage email_ok msg ack_it nack_it tagRepository) (\<lambda>err. nack_it)))"

locale delivered_env =
  chan: amqp_channel ch broker "\<lambda>w. (subs w, other w)" +
  tags: subscription_store R subs "\<lambda>w. (broker w, other w)"
  for ch :: "'w channel"
    and broker :: "'w \<Rightarrow> broker_event list"
    and R :: "'w subscription_repository"
    and subs :: "'w \<Rightarrow> subscription set"
    and other :: "'w \<Rightarrow> 'x"
begin

text \<open>
  A delivery event is settled at most once. One that does not parse is acknowledged and changes nothing;
  one whose tag was written is acknowledged, and only the tag of that subscriber for that repository
  changed; one the database refused is dropped with the table as it was.
\<close>

lemma delivery:
  assumes run: "delivered_onMessage email_ok ch R (Some msg) w = (q, w')"
  shows "q = Inr () \<and> other w' = other w \<and>
    (case parseEvent email_ok msg of
       None \<Rightarrow> subs w' = subs w \<and> settled_with (broker w) (broker w') (Acked msg)
     | Some d \<Rightarrow>
         subs w' = updated (subs w) (\<lambda>s. sub_email s = dlv_email d \<and> repository s = dlv_repo d)
           (\<lambda>s. s\<lparr>lastSeenTag := Some (dlv_tag d)\<rparr>) \<and> settled_with (broker w) (broker w') (Acked msg) \<or>
         subs w' = subs w \<and> settled_with (broker w) (broker w') (Nacked msg False))"
proof -
  let ?on = "\<lambda>d. advanceTag R (dlv_email d) (dlv_repo d) (dlv_tag d)"
  have "preserves broker (?on d)" for d
    using tags.advanceTag_law by (intro preservesI) blast
  from chan.handled_delivery [OF this run [unfolded delivered_onMessage_def delivered_handleMessage_def Let_def option.case]]
  have out: "q = Inr ()" "case parseEvent email_ok msg of
       None \<Rightarrow> (subs w', other w') = (subs w, other w) \<and> settled_with (broker w) (broker w') (Acked msg)
     | Some m \<Rightarrow>
         (\<exists>u w1. ?on m w = (Inr u, w1) \<and> (subs w', other w') = (subs w1, other w1) \<and>
            settled_with (broker w) (broker w') (Acked msg)) \<or>
         (\<exists>e w1. ?on m w = (Inl e, w1) \<and> (subs w', other w') = (subs w1, other w1) \<and>
            settled_with (broker w) (broker w') (Nacked msg False))" by simp_all
  show ?thesis
  proof (cases "parseEvent email_ok msg")
    case None
    with out show ?thesis by simp
  next
    case (Some d)
    with out(2) obtain r w1 where r: "?on d w = (r, w1)" "subs w' = subs w1" "other w' = other w1"
      "settled_with (broker w) (broker w') (case r of Inr u \<Rightarrow> Acked msg | Inl e \<Rightarrow> Nacked msg False)" by fastforce
    from tags.advanceTag_law [OF r(1)] r(2-) out(1) Some show ?thesis by (cases r) simp_all
  qed
qed

end

section \<open>From the email queue to the next scan\<close>

text \<open>An acknowledged release message has left its delivery event on the queue, and its mail is out.\<close>

lemma acked_release_told:
  assumes end_: "email_end msg (Release k e r t u) evs sent over" and "Acked msg \<in> set evs"
  shows "sent \<and> delivered_event \<lparr>dlv_email = e, dlv_repo = r, dlv_tag = t\<rparr> \<in> set evs"
proof -
  have no_ack: "Acked msg \<notin> set [failed_event msg, Nacked msg False]" "Acked msg \<notin> set [failed_event msg]"
    by (simp_all add: failed_event_def)
  from end_ obtain conf settle where evs: "evs = conf @ settle"
    "conf = [] \<or> conf = [delivered_event \<lparr>dlv_email = e, dlv_repo = r, dlv_tag = t\<rparr>]"
    and s: "settle = [Acked msg] \<and> conf = [delivered_event \<lparr>dlv_email = e, dlv_repo = r, dlv_tag = t\<rparr>] \<and> sent \<or>
      settle = [failed_event msg, Nacked msg False] \<or> settle = [] \<or> settle = [failed_event msg]"
    by (auto simp: email_end_def confirming_events_def saga_failure_def prefix_Cons)
  with assms(2) no_ack show ?thesis by (auto simp: delivered_event_def)
qed

text \<open>C4. The way of a release. A message of the email queue that is acknowledged has its mail out and its delivery
  event on the queue of the server. When the server's consumer acknowledges that event, the next scan that
  asks for the subscribers to notify of this release does not find the address again; and whatever becomes
  of the event, no other row and no other column of the table changes.\<close>

theorem confirmed_release_not_found_again:
  assumes env: "notification_env ch redis sendMail stop_timer tally getChannel createConfirmChannel
      broker marks mailbox closed now"
    and parsed: "parseMessage email_ok uuid_ok msg = Some (Release k e r t u)"
    and sent: "email_callback email_ok uuid_ok message_of ch redis sendMail stop_timer tally getChannel
      createConfirmChannel ttl lease baseUrl (Some msg) w = (q, w')"
    and acked: "Acked msg \<in> set (broker w')" "Acked msg \<notin> set (broker w)"
    and server: "delivered_env sch sbroker R subs other"
    and event: "msg_content emsg = Text (release_delivered_json \<lparr>dlv_email = e, dlv_repo = r, dlv_tag = t\<rparr>)"
    and told: "delivered_onMessage email_ok sch R (Some emsg) v = (q', v')"
    and eacked: "Acked emsg \<in> set (sbroker v')" "Acked emsg \<notin> set (sbroker v)"
    and scan: "getOutdatedSubscribers R r t v' = (Inr xs, v'')"
  shows "mail_is_out (marks w) (now w) k (mail_of baseUrl (Release k e r t u)) (drop (length (mailbox w)) (mailbox w')) \<and>
    Sent RELEASE_DELIVERED_QUEUE_NAME (msg_content emsg) no_headers \<in> set (broker w') \<and>
    subs v' = updated (subs v) (\<lambda>s. sub_email s = e \<and> repository s = r) (\<lambda>s. s\<lparr>lastSeenTag := Some t\<rparr>) \<and>
    e \<notin> out_email ` set xs"
proof -
  let ?m = "Release k e r t u" and ?d = "\<lparr>dlv_email = e, dlv_repo = r, dlv_tag = t\<rparr>"
  from consumer_env.onMessage_end [OF notification_env.consumer [OF env] parsed sent [unfolded email_callback_def]]
  obtain ms evs where 1: "mailbox w' = mailbox w @ ms" "broker w' = broker w @ evs"
    "email_end msg ?m evs (mail_is_out (marks w) (now w) k (mail_of baseUrl ?m) ms) (closed w')" by auto
  with acked acked_release_told [OF 1(3)] have 2: "mail_is_out (marks w) (now w) k (mail_of baseUrl ?m) ms"
    "delivered_event ?d \<in> set evs" by auto
  from parsed have ok: "email_ok e"
    by (auto simp: parseMessage_def dest: emailMessageSchema_valid split: option.splits)
  then have "parseEvent email_ok emsg = Some ?d"
    by (simp add: parseEvent_def event releaseDeliveredSchema_accepts)
  with delivered_env.delivery [OF server told] have
    "subs v' = updated (subs v) (\<lambda>s. sub_email s = e \<and> repository s = r) (\<lambda>s. s\<lparr>lastSeenTag := Some t\<rparr>) \<or>
     settled_with (sbroker v) (sbroker v') (Nacked emsg False)" by simp blast
  moreover have "\<not> settled_with (sbroker v) (sbroker v') (Nacked emsg False)"
    unfolding settled_with_def using eacked by (metis Un_iff broker_event.distinct(1) empty_iff empty_set set_ConsD set_append)
  ultimately have
    3: "subs v' = updated (subs v) (\<lambda>s. sub_email s = e \<and> repository s = r) (\<lambda>s. s\<lparr>lastSeenTag := Some t\<rparr>)" by blast
  have "s \<in> subs v' \<Longrightarrow> sub_email s = e \<Longrightarrow> repository s = r \<Longrightarrow> lastSeenTag s = Some t" for s
    unfolding 3 by (erule updated_cases) auto
  then have "\<forall>s \<in> subs v'. outdated r t s \<longrightarrow> sub_email s \<noteq> e" by (auto simp: outdated_def)
  moreover from server have "subscription_store R subs (\<lambda>w. (sbroker w, other w))" by (simp add: delivered_env_def)
  from subscription_store.getOutdatedSubscribers_law [OF this scan] have
    "\<exists>ss. set ss = {s \<in> subs v'. outdated r t s} \<and> xs = map subscriber_of ss" by auto
  ultimately have "e \<notin> out_email ` set xs" unfolding subscriber_of_def by fastforce
  moreover from 2(2) have "Sent RELEASE_DELIVERED_QUEUE_NAME (msg_content emsg) no_headers \<in> set (broker w')"
    unfolding 1(2) event by (simp add: delivered_event_def)
  moreover from 2(1) have "mail_is_out (marks w) (now w) k (mail_of baseUrl ?m) (drop (length (mailbox w)) (mailbox w'))"
    unfolding 1(1) by simp
  ultimately show ?thesis using 3 by blast
qed

record tag_world =
  tw_subs :: "subscription list"
  tw_broker :: "broker_event list"
  tw_closed :: bool

definition tag_channel :: "tag_world channel" where
  "tag_channel = logged tw_broker (\<lambda>xs w. w\<lparr>tw_broker := xs\<rparr>) (\<lambda>w _. tw_closed w)"

definition tag_repository :: "tag_world subscription_repository" where
  "tag_repository = SubscriptionRepository (listed_subscriptions tw_subs (\<lambda>xs w. w\<lparr>tw_subs := xs\<rparr>))"

interpretation mem_delivered: delivered_env tag_channel tw_broker tag_repository "\<lambda>w. set (tw_subs w)" tw_closed
proof -
  have "amqp_channel tag_channel tw_broker (\<lambda>w. (set (tw_subs w), tw_closed w))"
    unfolding tag_channel_def by (rule logged_amqp_channel) simp_all
  moreover have "subscription_store tag_repository (\<lambda>w. set (tw_subs w)) (\<lambda>w. (tw_broker w, tw_closed w))"
    unfolding tag_repository_def by (intro subscription_prisma.store listed_subscription_prisma) simp_all
  ultimately show "delivered_env tag_channel tw_broker tag_repository (\<lambda>w. set (tw_subs w)) tw_closed"
    by (simp add: delivered_env_def)
qed

definition event_message :: consume_message where
  "event_message = \<lparr>deliveryTag = 7, msg_content = Text (release_delivered_json
     \<lparr>dlv_email = ''a@b'', dlv_repo = ''o/r'', dlv_tag = ''v1''\<rparr>), msg_headers = None\<rparr>"

theorem confirmed_release_not_found_again_witness:
  "\<exists>w'. note_callback (Some (note_message note_release)) (note_at Map.empty 0) = (Inr (), w') \<and>
     Sent RELEASE_DELIVERED_QUEUE_NAME (msg_content event_message) no_headers \<in> set (nw_broker w') \<and>
     fst (getOutdatedSubscribers tag_repository ''o/r'' ''v1''
       (snd (delivered_onMessage (\<lambda>_. True) tag_channel tag_repository (Some event_message)
          \<lparr>tw_subs = [subscriber_row None], tw_broker = [], tw_closed = False\<rparr>))) = Inr []"
proof -
  let ?v = "\<lparr>tw_subs = [subscriber_row None], tw_broker = [], tw_closed = False\<rparr>"
  let ?v' = "\<lparr>tw_subs = [subscriber_row (Some ''v1'')], tw_broker = [Acked event_message], tw_closed = False\<rparr>"
  obtain w' where run: "note_callback (Some (note_message note_release)) (note_at Map.empty 0) = (Inr (), w')"
    and acked: "Acked (note_message note_release) \<in> set (nw_broker w')" using note_release_run by force
  have start: "Acked (note_message note_release) \<notin> set (nw_broker (note_at Map.empty 0))" by (simp add: note_at_def)
  have told: "delivered_onMessage (\<lambda>_. True) tag_channel tag_repository (Some event_message) ?v = (Inr (), ?v')"
    by (simp add: delivered_onMessage_def delivered_handleMessage_def parseEvent_def event_message_def
        releaseDeliveredSchema_accepts tag_channel_def tag_repository_def logged_def Let_def swallow_def io_defs
        SubscriptionRepository_def advanceTag_q_def listed_subscriptions_def listed_def subscriber_row_def no_stamp_def)
  have scan: "getOutdatedSubscribers tag_repository ''o/r'' ''v1'' ?v' = (Inr [], ?v')"
    by (simp add: tag_repository_def SubscriptionRepository_def getOutdatedSubscribers_q_def listed_subscriptions_def
        listed_def io_defs subscriber_row_def sql_not_def Let_def)
  have "parseMessage (\<lambda>_. True) (\<lambda>_. True) (note_message note_release) =
      Some (Release ''release:a@b:o/r:v1'' ''a@b'' ''o/r'' ''v1'' ''t'')"
    using note_message_parsed [of note_release] by (simp add: note_release_def)
  from confirmed_release_not_found_again [OF note_env this run acked start mem_delivered.delivered_env_axioms _ told _ _ scan]
  show ?thesis using run told scan by (auto simp: event_message_def)
qed

section \<open>What is published parses\<close>

lemma confirmationReplySchema_valid: "confirmationReplySchema uuid_ok j = Some r \<Longrightarrow> uuid_ok (rep_sagaId r)"
  by (auto simp: confirmationReplySchema_def dest: z_refined_ok split: option.splits json.splits if_splits)

lemma releaseDeliveredSchema_valid: "releaseDeliveredSchema email_ok j = Some d \<Longrightarrow> email_ok (dlv_email d)"
  by (auto simp: releaseDeliveredSchema_def dest: z_refined_ok split: option.splits)

text \<open>C27. The queues are typed. Whatever one service publishes, the consumer on the other side parses to the value
  that was published, and to nothing else, as long as its addresses and instance ids are well formed;
  whatever a consumer accepts is well formed; and an identifier that is not is rejected on every queue, not
  passed on.\<close>

theorem queue_messages_are_typed:
  "(parseMessage email_ok uuid_ok \<lparr>deliveryTag = n, msg_content = Text (email_message_json m), msg_headers = h\<rparr> =
     (if valid_message email_ok uuid_ok m then Some m else None)) \<and>
   (parseReply uuid_ok \<lparr>deliveryTag = n, msg_content = Text (confirmation_reply_json r), msg_headers = h\<rparr> =
     (if uuid_ok (rep_sagaId r) then Some r else None)) \<and>
   (parseEvent email_ok \<lparr>deliveryTag = n, msg_content = Text (release_delivered_json d), msg_headers = h\<rparr> =
     (if email_ok (dlv_email d) then Some d else None)) \<and>
   (case parseMessage email_ok uuid_ok msg of None \<Rightarrow> True | Some m' \<Rightarrow> valid_message email_ok uuid_ok m') \<and>
   (case parseReply uuid_ok msg of None \<Rightarrow> True | Some r' \<Rightarrow> uuid_ok (rep_sagaId r')) \<and>
   (case parseEvent email_ok msg of None \<Rightarrow> True | Some d' \<Rightarrow> email_ok (dlv_email d'))"
proof (intro conjI)
  show "case parseMessage email_ok uuid_ok msg of None \<Rightarrow> True | Some m' \<Rightarrow> valid_message email_ok uuid_ok m'"
    by (auto simp: parseMessage_def dest: emailMessageSchema_valid split: option.split)
  show "case parseReply uuid_ok msg of None \<Rightarrow> True | Some r' \<Rightarrow> uuid_ok (rep_sagaId r')"
    by (auto simp: parseReply_def dest!: confirmationReplySchema_valid split: option.split)
  show "case parseEvent email_ok msg of None \<Rightarrow> True | Some d' \<Rightarrow> email_ok (dlv_email d')"
    by (auto simp: parseEvent_def dest!: releaseDeliveredSchema_valid split: option.split)
qed (simp_all add: parseMessage_def parseReply_def parseEvent_def emailMessageSchema_accepts
  confirmationReplySchema_accepts releaseDeliveredSchema_accepts)

end
