(* ===== verification/Confirmation_Path.thy ===== *)
theory Confirmation_Path
  imports Delivered_Consumer
begin

text \<open>
  The way of a confirmation, over both services: from a message of the email queue
  (\<open>notification-service/src/consumer/email.consumer.ts\<close>) over the replies to the saga to what the reply
  consumer and the orchestrator make of them (\<open>git-release-notifier-be/src/modules/saga\<close>). With
  \<open>start_sends_one_confirmation\<close>, which says what puts the message on the queue, it closes the circle of
  the subscribe saga.
\<close>

section \<open>The replies tell the truth\<close>

lemma confirmation_reply_json_inj [simp]: "confirmation_reply_json r = confirmation_reply_json r' \<longleftrightarrow> r = r'"
proof
  assume "confirmation_reply_json r = confirmation_reply_json r'"
  moreover have "confirmationReplySchema (\<lambda>_. True) (confirmation_reply_json r) = Some r" for r
    by (simp add: confirmationReplySchema_accepts)
  ultimately show "r = r'" by (metis option.inject)
qed simp

lemma reply_event_simps [simp]:
  "reply_event r = reply_event r' \<longleftrightarrow> r = r'" "reply_event r \<noteq> failed_event msg" "reply_event r \<noteq> Acked msg"
  "reply_event r \<noteq> Nacked msg b"
  by (auto simp: reply_event_def failed_event_def queue_names)

text \<open>A reply that a delivery publishes is for the instance of its message. \<open>SENT\<close>: the mail is out;
  \<open>FAILED\<close>: the message is on the dead letter queue and not acknowledged.\<close>

lemma replies_are_true:
  assumes end_: "email_end msg (Confirmation k e r t g) evs sent over" and rep: "reply_event reply \<in> set evs"
  shows "rep_sagaId reply = g \<and> g \<noteq> [] \<and>
    (rep_status reply = SENT \<and> sent \<or>
     rep_status reply = FAILED \<and> EMAIL_MAX_RETRIES \<le> retryCount msg \<and> failed_event msg \<in> set evs \<and> Acked msg \<notin> set evs)"
proof -
  let ?m = "Confirmation k e r t g"
  from end_ obtain conf settle where evs: "evs = conf @ settle" "prefix conf (confirming_events ?m)" "conf = [] \<or> sent"
    and s: "settle \<in> {[Acked msg], [failed_event msg, Nacked msg False], [], [failed_event msg]} \<or>
      conf = [] \<and> EMAIL_MAX_RETRIES \<le> retryCount msg \<and>
        (\<exists>fs. settle = [failed_event msg, Nacked msg False] @ fs \<and> saga_failure ?m fs)"
    unfolding email_end_def by blast
  have "set conf \<subseteq> set (confirming_events ?m)" using evs(2) by (metis set_mono_prefix)
  then have conf: "x \<in> set conf \<Longrightarrow> g \<noteq> [] \<and> sent \<and> x = reply_event \<lparr>rep_sagaId = g, rep_status = SENT, rep_reason = None\<rparr>" for x
    using evs(3) by (cases "g = []") (auto simp: confirming_events_def)
  show ?thesis
  proof (cases "reply_event reply \<in> set conf")
    case True
    from conf [OF this] show ?thesis by simp
  next
    case False
    with rep evs(1) have in_settle: "reply_event reply \<in> set settle" by simp
    with s obtain fs where fs: "conf = []" "EMAIL_MAX_RETRIES \<le> retryCount msg"
      "settle = [failed_event msg, Nacked msg False] @ fs" "saga_failure ?m fs" by auto
    with in_settle have "reply_event reply \<in> set fs" by simp
    with fs(4) obtain reason where "fs = [reply_event \<lparr>rep_sagaId = g, rep_status = FAILED, rep_reason = Some reason\<rparr>]"
      "g \<noteq> []" "reply = \<lparr>rep_sagaId = g, rep_status = FAILED, rep_reason = Some reason\<rparr>"
      by (auto simp: saga_failure_def)
    then show ?thesis using evs(1) fs by (auto simp: failed_event_def reply_event_def)
  qed
qed


lemma dead_letter_event: "EMAIL_MAX_RETRIES \<le> retryCount msg \<Longrightarrow>
    failed_event msg = Sent EMAIL_DEAD_QUEUE_NAME (msg_content msg) (spread_headers msg)"
  by (simp add: failed_event_def)

text \<open>What the reply consumer does with a reply for a waiting instance, when it acknowledges it.\<close>

lemma acknowledged_reply_settles:
  assumes env: "server_env sdb subs gdb sagas clock getChannel broker other"
    and ch: "amqp_channel ch broker (\<lambda>w. (subs w, sagas w, other w))"
    and wf: "sagas_wf (sagas v)" and parsed: "parseReply uuid_ok m = Some reply"
    and run: "saga_onMessage uuid_ok ch (on_reply (server_saga sdb gdb clock getChannel)) (Some m) v = (q, v')"
    and acked: "Acked m \<in> set (broker v')" "Acked m \<notin> set (broker v)"
    and waits: "waiting {AWAITING_EMAIL} (rep_sagaId reply) (sagas v)"
  shows "settled_as (reply_state (rep_status reply)) (rep_sagaId reply) (sagas v) (sagas v') \<and> subs v' \<subseteq> subs v \<and>
    (\<forall>s \<in> subs v. status s = ACTIVE \<longrightarrow> s \<in> subs v') \<and> (rep_status reply = SENT \<longrightarrow> subs v' = subs v)"
proof -
  let ?on = "on_reply (server_saga sdb gdb clock getChannel)"
  have "preserves broker (?on r)" for r
    unfolding server_saga_simps by (rule server_env.onReply_silent [OF env])
  from amqp_channel.saga_onDelivery_outcome [OF ch this run [unfolded saga_onMessage_def option.case]] parsed
  obtain r v1 where on: "?on reply v = (r, v1)" "subs v' = subs v1" "sagas v' = sagas v1"
    and s: "settled_with (broker v) (broker v') (case r of Inr u \<Rightarrow> Acked m | Inl e \<Rightarrow> Nacked m False)" by fastforce
  from s acked obtain u where "r = Inr u" by (cases r) (auto simp: settled_with_def)
  with saga_env.onReply_outcome [OF server_env.saga_env [OF env] wf on(1) [unfolded server_saga_simps]] waits on(2,3)
  show ?thesis by simp
qed

section \<open>Property\<close>

text \<open>C5. The way of a confirmation. Every reply that the notification service publishes while it handles a
  confirmation message is for the instance of that message, and when the reply consumer of the server
  acknowledges it while the instance waits, the instance tells the truth about the mail: it is
  \<open>COMPLETED\<close> only if the confirmation mail is out, and then no subscription changes; it is \<open>COMPENSATED\<close>
  only if the message was given up and lies on the dead letter queue, and then at most pending
  subscriptions were removed.\<close>

theorem confirmation_reply_settles_saga:
  assumes env: "notification_env ch redis sendMail stop_timer tally getDelivered createConfirmChannel
      broker marks mailbox closed now"
    and parsed: "parseMessage email_ok uuid_ok msg = Some (Confirmation k e r t g)"
    and handled: "email_callback email_ok uuid_ok message_of ch redis sendMail stop_timer tally getDelivered
      createConfirmChannel ttl lease baseUrl (Some msg) w = (q, w')"
    and reply: "reply_event reply \<in> set (drop (length (broker w)) (broker w'))"
    and server: "server_env sdb subs gdb sagas clock getChannel sbroker other"
    and sch: "amqp_channel sch sbroker (\<lambda>w. (subs w, sagas w, other w))"
    and wf: "sagas_wf (sagas v)"
    and content: "msg_content rmsg = Text (confirmation_reply_json reply)"
    and told: "saga_onMessage uuid_ok sch (on_reply (server_saga sdb gdb clock getChannel)) (Some rmsg) v = (q', v')"
    and acked: "Acked rmsg \<in> set (sbroker v')" "Acked rmsg \<notin> set (sbroker v)"
    and waits: "waiting {AWAITING_EMAIL} g (sagas v)"
  shows "(rep_status reply = SENT \<and> settled_as COMPLETED g (sagas v) (sagas v') \<and> subs v' = subs v \<and>
      mail_is_out (marks w) (now w) k (confirmation_mail baseUrl e r t) (drop (length (mailbox w)) (mailbox w'))) \<or>
    (rep_status reply = FAILED \<and> settled_as COMPENSATED g (sagas v) (sagas v') \<and> subs v' \<subseteq> subs v \<and>
      (\<forall>s \<in> subs v. status s = ACTIVE \<longrightarrow> s \<in> subs v') \<and>
      Sent EMAIL_DEAD_QUEUE_NAME (msg_content msg) (spread_headers msg) \<in> set (drop (length (broker w)) (broker w')))"
proof -
  let ?m = "Confirmation k e r t g"
  from consumer_env.onMessage_end [OF notification_env.consumer [OF env] parsed handled [unfolded email_callback_def]]
  obtain ms evs where 1: "mailbox w' = mailbox w @ ms" "broker w' = broker w @ evs"
    "email_end msg ?m evs (mail_is_out (marks w) (now w) k (mail_of baseUrl ?m) ms) (closed w')" by auto
  from replies_are_true [OF 1(3)] reply 1(2) have id: "rep_sagaId reply = g"
    and honest: "rep_status reply = SENT \<and> mail_is_out (marks w) (now w) k (mail_of baseUrl ?m) ms \<or>
      rep_status reply = FAILED \<and> EMAIL_MAX_RETRIES \<le> retryCount msg \<and> failed_event msg \<in> set evs" by auto
  from parsed have "uuid_ok g"
    by (auto simp: parseMessage_def dest: emailMessageSchema_valid split: option.splits)
  then have "parseReply uuid_ok rmsg = Some reply"
    by (simp add: parseReply_def content confirmationReplySchema_accepts id)
  from acknowledged_reply_settles [OF server sch wf this told acked] waits id
  have settled: "settled_as (reply_state (rep_status reply)) g (sagas v) (sagas v')" "subs v' \<subseteq> subs v"
    "\<forall>s \<in> subs v. status s = ACTIVE \<longrightarrow> s \<in> subs v'" "rep_status reply = SENT \<longrightarrow> subs v' = subs v" by simp_all
  from honest show ?thesis
  proof (elim disjE conjE)
    assume "rep_status reply = SENT" and "mail_is_out (marks w) (now w) k (mail_of baseUrl ?m) ms"
    with settled 1(1) show ?thesis by (simp add: reply_state_def mail_of_def)
  next
    assume "rep_status reply = FAILED" and "EMAIL_MAX_RETRIES \<le> retryCount msg" "failed_event msg \<in> set evs"
    with settled 1(2) show ?thesis by (simp add: reply_state_def dead_letter_event)
  qed
qed

text \<open>A confirmation that is sent, and the server that waits for it.\<close>

definition confirmation_reply_message :: consume_message where
  "confirmation_reply_message = \<lparr>deliveryTag = 3, msg_content = Text (confirmation_reply_json sent_reply), msg_headers = None\<rparr>"

definition confirmation_for_x :: email_message where
  "confirmation_for_x = Confirmation ''confirmation:a@b:o/r:x'' ''a@b'' ''o/r'' ''x'' ''x''"

definition completed_server :: server_world where
  "completed_server = started_server AWAITING_EMAIL 7
     \<lparr>w_sagas := [saga_in COMPLETED None 7], w_broker := [Acked confirmation_reply_message]\<rparr>"

lemma confirmation_reply_example:
  "saga_onMessage (\<lambda>_. True) mem_channel (on_reply mem_saga) (Some confirmation_reply_message)
     (started_server AWAITING_EMAIL 7) = (Inr (), completed_server)"
  by code_simp

lemma confirmation_sent_run:
  "\<exists>w. note_callback (Some (note_message confirmation_for_x)) (note_at Map.empty 0) = (Inr (), w) \<and>
     reply_event sent_reply \<in> set (nw_broker w)"
proof -
  have "live Map.empty 0 k = None" for k by (simp add: live_def)
  then show ?thesis
    using note_message_parsed [of confirmation_for_x]
    by (simp add: note_instance_defs confirmation_for_x_def note_at_def reply_event_def sent_reply_def)
qed

theorem confirmation_reply_settles_saga_witness:
  "settled_as COMPLETED ''x'' (set (w_sagas (started_server AWAITING_EMAIL 7))) (set (w_sagas completed_server))"
proof -
  let ?w = "note_at Map.empty 0"
  obtain w where run: "note_callback (Some (note_message confirmation_for_x)) ?w = (Inr (), w)"
    and sent: "reply_event sent_reply \<in> set (nw_broker w)" using confirmation_sent_run by blast
  have start: "nw_broker ?w = []" by (simp add: note_at_def)
  have parsed: "parseMessage (\<lambda>_. True) (\<lambda>_. True) (note_message confirmation_for_x) =
      Some (Confirmation ''confirmation:a@b:o/r:x'' ''a@b'' ''o/r'' ''x'' ''x'')"
    using note_message_parsed [of confirmation_for_x] by (simp add: confirmation_for_x_def)
  have waits: "waiting {AWAITING_EMAIL} ''x'' (set (w_sagas (started_server AWAITING_EMAIL 7)))"
    by (simp add: waiting_def started_server_def saga_in_def)
  have acked: "Acked confirmation_reply_message \<in> set (w_broker completed_server)"
    "Acked confirmation_reply_message \<notin> set (w_broker (started_server AWAITING_EMAIL 7))"
    by (simp_all add: completed_server_def started_server_def empty_server_def)
  have new: "reply_event sent_reply \<in> set (drop (length (nw_broker ?w)) (nw_broker w))" using sent start by simp
  from confirmation_reply_settles_saga [OF note_env parsed run new mem_server mem_channel_laws started_server_wf(2) _
      confirmation_reply_example acked waits]
  show ?thesis by (simp add: confirmation_reply_message_def sent_reply_def)
qed

end
