(* ===== verification/Server_Api.thy ===== *)
theory Server_Api
  imports Subscription_Service
begin

text \<open>
  What clients of the server see: the REST routes with their validator, API key and error
  handler (\<open>modules/subscriptions/{dtos,controllers,routes}\<close>, \<open>modules/common/middlewares\<close>),
  the HTML routes, and the gRPC handlers (\<open>grpc/grpc-server.ts\<close>). A route is a function of
  the world that always answers: what a handler throws becomes a reply of \<open>errorHandler\<close>.
  The texts of answers are named by the function that builds them.
\<close>

section \<open>The subscribe body\<close>

datatype validation_text =
    Email_Required | Email_Format | Repo_Required | Repo_Empty | Repo_Format | Not_An_Object

definition owner_char :: "char \<Rightarrow> bool" where
  "owner_char c \<longleftrightarrow> (CHR ''a'' \<le> c \<and> c \<le> CHR ''z'') \<or> (CHR ''A'' \<le> c \<and> c \<le> CHR ''Z'') \<or>
     (CHR ''0'' \<le> c \<and> c \<le> CHR ''9'') \<or> c = CHR ''-''"

definition name_char :: "char \<Rightarrow> bool" where
  "name_char c \<longleftrightarrow> owner_char c \<or> c = CHR ''_'' \<or> c = CHR ''.''"

text \<open>The regular expression of the schema: an owner, a slash, a name. No class has a slash.\<close>

definition repo_format :: "string \<Rightarrow> bool" where
  "repo_format r =
     (let owner = takeWhile (\<lambda>c. c \<noteq> CHR ''/'') r; tail = dropWhile (\<lambda>c. c \<noteq> CHR ''/'') r
      in owner \<noteq> [] \<and> list_all owner_char owner \<and>
         tail \<noteq> [] \<and> tl tail \<noteq> [] \<and> list_all name_char (tl tail))"

lemma repo_format_iff:
  "repo_format r \<longleftrightarrow> (\<exists>owner name. r = owner @ CHR ''/'' # name \<and> owner \<noteq> [] \<and> name \<noteq> [] \<and>
     list_all owner_char owner \<and> list_all name_char name)"
proof
  assume r: "repo_format r"
  define ow tl' where parts: "ow = takeWhile (\<lambda>c. c \<noteq> CHR ''/'') r"
    "tl' = dropWhile (\<lambda>c. c \<noteq> CHR ''/'') r"
  from r [unfolded repo_format_def Let_def, folded parts]
  have p: "ow \<noteq> []" "list_all owner_char ow" "tl' \<noteq> []" "tl tl' \<noteq> []"
    "list_all name_char (tl tl')" by simp_all
  from hd_dropWhile [OF p(3) [unfolded parts(2)], folded parts(2)] have "hd tl' = CHR ''/''" by blast
  with hd_Cons_tl [OF p(3)] have "tl' = CHR ''/'' # tl tl'" by metis
  moreover have "r = ow @ tl'" unfolding parts by simp
  ultimately have eq: "r = ow @ CHR ''/'' # tl tl'" by (metis (no_types))
  show "\<exists>owner name. r = owner @ CHR ''/'' # name \<and> owner \<noteq> [] \<and> name \<noteq> [] \<and>
     list_all owner_char owner \<and> list_all name_char name"
    by (intro exI [of _ ow] exI [of _ "tl tl'"] conjI eq p)
next
  assume "\<exists>owner name. r = owner @ CHR ''/'' # name \<and> owner \<noteq> [] \<and> name \<noteq> [] \<and>
     list_all owner_char owner \<and> list_all name_char name"
  then obtain ow nm where r: "r = ow @ CHR ''/'' # nm" "ow \<noteq> []" "nm \<noteq> []"
    "list_all owner_char ow" "list_all name_char nm" by blast
  have "c \<noteq> CHR ''/''" if "c \<in> set ow" for c
    using r(4) that by (auto simp: list_all_iff owner_char_def less_eq_char_def)
  then have "takeWhile (\<lambda>c. c \<noteq> CHR ''/'') r = ow" "dropWhile (\<lambda>c. c \<noteq> CHR ''/'') r = CHR ''/'' # nm"
    using r(1) by (simp_all add: takeWhile_append2 dropWhile_append2)
  with r show "repo_format r" by (simp add: repo_format_def Let_def)
qed

text \<open>A validated repository has no colon, so it cannot blur an idempotency key.\<close>

lemma colon_excluded: "\<not> owner_char (CHR '':'')" "\<not> name_char (CHR '':'')"
  by code_simp+

lemma repo_format_no_colon: "repo_format r \<Longrightarrow> CHR '':'' \<notin> set r"
  using colon_excluded by (auto simp: repo_format_iff list_all_iff)

definition email_issue :: "(string \<Rightarrow> bool) \<Rightarrow> json option \<Rightarrow> validation_text option" where
  "email_issue email_ok v =
     (case v of
        Some (JStr s) \<Rightarrow> if email_ok s then None else Some Email_Format
      | _ \<Rightarrow> Some Email_Required)"

definition repo_issue :: "json option \<Rightarrow> validation_text option" where
  "repo_issue v =
     (case v of
        Some (JStr s) \<Rightarrow>
          if s = '''' then Some Repo_Empty else if repo_format s then None else Some Repo_Format
      | _ \<Rightarrow> Some Repo_Required)"

text \<open>\<open>SubscribeSchema.safeParse\<close>, of which the validator reports the first issue.\<close>

definition SubscribeSchema :: "(string \<Rightarrow> bool) \<Rightarrow> json \<Rightarrow> (string \<times> validation_text) + (string \<times> string)" where
  "SubscribeSchema email_ok body =
     (case body of
        JObj _ \<Rightarrow>
          (case email_issue email_ok (field body ''email'') of
             Some t \<Rightarrow> Inl (''email'', t)
           | None \<Rightarrow>
               (case repo_issue (field body ''repo'') of
                  Some t \<Rightarrow> Inl (''repo'', t)
                | None \<Rightarrow>
                    (case (field body ''email'', field body ''repo'') of
                       (Some (JStr e), Some (JStr r)) \<Rightarrow> Inr (e, r)
                     | _ \<Rightarrow> Inl (''body'', Not_An_Object))))
      | _ \<Rightarrow> Inl (''body'', Not_An_Object))"

lemma email_issue_None: "email_issue email_ok v = None \<longleftrightarrow> (\<exists>s. v = Some (JStr s) \<and> email_ok s)"
  by (simp add: email_issue_def split: option.split json.split)

lemma repo_issue_None: "repo_issue v = None \<longleftrightarrow> (\<exists>s. v = Some (JStr s) \<and> repo_format s)"
  by (auto simp: repo_issue_def repo_format_def Let_def split: option.split json.split)

lemma SubscribeSchema_valid:
  "SubscribeSchema email_ok (JObj kvs) = Inr (e, r) \<longleftrightarrow>
     field (JObj kvs) ''email'' = Some (JStr e) \<and> field (JObj kvs) ''repo'' = Some (JStr r) \<and>
     email_ok e \<and> repo_format r"
proof (cases "email_issue email_ok (field (JObj kvs) ''email'')")
  case (Some t)
  then show ?thesis
    using email_issue_None [of email_ok "field (JObj kvs) ''email''"] by (auto simp: SubscribeSchema_def)
next
  case None
  then obtain e' where e': "field (JObj kvs) ''email'' = Some (JStr e')" "email_ok e'"
    by (auto simp: email_issue_None)
  show ?thesis
  proof (cases "repo_issue (field (JObj kvs) ''repo'')")
    case (Some t)
    with None show ?thesis
      using repo_issue_None [of "field (JObj kvs) ''repo''"] by (auto simp: SubscribeSchema_def)
  next
    case repo: None
    then obtain r' where "field (JObj kvs) ''repo'' = Some (JStr r')" "repo_format r'"
      by (auto simp: repo_issue_None)
    with None repo e' show ?thesis by (auto simp: SubscribeSchema_def)
  qed
qed

section \<open>REST routes\<close>

datatype http_text = SUBSCRIBE_PENDING string | CONFIRM_SUCCESS string | UNSUBSCRIBE_SUCCESS string

datatype http_body =
    Success http_text
  | Subscriptions string "subscription_summary list"
  | Invalid_Body string validation_text
  | Failure error_reply

type_synonym http_reply = "nat \<times> http_body"

text \<open>\<open>setErrorHandler(errorHandler)\<close>: what a handler throws is answered by it.\<close>

definition respond :: "bool \<Rightarrow> ('w, http_reply) async \<Rightarrow> 'w \<Rightarrow> http_reply \<times> 'w" where
  "respond isDev m = (\<lambda>w. case m w of
       (Inl e, w') \<Rightarrow> ((reply_status (errorHandler isDev e), Failure (errorHandler isDev e)), w')
     | (Inr r, w') \<Rightarrow> (r, w'))"

definition c_subscribe :: "'w subscription_service \<Rightarrow> string \<Rightarrow> string \<Rightarrow> ('w, http_reply) async" where
  "c_subscribe svc email repo =
     await (subscribeToRepo svc email repo) (\<lambda>s. ret (201, Success (SUBSCRIBE_PENDING (repository s))))"

definition c_confirm :: "'w subscription_service \<Rightarrow> string \<Rightarrow> ('w, http_reply) async" where
  "c_confirm svc token =
     await (confirmSubscription svc token) (\<lambda>s. ret (200, Success (CONFIRM_SUCCESS (repository s))))"

definition c_unsubscribe :: "'w subscription_service \<Rightarrow> string \<Rightarrow> ('w, http_reply) async" where
  "c_unsubscribe svc token =
     await (unsubscribeFromRepo svc token) (\<lambda>s. ret (200, Success (UNSUBSCRIBE_SUCCESS (repository s))))"

definition c_getSubscriptions :: "'w subscription_service \<Rightarrow> string option \<Rightarrow> ('w, http_reply) async" where
  "c_getSubscriptions svc email =
     (case email of
        None \<Rightarrow> throw (App (ValidationError EMAIL_REQUIRED))
      | Some e \<Rightarrow>
          if e = '''' then throw (App (ValidationError EMAIL_REQUIRED))
          else await (getSubscriptionsByEmail svc e) (\<lambda>subs. ret (200, Subscriptions e subs)))"

text \<open>A header of a request: absent, given once, or repeated.\<close>

datatype header = Absent | Once string | Repeated "string list"

definition verifyApiKey :: "string \<Rightarrow> header \<Rightarrow> ('w, unit) async" where
  "verifyApiKey validKey apiKey =
     (if validKey = '''' then throw (App (AppError INTERNAL 500 (Some False)))
      else if apiKey \<noteq> Once validKey then throw (App (UnauthorizedError UNAUTHORIZED))
      else ret ())"

definition post_subscribe :: "(string \<Rightarrow> bool) \<Rightarrow> bool \<Rightarrow> 'w subscription_service \<Rightarrow> json \<Rightarrow>
    'w \<Rightarrow> http_reply \<times> 'w" where
  "post_subscribe email_ok isDev svc body =
     (case SubscribeSchema email_ok body of
        Inl (path, t) \<Rightarrow> (\<lambda>w. ((400, Invalid_Body path t), w))
      | Inr (email, repo) \<Rightarrow> respond isDev (c_subscribe svc email repo))"

definition get_subscriptions :: "bool \<Rightarrow> string \<Rightarrow> 'w subscription_service \<Rightarrow> header \<Rightarrow> string option \<Rightarrow>
    'w \<Rightarrow> http_reply \<times> 'w" where
  "get_subscriptions isDev validKey svc apiKey email =
     respond isDev (await (verifyApiKey validKey apiKey) (\<lambda>_. c_getSubscriptions svc email))"

definition get_confirm :: "bool \<Rightarrow> 'w subscription_service \<Rightarrow> string \<Rightarrow> 'w \<Rightarrow> http_reply \<times> 'w" where
  "get_confirm isDev svc token = respond isDev (c_confirm svc token)"

definition get_unsubscribe :: "bool \<Rightarrow> 'w subscription_service \<Rightarrow> string \<Rightarrow> 'w \<Rightarrow> http_reply \<times> 'w" where
  "get_unsubscribe isDev svc token = respond isDev (c_unsubscribe svc token)"

lemma respond_resolved: "m w = (Inr r, w') \<Longrightarrow> respond isDev m w = (r, w')"
  by (simp add: respond_def)

lemma respond_rejected: "m w = (Inl e, w') \<Longrightarrow>
    respond isDev m w = ((reply_status (errorHandler isDev e), Failure (errorHandler isDev e)), w')"
  by (simp add: respond_def)

section \<open>HTML pages\<close>

datatype html_page =
    Confirmed_Page string | Unsubscribed_Page string
  | Confirm_Invalid_Page | Unsubscribe_Invalid_Page

definition html_confirm :: "'w subscription_service \<Rightarrow> string \<Rightarrow> ('w, nat \<times> html_page) async" where
  "html_confirm svc token =
     try_catch (await (confirmSubscription svc token) (\<lambda>s. ret (200, Confirmed_Page (repository s))))
       (\<lambda>_. ret (404, Confirm_Invalid_Page))"

definition html_unsubscribe :: "'w subscription_service \<Rightarrow> string \<Rightarrow> ('w, nat \<times> html_page) async" where
  "html_unsubscribe svc token =
     try_catch (await (unsubscribeFromRepo svc token) (\<lambda>s. ret (200, Unsubscribed_Page (repository s))))
       (\<lambda>_. ret (404, Unsubscribe_Invalid_Page))"

section \<open>gRPC handlers\<close>

datatype grpc_status = INTERNAL_STATUS | NOT_FOUND | INVALID_ARGUMENT | ALREADY_EXISTS

datatype grpc_text = Code_Text ErrorCode | Zod_Text "zod_issue list" | Raw_Text string

text \<open>The message of an error of the program is its code; a foreign error keeps its own.\<close>

definition handleGrpcError :: "js_error \<Rightarrow> grpc_status \<times> grpc_text" where
  "handleGrpcError error =
     (case error of
        App e \<Rightarrow>
          (case err_class e of
             NotFound_Class \<Rightarrow> NOT_FOUND
           | Validation_Class \<Rightarrow> INVALID_ARGUMENT
           | Conflict_Class \<Rightarrow> ALREADY_EXISTS
           | _ \<Rightarrow> INTERNAL_STATUS, Code_Text (err_code e))
      | Zod issues \<Rightarrow> (INTERNAL_STATUS, Zod_Text issues)
      | Other message \<Rightarrow> (INTERNAL_STATUS, Raw_Text message))"

type_synonym wire = "(string \<times> json) list"

definition grpc_call :: "('w, wire) async \<Rightarrow> 'w \<Rightarrow> ((grpc_status \<times> grpc_text) + wire) \<times> 'w" where
  "grpc_call m = (\<lambda>w. case m w of
       (Inl e, w') \<Rightarrow> (Inl (handleGrpcError e), w')
     | (Inr r, w') \<Rightarrow> (Inr r, w'))"

definition grpc_Subscribe ::
  "'w subscription_service \<Rightarrow> string \<Rightarrow> string \<Rightarrow> 'w \<Rightarrow> ((grpc_status \<times> grpc_text) + wire) \<times> 'w" where
  "grpc_Subscribe svc email repo =
     grpc_call (await (subscribeToRepo svc email repo) (\<lambda>s.
       ret ([(''status'', JStr ''success''),
             (''message'', JStr ''Please check your email to confirm the subscription.'')]
            @ (if confirmToken s = [] then [] else [(''test_token'', JStr (confirmToken s))]))))"

definition grpc_Confirm ::
  "'w subscription_service \<Rightarrow> string \<Rightarrow> 'w \<Rightarrow> ((grpc_status \<times> grpc_text) + wire) \<times> 'w" where
  "grpc_Confirm svc token =
     grpc_call (await (confirmSubscription svc token) (\<lambda>s.
       ret [(''status'', JStr ''success''),
            (''message'', JStr (''Success! You are now subscribed to '' @ repository s))]))"

definition grpc_Unsubscribe ::
  "'w subscription_service \<Rightarrow> string \<Rightarrow> 'w \<Rightarrow> ((grpc_status \<times> grpc_text) + wire) \<times> 'w" where
  "grpc_Unsubscribe svc token =
     grpc_call (await (unsubscribeFromRepo svc token) (\<lambda>s.
       ret [(''status'', JStr ''success''),
            (''message'', JStr (''You have successfully unsubscribed from '' @ repository s))]))"

text \<open>\<open>Date.prototype.toISOString\<close> is the argument \<open>toISO\<close>.\<close>

definition subscription_item :: "(nat \<Rightarrow> string) \<Rightarrow> subscription_summary \<Rightarrow> wire" where
  "subscription_item toISO s =
     [(''repository'', JStr (sum_repository s)),
      (''status'', JStr (case sum_status s of PENDING \<Rightarrow> ''PENDING'' | ACTIVE \<Rightarrow> ''ACTIVE'')),
      (''createdAt'', JStr (toISO (sum_createdAt s)))]"

definition grpc_GetSubscriptions :: "(nat \<Rightarrow> string) \<Rightarrow> 'w subscription_service \<Rightarrow> string \<Rightarrow>
    'w \<Rightarrow> ((grpc_status \<times> grpc_text) + wire) \<times> 'w" where
  "grpc_GetSubscriptions toISO svc email =
     grpc_call (await (getSubscriptionsByEmail svc email) (\<lambda>subs.
       ret [(''status'', JStr ''success''), (''email'', JStr email),
            (''subscriptions'', JArr (map (\<lambda>s. JObj (subscription_item toISO s)) subs))]))"

text \<open>
  The proto loader (\<open>keepCase: true\<close>, \<open>defaults: true\<close>) sends the fields the proto file
  declares, read off the object by the declared name; an absent string is the empty one.
\<close>

definition subscription_item_fields :: "string list" where
  "subscription_item_fields = [''repository'', ''status'', ''created_at'']"

definition proto_strings :: "string list \<Rightarrow> wire \<Rightarrow> (string \<times> string) list" where
  "proto_strings declared obj =
     map (\<lambda>f. (f, case map_of obj f of Some (JStr s) \<Rightarrow> s | _ \<Rightarrow> '''')) declared"

section \<open>Properties\<close>

lemma external_status: "external e \<Longrightarrow> reply_status (errorHandler d e) = 500"
  by (cases e) (simp_all add: errorHandler_def)

lemma provider_status: "provider_error e \<Longrightarrow> reply_status (errorHandler d e) \<in> {429, 500, 502}"
  by (auto simp: provider_error_def external_status errorHandler_status)

text \<open>Nothing of the services has changed: the rows, the email queue and the rest.\<close>

definition unchanged_in :: "('w \<Rightarrow> subscription set) \<Rightarrow> ('w \<Rightarrow> saga_record set) \<Rightarrow> ('w \<Rightarrow> broker_event list) \<Rightarrow>
    ('w \<Rightarrow> 'x) \<Rightarrow> 'w \<Rightarrow> 'w \<Rightarrow> bool" where
  "unchanged_in subs sagas broker other w w' \<longleftrightarrow> subs w' = subs w \<and> sagas w' = sagas w \<and>
     emails_on_queue (broker w') = emails_on_queue (broker w) \<and> other w' = other w"

text \<open>C21. \<open>POST /api/subscribe\<close>. A body the schema refuses is answered 400 and reaches
  nothing. For a valid body the status tells what happened: 201 after the one confirmation message
  of a pending subscription and its new instance was queued; 409 for an active pair, 404 for an unknown
  repository, 429 or 502 when the provider is limited or down, and then no row, no message and nothing
  else has changed; 500 when a service failed, and then the request stopped there, leaving at most
  what a start had already done. (The Swagger document has 200 in the place of 201.)\<close>

theorem post_subscribe_statuses:
  assumes env: "server_service_env sdb subs gdb sagas clock getChannel broker other exists_repo"
    and wf: "subscriptions_wf (subs w)" "sagas_wf (sagas w)"
    and run: "post_subscribe email_ok isDev (server_service sdb gdb clock getChannel exists_repo) body w
      = ((st, b), w')"
  shows "case SubscribeSchema email_ok body of
      Inl (path, t) \<Rightarrow> st = 400 \<and> b = Invalid_Body path t \<and> w' = w
    | Inr (email, repo) \<Rightarrow>
        st = 201 \<and> b = Success (SUBSCRIBE_PENDING repo) \<and> other w' = other w \<and>
          (\<exists>s \<in> subs w'. sub_email s = email \<and> repository s = repo \<and> status s = PENDING \<and>
             (\<exists>g. saga_id g \<notin> saga_id ` sagas w \<and> sagas w' = insert g (sagas w) \<and> saga_state g = AWAITING_EMAIL \<and>
                pl_subscriptionId (payload g) = sub_id s \<and>
                emails_on_queue (broker w') = emails_on_queue (broker w)
                  @ [Confirmation (confirmationIdempotencyKey email repo (confirmToken s))
                       email repo (confirmToken s) (saga_id g)]))
        \<or> st = 409 \<and> active_for email repo (subs w) \<and> unchanged_in subs sagas broker other w w'
        \<or> st \<in> {404, 429, 502} \<and> \<not> active_for email repo (subs w) \<and> unchanged_in subs sagas broker other w w'
        \<or> st = 500 \<and> other w' = other w \<and>
          stopped_start email repo (subs w, sagas w, emails_on_queue (broker w))
            (subs w', sagas w', emails_on_queue (broker w'))"
proof (cases "SubscribeSchema email_ok body")
  case (Inl pt)
  with run show ?thesis by (cases pt) (auto simp: post_subscribe_def)
next
  case (Inr er)
  obtain email repo where er: "er = (email, repo)" by (cases er)
  let ?svc = "server_service sdb gdb clock getChannel exists_repo"
  note E = server_service_env.service_env [OF env]
  note S = server_env.saga_env [OF server_service_env.axioms(1) [OF env]]
  obtain q w1 where sub: "subscribeToRepo ?svc email repo w = (q, w1)" by fastforce
  from sub have sub': "subscribe_to (SubscriptionRepository sdb) exists_repo
      (server_saga sdb gdb clock getChannel) email repo w = (q, w1)"
    by (simp add: server_service_simps)
  from run Inr er have run': "respond isDev (c_subscribe ?svc email repo) w = ((st, b), w')"
    by (simp add: post_subscribe_def)
  have rej: "st = reply_status (errorHandler isDev e) \<and> w' = w1" if "q = Inl e" for e
    using run' sub that by (auto simp: respond_def c_subscribe_def await_def)
  have res: "st = 201 \<and> b = Success (SUBSCRIBE_PENDING (repository s)) \<and> w' = w1" if "q = Inr s" for s
    using run' sub that by (auto simp: respond_def c_subscribe_def await_def ret_def)
  have "st = 201 \<and> b = Success (SUBSCRIBE_PENDING repo) \<and> other w' = other w \<and>
          (\<exists>s \<in> subs w'. sub_email s = email \<and> repository s = repo \<and> status s = PENDING \<and>
             (\<exists>g. saga_id g \<notin> saga_id ` sagas w \<and> sagas w' = insert g (sagas w) \<and> saga_state g = AWAITING_EMAIL \<and>
                pl_subscriptionId (payload g) = sub_id s \<and>
                emails_on_queue (broker w') = emails_on_queue (broker w)
                  @ [Confirmation (confirmationIdempotencyKey email repo (confirmToken s))
                       email repo (confirmToken s) (saga_id g)]))
        \<or> st = 409 \<and> active_for email repo (subs w) \<and> unchanged_in subs sagas broker other w w'
        \<or> st \<in> {404, 429, 502} \<and> \<not> active_for email repo (subs w) \<and> unchanged_in subs sagas broker other w w'
        \<or> st = 500 \<and> other w' = other w \<and>
          stopped_start email repo (subs w, sagas w, emails_on_queue (broker w))
            (subs w', sagas w', emails_on_queue (broker w'))"
    using sub'
  proof (cases rule: service_env.subscribe_outcome
      [OF E, consumes 1, case_names failed conflict unavailable missing started])
    case (failed e)
    then show ?thesis using rej external_status by (simp add: stopped_start_def)
  next
    case conflict
    then show ?thesis using rej by (simp add: errorHandler_status unchanged_in_def)
  next
    case (unavailable e)
    then show ?thesis using rej [OF unavailable(1)] provider_status [of e isDev]
      by (auto simp: unchanged_in_def stopped_start_def)
  next
    case missing
    then show ?thesis using rej by (simp add: errorHandler_status unchanged_in_def)
  next
    case (started w0)
    have wf0: "subscriptions_wf (subs w0)" "sagas_wf (sagas w0)" using wf started(3) by simp_all
    show ?thesis
    proof (cases q)
      case (Inl e)
      with started(1) have "saga_start (SagaRepository gdb) (SubscriptionRepository sdb)
          (RabbitEmailQueue_publish getChannel) email repo w0 = (Inl e, w1)"
        by (simp add: server_saga_simps)
      note stop = saga_env.start_rejected [OF S wf0 this]
      with rej [OF Inl] external_status started(3) show ?thesis by simp
    next
      case (Inr s)
      with started(1) have "saga_start (SagaRepository gdb) (SubscriptionRepository sdb)
          (RabbitEmailQueue_publish getChannel) email repo w0 = (Inr s, w1)"
        by (simp add: server_saga_simps)
      from saga_env.start_resolved [OF S wf0 this] obtain g where
        "s \<in> subs w1" "status s = PENDING" "sub_email s = email" "repository s = repo" "other w1 = other w0"
        "saga_id g \<notin> saga_id ` sagas w0" "saga_state g = AWAITING_EMAIL" "sagas w1 = insert g (sagas w0)"
        "pl_subscriptionId (payload g) = sub_id s"
        "emails_on_queue (broker w1) = emails_on_queue (broker w0)
          @ [Confirmation (confirmationIdempotencyKey email repo (confirmToken s)) email repo (confirmToken s) (saga_id g)]"
        by auto
      with res [OF Inr] started(3) show ?thesis by metis
    qed
  qed
  with Inr er show ?thesis by simp
qed

definition subscribe_body :: json where
  "subscribe_body = JObj [(''email'', JStr ''a@b''), (''repo'', JStr ''o/r'')]"

lemma post_subscribe_example:
  "post_subscribe (\<lambda>_. True) False mem_service subscribe_body empty_server
     = ((201, Success (SUBSCRIBE_PENDING ''o/r'')), after_start)"
  by code_simp

theorem post_subscribe_statuses_witness:
  "\<exists>m. emails_on_queue (w_broker after_start) = emails_on_queue (w_broker empty_server) @ [m]"
proof -
  have "SubscribeSchema (\<lambda>_. True) subscribe_body = Inr (''a@b'', ''o/r'')" by code_simp
  with post_subscribe_statuses [OF mem_env.server_service_env_axioms started_server_wf(3,4)
      post_subscribe_example] show ?thesis by auto
qed

text \<open>C32. The list of an address is behind the API key: with any other header the answer is 401
  and the world is as it was; with the key it is the subscriptions of the address and no others, the
  pending ones included, or 500, and nothing is written. (The README says all subscriptions, the
  Swagger document says all active ones and an array of other fields.)\<close>

theorem get_subscriptions_needs_key:
  assumes env: "server_service_env sdb subs gdb sagas clock getChannel broker other exists_repo"
    and key: "validKey \<noteq> []" and email: "email \<noteq> []"
    and run: "get_subscriptions isDev validKey (server_service sdb gdb clock getChannel exists_repo)
      apiKey (Some email) w = ((st, b), w')"
  shows "if apiKey \<noteq> Once validKey then st = 401 \<and> w' = w
    else subs w' = subs w \<and> sagas w' = sagas w \<and>
      (st = 500 \<or> st = 200 \<and> (\<exists>xs. b = Subscriptions email xs \<and>
         set xs = (\<lambda>s. \<lparr>sum_repository = repository s, sum_status = status s,
           sum_createdAt = createdAt s\<rparr>) ` {s \<in> subs w. sub_email s = email}))"
proof (cases "apiKey = Once validKey")
  case False
  with run key show ?thesis
    by (auto simp: get_subscriptions_def verifyApiKey_def respond_def errorHandler_status)
next
  case True
  note st = server_env.subscriptions_prisma
      [OF server_service_env.axioms(1) [OF env], THEN subscription_prisma.store]
  obtain q w1 where find: "findByEmail (SubscriptionRepository sdb) email w = (q, w1)" by fastforce
  note law = subscription_store.findByEmail_law [OF st find]
  from run True key email have run': "respond isDev (await (findByEmail (SubscriptionRepository sdb) email)
      (\<lambda>subs. ret (200, Subscriptions email subs))) w = ((st, b), w')"
    by (simp add: get_subscriptions_def verifyApiKey_def c_getSubscriptions_def server_service_simps)
  show ?thesis
  proof (cases q)
    case (Inl e)
    with run' find have "st = reply_status (errorHandler isDev e)" "w' = w1"
      by (auto simp: respond_def await_def)
    with law Inl external_status True show ?thesis by simp
  next
    case (Inr xs)
    with run' find have "st = 200" "b = Subscriptions email xs" "w' = w1"
      by (auto simp: respond_def await_def ret_def)
    with law Inr True show ?thesis by simp
  qed
qed

definition listed_summary :: subscription_summary where
  "listed_summary = \<lparr>sum_repository = ''o/r'', sum_status = ACTIVE, sum_createdAt = 0\<rparr>"

lemma get_subscriptions_example:
  "get_subscriptions False ''secret-key'' mem_service (Once ''secret-key'') (Some ''a@b'') confirmed_server
     = ((200, Subscriptions ''a@b'' [listed_summary]), confirmed_server)"
  by code_simp

theorem get_subscriptions_needs_key_witness:
  "set [listed_summary] = (\<lambda>s. \<lparr>sum_repository = repository s, sum_status = status s,
     sum_createdAt = createdAt s\<rparr>) ` {s \<in> set (w_subs confirmed_server). sub_email s = ''a@b''}"
proof -
  have "''secret-key'' \<noteq> []" "''a@b'' \<noteq> []" by simp_all
  from get_subscriptions_needs_key [OF mem_env.server_service_env_axioms this
      get_subscriptions_example] show ?thesis by simp
qed

text \<open>C33. The gRPC method \<open>Subscribe\<close> hands the confirmation token to the caller: whoever calls
  it can confirm with the answer, and the address is subscribed without its owner reading a
  message (unless the database fails).\<close>

theorem grpc_subscribe_discloses_token:
  assumes env: "server_service_env sdb subs gdb sagas clock getChannel broker other exists_repo"
    and svc: "svc = server_service sdb gdb clock getChannel exists_repo"
    and wf: "subscriptions_wf (subs w)" "sagas_wf (sagas w)"
    and sub: "grpc_Subscribe svc email repo w = (Inr answer, w1)"
    and token: "map_of answer ''test_token'' = Some (JStr token)"
    and conf: "grpc_Confirm svc token w1 = (q, w2)"
  shows "case q of Inr r \<Rightarrow> active_for email repo (subs w2)
    | Inl (code, m) \<Rightarrow> code = INTERNAL_STATUS \<and> subs w2 = subs w1"
proof -
  note E = server_service_env.service_env [OF env]
  note S = server_env.saga_env [OF server_service_env.axioms(1) [OF env]]
  note ops = svc server_service_simps
  from sub obtain s where s: "subscribeToRepo svc email repo w = (Inr s, w1)"
    and ans: "answer = [(''status'', JStr ''success''),
       (''message'', JStr ''Please check your email to confirm the subscription.'')]
       @ (if confirmToken s = [] then [] else [(''test_token'', JStr (confirmToken s))])"
    by (auto simp: grpc_Subscribe_def grpc_call_def await_def ret_def split: prod.splits sum.splits)
  from token ans have tok: "token = confirmToken s" by (simp split: if_splits)
  from s have "subscribe_to (SubscriptionRepository sdb) exists_repo
      (server_saga sdb gdb clock getChannel) email repo w = (Inr s, w1)" by (simp add: ops)
  then obtain w0 where w0: "subs w0 = subs w" "sagas w0 = sagas w"
    and start: "saga_start (SagaRepository gdb) (SubscriptionRepository sdb)
      (RabbitEmailQueue_publish getChannel) email repo w0 = (Inr s, w1)"
    by (cases rule: service_env.subscribe_outcome [OF E, consumes 1]) (auto simp: server_saga_simps)
  have wf0: "subscriptions_wf (subs w0)" "sagas_wf (sagas w0)" using wf w0 by simp_all
  note wf1 = saga_env.start_wf [OF S wf0(1) start]
  from saga_env.start_resolved [OF S wf0 start]
  have row: "s \<in> subs w1" "status s = PENDING" "sub_email s = email" "repository s = repo"
    by simp_all
  obtain q' w' where c: "confirm_token (SubscriptionRepository sdb) (confirmToken s) w1 = (q', w')"
    by fastforce
  note out = service_env.confirm_pending [OF E wf1 row(1,2) c]
  show ?thesis
  proof (cases q')
    case (Inl e)
    with conf c tok have "q = Inl (handleGrpcError e)" "w2 = w'"
      by (auto simp: grpc_Confirm_def grpc_call_def await_def ops)
    with out Inl show ?thesis by (cases e) (simp_all add: handleGrpcError_def)
  next
    case (Inr s')
    with conf c tok have "\<exists>r. q = Inr r" "w2 = w'"
      by (auto simp: grpc_Confirm_def grpc_call_def await_def ret_def ops)
    with out Inr row show ?thesis by (auto simp: active_for_def)
  qed
qed

lemma grpc_examples:
  "grpc_Subscribe mem_service ''a@b'' ''o/r'' empty_server =
     (Inr [(''status'', JStr ''success''),
       (''message'', JStr ''Please check your email to confirm the subscription.''),
       (''test_token'', JStr ''x'')], after_start)"
  "grpc_Confirm mem_service ''x'' after_start =
     (Inr [(''status'', JStr ''success''), (''message'', JStr ''Success! You are now subscribed to o/r'')],
      after_start\<lparr>w_subs := [pending_sub\<lparr>status := ACTIVE\<rparr>]\<rparr>)"
  by code_simp+

theorem grpc_subscribe_discloses_token_witness:
  "active_for ''a@b'' ''o/r'' (set (w_subs (after_start\<lparr>w_subs := [pending_sub\<lparr>status := ACTIVE\<rparr>]\<rparr>)))"
proof -
  have "map_of [(''status'', JStr ''success''),
       (''message'', JStr ''Please check your email to confirm the subscription.''),
       (''test_token'', JStr ''x'')] ''test_token'' = Some (JStr ''x'')" by simp
  from grpc_subscribe_discloses_token [OF mem_env.server_service_env_axioms refl started_server_wf(3,4)
      grpc_examples(1) this grpc_examples(2)] show ?thesis by simp
qed

text \<open>The items of the gRPC answer to \<open>GetSubscriptions\<close> carry their time under a name the
  proto file does not declare, so the \<open>created_at\<close> that is sent is empty for every item, while
  repository and status are those of the rows.\<close>

lemma grpc_items_lose_created_at:
  assumes run: "grpc_GetSubscriptions toISO svc email w = (Inr answer, w')"
  shows "\<exists>xs w1. getSubscriptionsByEmail svc email w = (Inr xs, w1) \<and>
    map_of answer ''subscriptions'' = Some (JArr (map (\<lambda>s. JObj (subscription_item toISO s)) xs)) \<and>
    (\<forall>s \<in> set xs. proto_strings subscription_item_fields (subscription_item toISO s) =
       [(''repository'', sum_repository s),
        (''status'', case sum_status s of PENDING \<Rightarrow> ''PENDING'' | ACTIVE \<Rightarrow> ''ACTIVE''),
        (''created_at'', [])])"
proof -
  from run obtain xs where "getSubscriptionsByEmail svc email w = (Inr xs, w')"
    and "answer = [(''status'', JStr ''success''), (''email'', JStr email),
       (''subscriptions'', JArr (map (\<lambda>s. JObj (subscription_item toISO s)) xs))]"
    by (auto simp: grpc_GetSubscriptions_def grpc_call_def await_def ret_def split: prod.splits sum.splits)
  then show ?thesis
    by (auto simp: proto_strings_def subscription_item_fields_def subscription_item_def)
qed

lemma grpc_list_example:
  "grpc_GetSubscriptions (\<lambda>_. ''1970-01-01T00:00:00.000Z'') mem_service ''a@b'' confirmed_server =
     (Inr [(''status'', JStr ''success''), (''email'', JStr ''a@b''),
       (''subscriptions'', JArr [JObj [(''repository'', JStr ''o/r''), (''status'', JStr ''ACTIVE''),
          (''createdAt'', JStr ''1970-01-01T00:00:00.000Z'')]])], confirmed_server)"
  by code_simp

text \<open>What becomes of an error of a service (a database, a broker). Over REST, outside
  development mode, the answer is the same 500 whatever the error says; over gRPC its text is
  sent to the caller; a confirmation page calls any error an invalid link.\<close>

lemma service_errors_over_each_interface:
  assumes fail: "confirmSubscription svc token w = (Inl (Other m), w')"
  shows "get_confirm False svc token w =
      ((500, Failure \<lparr>reply_status = 500, reply_code = Some INTERNAL,
          reply_message = Literal ''Internal server error'', reply_details = []\<rparr>), w') \<and>
    grpc_Confirm svc token w = (Inl (INTERNAL_STATUS, Raw_Text m), w') \<and>
    html_confirm svc token w = (Inr (404, Confirm_Invalid_Page), w')"
  using fail
  by (simp add: get_confirm_def c_confirm_def respond_def grpc_Confirm_def grpc_call_def
      html_confirm_def await_def try_catch_def ret_def errorHandler_def handleGrpcError_def)

end
