(* ===== verification/Github.thy ===== *)
theory Github
  imports Server_Api Js_Strings Redis_Client
begin

text \<open>
  \<open>modules/github\<close>: the query for the latest releases of a batch of repositories, the client
  that sends it, the cache in front of it (\<open>modules/common/cache\<close>) and the adapters the
  subscription service and the scanner use. The GraphQL client is the argument \<open>rawRequest\<close>;
  \<open>http_status\<close> reads \<open>error.response?.status\<close> off its rejections. Redis is known through
  \<open>get\<close> and \<open>set\<close> with an expiry. Counters and timers are left out. To say what GitHub reads when it is
  sent a query, \<open>read_query\<close> splits a text into tokens by the lexical grammar of GraphQL.

  An object used as a dictionary is the list of its own properties, in insertion order;
  \<open>js_in\<close> is the operator \<open>in\<close>, which also finds what every object inherits.
\<close>

section \<open>Objects as dictionaries\<close>

type_synonym 'v js_object = "(string \<times> 'v) list"

fun js_set :: "string \<Rightarrow> 'v \<Rightarrow> 'v js_object \<Rightarrow> 'v js_object" where
  "js_set k v [] = [(k, v)]"
| "js_set k v ((k', v') # kvs) = (if k = k' then (k, v) # kvs else (k', v') # js_set k v kvs)"

lemma map_of_js_set [simp]: "map_of (js_set k v obj) k' = (if k' = k then Some v else map_of obj k')"
  by (induction obj) auto

lemma dom_js_set: "fst ` set (js_set k v obj) = insert k (fst ` set obj)"
proof (induction obj)
  case (Cons p obj)
  then show ?case by (cases p) (simp add: insert_commute)
qed simp

lemma distinct_js_set: "distinct (map fst obj) \<Longrightarrow> distinct (map fst (js_set k v obj))"
proof (induction obj)
  case (Cons p obj)
  then show ?case using dom_js_set [of k v obj] by (cases p) (auto simp: image_iff)
qed simp

definition inherited :: "string list" where
  "inherited = [''constructor'', ''__defineGetter__'', ''__defineSetter__'', ''hasOwnProperty'',
     ''__lookupGetter__'', ''__lookupSetter__'', ''isPrototypeOf'', ''propertyIsEnumerable'',
     ''toString'', ''valueOf'', ''__proto__'', ''toLocaleString'']"

definition js_in :: "string \<Rightarrow> 'v js_object \<Rightarrow> bool" where
  "js_in k obj \<longleftrightarrow> k \<in> fst ` set obj \<or> k \<in> set inherited"

lemma inherited_no_slash: "k \<in> set inherited \<Longrightarrow> CHR ''/'' \<notin> set k"
proof -
  have "list_all (\<lambda>k. CHR ''/'' \<notin> set k) inherited" by code_simp
  then show "k \<in> set inherited \<Longrightarrow> CHR ''/'' \<notin> set k" by (auto simp: list_all_iff)
qed

section \<open>The query\<close>

record github_node =
  nameWithOwner :: string
  latestRelease :: "string option"

type_synonym batch_result = "string option js_object"

definition newline :: string where
  "newline = [char_of (10 :: nat)]"

definition quote :: char where
  "quote = char_of (34 :: nat)"

text \<open>\<open>const [owner, name] = fullName.split('/')\<close>, rendered into the template; a missing name
  is \<open>undefined\<close>.\<close>

definition owner_and_name :: "string \<Rightarrow> string \<times> string" where
  "owner_and_name fullName =
     (case split_on (CHR ''/'') fullName of
        owner # name # _ \<Rightarrow> (owner, name)
      | [owner] \<Rightarrow> (owner, ''undefined'')
      | [] \<Rightarrow> (''undefined'', ''undefined''))"

definition spaces :: "nat \<Rightarrow> string" where
  "spaces n = replicate n (CHR '' '')"

definition alias_text :: "nat \<Rightarrow> string \<Rightarrow> string" where
  "alias_text index fullName =
     (case owner_and_name fullName of (owner, name) \<Rightarrow>
        newline @ spaces 8 @ ''repo'' @ dec index @ '': repository(owner: '' @ [quote] @ owner @ [quote] @
        '', name: '' @ [quote] @ name @ [quote] @ '') {'' @ newline @ spaces 10 @ ''...RepositoryFields'' @
        newline @ spaces 8 @ ''}'' @ newline @ spaces 6)"

definition REPOSITORY_FIELDS :: string where
  "REPOSITORY_FIELDS = newline @ spaces 2 @ ''fragment RepositoryFields on Repository {'' @ newline @
     spaces 4 @ ''nameWithOwner'' @ newline @ spaces 4 @ ''latestRelease {'' @ newline @
     spaces 6 @ ''tagName'' @ newline @ spaces 4 @ ''}'' @ newline @ spaces 2 @ ''}'' @ newline"

definition buildLatestReleasesQuery :: "string list \<Rightarrow> string" where
  "buildLatestReleasesQuery repos =
     newline @ spaces 4 @ ''query LatestReleases {'' @ newline @ spaces 6 @
     join newline (map (\<lambda>(index, fullName). alias_text index fullName) (enumerate 0 repos)) @ newline @
     spaces 4 @ ''}'' @ newline @ spaces 4 @ REPOSITORY_FIELDS @ newline @ spaces 2"

text \<open>A validated repository is split into its owner and its name.\<close>

lemma slash_excluded: "\<not> owner_char (CHR ''/'')" "\<not> name_char (CHR ''/'')"
  by code_simp+

lemma owner_and_name_valid:
  assumes "repo_format r" and "owner_and_name r = (ow, nm)"
  shows "r = ow @ CHR ''/'' # nm \<and> ow \<noteq> [] \<and> nm \<noteq> [] \<and> list_all owner_char ow \<and> list_all name_char nm"
proof -
  from assms(1) obtain ow' nm' where r: "r = ow' @ CHR ''/'' # nm'" "ow' \<noteq> []" "nm' \<noteq> []"
    "list_all owner_char ow'" "list_all name_char nm'" by (auto simp: repo_format_iff)
  with slash_excluded have "CHR ''/'' \<notin> set ow'" "CHR ''/'' \<notin> set nm'" by (auto simp: list_all_iff)
  then have "owner_and_name r = (ow', nm')"
    by (simp add: owner_and_name_def r split_on_first split_on_none)
  with assms(2) r show ?thesis by simp
qed

section \<open>The answer\<close>

definition add_node :: "github_node option \<Rightarrow> batch_result \<Rightarrow> batch_result" where
  "add_node repoNode acc =
     (case repoNode of
        None \<Rightarrow> acc
      | Some n \<Rightarrow> if nameWithOwner n = [] then acc else js_set (nameWithOwner n) (latestRelease n) acc)"

definition parseLatestReleases :: "github_node option js_object \<Rightarrow> batch_result" where
  "parseLatestReleases data = fold add_node (map snd data) []"

text \<open>The own properties of the result: the repositories that answered, each with the tag of the
  last node of that name.\<close>

lemma fold_add_node:
  "map_of (fold add_node nodes acc) r =
     (case find (\<lambda>n. case n of Some x \<Rightarrow> nameWithOwner x = r \<and> r \<noteq> [] | None \<Rightarrow> False) (rev nodes) of
        Some (Some x) \<Rightarrow> Some (latestRelease x)
      | _ \<Rightarrow> map_of acc r)"
proof (induction nodes rule: rev_induct)
  case (snoc n nodes)
  then show ?case by (cases n) (auto simp: add_node_def)
qed simp

lemma parseLatestReleases_distinct: "distinct (map fst (parseLatestReleases data))"
proof -
  have "distinct (map fst acc) \<Longrightarrow> distinct (map fst (fold add_node nodes acc))" for nodes acc
    by (induction nodes arbitrary: acc) (auto simp: add_node_def distinct_js_set split: option.split)
  from this [of "[]"] show ?thesis by (simp add: parseLatestReleases_def)
qed

section \<open>The client\<close>

record graphql_response =
  resp_data :: "github_node option js_object option"
  resp_errors :: "string option list option"

definition isRateLimited :: "(js_error \<Rightarrow> nat option) \<Rightarrow> js_error \<Rightarrow> bool" where
  "isRateLimited http_status error \<longleftrightarrow> http_status error = Some 403 \<or> http_status error = Some 429"

definition classify_response :: "graphql_response \<Rightarrow> ('w, batch_result) async" where
  "classify_response resp =
     (let githubErrors = (case resp_errors resp of None \<Rightarrow> [] | Some es \<Rightarrow> es);
          fatalErrors = filter (\<lambda>t. t \<noteq> Some ''NOT_FOUND'') githubErrors
      in if Some ''RATE_LIMITED'' \<in> set githubErrors then throw (App GithubRateLimitError)
         else if fatalErrors \<noteq> [] \<and> resp_data resp = None then throw (App (GithubError GITHUB_UNAVAILABLE))
         else ret (parseLatestReleases (case resp_data resp of None \<Rightarrow> [] | Some d \<Rightarrow> d)))"

definition GithubClient_batch :: "(string \<Rightarrow> ('w, graphql_response) async) \<Rightarrow> (js_error \<Rightarrow> nat option) \<Rightarrow>
    string list \<Rightarrow> ('w, batch_result) async" where
  "GithubClient_batch rawRequest http_status repos =
     (if repos = [] then ret []
      else
        try_catch
          (await (rawRequest (buildLatestReleasesQuery repos)) classify_response)
          (\<lambda>error.
             (case error of
                App e \<Rightarrow> throw error
              | _ \<Rightarrow> if isRateLimited http_status error then throw (App GithubRateLimitError)
                  else throw (App (GithubError GITHUB_UNAVAILABLE)))))"

text \<open>The client talks to GitHub only, and rejects with one of its two errors.\<close>

locale github_api =
  fixes rawRequest :: "string \<Rightarrow> ('w, graphql_response) async"
    and rest :: "'w \<Rightarrow> 'x"
  assumes request_law: "\<And>w q w'. rawRequest query w = (q, w') \<Longrightarrow> rest w' = rest w \<and>
      (case q of Inl e \<Rightarrow> external e | Inr r \<Rightarrow> True)"

definition client_error :: "js_error \<Rightarrow> bool" where
  "client_error e \<longleftrightarrow> e = App GithubRateLimitError \<or> e = App (GithubError GITHUB_UNAVAILABLE)"

lemma client_error_provider: "client_error e \<Longrightarrow> provider_error e"
  by (auto simp: client_error_def provider_error_def)

lemma classify_outcome:
  assumes "classify_response resp w = (q, w')"
  shows "w' = w \<and> (case q of
      Inl e \<Rightarrow> client_error e
    | Inr res \<Rightarrow> res = parseLatestReleases (case resp_data resp of None \<Rightarrow> [] | Some d \<Rightarrow> d))"
  using assms by (auto simp: classify_response_def Let_def client_error_def split: if_splits)

context github_api begin

lemma batch_outcome:
  assumes run: "GithubClient_batch rawRequest http_status repos w = (q, w')"
  shows "rest w' = rest w \<and> (case q of
      Inl e \<Rightarrow> client_error e
    | Inr res \<Rightarrow> (repos = [] \<and> res = []) \<or>
        (\<exists>resp w1. rawRequest (buildLatestReleasesQuery repos) w = (Inr resp, w1) \<and>
           res = parseLatestReleases (case resp_data resp of None \<Rightarrow> [] | Some d \<Rightarrow> d)))"
proof (cases "repos = []")
  case True
  with run show ?thesis by (simp add: GithubClient_batch_def)
next
  case False
  let ?h = "\<lambda>error. (case error of App e \<Rightarrow> throw error
      | _ \<Rightarrow> if isRateLimited http_status error then throw (App GithubRateLimitError)
          else throw (App (GithubError GITHUB_UNAVAILABLE)))"
  from False run have "try_catch (await (rawRequest (buildLatestReleasesQuery repos)) classify_response)
      ?h w = (q, w')" by (simp add: GithubClient_batch_def)
  then show ?thesis
  proof (cases rule: try_catch_outcome)
    case (rejected e w1)
    from rejected(1) show ?thesis
    proof (cases rule: await_outcome)
      case (rejected e')
      from request_law [OF rejected(1)] rejected(2) \<open>?h e w1 = (q, w')\<close> show ?thesis
        by (cases e') (auto simp: client_error_def split: if_splits)
    next
      case (resolved resp w2)
      from classify_outcome [OF resolved(2)] request_law [OF resolved(1)] \<open>?h e w1 = (q, w')\<close>
      show ?thesis by (auto simp: client_error_def split: if_splits)
    qed
  next
    case (resolved res)
    from resolved(1) show ?thesis
    proof (cases rule: await_outcome)
      case (resolved resp w2)
      from classify_outcome [OF resolved(2)] request_law [OF resolved(1)] \<open>q = Inr res\<close> resolved(1)
      show ?thesis by auto
    qed simp
  qed
qed

end

section \<open>The cache\<close>

text \<open>Values are cached as JSON text: \<open>encode\<close> and \<open>decode\<close> stand for \<open>JSON.stringify\<close> and
  \<open>JSON.parse\<close> on batch results. A text that cannot be parsed is a miss.\<close>

definition cache_get :: "'w redis_client \<Rightarrow> (string \<Rightarrow> 'v option) \<Rightarrow> string \<Rightarrow> ('w, 'v option) async" where
  "cache_get redis decode key =
     await (redis_get redis key) (\<lambda>raw.
       case raw of None \<Rightarrow> ret None | Some s \<Rightarrow> if s = [] then ret None else ret (decode s))"

definition cache_set :: "'w redis_client \<Rightarrow> ('v \<Rightarrow> string) \<Rightarrow> string \<Rightarrow> 'v \<Rightarrow> nat \<Rightarrow> ('w, unit) async" where
  "cache_set redis encode key value ttlSeconds = redis_set redis key (encode value) ttlSeconds"

definition buildCacheKey :: "string list \<Rightarrow> string" where
  "buildCacheKey repos = ''cache:github:releases:'' @ repos_key repos"

definition CachedGithubClient_batch :: "(string list \<Rightarrow> ('w, batch_result) async) \<Rightarrow> 'w redis_client \<Rightarrow>
    (string \<Rightarrow> batch_result option) \<Rightarrow> (batch_result \<Rightarrow> string) \<Rightarrow> nat \<Rightarrow>
    string list \<Rightarrow> ('w, batch_result) async" where
  "CachedGithubClient_batch client redis decode encode ttlSeconds repos =
     await (cache_get redis decode (buildCacheKey repos)) (\<lambda>cached.
       case cached of
         Some hit \<Rightarrow> ret hit
       | None \<Rightarrow>
           await (client repos) (\<lambda>result.
           await (cache_set redis encode (buildCacheKey repos) result ttlSeconds) (\<lambda>_.
           ret result)))"

definition REDIS_CACHE_TTL_SECONDS :: nat where
  "REDIS_CACHE_TTL_SECONDS = 600"

section \<open>The adapters\<close>

definition GitHubRepoProvider_exists ::
  "(string list \<Rightarrow> ('w, batch_result) async) \<Rightarrow> string \<Rightarrow> ('w, bool) async" where
  "GitHubRepoProvider_exists batch repoFullName =
     await (batch [repoFullName]) (\<lambda>result. ret (js_in repoFullName result))"

definition GithubRelease_batch ::
  "(string list \<Rightarrow> ('w, batch_result) async) \<Rightarrow> string list \<Rightarrow> ('w, (string \<times> string) list) async" where
  "GithubRelease_batch batch repos =
     await (batch repos) (\<lambda>result.
       ret (List.map_filter (\<lambda>(k, v). map_option (Pair k) v) result))"

section \<open>The contracts they meet\<close>

text \<open>The cached client in front of GitHub, as the server composes it.\<close>

locale cached_github =
  api: github_api rawRequest "\<lambda>w. (keys w, now w, rest w)" +
  cache: redis_server redis keys now rest
  for rawRequest :: "string \<Rightarrow> ('w, graphql_response) async"
    and redis :: "'w redis_client" and keys now
    and rest :: "'w \<Rightarrow> 'x"
begin

abbreviation "cached_batch http_status decode encode ttl \<equiv>
  CachedGithubClient_batch (GithubClient_batch rawRequest http_status) redis decode encode ttl"

lemma cache_get_outcome:
  assumes "cache_get redis decode key w = (q, w')"
  shows "keys w' = keys w \<and> now w \<le> now w' \<and> rest w' = rest w \<and>
    (case q of Inl e \<Rightarrow> external e
     | Inr hit \<Rightarrow> hit = (case live (keys w) (now w') key of None \<Rightarrow> None | Some s \<Rightarrow> if s = [] then None else decode s))"
  using assms unfolding cache_get_def
proof (cases rule: await_outcome)
  case (rejected e)
  from cache.get_outcome [OF rejected(1)] rejected(2) show ?thesis by simp
next
  case (resolved raw w1)
  from cache.get_outcome [OF resolved(1)] resolved(2) show ?thesis
    by (auto split: option.splits if_splits)
qed

lemma cached_batch_outcome:
  assumes run: "cached_batch http_status decode encode ttl repos w = (q, w')"
  shows "now w \<le> now w' \<and> rest w' = rest w \<and>
    (case q of Inl e \<Rightarrow> external e \<or> client_error e | Inr res \<Rightarrow> True)"
  using run unfolding CachedGithubClient_batch_def
proof (cases rule: await_outcome)
  case (rejected e)
  from cache_get_outcome [OF rejected(1)] rejected(2) show ?thesis by simp
next
  case (resolved hit w1)
  note got = cache_get_outcome [OF resolved(1)]
  show ?thesis
  proof (cases hit)
    case (Some res)
    with resolved(2) got show ?thesis by simp
  next
    case None
    with resolved(2) have "await (GithubClient_batch rawRequest http_status repos)
        (\<lambda>result. await (cache_set redis encode (buildCacheKey repos) result ttl) (\<lambda>_. ret result)) w1 = (q, w')"
      by simp
    then show ?thesis
    proof (cases rule: await_outcome)
      case (rejected e)
      from api.batch_outcome [OF rejected(1)] rejected(2) got show ?thesis by simp
    next
      case (resolved res w2)
      note batch = api.batch_outcome [OF resolved(1)]
      from resolved(2) show ?thesis
      proof (cases rule: await_outcome)
        case (rejected e)
        from cache.set_law [OF rejected(1) [unfolded cache_set_def]] rejected(2) got batch show ?thesis
          by (simp add: commanded_def)
      next
        case (resolved u w3)
        from cache.set_law [OF resolved(1) [unfolded cache_set_def]] resolved(2) got batch show ?thesis
          by (simp add: commanded_def)
      qed
    qed
  qed
qed

text \<open>A miss that is answered leaves the answer under the key of the batch; a key that is alive
  when the batch is asked for answers it.\<close>

lemma cached_batch_miss:
  assumes run: "cached_batch http_status decode encode ttl repos w = (Inr res, w')"
    and miss: "live (keys w) (now w) (buildCacheKey repos) = None"
  shows "keys w' = kv_set (buildCacheKey repos) (encode res) ttl (now w') (keys w)"
proof -
  from run [unfolded CachedGithubClient_batch_def] obtain hit w1
    where get: "cache_get redis decode (buildCacheKey repos) w = (Inr hit, w1)" and
      k: "(case hit of Some hit \<Rightarrow> ret hit | None \<Rightarrow> await (GithubClient_batch rawRequest http_status repos)
        (\<lambda>result. await (cache_set redis encode (buildCacheKey repos) result ttl) (\<lambda>_. ret result))) w1 = (Inr res, w')"
    by (rule await_outcome) auto
  from cache_get_outcome [OF get] miss dead_later [of "keys w" "now w" "buildCacheKey repos" "now w1"]
  have "hit = None" and w1: "keys w1 = keys w" by simp_all
  with k obtain w2 where batch: "GithubClient_batch rawRequest http_status repos w1 = (Inr res, w2)"
    and set: "cache_set redis encode (buildCacheKey repos) res ttl w2 = (Inr (), w')"
    by (auto elim!: await_outcome)
  from api.batch_outcome [OF batch] cache.set_law [OF set [unfolded cache_set_def]] w1
  show ?thesis by (simp add: commanded_def)
qed

lemma cached_batch_started:
  assumes run: "cached_batch http_status decode encode ttl repos w = (q, w')"
    and get: "cache_get redis decode (buildCacheKey repos) w = (p, w1)"
  shows "now w1 \<le> now w'"
proof -
  from run [unfolded CachedGithubClient_batch_def] get show ?thesis
  proof (cases p)
    case (Inr hit)
    show ?thesis
    proof (cases hit)
      case None
      with run [unfolded CachedGithubClient_batch_def await_resolved [where m = "cache_get redis decode (buildCacheKey repos)", OF get [unfolded Inr]]]
      have "await (GithubClient_batch rawRequest http_status repos)
          (\<lambda>result. await (cache_set redis encode (buildCacheKey repos) result ttl) (\<lambda>_. ret result)) w1 = (q, w')"
        by simp
      then show ?thesis
      proof (cases rule: await_outcome)
        case (rejected e)
        from api.batch_outcome [OF rejected(1)] show ?thesis by simp
      next
        case (resolved res w2)
        note batch = api.batch_outcome [OF resolved(1)]
        from resolved(2) show ?thesis
          by (cases rule: await_outcome)
            (use batch cache.set_law [unfolded commanded_def] in \<open>fastforce simp: cache_set_def\<close>)+
      qed
    qed (use run get Inr in \<open>simp add: CachedGithubClient_batch_def await_resolved\<close>)
  qed (simp add: await_rejected)
qed

text \<open>A key that is alive answers the batch with one \<open>GET\<close>, whatever the client behind the cache
  is: the client is not called.\<close>

lemma cached_batch_hit:
  assumes run: "cached_batch http_status decode encode ttl repos w = (q, w')"
    and stored: "live (keys w) (now w') (buildCacheKey repos) = Some s" "s \<noteq> []" "decode s = Some res"
  shows "CachedGithubClient_batch client redis decode encode ttl repos w = (q, w') \<and>
    redis_get redis (buildCacheKey repos) w = (map_sum id (\<lambda>_. Some s) q, w') \<and>
    (case q of Inl e \<Rightarrow> external e | Inr res' \<Rightarrow> res' = res)"
proof -
  obtain p w1 where raw: "redis_get redis (buildCacheKey repos) w = (p, w1)" by fastforce
  note got = cache.get_outcome [OF raw]
  show ?thesis
  proof (cases p)
    case (Inl e)
    with raw run got show ?thesis
      by (auto simp: CachedGithubClient_batch_def cache_get_def await_rejected await_assoc)
  next
    case (Inr a)
    obtain hit where get: "cache_get redis decode (buildCacheKey repos) w = (Inr hit, w1)"
      using raw Inr by (cases "case a of None \<Rightarrow> None | Some s \<Rightarrow> if s = [] then None else decode s")
        (auto simp: cache_get_def await_resolved split: option.splits if_splits)
    from live_later [OF stored(1) cached_batch_started [OF run get]] got Inr have a: "a = Some s" by simp
    with raw Inr run stored(2,3) show ?thesis
      by (auto simp: CachedGithubClient_batch_def cache_get_def await_resolved await_assoc)
  qed
qed

text \<open>The adapter is a repository provider for the subscription service.\<close>

lemma provider:
  "repo_provider (GitHubRepoProvider_exists (cached_batch http_status decode encode ttl)) rest"
proof
  fix repo w q w'
  assume "GitHubRepoProvider_exists (cached_batch http_status decode encode ttl) repo w = (q, w')"
  then show "rest w' = rest w \<and> (case q of Inl e \<Rightarrow> provider_error e | Inr b \<Rightarrow> True)"
    unfolding GitHubRepoProvider_exists_def
  proof (cases rule: await_outcome)
    case (rejected e)
    from cached_batch_outcome [OF rejected(1)] rejected(2) show ?thesis
      by (auto simp: client_error_def provider_error_def)
  next
    case (resolved res w1)
    from cached_batch_outcome [OF resolved(1)] resolved(2) show ?thesis by simp
  qed
qed

end

section \<open>An instance for evaluation\<close>

text \<open>A GitHub that knows a set of repositories by their exact names, each with its latest tag.\<close>

definition mem_github :: "(string \<times> string) list \<Rightarrow> string list \<Rightarrow> string \<Rightarrow> ('w, graphql_response) async" where
  "mem_github known asked query =
     ret \<lparr>resp_data = Some (map (\<lambda>r. (r, map_option (\<lambda>t. \<lparr>nameWithOwner = r, latestRelease = Some t\<rparr>) (map_of known r))) asked),
          resp_errors = (if list_all (\<lambda>r. map_of known r \<noteq> None) asked then None else Some [Some ''NOT_FOUND''])\<rparr>"

lemma mem_github_api: "github_api (mem_github known asked) rest"
  by unfold_locales (simp add: mem_github_def)

interpretation mem_cached: cached_github "mem_github [(''o/r'', ''v1'')] [''o/r'']" mem_redis rw_keys rw_now rw_down
  by (intro cached_github.intro mem_github_api, unfold mem_redis_def) (rule stored_redis_server; simp)

interpretation mem_provider: repo_provider
  "GitHubRepoProvider_exists (CachedGithubClient_batch
     (GithubClient_batch (mem_github [(''o/r'', ''v1'')] [''o/r'']) (\<lambda>_. None)) mem_redis (\<lambda>_. None) (\<lambda>_. ''json'')
     REDIS_CACHE_TTL_SECONDS)" rw_down
  by (rule mem_cached.provider)

section \<open>Properties\<close>

definition nodes_of :: "graphql_response \<Rightarrow> github_node list" where
  "nodes_of resp = List.map_filter snd (case resp_data resp of None \<Rightarrow> [] | Some d \<Rightarrow> d)"

lemma set_map_filter: "set (List.map_filter f xs) = {y. Some y \<in> f ` set xs}"
  by (induction xs) (auto simp: map_filter_simps split: option.splits)

lemma parse_names:
  "fst ` set (parseLatestReleases data) = nameWithOwner ` set (List.map_filter snd data) - {[]}"
proof -
  have add: "fst ` set (add_node node acc) = fst ` set acc \<union>
      (case node of None \<Rightarrow> {} | Some n \<Rightarrow> {nameWithOwner n} - {[]})" for node acc
    by (auto simp: add_node_def dom_js_set split: option.split)
  have "fst ` set (fold add_node nodes acc) = fst ` set acc \<union> (nameWithOwner ` {n. Some n \<in> set nodes} - {[]})"
    for nodes acc
  proof (induction nodes arbitrary: acc)
    case (Cons node nodes)
    have "{n. Some n \<in> set (node # nodes)} = {n. Some n \<in> set nodes} \<union> set_option node"
      by (cases node) auto
    with Cons add show ?case by (cases node) (simp_all add: Un_Diff insert_Diff_if)
  qed simp
  then show ?thesis by (simp add: parseLatestReleases_def set_map_filter)
qed

text \<open>The GitHub client rejects with one of its two errors only, which the interfaces answer with
  429 and 502. An answer is used when it carries no \<open>RATE_LIMITED\<close> error and has data, or its
  errors all say \<open>NOT_FOUND\<close>; it holds exactly the repositories GitHub named, under GitHub's
  spelling. An empty batch asks nothing.\<close>

lemma github_client_answers:
  assumes env: "github_api rawRequest rest"
    and run: "GithubClient_batch rawRequest http_status repos w = (q, w')"
  shows "rest w' = rest w \<and>
    (case q of
       Inl e \<Rightarrow> repos \<noteq> [] \<and> reply_status (errorHandler d e) \<in> {429, 502} \<and>
         (reply_status (errorHandler d e) = 429 \<longleftrightarrow> e = App GithubRateLimitError)
     | Inr res \<Rightarrow> (if repos = [] then res = [] \<and> w' = w
         else \<exists>resp. rawRequest (buildLatestReleasesQuery repos) w = (Inr resp, w') \<and>
           Some ''RATE_LIMITED'' \<notin> set (case resp_errors resp of None \<Rightarrow> [] | Some es \<Rightarrow> es) \<and>
           (resp_data resp = None \<longrightarrow> set (case resp_errors resp of None \<Rightarrow> [] | Some es \<Rightarrow> es) \<subseteq> {Some ''NOT_FOUND''}) \<and>
           fst ` set res = nameWithOwner ` set (nodes_of resp) - {[]} \<and> distinct (map fst res)))"
proof (cases q)
  case (Inl e)
  from github_api.batch_outcome [OF env run] Inl have "rest w' = rest w" "client_error e" by simp_all
  moreover from run Inl have "repos \<noteq> []" by (auto simp: GithubClient_batch_def)
  ultimately show ?thesis using Inl
    by (auto simp: client_error_def errorHandler_def app_error_defs)
next
  case (Inr res)
  show ?thesis
  proof (cases "repos = []")
    case True
    with run Inr show ?thesis by (simp add: GithubClient_batch_def)
  next
    case False
    from run Inr False have "try_catch (await (rawRequest (buildLatestReleasesQuery repos)) classify_response)
      (\<lambda>error. (case error of App e \<Rightarrow> throw error
         | _ \<Rightarrow> if isRateLimited http_status error then throw (App GithubRateLimitError)
             else throw (App (GithubError GITHUB_UNAVAILABLE)))) w = (Inr res, w')"
      by (simp add: GithubClient_batch_def)
    then have "await (rawRequest (buildLatestReleasesQuery repos)) classify_response w = (Inr res, w')"
      by (cases rule: try_catch_outcome) (auto split: js_error.splits if_splits)
    then obtain resp where resp: "rawRequest (buildLatestReleasesQuery repos) w = (Inr resp, w')"
      "classify_response resp w' = (Inr res, w')"
      by (cases rule: await_outcome) (auto dest: classify_outcome)
    from resp(2) have "res = parseLatestReleases (case resp_data resp of None \<Rightarrow> [] | Some d \<Rightarrow> d)"
      "Some ''RATE_LIMITED'' \<notin> set (case resp_errors resp of None \<Rightarrow> [] | Some es \<Rightarrow> es)"
      "resp_data resp = None \<longrightarrow> set (case resp_errors resp of None \<Rightarrow> [] | Some es \<Rightarrow> es) \<subseteq> {Some ''NOT_FOUND''}"
      by (auto simp: classify_response_def Let_def filter_empty_conv split: if_splits)
    moreover from this(1) have "fst ` set res = nameWithOwner ` set (nodes_of resp) - {[]}" "distinct (map fst res)"
      by (auto simp: parse_names nodes_of_def parseLatestReleases_distinct)
    ultimately show ?thesis
      using github_api.request_law [OF env resp(1)] resp(1) Inr False by simp
  qed
qed

text \<open>Whether a repository exists is asked by its exact spelling: the answer is yes iff GitHub
  returned a repository of that very name, or the name is one every JavaScript object inherits.
  GitHub's own lookup ignores the case of names and follows renames, so a subscription to another
  spelling of an existing repository is refused, while \<open>constructor\<close> always exists; the schema of
  the REST interface excludes the latter, the gRPC interface does not check the name.\<close>

lemma repository_exists_by_spelling:
  assumes env: "github_api rawRequest rest"
    and run: "GitHubRepoProvider_exists (GithubClient_batch rawRequest http_status) repo w = (Inr b, w')"
  shows "\<exists>resp. rawRequest (buildLatestReleasesQuery [repo]) w = (Inr resp, w') \<and>
    (b \<longleftrightarrow> repo \<in> nameWithOwner ` set (nodes_of resp) - {[]} \<or> repo \<in> set inherited) \<and>
    (repo_format repo \<longrightarrow> (b \<longleftrightarrow> repo \<in> nameWithOwner ` set (nodes_of resp)))"
proof -
  from run obtain res where res: "GithubClient_batch rawRequest http_status [repo] w = (Inr res, w')"
    "b = js_in repo res"
    unfolding GitHubRepoProvider_exists_def by (elim await_outcome) auto
  from github_client_answers [OF env res(1)] obtain resp
    where resp: "rawRequest (buildLatestReleasesQuery [repo]) w = (Inr resp, w')"
      "fst ` set res = nameWithOwner ` set (nodes_of resp) - {[]}" by auto
  have "repo \<noteq> [] \<and> repo \<notin> set inherited" if "repo_format repo"
    using that inherited_no_slash [of repo] by (auto simp: repo_format_iff)
  with res(2) resp show ?thesis by (auto simp: js_in_def)
qed

text \<open>C36. The cache answers a batch with what GitHub answered for it, whatever the order of the
  repositories, as long as the entry lives. The second call is one \<open>GET\<close> of the entry and nothing
  else: it ends in the world the \<open>GET\<close> leaves, and it is the same call with any other client behind
  the cache, so GitHub is not asked again. It rejects only when that \<open>GET\<close> does. The texts
  \<open>JSON.stringify\<close> writes are assumed to be read back by \<open>JSON.parse\<close>.\<close>

theorem cache_answers_same_batch:
  assumes env: "cached_github rawRequest redis keys now rest"
    and json: "decode (encode res) = Some res" "encode res \<noteq> []"
    and first: "CachedGithubClient_batch (GithubClient_batch rawRequest http_status) redis decode encode ttl xs w
      = (Inr res, w1)"
    and miss: "live (keys w) (now w) (buildCacheKey xs) = None"
    and same: "mset ys = mset xs"
    and again: "CachedGithubClient_batch (GithubClient_batch rawRequest http_status) redis decode encode ttl ys w1
      = (q, w2)"
    and soon: "now w2 < now w1 + ttl"
  shows "(\<forall>client. CachedGithubClient_batch client redis decode encode ttl ys w1 = (q, w2)) \<and>
    redis_get redis (buildCacheKey xs) w1 = (map_sum id (\<lambda>_. Some (encode res)) q, w2) \<and>
    (case q of Inl e \<Rightarrow> external e | Inr res' \<Rightarrow> res' = res) \<and> keys w2 = keys w1 \<and> rest w2 = rest w1"
proof -
  have "sort ys = sort xs" using same by (metis mset_sort properties_for_sort sorted_sort)
  then have key: "buildCacheKey xs = buildCacheKey ys" by (simp add: buildCacheKey_def repos_key_def)
  from cached_github.cached_batch_miss [OF env first miss] soon
  have "live (keys w1) (now w2) (buildCacheKey ys) = Some (encode res)" by (simp add: key)
  note hit = cached_github.cached_batch_hit [OF env again this json(2,1)]
  then have get: "redis_get redis (buildCacheKey ys) w1 = (map_sum id (\<lambda>_. Some (encode res)) q, w2)" by blast
  from env have "redis_server redis keys now rest" by (simp add: cached_github_def)
  from redis_server.get_outcome [OF this get] hit get show ?thesis by (simp add: key)
qed

definition cached_world :: redis_world where
  "cached_world = \<lparr>rw_keys = [buildCacheKey [''o/r''] \<mapsto> (''json'', 600)], rw_now = 0, rw_uuids = 0, rw_down = False\<rparr>"

definition empty_cache :: redis_world where
  "empty_cache = cached_world\<lparr>rw_keys := Map.empty\<rparr>"

abbreviation mem_cached_batch :: "string list \<Rightarrow> (redis_world, batch_result) async" where
  "mem_cached_batch \<equiv> CachedGithubClient_batch
     (GithubClient_batch (mem_github [(''o/r'', ''v1'')] [''o/r'']) (\<lambda>_. None)) mem_redis
     (\<lambda>_. Some [(''o/r'', Some ''v1'')]) (\<lambda>_. ''json'') REDIS_CACHE_TTL_SECONDS"

lemma cache_example:
  "mem_cached_batch [''o/r''] empty_cache = (Inr [(''o/r'', Some ''v1'')], cached_world)"
  "mem_cached_batch [''o/r''] cached_world = (Inr [(''o/r'', Some ''v1'')], cached_world)"
  by (simp_all add: CachedGithubClient_batch_def cache_get_def cache_set_def redis_instance_defs io_defs
      empty_cache_def cached_world_def live_def kv_set_def GithubClient_batch_def mem_github_def
      classify_response_def Let_def parseLatestReleases_def add_node_def REDIS_CACHE_TTL_SECONDS_def)

theorem cache_answers_same_batch_witness:
  "fst (mem_cached_batch [''o/r''] cached_world) = Inr [(''o/r'', Some ''v1'')] \<and>
   rw_keys (snd (mem_cached_batch [''o/r''] cached_world)) = rw_keys cached_world \<and>
   CachedGithubClient_batch (\<lambda>_. throw (Other ''ECONNREFUSED'')) mem_redis (\<lambda>_. Some [(''o/r'', Some ''v1'')])
     (\<lambda>_. ''json'') REDIS_CACHE_TTL_SECONDS [''o/r''] cached_world = (Inr [(''o/r'', Some ''v1'')], cached_world)"
proof -
  have miss: "live (rw_keys empty_cache) (rw_now empty_cache) (buildCacheKey [''o/r'']) = None"
    by (simp add: empty_cache_def live_def)
  have soon: "rw_now cached_world < rw_now cached_world + REDIS_CACHE_TTL_SECONDS"
    by (simp add: REDIS_CACHE_TTL_SECONDS_def)
  note hit = cache_answers_same_batch
    [OF mem_cached.cached_github_axioms _ _ cache_example(1) miss refl cache_example(2) soon]
  then show ?thesis by (simp add: cache_example)
qed

section \<open>How GitHub reads a query\<close>

text \<open>The lexical grammar of GraphQL, one character at a time: names are runs of letters, digits and
  underscores, white space and commas separate tokens, a comment ends with its line, and a string
  ends at the next quote that no backslash escapes. A line break in a string is an error. The value of
  a string is kept as it is written, escapes included. Block strings, which open with three quotes, are
  not read.\<close>

datatype token = Name string | Sign char | Literal string

datatype reading = Between | Within | Escaping | Emptied | Comment | Broken

type_synonym lexer = "reading \<times> string \<times> token list"

definition ends_line :: "char \<Rightarrow> bool" where
  "ends_line c \<longleftrightarrow> c = char_of (10 :: nat) \<or> c = char_of (13 :: nat)"

definition part_of_name :: "char \<Rightarrow> bool" where
  "part_of_name c \<longleftrightarrow> (CHR ''a'' \<le> c \<and> c \<le> CHR ''z'') \<or> (CHR ''A'' \<le> c \<and> c \<le> CHR ''Z'') \<or>
     (CHR ''0'' \<le> c \<and> c \<le> CHR ''9'') \<or> c = CHR ''_''"

definition skipped :: "char \<Rightarrow> bool" where
  "skipped c \<longleftrightarrow> c = CHR '' '' \<or> c = CHR '','' \<or> c = char_of (9 :: nat) \<or> ends_line c"

definition end_name :: "string \<Rightarrow> token list \<Rightarrow> token list" where
  "end_name cur ts = (if cur = [] then ts else ts @ [Name cur])"

definition read_between :: "string \<Rightarrow> token list \<Rightarrow> char \<Rightarrow> lexer" where
  "read_between cur ts c =
     (if part_of_name c then (Between, cur @ [c], ts)
      else if c = quote then (Within, [], end_name cur ts)
      else if c = CHR ''#'' then (Comment, [], end_name cur ts)
      else if skipped c then (Between, [], end_name cur ts)
      else (Between, [], end_name cur ts @ [Sign c]))"

definition backslash :: char where
  "backslash = char_of (92 :: nat)"

definition read_char :: "lexer \<Rightarrow> char \<Rightarrow> lexer" where
  "read_char l c =
     (case l of (m, cur, ts) \<Rightarrow>
        (case m of
           Between \<Rightarrow> read_between cur ts c
         | Within \<Rightarrow>
             if c = quote then (if cur = [] then Emptied else Between, [], ts @ [Literal cur])
             else if ends_line c then (Broken, [], ts)
             else (if c = backslash then Escaping else Within, cur @ [c], ts)
         | Escaping \<Rightarrow> if ends_line c then (Broken, [], ts) else (Within, cur @ [c], ts)
         | Emptied \<Rightarrow> if c = quote then (Broken, [], ts) else read_between [] ts c
         | Comment \<Rightarrow> if ends_line c then (Between, [], ts) else l
         | Broken \<Rightarrow> l))"

abbreviation read_from :: "lexer \<Rightarrow> string \<Rightarrow> lexer" where
  "read_from \<equiv> foldl read_char"

definition read_query :: "string \<Rightarrow> token list option" where
  "read_query s =
     (case read_from (Between, [], []) s of (m, cur, ts) \<Rightarrow>
        if m \<in> {Within, Escaping, Broken} then None else Some (end_name cur ts))"

text \<open>What was read before stays in front.\<close>

lemma read_char_front:
  "read_char (m, cur, front @ ts) c = (case read_char (m, cur, ts) c of (m', cur', ts') \<Rightarrow> (m', cur', front @ ts'))"
  by (cases m) (simp_all add: read_char_def read_between_def end_name_def)

lemma read_from_front:
  "read_from (m, cur, front @ ts) s = (case read_from (m, cur, ts) s of (m', cur', ts') \<Rightarrow> (m', cur', front @ ts'))"
proof (induction s arbitrary: m cur ts)
  case (Cons c s)
  obtain m' cur' ts' where "read_char (m, cur, ts) c = (m', cur', ts')" by (metis prod.exhaust)
  with Cons show ?case by (simp add: read_char_front)
qed simp

lemma read_text:
  assumes "read_from (Between, cur, []) s = (m, cur', ts')"
  shows "read_from (Between, cur, ts) s = (m, cur', ts @ ts')"
  using read_from_front [of Between cur ts "[]" s] assms by simp

text \<open>A string without quotes, backslashes and line breaks is read as it stands.\<close>

definition literal_char :: "char \<Rightarrow> bool" where
  "literal_char c \<longleftrightarrow> c \<noteq> quote \<and> c \<noteq> backslash \<and> \<not> ends_line c"

lemma read_plain: "list_all literal_char s \<Longrightarrow> read_from (Within, cur, ts) s = (Within, cur @ s, ts)"
  by (induction s arbitrary: cur) (simp_all add: read_char_def literal_char_def)

lemma read_name: "list_all part_of_name s \<Longrightarrow> read_from (Between, cur, ts) s = (Between, cur @ s, ts)"
  by (induction s arbitrary: cur) (simp_all add: read_char_def read_between_def)

lemma read_quoted:
  assumes "list_all literal_char s" and "s \<noteq> []"
  shows "read_from (Within, [], ts) (s @ [quote]) = (Between, [], ts @ [Literal s])"
  using read_plain [OF assms(1), of "[]" ts] assms(2) by (simp add: read_char_def)

lemma dec_part_of_name: "list_all part_of_name (dec n)"
proof (induction n rule: dec.induct)
  case (1 n)
  have "part_of_name (char_of (48 + m))" if "m < 10" for m :: nat
  proof -
    have "list_all (\<lambda>m. part_of_name (char_of (48 + m))) [0 ..< 10 :: nat]" by code_simp
    with that show ?thesis by (simp add: list_all_iff)
  qed
  with 1 show ?case by (subst dec.simps) auto
qed

lemma valid_chars_plain: "owner_char c \<or> name_char c \<Longrightarrow> literal_char c"
proof -
  have "\<not> owner_char quote" "\<not> owner_char backslash" "\<not> owner_char (char_of (10 :: nat))" "\<not> owner_char (char_of (13 :: nat))"
    "\<not> name_char quote" "\<not> name_char backslash" "\<not> name_char (char_of (10 :: nat))" "\<not> name_char (char_of (13 :: nat))"
    by code_simp+
  then show "owner_char c \<or> name_char c \<Longrightarrow> literal_char c" by (auto simp: literal_char_def ends_line_def)
qed

text \<open>The tokens of the query, with the pairs asked for.\<close>

definition selection_tokens :: "nat \<Rightarrow> string \<Rightarrow> string \<Rightarrow> token list" where
  "selection_tokens i owner name =
     [Name (''repo'' @ dec i), Sign (CHR '':''), Name ''repository'', Sign (CHR ''(''),
      Name ''owner'', Sign (CHR '':''), Literal owner, Name ''name'', Sign (CHR '':''), Literal name, Sign (CHR '')''),
      Sign (CHR ''{''), Sign (CHR ''.''), Sign (CHR ''.''), Sign (CHR ''.''), Name ''RepositoryFields'', Sign (CHR ''}'')]"

definition fragment_tokens :: "token list" where
  "fragment_tokens =
     [Name ''fragment'', Name ''RepositoryFields'', Name ''on'', Name ''Repository'', Sign (CHR ''{''),
      Name ''nameWithOwner'', Name ''latestRelease'', Sign (CHR ''{''), Name ''tagName'', Sign (CHR ''}''), Sign (CHR ''}'')]"

definition query_tokens :: "(string \<times> string) list \<Rightarrow> token list" where
  "query_tokens pairs =
     [Name ''query'', Name ''LatestReleases'', Sign (CHR ''{'')] @
     concat (map (\<lambda>(i, owner, name). selection_tokens i owner name) (enumerate 0 pairs)) @
     [Sign (CHR ''}'')] @ fragment_tokens"

text \<open>The fixed parts of the template are read from where a token has ended, and end where one has.\<close>

lemma template_reads:
  "read_from (Between, [], []) (newline @ spaces 4 @ ''query LatestReleases {'' @ newline @ spaces 6) =
     (Between, [], [Name ''query'', Name ''LatestReleases'', Sign (CHR ''{'')])"
  "read_from (Between, [], []) (newline @ spaces 8 @ ''repo'') = (Between, ''repo'', [])"
  "read_from (Between, [], []) ('' repository(owner: '' @ [quote]) =
     (Within, [], [Name ''repository'', Sign (CHR ''(''), Name ''owner'', Sign (CHR '':'')])"
  "read_from (Between, [], []) ('', name: '' @ [quote]) = (Within, [], [Name ''name'', Sign (CHR '':'')])"
  "read_from (Between, [], []) ('') {'' @ newline @ spaces 10 @ ''...RepositoryFields'' @ newline @ spaces 8 @
       ''}'' @ newline @ spaces 6) =
     (Between, [], [Sign (CHR '')''), Sign (CHR ''{''), Sign (CHR ''.''), Sign (CHR ''.''), Sign (CHR ''.''),
        Name ''RepositoryFields'', Sign (CHR ''}'')])"
  "read_from (Between, [], []) (newline @ spaces 4 @ ''}'' @ newline @ spaces 4 @ REPOSITORY_FIELDS @ newline @ spaces 2) =
     (Between, [], Sign (CHR ''}'') # fragment_tokens)"
  by code_simp+

lemma colon_reads: "cur \<noteq> [] \<Longrightarrow> read_from (Between, cur, ts) [CHR '':''] = (Between, [], ts @ [Name cur, Sign (CHR '':'')])"
proof -
  have "\<not> part_of_name (CHR '':'')" "CHR '':'' \<noteq> quote" "\<not> skipped (CHR '':'')" by code_simp+
  then show "cur \<noteq> [] \<Longrightarrow> ?thesis" by (simp add: read_char_def read_between_def end_name_def)
qed

lemma newline_reads: "read_from (Between, [], ts) newline = (Between, [], ts)"
proof -
  have "read_from (Between, [], []) newline = (Between, [], [])" by code_simp
  from read_text [OF this, of ts] show ?thesis by simp
qed

lemma read_steps: "read_from l s = l' \<Longrightarrow> read_from l' s' = l'' \<Longrightarrow> read_from l (s @ s') = l''"
  by simp

text \<open>A literal between two fixed parts.\<close>

lemma literal_reads:
  assumes "list_all literal_char s" "s \<noteq> []"
    and "read_from (Between, [], []) before = (Within, [], us)"
  shows "read_from (Between, [], ts) (before @ s @ [quote]) = (Between, [], ts @ us @ [Literal s])"
proof -
  from read_from_front [of Between "[]" ts "[]" before] assms(3)
  have "read_from (Between, [], ts) before = (Within, [], ts @ us)" by simp
  from read_steps [OF this read_quoted [OF assms(1,2)]] show ?thesis by simp
qed

lemma alias_reads:
  assumes r: "repo_format r" and on: "owner_and_name r = (ow, nm)"
  shows "read_from (Between, [], ts) (alias_text i r) = (Between, [], ts @ selection_tokens i ow nm)"
proof -
  from owner_and_name_valid [OF r on] have
    ow: "list_all literal_char ow" "ow \<noteq> []" and nm: "list_all literal_char nm" "nm \<noteq> []"
    using valid_chars_plain by (auto simp: list_all_iff)
  note label = read_steps [OF read_text [where ts = ts, OF template_reads(2)] read_name [OF dec_part_of_name]]
  note colon = read_steps [OF label colon_reads]
  note owner = read_steps [OF colon literal_reads [OF ow template_reads(3)]]
  note name = read_steps [OF owner literal_reads [OF nm template_reads(4)]]
  note line = read_steps [OF name read_text [OF template_reads(5)]]
  have "alias_text i r = (((((newline @ spaces 8 @ ''repo'') @ dec i) @ '':'') @
      ('' repository(owner: '' @ [quote]) @ ow @ [quote]) @ ('', name: '' @ [quote]) @ nm @ [quote]) @
      ('') {'' @ newline @ spaces 10 @ ''...RepositoryFields'' @ newline @ spaces 8 @ ''}'' @ newline @ spaces 6)"
    unfolding alias_text_def on prod.case by (simp only: append_assoc append_Cons append_Nil)
  then show ?thesis using line by (simp add: selection_tokens_def)
qed

lemma join_reads:
  assumes "list_all repo_format repos"
  shows "read_from (Between, [], ts)
      (join newline (map (\<lambda>(i, r). alias_text i r) (enumerate n repos))) =
    (Between, [], ts @ concat (map (\<lambda>(i, owner, name). selection_tokens i owner name) (enumerate n (map owner_and_name repos))))"
  using assms
proof (induction repos arbitrary: n ts rule: induct_list012)
  case (2 r)
  obtain ow nm where "owner_and_name r = (ow, nm)" by fastforce
  with 2 show ?case by (simp add: alias_reads)
next
  case (3 r r' repos)
  obtain ow nm where on: "owner_and_name r = (ow, nm)" by fastforce
  from 3(2) [of "ts @ selection_tokens n ow nm" "Suc n"] 3(3) on show ?case
    by (simp add: alias_reads newline_reads)
qed simp

lemma query_reads:
  assumes "list_all repo_format repos"
  shows "read_query (buildLatestReleasesQuery repos) = Some (query_tokens (map owner_and_name repos))"
proof -
  let ?parts = "concat (map (\<lambda>(i, owner, name). selection_tokens i owner name) (enumerate 0 (map owner_and_name repos)))"
  have "buildLatestReleasesQuery repos =
      ((newline @ spaces 4 @ ''query LatestReleases {'' @ newline @ spaces 6) @
       join newline (map (\<lambda>(i, r). alias_text i r) (enumerate 0 repos))) @
      newline @ spaces 4 @ ''}'' @ newline @ spaces 4 @ REPOSITORY_FIELDS @ newline @ spaces 2"
    unfolding buildLatestReleasesQuery_def by (simp only: append_assoc)
  moreover note read_steps [OF read_steps [OF template_reads(1) join_reads [OF assms]] read_text [OF template_reads(6)]]
  ultimately have "read_from (Between, [], []) (buildLatestReleasesQuery repos) =
      (Between, [], query_tokens (map owner_and_name repos))"
    by (simp add: query_tokens_def)
  then show ?thesis by (simp add: read_query_def end_name_def)
qed

text \<open>A name with quotes in it, as the gRPC interface accepts.\<close>

definition crafted :: string where
  "crafted = ''o'' @ [quote] @ '', name: '' @ [quote] @ ''other'' @ [quote] @ '') {id} x: repository(owner: '' @ [quote] @ ''o/r''"

text \<open>C37. GitHub reads the query for validated repositories as the template filled in: one selection
  per repository, in their order, under the alias \<open>repo<index>\<close>, whose two strings are the owner and
  the name of that repository, as they stand before and after the slash; then the fragment. No name can
  add a token, whatever the names are. A name that was not validated can: asked for \<open>crafted\<close>, GitHub
  reads two selections, of which the first answers with the data of another repository.\<close>

theorem validated_names_stay_in_quotes:
  "(\<forall>repos. list_all repo_format repos \<longrightarrow>
     (\<exists>pairs. repos = map (\<lambda>(owner, name). owner @ CHR ''/'' # name) pairs \<and>
        list_all (\<lambda>(owner, name). CHR ''/'' \<notin> set owner \<and> CHR ''/'' \<notin> set name) pairs \<and>
        read_query (buildLatestReleasesQuery repos) = Some (query_tokens pairs))) \<and>
   read_query (buildLatestReleasesQuery [crafted]) =
     Some ([Name ''query'', Name ''LatestReleases'', Sign (CHR ''{''),
       Name ''repo0'', Sign (CHR '':''), Name ''repository'', Sign (CHR ''(''), Name ''owner'', Sign (CHR '':''), Literal ''o'',
       Name ''name'', Sign (CHR '':''), Literal ''other'', Sign (CHR '')''), Sign (CHR ''{''), Name ''id'', Sign (CHR ''}''),
       Name ''x'', Sign (CHR '':''), Name ''repository'', Sign (CHR ''(''), Name ''owner'', Sign (CHR '':''), Literal ''o'',
       Name ''name'', Sign (CHR '':''), Literal ''r'', Sign (CHR '')''),
       Sign (CHR ''{''), Sign (CHR ''.''), Sign (CHR ''.''), Sign (CHR ''.''), Name ''RepositoryFields'', Sign (CHR ''}''),
       Sign (CHR ''}'')] @ fragment_tokens)"
proof (intro conjI allI impI)
  fix repos assume valid: "list_all repo_format repos"
  have "owner_and_name r = (ow, nm) \<Longrightarrow> r \<in> set repos \<Longrightarrow>
      r = ow @ CHR ''/'' # nm \<and> CHR ''/'' \<notin> set ow \<and> CHR ''/'' \<notin> set nm" for r ow nm
    using owner_and_name_valid [of r ow nm] valid slash_excluded by (auto simp: list_all_iff)
  then have "repos = map (\<lambda>(owner, name). owner @ CHR ''/'' # name) (map owner_and_name repos)"
    "list_all (\<lambda>(owner, name). CHR ''/'' \<notin> set owner \<and> CHR ''/'' \<notin> set name) (map owner_and_name repos)"
    by (auto simp: list_all_iff map_idI split: prod.splits intro!: map_idI [symmetric])
  with query_reads [OF valid] show "\<exists>pairs. repos = map (\<lambda>(owner, name). owner @ CHR ''/'' # name) pairs \<and>
      list_all (\<lambda>(owner, name). CHR ''/'' \<notin> set owner \<and> CHR ''/'' \<notin> set name) pairs \<and>
      read_query (buildLatestReleasesQuery repos) = Some (query_tokens pairs)" by blast
qed code_simp

theorem validated_names_stay_in_quotes_witness:
  "read_query (buildLatestReleasesQuery [''o/r'', ''a-b/c.d'']) =
     Some (query_tokens [(''o'', ''r''), (''a-b'', ''c.d'')])"
proof -
  have "list_all repo_format [''o/r'', ''a-b/c.d'']" by code_simp
  from validated_names_stay_in_quotes [THEN conjunct1, THEN spec, THEN mp, OF this] obtain pairs
    where pairs: "[''o/r'', ''a-b/c.d''] = map (\<lambda>(owner, name). owner @ CHR ''/'' # name) pairs"
      "list_all (\<lambda>(owner, name). CHR ''/'' \<notin> set owner \<and> CHR ''/'' \<notin> set name) pairs"
      "read_query (buildLatestReleasesQuery [''o/r'', ''a-b/c.d'']) = Some (query_tokens pairs)"
    by (elim exE conjE) (rule that)
  from pairs(1,2) have "pairs = [(''o'', ''r''), (''a-b'', ''c.d'')]"
    by (auto simp: Cons_eq_map_conv Cons_eq_append_conv)
  with pairs(3) show ?thesis by simp
qed

end
