(* ===== verification/Lock_Store.thy ===== *)
theory Lock_Store
  imports Redis_Client Js_Strings
begin

text \<open>
  \<open>RedisLockStore\<close> (\<open>git-release-notifier-be/src/modules/queue/adapters/redis-lock.store.ts\<close>):
  a lock per batch of repositories. The key names the batch whatever its order, the value is a
  fresh token, the lock expires after a time computed from the size of the batch, and only the
  holder of the token can release it. \<open>randomUUID\<close> never returns a token twice: \<open>issued w\<close>
  are the tokens it has returned.
\<close>

section \<open>The store\<close>

definition MAX_TIME_PER_REPO_SEC :: nat where "MAX_TIME_PER_REPO_SEC = 2"
definition MAX_TIME_PER_EMAIL_SEC :: nat where "MAX_TIME_PER_EMAIL_SEC = 1"
definition EXPECTED_EMAILS_PER_REPO :: nat where "EXPECTED_EMAILS_PER_REPO = 10"
definition SAFETY_BUFFER_SEC :: nat where "SAFETY_BUFFER_SEC = 30"

lemmas lock_ttl_defs =
  MAX_TIME_PER_REPO_SEC_def MAX_TIME_PER_EMAIL_SEC_def EXPECTED_EMAILS_PER_REPO_def SAFETY_BUFFER_SEC_def

definition calcDynamicTTL :: "nat \<Rightarrow> nat" where
  "calcDynamicTTL batchSize =
     (let processingTime = batchSize * MAX_TIME_PER_REPO_SEC +
            batchSize * EXPECTED_EMAILS_PER_REPO * MAX_TIME_PER_EMAIL_SEC
      in processingTime + SAFETY_BUFFER_SEC)"

definition buildLockKey :: "string list \<Rightarrow> string" where
  "buildLockKey batch = ''lock:scan:'' @ repos_key batch"

definition UNLOCK_IF_OWNER :: script where
  "UNLOCK_IF_OWNER key argv t ks =
     (if live ks t key = Some argv then kv_del_count key t ks else (0, ks))"

definition lock_acquire :: "'w redis_client \<Rightarrow> string \<Rightarrow> string \<Rightarrow> nat \<Rightarrow> ('w, bool) async" where
  "lock_acquire redis key token ttl = redis_set_nx redis key token ttl"

record lock_answer =
  acquired :: bool
  ans_lockKey :: string
  ans_token :: string

definition acquireForBatch :: "'w redis_client \<Rightarrow> ('w, string) async \<Rightarrow> string list \<Rightarrow>
    ('w, lock_answer) async" where
  "acquireForBatch redis randomUUID batch =
     await randomUUID (\<lambda>token.
     await (lock_acquire redis (buildLockKey batch) token (calcDynamicTTL (length batch))) (\<lambda>got.
     ret \<lparr>acquired = got, ans_lockKey = buildLockKey batch, ans_token = token\<rparr>))"

definition lock_unlock :: "'w redis_client \<Rightarrow> string \<Rightarrow> string \<Rightarrow> ('w, unit) async" where
  "lock_unlock redis key token = await (redis_eval redis UNLOCK_IF_OWNER key token) (\<lambda>released. ret ())"

record 'w lock_store =
  acquire_batch :: "string list \<Rightarrow> ('w, lock_answer) async"
  unlock :: "string \<Rightarrow> string \<Rightarrow> ('w, unit) async"

definition RedisLockStore :: "'w redis_client \<Rightarrow> ('w, string) async \<Rightarrow> 'w lock_store" where
  "RedisLockStore redis randomUUID =
     \<lparr>acquire_batch = acquireForBatch redis randomUUID, unlock = lock_unlock redis\<rparr>"

section \<open>The key of a batch, and its time\<close>

lemma buildLockKey_iff:
  assumes "\<forall>r \<in> set xs. plain (CHR '','') r" and "\<forall>r \<in> set ys. plain (CHR '','') r"
  shows "buildLockKey xs = buildLockKey ys \<longleftrightarrow> mset xs = mset ys"
  using repos_key_iff [OF assms] by (simp add: buildLockKey_def)

lemma calcDynamicTTL_linear: "calcDynamicTTL n = 12 * n + 30"
  by (simp add: calcDynamicTTL_def lock_ttl_defs Let_def)

section \<open>The contract of a lock store\<close>

text \<open>
  \<open>held w\<close> are the locks, with the token and the second each expires at. A lock is granted only
  when nobody holds it, to a token nobody else has; it then lasts at least its time. Releasing with
  the wrong token does nothing.
\<close>

type_synonym locks = "string \<Rightarrow> (string \<times> nat) option"

locale lock_contract =
  fixes locks :: "'w lock_store"
    and held :: "'w \<Rightarrow> locks"
    and now :: "'w \<Rightarrow> nat"
    and issued :: "'w \<Rightarrow> string set"
    and rest :: "'w \<Rightarrow> 'x"
  assumes acquire_law: "\<And>w q w'. acquire_batch locks batch w = (q, w') \<Longrightarrow>
      now w \<le> now w' \<and> rest w' = rest w \<and> issued w \<subseteq> issued w' \<and>
      (case q of
         Inl e \<Rightarrow> external e \<and> (held w' = held w \<or> live (held w) (now w') (buildLockKey batch) = None \<and>
           (\<exists>token. token \<in> issued w' - issued w \<and>
              held w' = (held w)(buildLockKey batch \<mapsto> (token, now w' + calcDynamicTTL (length batch)))))
       | Inr a \<Rightarrow> ans_lockKey a = buildLockKey batch \<and> ans_token a \<in> issued w' - issued w \<and>
           (acquired a \<longleftrightarrow> live (held w) (now w') (buildLockKey batch) = None) \<and>
           held w' = (if acquired a
             then (held w)(buildLockKey batch \<mapsto> (ans_token a, now w' + calcDynamicTTL (length batch)))
             else held w))"
    and unlock_law: "\<And>w q w'. unlock locks key token w = (q, w') \<Longrightarrow>
      now w \<le> now w' \<and> rest w' = rest w \<and> issued w' = issued w \<and>
      (case q of
         Inl e \<Rightarrow> external e \<and> (held w' = held w \<or>
           live (held w) (now w') key = Some token \<and> held w' = (held w)(key := None))
       | Inr u \<Rightarrow> held w' = (if live (held w) (now w') key = Some token then (held w)(key := None) else held w))"

locale redis_locks = redis_server redis keys now "\<lambda>w. (issued w, rest w)"
  for redis :: "'w redis_client" and keys now
    and issued :: "'w \<Rightarrow> string set" and rest :: "'w \<Rightarrow> 'x" +
  fixes randomUUID :: "('w, string) async"
  assumes uuid_law: "\<And>w q w'. randomUUID w = (q, w') \<Longrightarrow>
      \<exists>u. q = Inr u \<and> u \<notin> issued w \<and> issued w' = insert u (issued w) \<and>
        keys w' = keys w \<and> now w' = now w \<and> rest w' = rest w"
begin

lemma acquireForBatch_outcome:
  assumes run: "acquireForBatch redis randomUUID batch w = (q, w')"
  obtains (granted) token where
      "q = Inr \<lparr>acquired = True, ans_lockKey = buildLockKey batch, ans_token = token\<rparr>"
      "live (keys w) (now w') (buildLockKey batch) = None"
      "keys w' = (keys w)(buildLockKey batch \<mapsto> (token, now w' + calcDynamicTTL (length batch)))"
      "issued w' = insert token (issued w)" "token \<notin> issued w" "now w \<le> now w'" "rest w' = rest w"
  | (refused) token where
      "q = Inr \<lparr>acquired = False, ans_lockKey = buildLockKey batch, ans_token = token\<rparr>"
      "live (keys w) (now w') (buildLockKey batch) \<noteq> None" "keys w' = keys w"
      "issued w' = insert token (issued w)" "token \<notin> issued w" "now w \<le> now w'" "rest w' = rest w"
  | (failed) e token where "q = Inl e" "external e"
      "keys w' = keys w \<or> live (keys w) (now w') (buildLockKey batch) = None \<and>
         keys w' = (keys w)(buildLockKey batch \<mapsto> (token, now w' + calcDynamicTTL (length batch)))"
      "issued w' = insert token (issued w)" "token \<notin> issued w" "now w \<le> now w'" "rest w' = rest w"
proof -
  let ?key = "buildLockKey batch" and ?ttl = "calcDynamicTTL (length batch)"
  from run obtain uq w1 where u: "randomUUID w = (uq, w1)" by fastforce
  from uuid_law [OF u] obtain token where t: "uq = Inr token" "token \<notin> issued w"
    "issued w1 = insert token (issued w)" "keys w1 = keys w" "now w1 = now w" "rest w1 = rest w" by blast
  from run u t(1) have "await (lock_acquire redis ?key token ?ttl)
      (\<lambda>got. ret \<lparr>acquired = got, ans_lockKey = ?key, ans_token = token\<rparr>) w1 = (q, w')"
    by (simp add: acquireForBatch_def await_resolved)
  then show ?thesis
  proof (cases rule: await_outcome)
    case (rejected e)
    from set_nx_law [OF rejected(1) [unfolded lock_acquire_def]]
    have "external e" "now w1 \<le> now w'" "(issued w', rest w') = (issued w1, rest w1)"
      "keys w' = keys w1 \<or> keys w' = snd (kv_set_nx ?key token ?ttl (now w') (keys w1))"
      by (simp_all add: commanded_def)
    moreover have "snd (kv_set_nx ?key token ?ttl (now w') ks) =
        (if live ks (now w') ?key = None then ks(?key \<mapsto> (token, now w' + ?ttl)) else ks)" for ks
      by (simp add: kv_set_nx_def kv_set_def)
    ultimately show ?thesis
      using t(2-6) by (intro failed [OF rejected(2), of token]) (simp_all split: if_splits)
  next
    case (resolved got w2)
    from resolved(2) have w2: "w2 = w'"
      "q = Inr \<lparr>acquired = got, ans_lockKey = ?key, ans_token = token\<rparr>" by simp_all
    from set_nx_law [OF resolved(1) [unfolded lock_acquire_def]]
    have eq: "now w1 \<le> now w'" "(issued w', rest w') = (issued w1, rest w1)"
      "kv_set_nx ?key token ?ttl (now w') (keys w1) = (got, keys w')"
      by (simp_all add: commanded_def w2)
    show ?thesis
    proof (cases "live (keys w) (now w') ?key")
      case None
      with eq t have "got" "keys w' = (keys w)(?key \<mapsto> (token, now w' + ?ttl))"
        by (simp_all add: kv_set_nx_def kv_set_def)
      with None eq t w2 show ?thesis by (intro granted [of token]) simp_all
    next
      case (Some v)
      with eq t have "\<not> got" "keys w' = keys w" by (simp_all add: kv_set_nx_def)
      with Some eq t w2 show ?thesis by (intro refused [of token]) simp_all
    qed
  qed
qed

lemma lock_unlock_outcome:
  assumes run: "lock_unlock redis key token w = (q, w')"
  shows "now w \<le> now w'" "issued w' = issued w" "rest w' = rest w"
    "case q of
       Inl e \<Rightarrow> external e \<and> (keys w' = keys w \<or>
         live (keys w) (now w') key = Some token \<and> keys w' = (keys w)(key := None))
     | Inr u \<Rightarrow> keys w' = (if live (keys w) (now w') key = Some token then (keys w)(key := None) else keys w)"
proof -
  have "now w \<le> now w' \<and> issued w' = issued w \<and> rest w' = rest w \<and> (case q of
       Inl e \<Rightarrow> external e \<and> (keys w' = keys w \<or>
         live (keys w) (now w') key = Some token \<and> keys w' = (keys w)(key := None))
     | Inr u \<Rightarrow> keys w' = (if live (keys w) (now w') key = Some token then (keys w)(key := None) else keys w))"
    using run unfolding lock_unlock_def
  proof (cases rule: await_outcome)
    case (rejected e)
    from eval_law [OF rejected(1)] rejected(2) show ?thesis
      by (auto simp: commanded_def UNLOCK_IF_OWNER_def kv_del_count_def kv_del_def split: if_splits)
  next
    case (resolved n w1)
    from eval_law [OF resolved(1)] resolved(2) show ?thesis
      by (auto simp: commanded_def UNLOCK_IF_OWNER_def kv_del_count_def kv_del_def split: if_splits)
  qed
  then show "now w \<le> now w'" "issued w' = issued w" "rest w' = rest w"
    "case q of
       Inl e \<Rightarrow> external e \<and> (keys w' = keys w \<or>
         live (keys w) (now w') key = Some token \<and> keys w' = (keys w)(key := None))
     | Inr u \<Rightarrow> keys w' = (if live (keys w) (now w') key = Some token then (keys w)(key := None) else keys w)"
    by blast+
qed

lemma contract: "lock_contract (RedisLockStore redis randomUUID) keys now issued rest"
proof
  fix batch w q w'
  assume "acquire_batch (RedisLockStore redis randomUUID) batch w = (q, w')"
  then have "acquireForBatch redis randomUUID batch w = (q, w')" by (simp add: RedisLockStore_def)
  then show "now w \<le> now w' \<and> rest w' = rest w \<and> issued w \<subseteq> issued w' \<and>
      (case q of
         Inl e \<Rightarrow> external e \<and> (keys w' = keys w \<or> live (keys w) (now w') (buildLockKey batch) = None \<and>
           (\<exists>token. token \<in> issued w' - issued w \<and>
              keys w' = (keys w)(buildLockKey batch \<mapsto> (token, now w' + calcDynamicTTL (length batch)))))
       | Inr a \<Rightarrow> ans_lockKey a = buildLockKey batch \<and> ans_token a \<in> issued w' - issued w \<and>
           (acquired a \<longleftrightarrow> live (keys w) (now w') (buildLockKey batch) = None) \<and>
           keys w' = (if acquired a
             then (keys w)(buildLockKey batch \<mapsto> (ans_token a, now w' + calcDynamicTTL (length batch)))
             else keys w))"
    by (cases rule: acquireForBatch_outcome) auto
next
  fix key token w q w'
  assume "unlock (RedisLockStore redis randomUUID) key token w = (q, w')"
  then have run: "lock_unlock redis key token w = (q, w')" by (simp add: RedisLockStore_def)
  show "now w \<le> now w' \<and> rest w' = rest w \<and> issued w' = issued w \<and>
      (case q of
         Inl e \<Rightarrow> external e \<and> (keys w' = keys w \<or>
           live (keys w) (now w') key = Some token \<and> keys w' = (keys w)(key := None))
       | Inr u \<Rightarrow> keys w' = (if live (keys w) (now w') key = Some token then (keys w)(key := None) else keys w))"
    using lock_unlock_outcome [OF run] by simp
qed

end

sublocale redis_locks \<subseteq> lock: lock_contract "RedisLockStore redis randomUUID" keys now issued rest
  by (rule contract)

lemma mem_redis_locks:
  fixes view :: "'z redis_world_scheme \<Rightarrow> 'v"
  assumes "\<And>ks w. view (w\<lparr>rw_keys := ks\<rparr>) = view w" and "\<And>n w. view (w\<lparr>rw_uuids := n\<rparr>) = view w"
  shows "redis_locks mem_redis rw_keys rw_now mem_issued view mem_uuid"
proof (intro redis_locks.intro redis_locks_axioms.intro)
  show "redis_server mem_redis rw_keys rw_now (\<lambda>w. (mem_issued w, view w))"
    unfolding mem_redis_def by (rule stored_redis_server) (simp_all add: mem_issued_def assms)
  fix w :: "'z redis_world_scheme" and q w'
  assume "mem_uuid w = (q, w')"
  then show "\<exists>u. q = Inr u \<and> u \<notin> mem_issued w \<and> mem_issued w' = insert u (mem_issued w) \<and>
      rw_keys w' = rw_keys w \<and> rw_now w' = rw_now w \<and> view w' = view w"
    by (auto simp: mem_uuid_def mem_issued_def lessThan_Suc assms)
qed

interpretation mem_locks: redis_locks mem_redis rw_keys rw_now mem_issued rw_down mem_uuid
  by (rule mem_redis_locks) simp_all

section \<open>Mutual exclusion\<close>

text \<open>
  Any number of clients take and release locks while other code runs. A configuration is a world
  with the grants the clients have: key, token and the second the lock expires at. A client that
  releases its lock gives up its grant, whether the release reached the store or not.
\<close>

type_synonym grant = "string \<times> string \<times> nat"

inductive lock_step :: "'w lock_store \<Rightarrow> ('w \<Rightarrow> locks) \<Rightarrow> ('w \<Rightarrow> nat) \<Rightarrow> ('w \<Rightarrow> string set) \<Rightarrow>
    'w \<times> grant list \<Rightarrow> 'w \<times> grant list \<Rightarrow> bool" for locks held now issued where
  take_lock: "acquire_batch locks batch w = (Inr a, w') \<Longrightarrow> acquired a \<Longrightarrow>
    held w' (ans_lockKey a) = Some (ans_token a, d) \<Longrightarrow>
    lock_step locks held now issued (w, gs) (w', gs @ [(ans_lockKey a, ans_token a, d)])"
| miss_lock: "acquire_batch locks batch w = (q, w') \<Longrightarrow> (case q of Inl e \<Rightarrow> True | Inr a \<Rightarrow> \<not> acquired a) \<Longrightarrow>
    lock_step locks held now issued (w, gs) (w', gs)"
| drop_lock: "unlock locks key token w = (q, w') \<Longrightarrow>
    lock_step locks held now issued (w, gs)
      (w', filter (\<lambda>(k, t, d). \<not> (k = key \<and> t = token)) gs)"
| other_code: "(\<And>batch. held w' (buildLockKey batch) = held w (buildLockKey batch)) \<Longrightarrow> now w \<le> now w' \<Longrightarrow> issued w' = issued w \<Longrightarrow>
    lock_step locks held now issued (w, gs) (w', gs)"

inductive lock_run :: "'w lock_store \<Rightarrow> ('w \<Rightarrow> locks) \<Rightarrow> ('w \<Rightarrow> nat) \<Rightarrow> ('w \<Rightarrow> string set) \<Rightarrow>
    'w \<times> grant list \<Rightarrow> 'w \<times> grant list \<Rightarrow> bool" for locks held now issued c where
  lock_run_refl: "lock_run locks held now issued c c"
| lock_run_step: "lock_run locks held now issued c c1 \<Longrightarrow> lock_step locks held now issued c1 c2 \<Longrightarrow>
    lock_run locks held now issued c c2"

definition grants_valid :: "locks \<Rightarrow> nat \<Rightarrow> string set \<Rightarrow> grant list \<Rightarrow> bool" where
  "grants_valid ks t tokens gs \<longleftrightarrow>
     list_all (\<lambda>(k, token, d). token \<in> tokens \<and> k \<in> range buildLockKey \<and> (t < d \<longrightarrow> ks k = Some (token, d))) gs \<and>
     distinct (map (\<lambda>(k, token, d). token) gs)"

lemma grants_validD:
  assumes "grants_valid ks t tokens gs" and "(k, token, d) \<in> set gs"
  shows "token \<in> tokens" and "k \<in> range buildLockKey" and "t < d \<Longrightarrow> ks k = Some (token, d)"
  using assms by (auto simp: grants_valid_def list_all_iff)

lemma grants_valid_mono:
  assumes "grants_valid ks t tokens gs" and "t \<le> t'" and "tokens \<subseteq> tokens'"
    and "\<And>k token d. (k, token, d) \<in> set gs \<Longrightarrow> k \<in> range buildLockKey \<Longrightarrow> t' < d \<Longrightarrow> ks k = Some (token, d) \<Longrightarrow> ks' k = Some (token, d)"
  shows "grants_valid ks' t' tokens' gs"
  using assms by (force simp: grants_valid_def list_all_iff)

lemma grants_valid_filter: "grants_valid ks t tokens gs \<Longrightarrow> grants_valid ks t tokens (filter P gs)"
  by (auto simp: grants_valid_def list_all_iff distinct_map_filter)

context lock_contract begin

lemma step_valid:
  assumes "lock_step locks held now issued c c'" and "grants_valid (held (fst c)) (now (fst c)) (issued (fst c)) (snd c)"
  shows "grants_valid (held (fst c')) (now (fst c')) (issued (fst c')) (snd c')"
  using assms
proof (induction rule: lock_step.induct)
  case (take_lock batch w a w' d gs)
  let ?key = "buildLockKey batch"
  from acquire_law [OF take_lock(1)] take_lock(2,3)
  have a: "now w \<le> now w'" "issued w \<subseteq> issued w'" "ans_lockKey a = ?key" "ans_token a \<in> issued w' - issued w"
    "live (held w) (now w') ?key = None" "held w' = (held w)(?key \<mapsto> (ans_token a, d))"
    by simp_all
  have old: "grants_valid (held w) (now w) (issued w) gs" using take_lock.prems by simp
  have "grants_valid (held w') (now w') (issued w') gs"
  proof (rule grants_valid_mono [OF old a(1,2)])
    fix k token d' assume "(k, token, d') \<in> set gs" "now w' < d'" "held w k = Some (token, d')"
    moreover from this a(5) have "k \<noteq> ?key" by (auto simp: live_def)
    ultimately show "held w' k = Some (token, d')" by (simp add: a(6))
  qed
  moreover have "ans_token a \<notin> (\<lambda>(k, token, d). token) ` set gs"
    using grants_validD(1) [OF old] a(4) by auto
  ultimately show ?case using a(3,4,6) by (auto simp: grants_valid_def)
next
  case (miss_lock batch w q w' gs)
  have old: "grants_valid (held w) (now w) (issued w) gs" using miss_lock.prems by simp
  from acquire_law [OF miss_lock(1)] have le: "now w \<le> now w'" "issued w \<subseteq> issued w'" by simp_all
  have "grants_valid (held w') (now w') (issued w') gs"
  proof (rule grants_valid_mono [OF old le])
    fix k token d' assume g: "(k, token, d') \<in> set gs" "now w' < d'" "held w k = Some (token, d')"
    then have "live (held w) (now w') k \<noteq> None" by (simp add: live_def)
    with acquire_law [OF miss_lock(1)] miss_lock(2) g(3) show "held w' k = Some (token, d')"
      by (cases q) auto
  qed
  then show ?case by simp
next
  case (drop_lock key token w q w' gs)
  have old: "grants_valid (held w) (now w) (issued w) gs" using drop_lock.prems by simp
  from unlock_law [OF drop_lock(1)] have le: "now w \<le> now w'" "issued w \<subseteq> issued w'" by simp_all
  have "grants_valid (held w') (now w') (issued w') (filter (\<lambda>(k, t, d). \<not> (k = key \<and> t = token)) gs)"
  proof (rule grants_valid_mono [OF grants_valid_filter [OF old] le])
    fix k t d' assume g: "(k, t, d') \<in> set (filter (\<lambda>(k, t, d). \<not> (k = key \<and> t = token)) gs)"
      "now w' < d'" "held w k = Some (t, d')"
    then have "\<not> (k = key \<and> t = token)" "live (held w) (now w') k = Some t" by (simp_all add: live_def)
    with unlock_law [OF drop_lock(1)] g(3) show "held w' k = Some (t, d')"
      by (cases q) (auto split: if_splits)
  qed
  then show ?case by simp
next
  case (other_code w' w gs)
  then have old: "grants_valid (held w) (now w) (issued w) gs" by simp
  have "grants_valid (held w') (now w') (issued w') gs"
  proof (rule grants_valid_mono [OF old other_code(2)])
    show "issued w \<subseteq> issued w'" using other_code(3) by simp
    fix k token d assume "k \<in> range buildLockKey" "held w k = Some (token, d)"
    then show "held w' k = Some (token, d)" using other_code(1) by (auto simp only: image_iff)
  qed
  then show ?case by simp
qed

lemma run_valid:
  assumes "lock_run locks held now issued c c'" and "grants_valid (held (fst c)) (now (fst c)) (issued (fst c)) (snd c)"
  shows "grants_valid (held (fst c')) (now (fst c')) (issued (fst c')) (snd c')"
  using assms by (induction rule: lock_run.induct) (auto intro: step_valid)

end

section \<open>Properties\<close>

text \<open>C14. Mutual exclusion: whatever clients take and release scan locks, and however long they
  take, of two unexpired locks on the same repositories (in any order) there is only one, and it is
  in the store: a release by a client whose lock has expired never frees the lock of another.\<close>

theorem scan_lock_excludes:
  assumes env: "redis_locks redis keys now issued rest randomUUID"
    and run: "lock_run (RedisLockStore redis randomUUID) keys now issued (w, []) (w', gs)"
    and xs: "(buildLockKey xs, t, d) \<in> set gs" "now w' < d"
    and ys: "(buildLockKey ys, t', d') \<in> set gs" "now w' < d'"
    and same: "mset xs = mset ys"
  shows "t = t' \<and> d = d' \<and> live (keys w') (now w') (buildLockKey xs) = Some t"
proof -
  have "sort xs = sort ys" using same by (metis mset_sort properties_for_sort sorted_sort)
  then have key: "buildLockKey ys = buildLockKey xs" by (simp add: buildLockKey_def repos_key_def)
  have "grants_valid (keys w') (now w') (issued w') gs"
    using lock_contract.run_valid [OF redis_locks.contract [OF env] run] by (simp add: grants_valid_def)
  with xs ys key have "keys w' (buildLockKey xs) = Some (t, d)" "keys w' (buildLockKey xs) = Some (t', d')"
    by (auto dest: grants_validD(3))
  with xs show ?thesis by (simp add: live_before_deadline)
qed

definition idle_redis :: redis_world where
  "idle_redis = \<lparr>rw_keys = Map.empty, rw_now = 0, rw_uuids = 0, rw_down = False\<rparr>"

definition locked_redis :: redis_world where
  "locked_redis = \<lparr>rw_keys = [buildLockKey [''a/b''] \<mapsto> ([], 42)], rw_now = 0, rw_uuids = 1, rw_down = False\<rparr>"

lemma acquire_example:
  "acquireForBatch mem_redis mem_uuid [''a/b''] idle_redis =
     (Inr \<lparr>acquired = True, ans_lockKey = buildLockKey [''a/b''], ans_token = []\<rparr>, locked_redis)"
  by (simp add: acquireForBatch_def lock_acquire_def redis_instance_defs io_defs idle_redis_def
      locked_redis_def kv_set_nx_def kv_set_def live_def calcDynamicTTL_linear)

theorem scan_lock_excludes_witness:
  "live (rw_keys locked_redis) (rw_now locked_redis) (buildLockKey [''a/b'']) = Some []"
proof -
  let ?locks = "RedisLockStore mem_redis mem_uuid :: redis_world lock_store"
  let ?gs = "[(buildLockKey [''a/b''], [], 42)]"
  have "lock_step ?locks rw_keys rw_now mem_issued (idle_redis, []) (locked_redis, ?gs)"
    using take_lock [of ?locks "[''a/b'']" idle_redis _ locked_redis rw_keys 42 rw_now mem_issued "[]"]
      acquire_example by (simp add: RedisLockStore_def) (simp add: locked_redis_def)
  then have run: "lock_run ?locks rw_keys rw_now mem_issued (idle_redis, []) (locked_redis, ?gs)"
    by (rule lock_run_step [OF lock_run_refl])
  show ?thesis
    using scan_lock_excludes [OF mem_locks.redis_locks_axioms run, of "[''a/b'']" "[]" 42 "[''a/b'']" "[]" 42]
    by (simp add: locked_redis_def)
qed

end
