(* ===== verification/Scan_Producer.thy ===== *)
theory Scan_Producer
  imports Lock_Store Publishers "HOL-Library.Sublist"
begin

text \<open>
  \<open>git-release-notifier-be/src/modules/queue\<close>: the queue of scan jobs (\<open>lib/rabbit/rabbit.channel.ts\<close>,
  \<open>adapters/rabbit-scan-queue.ts\<close>) and \<open>ScanJobProducer\<close> (\<open>queue.notifier.ts\<close>), which sorts the
  repositories, cuts them into batches and sends a job for each batch whose lock it gets.
\<close>

section \<open>Sublists\<close>

lemma subseq_concat: "subseq xss yss \<Longrightarrow> subseq (concat xss) (concat yss)"
proof (induction rule: list_emb.induct)
  case (list_emb_Cons xss yss ys)
  then show ?case by (metis concat.simps(2) list_emb_append2)
next
  case (list_emb_Cons2 x y xss yss)
  then show ?case by (simp add: list_emb_append_mono)
qed simp

lemma subseq_set: "subseq xs ys \<Longrightarrow> set xs \<subseteq> set ys"
  by (induction rule: list_emb.induct) auto

lemma subseq_distinct: "subseq xs ys \<Longrightarrow> distinct ys \<Longrightarrow> distinct xs"
  by (induction rule: list_emb.induct) (auto dest: subseq_set)

section \<open>Batches\<close>

definition SCAN_BATCH_SIZE :: nat where "SCAN_BATCH_SIZE = 50"

text \<open>The loop of \<open>chunk\<close>: it need not end, so its value may be missing.\<close>

definition slice :: "nat \<Rightarrow> nat \<Rightarrow> 'a list \<Rightarrow> 'a list" where
  "slice i j items = take (j - i) (drop i items)"

partial_function (option) chunk_loop :: "'a list \<Rightarrow> nat \<Rightarrow> nat \<Rightarrow> 'a list list \<Rightarrow> 'a list list option" where
  "chunk_loop items sz i batches =
     (if i < length items then chunk_loop items sz (i + sz) (batches @ [slice i (i + sz) items])
      else Some batches)"

declare chunk_loop.simps [code]

definition chunk :: "'a list \<Rightarrow> nat \<Rightarrow> 'a list list option" where
  "chunk items sz = chunk_loop items sz 0 []"

text \<open>The batches it returns.\<close>

function batches_of :: "nat \<Rightarrow> 'a list \<Rightarrow> 'a list list" where
  "batches_of sz items =
     (if items = [] \<or> sz = 0 then [] else take sz items # batches_of sz (drop sz items))"
  by pat_completeness auto
termination
  by (relation "measure (\<lambda>(sz, items). length items)") auto

declare batches_of.simps [simp del]

lemma batches_of_Nil [simp]: "batches_of sz [] = []"
  by (subst batches_of.simps) simp

lemma batches_of_step:
  "items \<noteq> [] \<Longrightarrow> 0 < sz \<Longrightarrow>
    batches_of sz items = take sz items # batches_of sz (drop sz items)"
  by (subst batches_of.simps) simp

lemma chunk_loop_returns:
  "0 < sz \<Longrightarrow> chunk_loop items sz i batches = Some (batches @ batches_of sz (drop i items))"
proof (induction "length items - i" arbitrary: i batches rule: less_induct)
  case less
  show ?case
  proof (cases "i < length items")
    case True
    with less.prems have "chunk_loop items sz (i + sz) (batches @ [slice i (i + sz) items])
        = Some ((batches @ [slice i (i + sz) items]) @ batches_of sz (drop (i + sz) items))"
      by (intro less.hyps) simp_all
    with True less.prems show ?thesis
      by (subst chunk_loop.simps) (simp add: slice_def batches_of_step add.commute)
  next
    case False
    then show ?thesis by (subst chunk_loop.simps) simp
  qed
qed

lemma concat_batches_of: "0 < sz \<Longrightarrow> concat (batches_of sz items) = items"
  by (induction sz items rule: batches_of.induct) (subst batches_of.simps, auto)

lemma batches_of_sizes:
  "0 < sz \<Longrightarrow> batch \<in> set (batches_of sz items) \<Longrightarrow> batch \<noteq> [] \<and> length batch \<le> sz"
proof (induction sz items rule: batches_of.induct)
  case (1 sz items)
  then show ?case by (subst (asm) (2) batches_of.simps) (auto split: if_splits)
qed

lemma length_batches_of:
  "0 < sz \<Longrightarrow> length (batches_of sz items) = (length items + sz - 1) div sz"
proof (induction sz items rule: batches_of.induct)
  case (1 sz items)
  show ?case
  proof (cases "items = []")
    case False
    with 1 have "length (batches_of sz items) = Suc ((length items - sz + sz - 1) div sz)"
      by (simp add: batches_of_step)
    also have "\<dots> = (length items + sz - 1) div sz"
    proof (cases "sz \<le> length items")
      case True
      then have "length items + sz - 1 = (length items - sz + sz - 1) + sz"
        using 1(2) False by (simp add: Suc_leI)
      then show ?thesis using 1(2) by (metis div_add_self2 add.commute Suc_eq_plus1 less_not_refl2)
    next
      case False
      then have "(length items + sz - 1) div sz = 1" "(length items - sz + sz - 1) div sz = 0"
        using \<open>items \<noteq> []\<close> 1(2) by (auto simp: div_nat_eqI length_greater_0_conv [symmetric] simp del: length_greater_0_conv)
      then show ?thesis by simp
    qed
    finally show ?thesis .
  qed (use 1 in simp)
qed

section \<open>The queue of scan jobs\<close>

definition QUEUE_NAME :: string where "QUEUE_NAME = ''github-scanner-queue''"
definition RETRY_QUEUE_NAME :: string where "RETRY_QUEUE_NAME = ''github-scanner-retry-queue''"

definition rabbit_createChannel :: "('w, 'c) async \<Rightarrow> ('c \<Rightarrow> ('w, 'w channel) async) \<Rightarrow> ('w, 'w channel) async" where
  "rabbit_createChannel getRabbitConnection createConfirmChannel =
     await getRabbitConnection (\<lambda>connection.
     await (createConfirmChannel connection) (\<lambda>ch.
     await (assertQueue ch QUEUE_NAME) (\<lambda>_.
     ret ch)))"

record scan_job =
  job_repos :: "string list"
  job_lockKey :: string
  job_lockToken :: string

definition scan_job_json :: "scan_job \<Rightarrow> json" where
  "scan_job_json p =
     JObj [(''repos'', JArr (map JStr (job_repos p))), (''lockKey'', JStr (job_lockKey p)),
           (''lockToken'', JStr (job_lockToken p))]"

record 'w scan_session =
  send :: "scan_job \<Rightarrow> ('w, bool) async"
  close :: "('w, unit) async"

definition RabbitScanQueue_open :: "('w, 'w channel) async \<Rightarrow> ('w, 'w scan_session) async" where
  "RabbitScanQueue_open createChannel =
     await createChannel (\<lambda>ch.
       ret \<lparr>send = (\<lambda>payload. sendToQueue ch QUEUE_NAME (Text (scan_job_json payload)) no_headers),
            close = close_channel ch\<rparr>)"

section \<open>The producer\<close>

definition publishBatch :: "'w lock_store \<Rightarrow> 'w scan_session \<Rightarrow> string list \<Rightarrow> ('w, unit) async" where
  "publishBatch locks session batch =
     await (acquire_batch locks batch) (\<lambda>a.
       if \<not> acquired a then ret ()
       else
         await (send session \<lparr>job_repos = batch, job_lockKey = ans_lockKey a, job_lockToken = ans_token a\<rparr>)
           (\<lambda>sent. if \<not> sent then unlock locks (ans_lockKey a) (ans_token a) else ret ()))"

text \<open>\<open>does_not_return\<close> marks the case in which \<open>chunk\<close> would run forever.\<close>

definition does_not_return :: js_error where
  "does_not_return = Other ''does not return''"

definition addScanJobs :: "'w lock_store \<Rightarrow> ('w, 'w scan_session) async \<Rightarrow> string list \<Rightarrow> ('w, unit) async" where
  "addScanJobs locks open_queue repos =
     await open_queue (\<lambda>session.
       finally_do
         (case chunk (sort repos) SCAN_BATCH_SIZE of
            None \<Rightarrow> throw does_not_return
          | Some batches \<Rightarrow> for_each batches (publishBatch locks session))
         (close session))"

text \<open>The jobs on the queue, read off what was published.\<close>

definition string_list :: "json \<Rightarrow> string list option" where
  "string_list j = (case j of JArr js \<Rightarrow> those (map (\<lambda>j. z_string (Some j)) js) | _ \<Rightarrow> None)"

lemma string_list_strings [simp]: "string_list (JArr (map JStr xs)) = Some xs"
  by (induction xs) (simp_all add: string_list_def o_def)

definition scan_job_of :: "json \<Rightarrow> scan_job option" where
  "scan_job_of j =
     (case (Option.bind (field j ''repos'') string_list, z_string (field j ''lockKey''), z_string (field j ''lockToken'')) of
        (Some rs, Some k, Some t) \<Rightarrow> Some \<lparr>job_repos = rs, job_lockKey = k, job_lockToken = t\<rparr>
      | _ \<Rightarrow> None)"

lemma scan_job_of_json [simp]: "scan_job_of (scan_job_json p) = Some p"
  by (simp add: scan_job_of_def scan_job_json_def field_def)

definition jobs_on_queue :: "broker_event list \<Rightarrow> scan_job list" where
  "jobs_on_queue evs = decode_with scan_job_of (published QUEUE_NAME evs)"

lemma jobs_on_queue_simps [simp]:
  "jobs_on_queue [] = []"
  "jobs_on_queue (evs @ evs') = jobs_on_queue evs @ jobs_on_queue evs'"
  "jobs_on_queue [Sent QUEUE_NAME (Text (scan_job_json p)) h] = [p]"
  by (simp_all add: jobs_on_queue_def)

section \<open>What a run of the producer leaves behind\<close>

locale producer_env =
  locks: lock_contract locks held now issued "\<lambda>w. (broker w, other w)" +
  source: channel_source createChannel broker "\<lambda>w. (held w, now w, issued w, other w)"
  for locks :: "'w lock_store" and held now issued
    and createChannel :: "('w, 'w channel) async"
    and broker :: "'w \<Rightarrow> broker_event list" and other :: "'w \<Rightarrow> 'x"

text \<open>\<open>locked_for held now b token w w'\<close>: on the way from \<open>w\<close> to \<open>w'\<close> the lock of \<open>b\<close> was set with that token
  for the time of the batch. \<open>published_between B w w' jobs\<close>: the jobs were published, each for a batch
  of \<open>B\<close> whose lock was free, and with its lock, under a new token, which was then kept or released;
  another lock of \<open>B\<close> was set for its time, released or not touched, and the other locks were not touched.\<close>

definition locked_for :: "('w \<Rightarrow> locks) \<Rightarrow> ('w \<Rightarrow> nat) \<Rightarrow> string list \<Rightarrow> string \<Rightarrow> 'w \<Rightarrow> 'w \<Rightarrow> bool" where
  "locked_for held now b token w w' \<longleftrightarrow>
     (\<exists>t. now w \<le> t \<and> t \<le> now w' \<and> held w' (buildLockKey b) = Some (token, t + calcDynamicTTL (length b)))"

definition lock_moves :: "('w \<Rightarrow> locks) \<Rightarrow> ('w \<Rightarrow> nat) \<Rightarrow> string list list \<Rightarrow> 'w \<Rightarrow> 'w \<Rightarrow> bool" where
  "lock_moves held now B w w' \<longleftrightarrow>
     (\<forall>k. held w' k = held w k \<or>
        (\<exists>b \<in> set B. k = buildLockKey b \<and> (held w' k = None \<or> (\<exists>token. locked_for held now b token w w'))))"

lemma lock_moves_trans:
  assumes 1: "lock_moves held now B w w1" and 2: "lock_moves held now B' w1 w2"
    and time: "now w \<le> now w1" "now w1 \<le> now w2"
  shows "lock_moves held now (B @ B') w w2"
proof -
  have "held w2 k = held w k \<or>
      (\<exists>b \<in> set (B @ B'). k = buildLockKey b \<and> (held w2 k = None \<or> (\<exists>token. locked_for held now b token w w2)))" for k
  proof (cases "held w2 k = held w1 k")
    case True
    from 1 consider "held w1 k = held w k" | b where "b \<in> set B" "k = buildLockKey b" "held w1 k = None"
      | b token where "b \<in> set B" "k = buildLockKey b" "locked_for held now b token w w1"
      unfolding lock_moves_def by blast
    then show ?thesis
    proof cases
      case 3
      then have "locked_for held now b token w w2"
        unfolding locked_for_def using True time by (metis le_trans)
      with 3 show ?thesis by auto
    qed (use True in auto)
  next
    case False
    with 2 consider b where "b \<in> set B'" "k = buildLockKey b" "held w2 k = None"
      | b token where "b \<in> set B'" "k = buildLockKey b" "locked_for held now b token w1 w2"
      unfolding lock_moves_def by blast
    then show ?thesis
    proof cases
      case 2
      then have "locked_for held now b token w w2" unfolding locked_for_def using time by (metis le_trans)
      with 2 show ?thesis by auto
    qed auto
  qed
  then show ?thesis by (simp add: lock_moves_def)
qed

lemma lock_moves_same: "held w' = held w \<Longrightarrow> lock_moves held now B w w'"
  by (simp add: lock_moves_def)

lemma lock_kept:
  assumes "held w' = (held w)(buildLockKey b \<mapsto> (token, t + calcDynamicTTL (length b)))" and "now w \<le> t" "t \<le> now w'"
  shows "lock_moves held now [b] w w'" "locked_for held now b token w w'"
proof -
  from assms show "locked_for held now b token w w'" by (auto simp: locked_for_def)
  then show "lock_moves held now [b] w w'" using assms(1) by (auto simp: lock_moves_def)
qed

lemma lock_released: "held w' = (held w)(buildLockKey b := None) \<Longrightarrow> lock_moves held now [b] w w'"
  by (auto simp: lock_moves_def)

definition published_between :: "('w \<Rightarrow> locks) \<Rightarrow> ('w \<Rightarrow> nat) \<Rightarrow> ('w \<Rightarrow> string set) \<Rightarrow> ('w \<Rightarrow> broker_event list) \<Rightarrow>
    ('w \<Rightarrow> 'x) \<Rightarrow> string list list \<Rightarrow> 'w \<Rightarrow> 'w \<Rightarrow> scan_job list \<Rightarrow> bool" where
  "published_between held now issued broker other B w w' jobs \<longleftrightarrow>
     now w \<le> now w' \<and> issued w \<subseteq> issued w' \<and> other w' = other w \<and>
     broker w' = broker w @ map (\<lambda>p. Sent QUEUE_NAME (Text (scan_job_json p)) no_headers) jobs \<and>
     subseq (map job_repos jobs) B \<and>
     list_all (\<lambda>p. job_lockKey p = buildLockKey (job_repos p) \<and> job_lockToken p \<in> issued w' - issued w \<and>
       live (held w) (now w') (job_lockKey p) = None \<and>
       (held w' (job_lockKey p) = None \<or> locked_for held now (job_repos p) (job_lockToken p) w w')) jobs \<and>
     lock_moves held now B w w'"

lemma published_between_kept:
  "published_between held now issued broker other B w w' jobs \<Longrightarrow> k \<notin> buildLockKey ` set B \<Longrightarrow> held w' k = held w k"
  unfolding published_between_def lock_moves_def by blast

lemma published_between_repos:
  assumes "published_between held now issued broker other B w w' jobs" and "p \<in> set jobs"
  shows "job_repos p \<in> set B" and "job_lockKey p = buildLockKey (job_repos p)"
proof -
  from assms(1) have "subseq (map job_repos jobs) B" by (simp add: published_between_def)
  from list_emb_set [OF this, of "job_repos p"] assms(2) show "job_repos p \<in> set B" by auto
  from assms show "job_lockKey p = buildLockKey (job_repos p)"
    by (simp add: published_between_def list_all_iff)
qed

lemma published_between_jobs:
  "published_between held now issued broker other B w w' jobs \<Longrightarrow>
    jobs_on_queue (broker w') = jobs_on_queue (broker w) @ jobs"
proof -
  have "jobs_on_queue (map (\<lambda>p. Sent QUEUE_NAME (Text (scan_job_json p)) no_headers) jobs) = jobs"
    by (induction jobs)
      (simp, metis (no_types, lifting) append_Cons append_Nil jobs_on_queue_simps(2,3) list.map(2))
  then show "published_between held now issued broker other B w w' jobs \<Longrightarrow>
    jobs_on_queue (broker w') = jobs_on_queue (broker w) @ jobs"
    by (simp add: published_between_def)
qed

context producer_env begin

lemma publishBatch_outcome:
  assumes open_queue: "RabbitScanQueue_open createChannel w0 = (Inr session, w)"
    and run: "publishBatch locks session batch w1 = (q, w2)"
  shows "(case q of Inl e \<Rightarrow> external e | Inr u \<Rightarrow> True)"
    and "\<exists>jobs. published_between held now issued broker other [batch] w1 w2 jobs \<and>
      (case q of Inl e \<Rightarrow> True
       | Inr u \<Rightarrow> jobs \<noteq> [] \<or> live (held w1) (now w1) (buildLockKey batch) \<noteq> None)"
proof -
  let ?key = "buildLockKey batch"
  let ?goal = "(case q of Inl e \<Rightarrow> external e | Inr u \<Rightarrow> True) \<and>
    (\<exists>jobs. published_between held now issued broker other [batch] w1 w2 jobs \<and>
      (case q of Inl e \<Rightarrow> True | Inr u \<Rightarrow> jobs \<noteq> [] \<or> live (held w1) (now w1) ?key \<noteq> None))"
  note pb = published_between_def
  from open_queue [unfolded RabbitScanQueue_open_def] obtain ch
    where opened: "createChannel w0 = (Inr ch, w)" and
      session: "send session = (\<lambda>p. sendToQueue ch QUEUE_NAME (Text (scan_job_json p)) no_headers)"
    by (elim await_outcome) auto
  from source.getChannel_law [OF opened]
  have ch: "amqp_channel ch broker (\<lambda>w. (held w, now w, issued w, other w))" by simp
  from run have ?goal unfolding publishBatch_def
  proof (cases rule: await_outcome)
    case (rejected e)
    note law = locks.acquire_law [OF rejected(1)]
    then have "lock_moves held now [batch] w1 w2"
      by (auto intro: lock_moves_same lock_kept(1))
    with law have "published_between held now issued broker other [batch] w1 w2 []"
      by (simp add: pb)
    with law rejected(2) show ?thesis by auto
  next
    case (resolved a w3)
    note law = locks.acquire_law [OF resolved(1), simplified]
    show ?thesis
    proof (cases "acquired a")
      case False
      with resolved(2) have w2: "q = Inr ()" "w3 = w2" by simp_all
      have "held w2 = held w1" using False law w2(2) by (cases "live (held w1) (now w2) ?key") auto
      with False law w2 have "published_between held now issued broker other [batch] w1 w2 []"
        by (simp add: pb lock_moves_same)
      moreover from False law have "live (held w1) (now w1) ?key \<noteq> None"
        using still_live [of "held w1" "now w3" ?key "now w1"] by simp
      ultimately show ?thesis using w2(1) by auto
    next
      case True
      let ?job = "\<lparr>job_repos = batch, job_lockKey = ?key, job_lockToken = ans_token a\<rparr>"
      from True law have free: "live (held w1) (now w3) ?key = None" "ans_lockKey a = ?key"
        "ans_token a \<in> issued w3 - issued w1"
        "held w3 = (held w1)(?key \<mapsto> (ans_token a, now w3 + calcDynamicTTL (length batch)))"
        "now w1 \<le> now w3" "issued w1 \<subseteq> issued w3" "broker w3 = broker w1" "other w3 = other w1"
        by simp_all
      from resolved(2) [unfolded session free(2)] True
      have "await (sendToQueue ch QUEUE_NAME (Text (scan_job_json ?job)) no_headers)
          (\<lambda>sent. if \<not> sent then unlock locks ?key (ans_token a) else ret ()) w3 = (q, w2)"
        by simp
      then show ?thesis
      proof (cases rule: await_outcome)
        case (rejected e)
        from amqp_channel.sendToQueue_law [OF ch rejected(1)] free
        have "held w2 = held w3" "now w2 = now w3" by auto
        with free have "lock_moves held now [batch] w1 w2"
          by (intro lock_kept(1) [where t = "now w3" and token = "ans_token a"]) simp_all
        with amqp_channel.sendToQueue_law [OF ch rejected(1)] free
        have "published_between held now issued broker other [batch] w1 w2 []" "external e"
          by (auto simp: pb)
        with rejected(2) show ?thesis by auto
      next
        case (resolved sent w4)
        note told = amqp_channel.sendToQueue_law [OF ch resolved(1)]
        with free have w4: "held w4 = (held w1)(?key \<mapsto> (ans_token a, now w3 + calcDynamicTTL (length batch)))"
          "now w4 = now w3" by auto
        with free have "lock_moves held now [batch] w1 w4" "locked_for held now batch (ans_token a) w1 w4"
          by (auto intro!: lock_kept)
        with told free have sent: "published_between held now issued broker other [batch] w1 w4 [?job]"
          by (auto simp: pb)
        show ?thesis
        proof (cases sent)
          case True
          with resolved(2) sent show ?thesis by auto
        next
          case False
          with resolved(2) have un: "unlock locks ?key (ans_token a) w4 = (q, w2)" by simp
          note law = locks.unlock_law [OF un]
          from law consider "held w2 = held w4" | "held w2 = (held w4)(?key := None)"
            by (cases q) (auto split: if_splits)
          then have kept: "lock_moves held now [batch] w1 w2 \<and>
              (held w2 ?key = None \<or> locked_for held now batch (ans_token a) w1 w2)"
          proof cases
            case 1
            with w4 free law show ?thesis by (auto intro!: lock_kept)
          next
            case 2
            with w4(1) show ?thesis by (auto intro!: lock_released)
          qed
          have "live (held w1) (now w2) ?key = None"
            using sent law dead_later [of "held w1" "now w4" ?key "now w2"] by (auto simp: pb)
          with sent law kept have "published_between held now issued broker other [batch] w1 w2 [?job]"
            by (simp add: pb)
          moreover from law have "case q of Inl e \<Rightarrow> external e | Inr u \<Rightarrow> True" by (cases q) auto
          ultimately show ?thesis by (auto split: sum.splits)
        qed
      qed
    qed
  qed
  then show "(case q of Inl e \<Rightarrow> external e | Inr u \<Rightarrow> True)"
    and "\<exists>jobs. published_between held now issued broker other [batch] w1 w2 jobs \<and>
      (case q of Inl e \<Rightarrow> True
       | Inr u \<Rightarrow> jobs \<noteq> [] \<or> live (held w1) (now w1) (buildLockKey batch) \<noteq> None)"
    by blast+
qed

text \<open>Batches are published one after another, those with a key of their own independently.\<close>

lemma published_between_append:
  assumes 1: "published_between held now issued broker other [b] w w1 ps"
    and 2: "published_between held now issued broker other bs w1 w2 qs"
    and own: "buildLockKey b \<notin> buildLockKey ` set bs"
  shows "published_between held now issued broker other (b # bs) w w2 (ps @ qs)"
proof -
  note pb = published_between_def
  have time: "now w \<le> now w1" "now w1 \<le> now w2" using 1 2 by (simp_all add: pb)
  let ?lock = "\<lambda>p. held w2 (job_lockKey p) = None \<or> locked_for held now (job_repos p) (job_lockToken p) w w2"
  have "list_all (\<lambda>p. job_lockKey p = buildLockKey (job_repos p) \<and>
      job_lockToken p \<in> issued w2 - issued w \<and> live (held w) (now w2) (job_lockKey p) = None) ps"
    using 1 2 dead_later [of "held w" "now w1" _ "now w2"] by (auto simp: pb list_all_iff)
  moreover have "?lock p" if "p \<in> set ps" for p
  proof -
    from published_between_repos [OF 1 that] have p: "job_lockKey p = buildLockKey b" "job_repos p = b" by simp_all
    with published_between_kept [OF 2 own] have same: "held w2 (job_lockKey p) = held w1 (job_lockKey p)" by simp
    from 1 that have "held w1 (job_lockKey p) = None \<or> locked_for held now (job_repos p) (job_lockToken p) w w1"
      unfolding pb list_all_iff by blast
    with same p show ?thesis unfolding locked_for_def using time by (metis le_trans)
  qed
  ultimately have ps: "list_all (\<lambda>p. job_lockKey p = buildLockKey (job_repos p) \<and>
      job_lockToken p \<in> issued w2 - issued w \<and> live (held w) (now w2) (job_lockKey p) = None \<and> ?lock p) ps"
    unfolding list_all_iff by blast
  have "held w1 (job_lockKey p) = held w (job_lockKey p)" if "p \<in> set qs" for p
  proof -
    from published_between_repos [OF 2 that]
    have "job_repos p \<in> set bs" "job_lockKey p = buildLockKey (job_repos p)" .
    with own have "job_lockKey p \<noteq> buildLockKey b" by (metis image_eqI)
    with published_between_kept [OF 1] show ?thesis by simp
  qed
  then have "list_all (\<lambda>p. job_lockKey p = buildLockKey (job_repos p) \<and>
      job_lockToken p \<in> issued w2 - issued w \<and> live (held w) (now w2) (job_lockKey p) = None) qs"
    using 1 2 by (auto simp: pb list_all_iff live_def)
  moreover have "?lock p" if "p \<in> set qs" for p
    using 2 that time unfolding pb list_all_iff locked_for_def by (meson le_trans)
  ultimately have qs: "list_all (\<lambda>p. job_lockKey p = buildLockKey (job_repos p) \<and>
      job_lockToken p \<in> issued w2 - issued w \<and> live (held w) (now w2) (job_lockKey p) = None \<and> ?lock p) qs"
    unfolding list_all_iff by blast
  have "subseq (map job_repos (ps @ qs)) (b # bs)"
    using list_emb_append_mono [of "(=)" "map job_repos ps" "[b]" "map job_repos qs" bs] 1 2
    by (simp add: pb)
  moreover have "lock_moves held now (b # bs) w w2"
    using lock_moves_trans [of held now "[b]" w w1 bs w2] 1 2 time by (simp add: pb)
  ultimately show ?thesis using 1 2 ps qs by (auto simp: pb)
qed

lemma publish_all_outcome:
  assumes open_queue: "RabbitScanQueue_open createChannel w0 = (Inr session, w)"
  shows "for_each bs (publishBatch locks session) w1 = (q, w2) \<Longrightarrow> distinct (map buildLockKey bs) \<Longrightarrow>
    (case q of Inl e \<Rightarrow> external e | Inr u \<Rightarrow> True) \<and>
    (\<exists>jobs. published_between held now issued broker other bs w1 w2 jobs \<and>
      (case q of Inl e \<Rightarrow> True
       | Inr u \<Rightarrow> list_all (\<lambda>b. b \<in> job_repos ` set jobs \<or> live (held w1) (now w1) (buildLockKey b) \<noteq> None) bs))"
proof (induction bs arbitrary: w1)
  case Nil
  then show ?case by (auto simp: published_between_def lock_moves_same)
next
  case (Cons b bs)
  note pb = published_between_def
  from Cons.prems(1) [unfolded for_each.simps] show ?case
  proof (cases rule: await_outcome)
    case (rejected e)
    from publishBatch_outcome [OF open_queue rejected(1)] obtain jobs
      where "external e" "published_between held now issued broker other [b] w1 w2 jobs" by auto
    moreover from this have "subseq (map job_repos jobs) (b # bs)"
      using list_emb_append2 [of "(=)" "map job_repos jobs" "[b]" bs]
      by (auto simp: pb dest: subseq_order.trans [of _ "[b]" "b # bs"])
    moreover from \<open>published_between held now issued broker other [b] w1 w2 jobs\<close>
    have "lock_moves held now (b # bs) w1 w2" by (auto simp: pb lock_moves_def)
    ultimately have "published_between held now issued broker other (b # bs) w1 w2 jobs"
      by (simp add: pb)
    with \<open>external e\<close> rejected(2) show ?thesis by auto
  next
    case (resolved u w3)
    from publishBatch_outcome [OF open_queue resolved(1)] obtain ps
      where ps: "published_between held now issued broker other [b] w1 w3 ps"
        "ps \<noteq> [] \<or> live (held w1) (now w1) (buildLockKey b) \<noteq> None" by auto
    from Cons.IH [OF resolved(2)] Cons.prems(2) obtain qs
      where qs: "case q of Inl e \<Rightarrow> external e | Inr u \<Rightarrow> True"
        "published_between held now issued broker other bs w3 w2 qs"
        "case q of Inl e \<Rightarrow> True | Inr u \<Rightarrow>
           list_all (\<lambda>b. b \<in> job_repos ` set qs \<or> live (held w3) (now w3) (buildLockKey b) \<noteq> None) bs"
      by auto
    from Cons.prems(2) have own: "buildLockKey b \<notin> buildLockKey ` set bs" by simp
    have "job_repos ` set ps \<subseteq> {b}" using published_between_repos(1) [OF ps(1)] by auto
    with ps(2) have first: "b \<in> job_repos ` set (ps @ qs) \<or> live (held w1) (now w1) (buildLockKey b) \<noteq> None"
      by (cases ps) auto
    have "live (held w1) (now w1) (buildLockKey b') \<noteq> None"
      if "b' \<in> set bs" "live (held w3) (now w3) (buildLockKey b') \<noteq> None" for b'
    proof -
      from that(1) own have "buildLockKey b' \<noteq> buildLockKey b" by (metis image_eqI)
      with published_between_kept [OF ps(1)] have "held w3 (buildLockKey b') = held w1 (buildLockKey b')" by simp
      moreover from ps(1) have "now w1 \<le> now w3" by (simp add: pb)
      moreover from calculation(1) have "live (held w1) (now w3) (buildLockKey b') = live (held w3) (now w3) (buildLockKey b')"
        by (simp add: live_def)
      ultimately show ?thesis using that(2) still_live by metis
    qed
    with qs(3) first have "case q of Inl e \<Rightarrow> True | Inr u \<Rightarrow> list_all
        (\<lambda>b. b \<in> job_repos ` set (ps @ qs) \<or> live (held w1) (now w1) (buildLockKey b) \<noteq> None) (b # bs)"
      by (auto simp: list_all_iff split: sum.splits)
    with published_between_append [OF ps(1) qs(2) own] qs(1) show ?thesis by blast
  qed
qed

lemma addScanJobs_outcome:
  assumes run: "addScanJobs locks (RabbitScanQueue_open createChannel) repos w = (q, w')"
    and own: "distinct (map buildLockKey (batches_of SCAN_BATCH_SIZE (sort repos)))"
  shows "(case q of Inl e \<Rightarrow> external e | Inr u \<Rightarrow> True)"
    and "\<exists>jobs. published_between held now issued broker other (batches_of SCAN_BATCH_SIZE (sort repos)) w w' jobs \<and>
      (case q of Inl e \<Rightarrow> True
       | Inr u \<Rightarrow> list_all (\<lambda>b. b \<in> job_repos ` set jobs \<or> live (held w) (now w) (buildLockKey b) \<noteq> None)
           (batches_of SCAN_BATCH_SIZE (sort repos)))"
proof -
  let ?bs = "batches_of SCAN_BATCH_SIZE (sort repos)"
  note pb = published_between_def
  have chunk: "chunk (sort repos) SCAN_BATCH_SIZE = Some ?bs"
    unfolding chunk_def by (subst chunk_loop_returns) (simp_all add: SCAN_BATCH_SIZE_def)
  have "(case q of Inl e \<Rightarrow> external e | Inr u \<Rightarrow> True) \<and>
    (\<exists>jobs. published_between held now issued broker other ?bs w w' jobs \<and>
      (case q of Inl e \<Rightarrow> True
       | Inr u \<Rightarrow> list_all (\<lambda>b. b \<in> job_repos ` set jobs \<or> live (held w) (now w) (buildLockKey b) \<noteq> None) ?bs))"
    using run unfolding addScanJobs_def
  proof (cases rule: await_outcome)
    case (rejected e)
    then have "createChannel w = (Inl e, w')"
      unfolding RabbitScanQueue_open_def by (elim await_outcome) auto
    from source.getChannel_law [OF this] have "published_between held now issued broker other ?bs w w' []" "external e"
      by (simp_all add: pb lock_moves_same)
    with rejected(2) show ?thesis by auto
  next
    case (resolved session w1)
    from resolved(1) obtain ch where ch: "createChannel w = (Inr ch, w1)" "close session = close_channel ch"
      unfolding RabbitScanQueue_open_def by (elim await_outcome) auto
    from source.getChannel_law [OF ch(1)]
    have chan: "amqp_channel ch broker (\<lambda>w. (held w, now w, issued w, other w))"
      and w1: "broker w1 = broker w" "held w1 = held w" "now w1 = now w" "issued w1 = issued w" "other w1 = other w"
      by simp_all
    obtain q2 w2 where loop: "for_each ?bs (publishBatch locks session) w1 = (q2, w2)" by fastforce
    obtain q3 w3 where shut: "close_channel ch w2 = (q3, w3)" by fastforce
    from resolved(2) chunk loop shut ch(2)
    have q: "q = (case q3 of Inl e \<Rightarrow> Inl e | Inr u \<Rightarrow> q2)" "w3 = w'"
      by (auto simp: finally_do_def split: sum.splits)
    from publish_all_outcome [OF resolved(1) loop own] obtain jobs where jobs:
      "case q2 of Inl e \<Rightarrow> external e | Inr u \<Rightarrow> True"
      "published_between held now issued broker other ?bs w1 w2 jobs"
      "case q2 of Inl e \<Rightarrow> True
       | Inr u \<Rightarrow> list_all (\<lambda>b. b \<in> job_repos ` set jobs \<or> live (held w1) (now w1) (buildLockKey b) \<noteq> None) ?bs"
      by blast
    from amqp_channel.close_law [OF chan shut] have w3: "broker w3 = broker w2" "held w3 = held w2"
      "now w3 = now w2" "issued w3 = issued w2" "other w3 = other w2" "case q3 of Inl e \<Rightarrow> external e | Inr u \<Rightarrow> True"
      by simp_all
    have "published_between held now issued broker other ?bs w w' jobs"
      using jobs(2) w1 w3 q(2) by (simp add: pb lock_moves_def locked_for_def)
    moreover have "case q of Inl e \<Rightarrow> external e | Inr u \<Rightarrow> True"
      using q(1) jobs(1) w3(6) by (auto split: sum.splits)
    moreover have "case q of Inl e \<Rightarrow> True
       | Inr u \<Rightarrow> list_all (\<lambda>b. b \<in> job_repos ` set jobs \<or> live (held w) (now w) (buildLockKey b) \<noteq> None) ?bs"
      using q(1) jobs(3) w1 by (auto split: sum.splits)
    ultimately show ?thesis by blast
  qed
  then show "(case q of Inl e \<Rightarrow> external e | Inr u \<Rightarrow> True)"
    and "\<exists>jobs. published_between held now issued broker other ?bs w w' jobs \<and>
      (case q of Inl e \<Rightarrow> True
       | Inr u \<Rightarrow> list_all (\<lambda>b. b \<in> job_repos ` set jobs \<or> live (held w) (now w) (buildLockKey b) \<noteq> None) ?bs)"
    by blast+
qed

end

text \<open>Different batches of one run have different locks.\<close>

lemma batch_keys_distinct:
  assumes "distinct (concat bs)" and "list_all (\<lambda>b. b \<noteq> [] \<and> list_all (plain (CHR '','')) b) bs"
  shows "distinct (map buildLockKey bs)"
  using assms
proof (induction bs)
  case (Cons b bs)
  have "buildLockKey b \<notin> buildLockKey ` set bs"
  proof
    assume "buildLockKey b \<in> buildLockKey ` set bs"
    then obtain b' where b': "b' \<in> set bs" "buildLockKey b = buildLockKey b'" by blast
    with Cons.prems have "mset b = mset b'"
      using buildLockKey_iff [of b b'] by (auto simp: list_all_iff)
    then have "set b = set b'" by (metis set_mset_mset)
    with b'(1) Cons.prems have "set b \<inter> set (concat bs) \<noteq> {}" by (cases b) auto
    with Cons.prems(1) show False by simp
  qed
  with Cons show ?case by simp
qed simp

lemma producer_batches:
  assumes "distinct repos" and "list_all (plain (CHR '','')) repos" and "0 < sz"
  shows "distinct (map buildLockKey (batches_of sz (sort repos)))"
proof (rule batch_keys_distinct)
  have c: "concat (batches_of sz (sort repos)) = sort repos" using assms(3) by (rule concat_batches_of)
  then show "distinct (concat (batches_of sz (sort repos)))" using assms(1) by simp
  have "set b \<subseteq> set repos" if "b \<in> set (batches_of sz (sort repos))" for b
    using that c by (metis UN_upper set_concat set_sort)
  with assms show "list_all (\<lambda>b. b \<noteq> [] \<and> list_all (plain (CHR '','')) b) (batches_of sz (sort repos))"
    using batches_of_sizes [OF assms(3)] by (fastforce simp: list_all_iff)
qed

lemma chunk_diverges:
  assumes "chunk_loop items sz i bs = Some out"
  shows "sz = 0 \<longrightarrow> length items \<le> i"
proof (rule chunk_loop.raw_induct [where P = "\<lambda>items sz i bs out. sz = 0 \<longrightarrow> length items \<le> i", OF _ assms])
  fix rec :: "'b list \<Rightarrow> nat \<Rightarrow> nat \<Rightarrow> 'b list list \<Rightarrow> 'b list list option" and items sz i bs out
  assume "\<And>items sz i bs out. rec items sz i bs = Some out \<Longrightarrow> sz = 0 \<longrightarrow> length items \<le> i"
    and "(if i < length items then rec items sz (i + sz) (bs @ [slice i (i + sz) items]) else Some bs) = Some out"
  then show "sz = 0 \<longrightarrow> length items \<le> i" by (force split: if_splits)
qed

section \<open>An instance for evaluation\<close>

text \<open>Redis, a broker and a channel whose buffer may be full.\<close>

record queue_world = redis_world +
  qw_broker :: "broker_event list"
  qw_closed :: bool
  qw_full :: bool

definition mem_queue_channel :: "'z queue_world_scheme channel" where
  "mem_queue_channel = pressured qw_full (logged qw_broker (\<lambda>xs w. w\<lparr>qw_broker := xs\<rparr>) (\<lambda>w _. qw_closed w))"

abbreviation mem_lock_store :: "'z redis_world_scheme lock_store" where
  "mem_lock_store \<equiv> RedisLockStore mem_redis mem_uuid"

lemma mem_queue_amqp_channel:
  assumes "\<And>xs w. view (w\<lparr>qw_broker := xs\<rparr>) = view w"
  shows "amqp_channel mem_queue_channel qw_broker view"
  unfolding mem_queue_channel_def
  by (intro pressured_amqp_channel logged_amqp_channel) (simp_all add: assms)

lemma mem_producer:
  "producer_env mem_lock_store rw_keys rw_now mem_issued (ret mem_queue_channel)
     (qw_broker :: queue_world \<Rightarrow> _) qw_full"
proof (rule producer_env.intro)
  show "lock_contract mem_lock_store rw_keys rw_now mem_issued (\<lambda>w :: queue_world. (qw_broker w, qw_full w))"
    by (rule redis_locks.contract, rule mem_redis_locks) simp_all
  have "amqp_channel mem_queue_channel qw_broker
      (\<lambda>w :: queue_world. (rw_keys w, rw_now w, mem_issued w, qw_full w))"
    by (rule mem_queue_amqp_channel) (simp add: mem_issued_def)
  then show "channel_source (ret mem_queue_channel) qw_broker
      (\<lambda>w :: queue_world. (rw_keys w, rw_now w, mem_issued w, qw_full w))"
    by unfold_locales simp
qed

interpretation mem_producer: producer_env mem_lock_store rw_keys rw_now mem_issued
    "ret mem_queue_channel" "qw_broker :: queue_world \<Rightarrow> _" qw_full
  by (rule mem_producer)

definition idle_queue :: "bool \<Rightarrow> queue_world" where
  "idle_queue full = \<lparr>rw_keys = Map.empty, rw_now = 0, rw_uuids = 0, rw_down = False,
     qw_broker = [], qw_closed = False, qw_full = full\<rparr>"

definition mem_addScanJobs :: "string list \<Rightarrow> (queue_world, unit) async" where
  "mem_addScanJobs = addScanJobs mem_lock_store (RabbitScanQueue_open (ret mem_queue_channel))"

lemma mem_addScanJobs_one:
  "mem_addScanJobs [r] =
     finally_do (for_each [[r]] (publishBatch mem_lock_store
         \<lparr>send = (\<lambda>payload. sendToQueue mem_queue_channel QUEUE_NAME (Text (scan_job_json payload)) no_headers),
          close = close_channel mem_queue_channel\<rparr>))
       (close_channel mem_queue_channel)"
proof -
  have "chunk [r] SCAN_BATCH_SIZE = Some [[r]]"
    by (simp add: chunk_def chunk_loop_returns SCAN_BATCH_SIZE_def batches_of_step)
  then show ?thesis
    by (simp add: mem_addScanJobs_def addScanJobs_def RabbitScanQueue_open_def)
qed

lemmas queue_run_defs =
  publishBatch_def RedisLockStore_def acquireForBatch_def lock_acquire_def lock_unlock_def
  redis_instance_defs io_defs mem_queue_channel_def pressured_def logged_def Let_def kv_set_nx_def
  kv_set_def live_def calcDynamicTTL_linear UNLOCK_IF_OWNER_def kv_del_count_def kv_del_def
  idle_queue_def

section \<open>Properties\<close>

text \<open>\<open>chunk\<close> returns for every list and the batch size of the program: the batches are the list
  cut in order, none is empty, none is longer than 50 and there are as few as possible. With a
  batch size of 0 it would not return on any list but the empty one.\<close>

lemma chunk_partitions:
  "(\<exists>batches. chunk items SCAN_BATCH_SIZE = Some batches \<and> concat batches = items \<and>
     list_all (\<lambda>b. b \<noteq> [] \<and> length b \<le> 50) batches \<and> length batches = (length items + 49) div 50) \<and>
   chunk (x # xs) 0 = None"
proof (rule conjI)
  have "chunk items SCAN_BATCH_SIZE = Some (batches_of 50 items)"
    by (simp add: chunk_def chunk_loop_returns SCAN_BATCH_SIZE_def)
  then show "\<exists>batches. chunk items SCAN_BATCH_SIZE = Some batches \<and> concat batches = items \<and>
     list_all (\<lambda>b. b \<noteq> [] \<and> length b \<le> 50) batches \<and> length batches = (length items + 49) div 50"
    using concat_batches_of [of 50 items] batches_of_sizes [of 50 _ items] length_batches_of [of 50 items]
    by (auto simp: list_all_iff)
  show "chunk (x # xs) 0 = None"
    using chunk_diverges [of "x # xs" 0 0 "[]"] by (cases "chunk (x # xs) 0") (auto simp: chunk_def)
qed

text \<open>A run of the producer that ends without an error has put every repository of the list on the
  queue exactly once, with its batch of at most 50, unless its batch was locked when the run began.
  Every new job carries the key of its batch and a token nobody had before, and its lock was free.\<close>

lemma addScanJobs_covers:
  assumes env: "producer_env locks held now issued createChannel broker other"
    and repos: "distinct repos" "list_all (plain (CHR '','')) repos"
    and run: "addScanJobs locks (RabbitScanQueue_open createChannel) repos w = (Inr u, w')"
  shows "other w' = other w \<and> (\<exists>jobs. jobs_on_queue (broker w') = jobs_on_queue (broker w) @ jobs \<and>
    distinct (concat (map job_repos jobs)) \<and> set (concat (map job_repos jobs)) \<subseteq> set repos \<and>
    list_all (\<lambda>r. r \<in> set (concat (map job_repos jobs)) \<or>
      (\<exists>b. r \<in> set b \<and> live (held w) (now w) (buildLockKey b) \<noteq> None)) repos \<and>
    list_all (\<lambda>p. length (job_repos p) \<le> 50 \<and> job_lockKey p = buildLockKey (job_repos p) \<and>
      live (held w) (now w') (job_lockKey p) = None \<and> job_lockToken p \<in> issued w' - issued w) jobs)"
proof -
  let ?bs = "batches_of SCAN_BATCH_SIZE (sort repos)"
  have sz: "0 < SCAN_BATCH_SIZE" by (simp add: SCAN_BATCH_SIZE_def)
  from producer_env.addScanJobs_outcome [OF env run producer_batches [OF repos sz]] obtain jobs
    where jobs: "published_between held now issued broker other ?bs w w' jobs"
      "list_all (\<lambda>b. b \<in> job_repos ` set jobs \<or> live (held w) (now w) (buildLockKey b) \<noteq> None) ?bs"
    by auto
  have c: "concat ?bs = sort repos" by (rule concat_batches_of [OF sz])
  have sub: "subseq (concat (map job_repos jobs)) (sort repos)"
    using jobs(1) c subseq_concat [of "map job_repos jobs" ?bs] by (simp add: published_between_def)
  have "distinct (concat (map job_repos jobs))"
    using sub repos(1) subseq_distinct by (metis distinct_sort)
  moreover have "set (concat (map job_repos jobs)) \<subseteq> set repos"
    using sub by (metis set_sort subseq_set)
  moreover have "list_all (\<lambda>r. r \<in> set (concat (map job_repos jobs)) \<or>
      (\<exists>b. r \<in> set b \<and> live (held w) (now w) (buildLockKey b) \<noteq> None)) repos"
  proof -
    have "\<exists>b \<in> set ?bs. r \<in> set b" if "r \<in> set repos" for r
      using that c by (metis UN_E set_concat set_sort)
    with jobs(2) show ?thesis by (fastforce simp: list_all_iff)
  qed
  moreover have "list_all (\<lambda>p. length (job_repos p) \<le> 50 \<and> job_lockKey p = buildLockKey (job_repos p) \<and>
      live (held w) (now w') (job_lockKey p) = None \<and> job_lockToken p \<in> issued w' - issued w) jobs"
    using jobs(1) batches_of_sizes [OF sz] published_between_repos(1) [OF jobs(1)]
    by (auto simp: list_all_iff published_between_def SCAN_BATCH_SIZE_def)
  moreover have "other w' = other w" using jobs(1) by (simp add: published_between_def)
  ultimately show ?thesis using published_between_jobs [OF jobs(1)] by blast
qed

lemma idle_run:
  "mem_addScanJobs [''o/r''] (idle_queue full) =
     (Inr (), (idle_queue full)\<lparr>rw_keys := (if full then Map.empty else [buildLockKey [''o/r''] \<mapsto> ([], 42)]),
        rw_uuids := 1, qw_broker := [Sent QUEUE_NAME (Text (scan_job_json
          \<lparr>job_repos = [''o/r''], job_lockKey = buildLockKey [''o/r''], job_lockToken = []\<rparr>)) no_headers]\<rparr>)"
  unfolding mem_addScanJobs_one by (cases full) (simp_all add: queue_run_defs fun_upd_idem)

text \<open>A lock that was set between two times for the time of its batch, and when it is alive.\<close>

definition lock_time :: "(string \<Rightarrow> (string \<times> nat) option) \<Rightarrow> nat \<Rightarrow> nat \<Rightarrow> string list \<Rightarrow> string \<Rightarrow> bool" where
  "lock_time locked from until b token \<longleftrightarrow>
     (\<exists>t. from \<le> t \<and> t \<le> until \<and> 1 \<le> length b \<and> length b \<le> 50 \<and>
        locked (buildLockKey b) = Some (token, t + (12 * length b + 30)) \<and>
        live locked (t + 41) (buildLockKey b) = Some token \<and> live locked (t + 630) (buildLockKey b) = None)"



text \<open>A channel that answers \<open>false\<close> has taken the message: it only asks the sender to slow down.
  The producer releases the lock all the same, so the next run, a minute later, sends the same
  repositories again while the first job waits, and two workers can then scan them at once. Both
  runs end without an error.\<close>

lemma full_buffer_duplicates_jobs:
  "\<exists>w1 w2. mem_addScanJobs [''o/r''] (idle_queue True) = (Inr (), w1) \<and>
     mem_addScanJobs [''o/r''] (w1\<lparr>rw_now := 60\<rparr>) = (Inr (), w2) \<and>
     map job_repos (jobs_on_queue (qw_broker w2)) = [[''o/r''], [''o/r'']] \<and>
     live (rw_keys w1) (rw_now w1) (buildLockKey [''o/r'']) = None"
proof -
  have jobs: "jobs_on_queue [Sent QUEUE_NAME (Text (scan_job_json p)) h, Sent QUEUE_NAME (Text (scan_job_json p')) h']
      = [p, p']" for p p' h h'
    using jobs_on_queue_simps(2) [of "[Sent QUEUE_NAME (Text (scan_job_json p)) h]"] by simp
  show ?thesis
    unfolding idle_run unfolding mem_addScanJobs_one by (simp add: queue_run_defs jobs fun_upd_idem)
qed

end
