(* ===== verification/Scan_Processor.thy ===== *)
theory Scan_Processor
  imports Github Scan_Producer
begin

text \<open>
  \<open>git-release-notifier-be/src/workers/scanner\<close>: \<open>ScanBatchProcessor\<close> (\<open>scanner.processor.ts\<close>)
  and its decorator (\<open>infrastructure/decorators\<close>), with the notifier that puts release messages
  on the email queue (\<open>modules/sender/adapters/queue-notifier.ts\<close>).

  A batch is processed by up to five loops that share a cursor. A loop gives way at the query for
  the outdated subscribers and at the notifications, so the loops are the workers of a \<open>pool\<close>, and
  \<open>pool_step\<close> runs one worker up to its next \<open>await\<close>; which worker runs next is the argument
  \<open>pick\<close>, the theorems hold for every choice. \<open>watched\<close> is the same batch with a notifier that also
  writes down its calls and whether they succeeded.
\<close>

section \<open>Notifications\<close>

definition QueueNotifier :: "(email_message \<Rightarrow> ('w, unit) async) \<Rightarrow> release_payload \<Rightarrow> ('w, unit) async" where
  "QueueNotifier publish p =
     publish (Release (releaseIdempotencyKey (rp_email p) (rp_repo p) (rp_tag p))
       (rp_email p) (rp_repo p) (rp_tag p) (rp_unsubscribeToken p))"

definition release_message :: "release_payload \<Rightarrow> email_message" where
  "release_message p = Release (releaseIdempotencyKey (rp_email p) (rp_repo p) (rp_tag p))
     (rp_email p) (rp_repo p) (rp_tag p) (rp_unsubscribeToken p)"

text \<open>The payloads among the messages of the queue.\<close>

definition payload_of :: "email_message \<Rightarrow> release_payload option" where
  "payload_of m = (case m of
      Release k e r t u \<Rightarrow> Some \<lparr>rp_email = e, rp_repo = r, rp_tag = t, rp_unsubscribeToken = u\<rparr>
    | Confirmation k e r t g \<Rightarrow> None)"

definition notified :: "email_message list \<Rightarrow> release_payload list" where
  "notified = List.map_filter payload_of"

lemma notified_simps [simp]:
  "notified [] = []" "notified (ms @ ms') = notified ms @ notified ms'"
  "notified [release_message p] = [p]"
  by (simp_all add: notified_def map_filter_def payload_of_def release_message_def)

lemma QueueNotifier_outbox:
  assumes "outbox publish mailq rest"
  shows "outbox (QueueNotifier publish) (\<lambda>w. notified (mailq w)) rest"
proof
  fix p w q w'
  assume "QueueNotifier publish p w = (q, w')"
  then have "publish (release_message p) w = (q, w')"
    by (simp add: QueueNotifier_def release_message_def)
  from outbox.publish_law [OF assms this]
  show "rest w' = rest w \<and> (case q of
      Inl e \<Rightarrow> external e \<and> (notified (mailq w') = notified (mailq w) \<or> notified (mailq w') = notified (mailq w) @ [p])
    | Inr u \<Rightarrow> notified (mailq w') = notified (mailq w) @ [p])"
    by (cases q) auto
qed

section \<open>The processor\<close>

text \<open>\<open>latestReleases[repoName]\<close> finds the tag, or a member every object inherits. The query for the
  latter passes a value that is not a string to the database client; what the client does with it
  is \<open>foreign_query\<close>.\<close>

datatype release_tag = Tag string | Inherited_Member

definition js_get :: "'v js_object \<Rightarrow> string \<Rightarrow> ('v + unit) option" where
  "js_get obj k = (case map_of obj k of
      Some v \<Rightarrow> Some (Inl v)
    | None \<Rightarrow> if k \<in> set inherited then Some (Inr ()) else None)"

record 'w processor_deps =
  provider :: "string list \<Rightarrow> ('w, (string \<times> string) list) async"
  dep_repository :: "'w subscription_repository"
  notify :: "release_payload \<Rightarrow> ('w, unit) async"
  foreign_query :: "string \<Rightarrow> ('w, unit) async"

definition ProcessorDeps :: "(string list \<Rightarrow> ('w, (string \<times> string) list) async) \<Rightarrow> 'w subscription_repository \<Rightarrow>
    (release_payload \<Rightarrow> ('w, unit) async) \<Rightarrow> (string \<Rightarrow> ('w, unit) async) \<Rightarrow> 'w processor_deps" where
  "ProcessorDeps provide R send_note foreign =
     \<lparr>provider = provide, dep_repository = R, notify = send_note, foreign_query = foreign\<rparr>"

definition pending_items :: "string list \<Rightarrow> string js_object \<Rightarrow> (string \<times> release_tag) list" where
  "pending_items repos latestReleases =
     List.map_filter (\<lambda>repoName. case js_get latestReleases repoName of
        None \<Rightarrow> None
      | Some (Inr u) \<Rightarrow> Some (repoName, Inherited_Member)
      | Some (Inl newTag) \<Rightarrow> if newTag = [] then None else Some (repoName, Tag newTag)) repos"

text \<open>The two halves of \<open>processRepo\<close>: the query and the notifications.\<close>

definition processRepo_query :: "'w processor_deps \<Rightarrow> string \<times> release_tag \<Rightarrow>
    ('w, release_payload list) async" where
  "processRepo_query deps item =
     (case item of
        (repoName, Tag newTag) \<Rightarrow>
          await (getOutdatedSubscribers (dep_repository deps) repoName newTag) (\<lambda>subscribers.
            ret (map (\<lambda>s. \<lparr>rp_email = out_email s, rp_repo = repoName, rp_tag = newTag,
                             rp_unsubscribeToken = out_unsubscribeToken s\<rparr>) subscribers))
      | (repoName, Inherited_Member) \<Rightarrow> await (foreign_query deps repoName) (\<lambda>_. ret []))"

definition processRepo_notify :: "'w processor_deps \<Rightarrow> release_payload list \<Rightarrow> ('w, unit) async" where
  "processRepo_notify deps ps =
     (if ps = [] then ret () else await (all_settled (map (notify deps) ps)) (\<lambda>results. ret ()))"

definition processRepo :: "'w processor_deps \<Rightarrow> string \<times> release_tag \<Rightarrow> ('w, unit) async" where
  "processRepo deps item = await (processRepo_query deps item) (processRepo_notify deps)"

definition REPO_CONCURRENCY :: nat where "REPO_CONCURRENCY = 5"

text \<open>A loop of the pool: at its condition, waiting for the query of an item, waiting for the
  notifications of an item, ended, rejected.\<close>

datatype worker = Loop | Querying nat | Notifying nat "release_payload list" | Ended | Rejected js_error

record pool =
  cursor :: nat
  workers :: "worker list"

fun active :: "worker \<Rightarrow> bool" where
  "active Ended = False" | "active (Rejected e) = False" | "active _ = True"

definition start_pool :: "'i list \<Rightarrow> pool" where
  "start_pool items = \<lparr>cursor = 0, workers = replicate (min REPO_CONCURRENCY (length items)) Loop\<rparr>"

fun worker_step :: "'w processor_deps \<Rightarrow> (string \<times> release_tag) list \<Rightarrow> worker \<Rightarrow> nat \<Rightarrow> 'w \<Rightarrow>
    worker \<times> nat \<times> 'w" where
  "worker_step deps items Loop c w =
     (if c < length items then (Querying c, c + 1, w) else (Ended, c, w))"
| "worker_step deps items (Querying i) c w =
     (case processRepo_query deps (items ! i) w of
        (Inl e, w') \<Rightarrow> (Rejected e, c, w')
      | (Inr ps, w') \<Rightarrow> (Notifying i ps, c, w'))"
| "worker_step deps items (Notifying i ps) c w =
     (case processRepo_notify deps ps w of
        (Inl e, w') \<Rightarrow> (Rejected e, c, w')
      | (Inr _, w') \<Rightarrow> (Loop, c, w'))"
| "worker_step deps items Ended c w = (Ended, c, w)"
| "worker_step deps items (Rejected e) c w = (Rejected e, c, w)"

definition pool_step :: "'w processor_deps \<Rightarrow> (string \<times> release_tag) list \<Rightarrow> nat \<Rightarrow> pool \<times> 'w \<Rightarrow> pool \<times> 'w" where
  "pool_step deps items j pw =
     (case pw of (p, w) \<Rightarrow>
        (case worker_step deps items (workers p ! j) (cursor p) w of
           (s, c, w') \<Rightarrow> (\<lparr>cursor = c, workers = (workers p)[j := s]\<rparr>, w')))"

text \<open>Every step of an active worker brings the end closer.\<close>

fun weight :: "worker \<Rightarrow> nat" where
  "weight Loop = 1" | "weight (Querying i) = 4" | "weight (Notifying i ps) = 3"
| "weight Ended = 0" | "weight (Rejected e) = 0"

definition pool_measure :: "'i list \<Rightarrow> pool \<Rightarrow> nat" where
  "pool_measure items p = 4 * (length items - cursor p) + sum_list (map weight (workers p))"

lemma weight_pos: "active s \<Longrightarrow> 0 < weight s"
  by (cases s) auto

lemma worker_step_decreases:
  assumes "active s" and "worker_step deps items s c w = (s', c', w')"
  shows "4 * (length items - c') + weight s' < 4 * (length items - c) + weight s"
  using assms by (cases s) (auto split: if_splits prod.splits sum.splits)

lemma sum_list_update_weight:
  assumes "j < length ss"
  shows "sum_list (map weight (ss[j := s])) + weight (ss ! j) = sum_list (map weight ss) + weight s"
  using assms
proof (induction ss arbitrary: j)
  case (Cons x xs)
  then show ?case by (cases j) (auto simp: ac_simps)
qed simp

lemma pool_step_decreases:
  assumes "j < length (workers p)" and "active (workers p ! j)"
  shows "pool_measure items (fst (pool_step deps items j (p, w))) < pool_measure items p"
proof -
  obtain s c w' where st: "worker_step deps items (workers p ! j) (cursor p) w = (s, c, w')"
    by (metis prod_cases3)
  from worker_step_decreases [OF assms(2) st] sum_list_update_weight [OF assms(1), of s]
  show ?thesis by (simp add: pool_step_def st pool_measure_def)
qed

section \<open>\<open>Promise.all\<close> over the loops\<close>

definition first_active :: "worker list \<Rightarrow> nat \<Rightarrow> nat" where
  "first_active ss j =
     (if j < length ss \<and> active (ss ! j) then j
      else length (takeWhile (\<lambda>s. \<not> active s) ss))"

fun rejected_with :: "worker \<Rightarrow> js_error option" where
  "rejected_with (Rejected e) = Some e" | "rejected_with _ = None"

definition rejection :: "pool \<Rightarrow> js_error option" where
  "rejection p = (case List.map_filter rejected_with (workers p) of [] \<Rightarrow> None | e # es \<Rightarrow> Some e)"

lemma first_active_ok:
  assumes "list_ex active ss"
  shows "first_active ss j < length ss \<and> active (ss ! first_active ss j)"
proof -
  have "length (takeWhile (\<lambda>s. \<not> active s) ss) < length ss"
  proof (rule le_neq_implies_less [OF length_takeWhile_le], rule notI)
    assume "length (takeWhile (\<lambda>s. \<not> active s) ss) = length ss"
    then have "takeWhile (\<lambda>s. \<not> active s) ss = ss" by (metis takeWhile_eq_take take_all order_refl)
    then have "\<forall>s \<in> set ss. \<not> active s" by (simp add: takeWhile_eq_all_conv)
    with assms show False by (auto simp: list_ex_iff)
  qed
  then show ?thesis using nth_length_takeWhile by (fastforce simp: first_active_def)
qed

text \<open>The promise settles as soon as a loop rejects; the loops that are still active then go on by
  themselves, outside this function.\<close>

function pool_loop :: "(pool \<Rightarrow> nat) \<Rightarrow> 'w processor_deps \<Rightarrow> (string \<times> release_tag) list \<Rightarrow>
    pool \<times> 'w \<Rightarrow> (js_error + pool) \<times> 'w" where
  "pool_loop pick deps items (p, w) =
     (case rejection p of
        Some e \<Rightarrow> (Inl e, w)
      | None \<Rightarrow>
          if list_ex active (workers p)
          then pool_loop pick deps items (pool_step deps items (first_active (workers p) (pick p)) (p, w))
          else (Inr p, w))"
  by pat_completeness auto
termination
proof (relation "measure (\<lambda>(pick, deps, items, p, w). pool_measure items p)")
  fix pick deps items p w
  assume "rejection p = None" and "list_ex active (workers p)"
  from first_active_ok [OF this(2), of "pick p"]
  have "pool_measure items (fst (pool_step deps items (first_active (workers p) (pick p)) (p, w))) < pool_measure items p"
    by (intro pool_step_decreases) simp_all
  then show "((pick, deps, items, pool_step deps items (first_active (workers p) (pick p)) (p, w)), pick, deps, items, p, w)
      \<in> measure (\<lambda>(pick, deps, items, p, w). pool_measure items p)"
    by (cases "pool_step deps items (first_active (workers p) (pick p)) (p, w)") simp
qed simp

declare pool_loop.simps [simp del]

definition processConcurrently :: "(pool \<Rightarrow> nat) \<Rightarrow> 'w processor_deps \<Rightarrow> (string \<times> release_tag) list \<Rightarrow>
    ('w, unit) async" where
  "processConcurrently pick deps items w =
     (case pool_loop pick deps items (start_pool items, w) of (q, w') \<Rightarrow> (map_sum id (\<lambda>_. ()) q, w'))"

definition process_batch :: "(pool \<Rightarrow> nat) \<Rightarrow> 'w processor_deps \<Rightarrow> string list \<Rightarrow> ('w, unit) async" where
  "process_batch pick deps repos =
     (if repos = [] then ret ()
      else await (provider deps repos) (\<lambda>latestReleases.
             processConcurrently pick deps (pending_items repos latestReleases)))"

text \<open>\<open>withTimer\<close> and the decorator, with the timer and the counters as operations that resolve.\<close>

definition withTimer :: "('w, unit) async \<Rightarrow> ('w, 'a) async \<Rightarrow> ('w, 'a) async" where
  "withTimer stop_timer fn = finally_do fn stop_timer"

definition MeteredScanBatchProcessor :: "('w, unit) async \<Rightarrow> (bool \<Rightarrow> ('w, unit) async) \<Rightarrow>
    (string list \<Rightarrow> ('w, unit) async) \<Rightarrow> string list \<Rightarrow> ('w, unit) async" where
  "MeteredScanBatchProcessor stop_timer tally process repos =
     try_catch
       (await (withTimer stop_timer (process repos)) (\<lambda>_. tally True))
       (\<lambda>error. await (tally False) (\<lambda>_. throw error))"

section \<open>The calls of a run\<close>

text \<open>
  Which notifications a batch tried, and which of them were rejected: \<open>watched deps\<close> is \<open>deps\<close> in a world
  that also keeps the list of the calls of the notifier with their results. The code of the processor runs
  in it unchanged, and does there what it does without (\<open>watched_batch\<close>). \<open>accepted\<close> are the payloads of
  the calls that were not rejected.
\<close>

type_synonym notify_call = "release_payload \<times> (js_error + unit)"

definition unwatched :: "('w, 'a) async \<Rightarrow> ('w \<times> notify_call list, 'a) async" where
  "unwatched m = (\<lambda>(w, calls). case m w of (q, w') \<Rightarrow> (q, (w', calls)))"

definition watched_note :: "(release_payload \<Rightarrow> ('w, unit) async) \<Rightarrow>
    release_payload \<Rightarrow> ('w \<times> notify_call list, unit) async" where
  "watched_note send_note p = (\<lambda>(w, calls). case send_note p w of (q, w') \<Rightarrow> (q, (w', calls @ [(p, q)])))"

definition unwatched_repository :: "'w subscription_repository \<Rightarrow> ('w \<times> notify_call list) subscription_repository" where
  "unwatched_repository R =
     \<lparr>checkIfActiveExists = (\<lambda>email repo. unwatched (checkIfActiveExists R email repo)),
      upsertPending = (\<lambda>email repo. unwatched (upsertPending R email repo)),
      findByConfirmToken = (\<lambda>token. unwatched (findByConfirmToken R token)),
      activate = (\<lambda>i. unwatched (activate R i)),
      findByUnsubscribeToken = (\<lambda>token. unwatched (findByUnsubscribeToken R token)),
      delete_subscription = (\<lambda>i. unwatched (delete_subscription R i)),
      deleteIfPending = (\<lambda>i. unwatched (deleteIfPending R i)),
      findByEmail = (\<lambda>email. unwatched (findByEmail R email)),
      countActive = unwatched (countActive R),
      groupByRepository = unwatched (groupByRepository R),
      getOutdatedSubscribers = (\<lambda>repo tag. unwatched (getOutdatedSubscribers R repo tag)),
      advanceTag = (\<lambda>email repo tag. unwatched (advanceTag R email repo tag))\<rparr>"

definition watched :: "'w processor_deps \<Rightarrow> ('w \<times> notify_call list) processor_deps" where
  "watched deps =
     \<lparr>provider = (\<lambda>repos. unwatched (provider deps repos)),
      dep_repository = unwatched_repository (dep_repository deps),
      notify = watched_note (notify deps),
      foreign_query = (\<lambda>repo. unwatched (foreign_query deps repo))\<rparr>"

definition accepted :: "notify_call multiset \<Rightarrow> release_payload multiset" where
  "accepted C = image_mset fst (filter_mset (\<lambda>c. \<not> isl (snd c)) C)"

lemma accepted_simps [simp]:
  "accepted {#} = {#}" "accepted (C + C') = accepted C + accepted C'"
  "accepted (add_mset (p, q) C) = (if isl q then accepted C else add_mset p (accepted C))"
  by (simp_all add: accepted_def)

lemma accepted_subset: "accepted C \<subseteq># image_mset fst C"
  by (simp add: accepted_def image_mset_subseteq_mono)

lemma accepted_sum: "accepted (\<Sum>i \<in> I. f i) = (\<Sum>i \<in> I. accepted (f i))"
  by (induction I rule: infinite_finite_induct) simp_all

lemma fst_of_sum: "image_mset fst (\<Sum>i \<in> I. f i) = (\<Sum>i \<in> I. image_mset fst (f i))"
  by (induction I rule: infinite_finite_induct) simp_all

lemma all_accepted: "list_all (\<lambda>r. \<not> isl r) rs \<Longrightarrow> length rs = length ps \<Longrightarrow> accepted (mset (zip ps rs)) = mset ps"
  by (induction ps arbitrary: rs) (auto simp: length_Suc_conv split: list.splits)

lemma unwatched_run: "unwatched m (w, calls) = (case m w of (q, w') \<Rightarrow> (q, (w', calls)))"
  by (simp add: unwatched_def)

lemma unwatched_await: "await (unwatched m) (\<lambda>a. unwatched (k a)) = unwatched (await m k)"
  by (rule ext) (auto simp: await_def unwatched_def split: prod.splits sum.splits)

lemma unwatched_ret: "ret a = unwatched (ret a)"
  by (rule ext) (auto simp: ret_def unwatched_def)

lemma watched_query: "processRepo_query (watched deps) item = unwatched (processRepo_query deps item)"
  by (cases item; cases "snd item")
    (simp_all add: processRepo_query_def watched_def unwatched_repository_def unwatched_ret unwatched_await)

lemma watched_settled:
  "\<exists>rs w'. all_settled (map send_note ps) w = (Inr rs, w') \<and> length rs = length ps \<and>
     all_settled (map (watched_note send_note) ps) (w, calls) = (Inr rs, (w', calls @ zip ps rs))"
proof (induction ps arbitrary: w calls)
  case (Cons p ps)
  obtain r w1 where p: "send_note p w = (r, w1)" by fastforce
  from Cons.IH [of w1 "calls @ [(p, r)]"] obtain rs w2 where "all_settled (map send_note ps) w1 = (Inr rs, w2)"
    "length rs = length ps"
    "all_settled (map (watched_note send_note) ps) (w1, calls @ [(p, r)]) = (Inr rs, (w2, (calls @ [(p, r)]) @ zip ps rs))"
    by blast
  moreover have "watched_note send_note p (w, calls) = (r, (w1, calls @ [(p, r)]))" by (simp add: watched_note_def p)
  ultimately show ?case using p by (simp add: await_def)
qed simp

lemma watched_notify:
  "\<exists>rs w'. all_settled (map (notify deps) ps) w = (Inr rs, w') \<and> length rs = length ps \<and>
     processRepo_notify deps ps w = (Inr (), w') \<and>
     processRepo_notify (watched deps) ps (w, calls) = (Inr (), (w', calls @ zip ps rs))"
proof -
  obtain rs w' where "all_settled (map (notify deps) ps) w = (Inr rs, w')" "length rs = length ps"
    "all_settled (map (watched_note (notify deps)) ps) (w, calls) = (Inr rs, (w', calls @ zip ps rs))"
    using watched_settled [of "notify deps" ps w calls] by blast
  then show ?thesis
    by (intro exI [of _ rs] exI [of _ w'], cases "ps = []") (simp_all add: processRepo_notify_def watched_def await_def)
qed

lemma watched_worker:
  "worker_step (watched deps) items s c (w, calls) = (s', c', (w', calls')) \<Longrightarrow> worker_step deps items s c w = (s', c', w')"
proof (cases s)
  case (Notifying i ps)
  assume step: "worker_step (watched deps) items s c (w, calls) = (s', c', (w', calls'))"
  from watched_notify [of deps ps w calls] step Notifying show ?thesis by fastforce
qed (auto simp: watched_query unwatched_run split: if_splits prod.splits sum.splits)

lemma watched_pool:
  "pool_loop pick (watched deps) items (p, (w, calls)) = (q, (w', calls')) \<Longrightarrow> pool_loop pick deps items (p, w) = (q, w')"
proof (induction "pool_measure items p" arbitrary: p w calls rule: less_induct)
  case less
  show ?case
  proof (cases "rejection p = None \<and> list_ex active (workers p)")
    case False
    with less.prems show ?thesis
      by (auto simp: pool_loop.simps [of pick _ items p] split: option.splits)
  next
    case True
    let ?j = "first_active (workers p) (pick p)"
    from first_active_ok conjunct2 [OF True] have j: "?j < length (workers p)" "active (workers p ! ?j)" by blast+
    obtain s c w1 calls1 where st: "worker_step (watched deps) items (workers p ! ?j) (cursor p) (w, calls) = (s, c, (w1, calls1))"
      by (metis prod.exhaust)
    let ?p = "\<lparr>cursor = c, workers = (workers p)[?j := s]\<rparr>"
    have steps: "pool_step (watched deps) items ?j (p, (w, calls)) = (?p, (w1, calls1))" "pool_step deps items ?j (p, w) = (?p, w1)"
      by (simp_all add: pool_step_def st watched_worker [OF st])
    from pool_step_decreases [OF j, of items deps w] steps have "pool_measure items ?p < pool_measure items p" by simp
    moreover from less.prems True steps have "pool_loop pick (watched deps) items (?p, (w1, calls1)) = (q, (w', calls'))"
      by (simp add: pool_loop.simps [of pick _ items p])
    ultimately have "pool_loop pick deps items (?p, w1) = (q, w')" by (rule less.hyps)
    with True steps show ?thesis by (simp add: pool_loop.simps [of pick _ items p])
  qed
qed

lemma watched_concurrently:
  "processConcurrently pick (watched deps) items (w, calls) = (q, (w', calls')) \<Longrightarrow>
     processConcurrently pick deps items w = (q, w')"
  using watched_pool [of pick deps items "start_pool items" w calls]
  by (auto simp: processConcurrently_def split: prod.splits)

lemma watched_first:
  assumes "provider deps repos w = (r, w1)" and "repos \<noteq> []"
  shows "process_batch pick (watched deps) repos (w, calls) =
    (case r of
       Inl e \<Rightarrow> (Inl e, (w1, calls))
     | Inr releases \<Rightarrow> processConcurrently pick (watched deps) (pending_items repos releases) (w1, calls))"
proof -
  have "provider (watched deps) repos = unwatched (provider deps repos)" by (simp add: watched_def)
  with assms show ?thesis by (simp add: process_batch_def unwatched_run await_def split: sum.split)
qed

lemma watched_process:
  assumes "process_batch pick (watched deps) repos (w, calls) = (q, (w', calls'))"
  shows "process_batch pick deps repos w = (q, w')"
proof (cases "repos = []")
  case True
  with assms show ?thesis by (simp add: process_batch_def)
next
  case False
  obtain r w1 where p: "provider deps repos w = (r, w1)" by fastforce
  from assms False show ?thesis
    unfolding watched_first [OF p False]
    by (cases r) (auto simp: process_batch_def await_def p intro: watched_concurrently)
qed

text \<open>The calls of a batch are those of a run that is the same otherwise.\<close>

lemma watched_batch:
  assumes "process_batch pick deps repos w = (q, w')"
  obtains calls where "process_batch pick (watched deps) repos (w, []) = (q, (w', calls))"
proof -
  obtain q1 w1 calls where run: "process_batch pick (watched deps) repos (w, []) = (q1, (w1, calls))"
    by (metis prod.exhaust)
  with watched_process [OF run] assms that show thesis by simp
qed

section \<open>What a batch sends\<close>

definition payload_for :: "string \<Rightarrow> string \<Rightarrow> subscription \<Rightarrow> release_payload" where
  "payload_for repo tag s =
     \<lparr>rp_email = sub_email s, rp_repo = repo, rp_tag = tag, rp_unsubscribeToken = unsubscribeToken s\<rparr>"

fun due :: "subscription set \<Rightarrow> string \<times> release_tag \<Rightarrow> release_payload multiset" where
  "due S (repo, Tag tag) = image_mset (payload_for repo tag) (mset_set {s \<in> S. outdated repo tag s})"
| "due S (repo, Inherited_Member) = {#}"

text \<open>\<open>reliable\<close>: no notification is rejected.\<close>

definition reliable :: "(release_payload \<Rightarrow> ('w, unit) async) \<Rightarrow> bool" where
  "reliable send_note \<longleftrightarrow> (\<forall>p w. \<not> isl (fst (send_note p w)))"

fun busy_with :: "worker \<Rightarrow> nat option" where
  "busy_with (Querying i) = Some i" | "busy_with (Notifying i ps) = Some i" | "busy_with _ = None"

text \<open>The items are handed out in order, each to one worker, and an item nobody works on is finished.
  \<open>f i\<close> are the notifications sent for item \<open>i\<close>.\<close>

definition pool_ok :: "'i list \<Rightarrow> pool \<Rightarrow> bool" where
  "pool_ok items p \<longleftrightarrow> cursor p \<le> length items \<and>
     length (workers p) = min REPO_CONCURRENCY (length items) \<and>
     (\<forall>j < length (workers p). \<forall>i. busy_with (workers p ! j) = Some i \<longrightarrow> i < cursor p) \<and>
     (\<forall>j < length (workers p). \<forall>j' < length (workers p). \<forall>i.
        busy_with (workers p ! j) = Some i \<longrightarrow> busy_with (workers p ! j') = Some i \<longrightarrow> j = j') \<and>
     (Ended \<in> set (workers p) \<longrightarrow> cursor p = length items)"

definition idle_item :: "pool \<Rightarrow> nat \<Rightarrow> bool" where
  "idle_item p i \<longleftrightarrow> i < cursor p \<and> (\<forall>j < length (workers p). busy_with (workers p ! j) \<noteq> Some i)"

lemma pool_okD:
  assumes "pool_ok items p" and "j < length (workers p)" and "busy_with (workers p ! j) = Some i"
  shows "i < length items" "i < cursor p"
    and "\<And>j'. j' < length (workers p) \<Longrightarrow> busy_with (workers p ! j') = Some i \<Longrightarrow> j' = j"
proof -
  from assms(1) have ok: "cursor p \<le> length items"
    "\<forall>j < length (workers p). \<forall>i. busy_with (workers p ! j) = Some i \<longrightarrow> i < cursor p"
    "\<forall>j < length (workers p). \<forall>j' < length (workers p). \<forall>i.
        busy_with (workers p ! j) = Some i \<longrightarrow> busy_with (workers p ! j') = Some i \<longrightarrow> j = j'"
    unfolding pool_ok_def by blast+
  from ok(2) assms(2,3) show c: "i < cursor p" by blast
  with ok(1) show "i < length items" by simp
  fix j' assume "j' < length (workers p)" "busy_with (workers p ! j') = Some i"
  with ok(3) assms(2,3) show "j' = j" by blast
qed

lemma Ended_update: "Ended \<in> set (ss[j := s]) \<Longrightarrow> s = Ended \<or> Ended \<in> set ss"
  using set_update_subset_insert [of ss j s] by auto

lemma pool_ok_start: "pool_ok items (start_pool items)"
  by (auto simp: pool_ok_def start_pool_def)

lemma pool_ok_step:
  assumes ok: "pool_ok items p" and j: "j < length (workers p)"
    and st: "worker_step deps items (workers p ! j) (cursor p) w = (s, c, w')"
  shows "pool_ok items \<lparr>cursor = c, workers = (workers p)[j := s]\<rparr>"
proof (cases "workers p ! j = Loop \<and> cursor p < length items")
  case True
  with st have s: "s = Querying (cursor p)" "c = cursor p + 1" by simp_all
  have fresh: "busy_with (workers p ! k) \<noteq> Some (cursor p)" if "k < length (workers p)" for k
    using pool_okD(2) [OF ok that] by fastforce
  have ended: "Ended \<notin> set (workers p)" using ok True by (auto simp: pool_ok_def)
  show ?thesis
    unfolding pool_ok_def s
  proof (intro conjI allI impI)
    fix k i assume k: "k < length (workers \<lparr>cursor = cursor p + 1, workers = (workers p)[j := Querying (cursor p)]\<rparr>)"
      "busy_with (workers \<lparr>cursor = cursor p + 1, workers = (workers p)[j := Querying (cursor p)]\<rparr> ! k) = Some i"
    then show "i < cursor \<lparr>cursor = cursor p + 1, workers = (workers p)[j := Querying (cursor p)]\<rparr>"
      using pool_okD(2) [OF ok, of k i] by (cases "k = j") simp_all
    fix k' assume k': "k' < length (workers \<lparr>cursor = cursor p + 1, workers = (workers p)[j := Querying (cursor p)]\<rparr>)"
      "busy_with (workers \<lparr>cursor = cursor p + 1, workers = (workers p)[j := Querying (cursor p)]\<rparr> ! k') = Some i"
    show "k = k'"
      using k k' fresh [of k] fresh [of k'] pool_okD(3) [OF ok, of k' i k] j
      by (cases "k = j"; cases "k' = j") simp_all
  qed (use ok True ended Ended_update [of "workers p" j "Querying (cursor p)"] in \<open>auto simp: pool_ok_def\<close>)
next
  case False
  then have c: "c = cursor p" and b: "busy_with s = None \<or> busy_with s = busy_with (workers p ! j)"
    using st by (cases "workers p ! j"; auto split: prod.splits sum.splits if_splits)+
  have e: "Ended \<in> set (workers p) \<or> cursor p = length items" if "s = Ended"
  proof (cases "workers p ! j")
    case Loop
    with False ok show ?thesis by (auto simp: pool_ok_def)
  next
    case Ended
    with nth_mem [OF j] show ?thesis by simp
  qed (use st that in \<open>auto split: prod.splits sum.splits\<close>)
  from b have "busy_with ((workers p)[j := s] ! k) = Some i \<Longrightarrow> k < length (workers p) \<Longrightarrow>
      busy_with (workers p ! k) = Some i" for k i
    by (cases "k = j") auto
  note old = this
  show ?thesis
    unfolding pool_ok_def c
  proof (intro conjI allI impI)
    fix k i assume k: "k < length (workers \<lparr>cursor = cursor p, workers = (workers p)[j := s]\<rparr>)"
      "busy_with (workers \<lparr>cursor = cursor p, workers = (workers p)[j := s]\<rparr> ! k) = Some i"
    then show "i < cursor \<lparr>cursor = cursor p, workers = (workers p)[j := s]\<rparr>"
      using pool_okD(2) [OF ok, of k i] old [of k i] by simp
    fix k' assume "k' < length (workers \<lparr>cursor = cursor p, workers = (workers p)[j := s]\<rparr>)"
      "busy_with (workers \<lparr>cursor = cursor p, workers = (workers p)[j := s]\<rparr> ! k') = Some i"
    then show "k = k'" using k pool_okD(3) [OF ok, of k' i k] old [of k i] old [of k' i] by simp
  qed (use ok e Ended_update [of "workers p" j s] in \<open>auto simp: pool_ok_def\<close>)
qed

definition others_busy :: "pool \<Rightarrow> nat \<Rightarrow> nat \<Rightarrow> bool" where
  "others_busy p j i \<longleftrightarrow> (\<exists>k < length (workers p). k \<noteq> j \<and> busy_with (workers p ! k) = Some i)"

lemma idle_item_at:
  "j < length (workers p) \<Longrightarrow>
    idle_item p i \<longleftrightarrow> i < cursor p \<and> busy_with (workers p ! j) \<noteq> Some i \<and> \<not> others_busy p j i"
  by (auto simp: idle_item_def others_busy_def)

lemma idle_item_update:
  "j < length (workers p) \<Longrightarrow> idle_item \<lparr>cursor = c, workers = (workers p)[j := s]\<rparr> i \<longleftrightarrow>
    i < c \<and> busy_with s \<noteq> Some i \<and> \<not> others_busy p j i"
  by (auto simp: idle_item_def others_busy_def nth_list_update split: if_splits)

lemma others_not_busy:
  assumes "pool_ok items p" and "j < length (workers p)" and "busy_with (workers p ! j) = Some i"
  shows "\<not> others_busy p j i"
  using pool_okD(3) [OF assms] unfolding others_busy_def by blast

lemma rejected_with_iff: "rejected_with s = Some e \<longleftrightarrow> s = Rejected e"
  by (cases s) auto

lemma rejections: "set (List.map_filter rejected_with ss) = {e. Rejected e \<in> set ss}"
proof -
  have "Some e \<in> rejected_with ` set ss \<longleftrightarrow> Rejected e \<in> set ss" for e
  proof
    assume "Some e \<in> rejected_with ` set ss"
    then obtain s where "s \<in> set ss" "rejected_with s = Some e" by (metis imageE)
    then show "Rejected e \<in> set ss" by (simp add: rejected_with_iff)
  next
    assume "Rejected e \<in> set ss"
    then have "rejected_with (Rejected e) \<in> rejected_with ` set ss" by (rule imageI)
    then show "Some e \<in> rejected_with ` set ss" by simp
  qed
  then show ?thesis by (simp add: set_map_filter)
qed

lemma rejection_none: "rejection p = None \<longleftrightarrow> (\<forall>e. Rejected e \<notin> set (workers p))"
  using rejections [of "workers p"] by (auto simp: rejection_def split: list.splits)

lemma rejection_some: "rejection p = Some e \<Longrightarrow> Rejected e \<in> set (workers p)"
  using rejections [of "workers p"] by (auto simp: rejection_def split: list.splits)

lemma Rejected_update:
  assumes "j < length ss" and "active (ss ! j)"
  shows "Rejected e \<in> set (ss[j := s]) \<longleftrightarrow> Rejected e \<in> set ss \<or> s = Rejected e"
proof
  assume "Rejected e \<in> set (ss[j := s])"
  then show "Rejected e \<in> set ss \<or> s = Rejected e" using set_update_subset_insert [of ss j s] by auto
next
  assume "Rejected e \<in> set ss \<or> s = Rejected e"
  then show "Rejected e \<in> set (ss[j := s])"
  proof
    assume "Rejected e \<in> set ss"
    then obtain k where k: "k < length ss" "ss ! k = Rejected e" by (auto simp: in_set_conv_nth)
    with assms(2) have "k \<noteq> j" by auto
    with k have "ss[j := s] ! k = Rejected e" by simp
    with k(1) show ?thesis by (metis length_list_update nth_mem)
  qed (simp add: assms(1) set_update_memI)
qed

lemma rejection_update:
  "j < length (workers p) \<Longrightarrow> active (workers p ! j) \<Longrightarrow>
    rejection \<lparr>cursor = c, workers = (workers p)[j := s]\<rparr> = None \<longleftrightarrow>
    rejection p = None \<and> (\<forall>e. s \<noteq> Rejected e)"
  by (auto simp: rejection_none Rejected_update)

text \<open>What the pool has done: \<open>f i\<close> is the outcome of the notifications for item \<open>i\<close>, if they were
  reached. \<open>asked i ps\<close>: a query for item \<open>i\<close> may yield \<open>ps\<close>; \<open>told i x\<close>: its notifications may end in \<open>x\<close>.\<close>

definition pool_told :: "(nat \<Rightarrow> release_payload list \<Rightarrow> bool) \<Rightarrow> (nat \<Rightarrow> 'o \<Rightarrow> bool) \<Rightarrow> (string \<times> release_tag) list \<Rightarrow>
    pool \<Rightarrow> (nat \<Rightarrow> 'o option) \<Rightarrow> bool" where
  "pool_told asked told items p f \<longleftrightarrow>
     (\<forall>i < length items. \<forall>x. f i = Some x \<longrightarrow> told i x) \<and>
     (\<forall>i < length items. \<not> idle_item p i \<longrightarrow> f i = None) \<and>
     (\<forall>i < length items. idle_item p i \<longrightarrow> rejection p = None \<longrightarrow> f i \<noteq> None) \<and>
     (\<forall>j < length (workers p). \<forall>i ps. workers p ! j = Notifying i ps \<longrightarrow> asked i ps) \<and>
     (\<forall>e. Rejected e \<in> set (workers p) \<longrightarrow> external e)"

lemma pool_told_start: "pool_told asked told items (start_pool items) (\<lambda>_. None)"
  by (auto simp: pool_told_def start_pool_def idle_item_def)

lemma pool_toldD:
  assumes "pool_told asked told items p f"
  shows "\<And>i x. i < length items \<Longrightarrow> f i = Some x \<Longrightarrow> told i x"
    "\<And>i. i < length items \<Longrightarrow> \<not> idle_item p i \<Longrightarrow> f i = None"
    "\<And>i. i < length items \<Longrightarrow> idle_item p i \<Longrightarrow> rejection p = None \<Longrightarrow> f i \<noteq> None"
    "\<And>j i ps. j < length (workers p) \<Longrightarrow> workers p ! j = Notifying i ps \<Longrightarrow> asked i ps"
    "\<And>e. Rejected e \<in> set (workers p) \<Longrightarrow> external e"
  using assms unfolding pool_told_def by blast+

text \<open>A step that notifies nobody.\<close>

lemma pool_told_quiet:
  assumes inv: "pool_told asked told items p f"
    and j: "j < length (workers p)" "active (workers p ! j)"
    and idle: "\<And>i. i < length items \<Longrightarrow> idle_item \<lparr>cursor = c, workers = (workers p)[j := s]\<rparr> i \<Longrightarrow>
      idle_item p i \<or> (\<exists>e. s = Rejected e)"
    and busy: "\<And>i. idle_item p i \<Longrightarrow> idle_item \<lparr>cursor = c, workers = (workers p)[j := s]\<rparr> i"
    and note_s: "\<And>i ps. s = Notifying i ps \<Longrightarrow> asked i ps"
    and err: "\<And>e. s = Rejected e \<Longrightarrow> external e"
  shows "pool_told asked told items \<lparr>cursor = c, workers = (workers p)[j := s]\<rparr> f"
  unfolding pool_told_def
proof (intro conjI allI impI)
  let ?p = "\<lparr>cursor = c, workers = (workers p)[j := s]\<rparr>"
  note old = pool_toldD [OF inv]
  fix i assume i: "i < length items"
  show "told i x" if "f i = Some x" for x by (rule old(1) [OF i that])
  show "f i = None" if "\<not> idle_item ?p i" using that busy old(2) [OF i] by blast
  show "f i \<noteq> None" if "idle_item ?p i" "rejection ?p = None"
    using that idle [OF i] old(3) [OF i] by (auto simp: rejection_update [OF j])
next
  fix k i ps
  assume "k < length (workers \<lparr>cursor = c, workers = (workers p)[j := s]\<rparr>)"
    "workers \<lparr>cursor = c, workers = (workers p)[j := s]\<rparr> ! k = Notifying i ps"
  then show "asked i ps" using note_s [of i ps] pool_toldD(4) [OF inv, of k i ps] by (cases "k = j"; simp)+
next
  fix e assume "Rejected e \<in> set (workers \<lparr>cursor = c, workers = (workers p)[j := s]\<rparr>)"
  then show "external e" using err pool_toldD(5) [OF inv] by (auto simp: Rejected_update [OF j])
qed

text \<open>The step that sends the notifications of an item.\<close>

lemma pool_told_notified:
  assumes ok: "pool_ok items p" and inv: "pool_told asked told items p f"
    and j: "j < length (workers p)" "workers p ! j = Notifying i ps"
    and x: "told i x"
  shows "pool_told asked told items \<lparr>cursor = cursor p, workers = (workers p)[j := Loop]\<rparr> (f(i \<mapsto> x))"
  unfolding pool_told_def
proof (intro conjI allI impI)
  let ?p = "\<lparr>cursor = cursor p, workers = (workers p)[j := Loop]\<rparr>"
  note old = pool_toldD [OF inv]
  have b: "busy_with (workers p ! j) = Some i" and act: "active (workers p ! j)" using j(2) by simp_all
  note i = pool_okD [OF ok j(1) b]
  have idle: "idle_item ?p k \<longleftrightarrow> idle_item p k \<or> k = i" for k
    using i(2) others_not_busy [OF ok j(1) b] by (auto simp: idle_item_update [OF j(1)] idle_item_at [OF j(1)] b)
  fix k assume k: "k < length items"
  show "told k y" if "(f(i \<mapsto> x)) k = Some y" for y using that x old(1) [OF k] by (auto split: if_splits)
  show "(f(i \<mapsto> x)) k = None" if "\<not> idle_item ?p k" using that idle old(2) [OF k] by auto
  show "(f(i \<mapsto> x)) k \<noteq> None" if "idle_item ?p k" "rejection ?p = None"
    using that idle old(3) [OF k] by (auto simp: rejection_update [OF j(1) act])
next
  fix k i' ps'
  assume "k < length (workers \<lparr>cursor = cursor p, workers = (workers p)[j := Loop]\<rparr>)"
    "workers \<lparr>cursor = cursor p, workers = (workers p)[j := Loop]\<rparr> ! k = Notifying i' ps'"
  then show "asked i' ps'" using pool_toldD(4) [OF inv, of k i' ps'] by (cases "k = j"; simp)+
next
  have "active (workers p ! j)" using j(2) by simp
  fix e assume "Rejected e \<in> set (workers \<lparr>cursor = cursor p, workers = (workers p)[j := Loop]\<rparr>)"
  then show "external e" using pool_toldD(5) [OF inv] by (simp add: Rejected_update [OF j(1) \<open>active (workers p ! j)\<close>])
qed

text \<open>
  What the pool needs of the two halves of \<open>processRepo\<close>, for any notifier: \<open>holds f\<close> describes the
  world after the notifications \<open>f\<close>; a query keeps it, and the notifications of an item extend it.
\<close>

locale pool_env =
  fixes deps :: "'w processor_deps"
    and items :: "(string \<times> release_tag) list"
    and holds :: "(nat \<Rightarrow> 'o option) \<Rightarrow> 'w \<Rightarrow> bool"
    and asked :: "nat \<Rightarrow> release_payload list \<Rightarrow> bool"
    and told :: "nat \<Rightarrow> 'o \<Rightarrow> bool"
  assumes query_law: "\<And>i f w q w'. i < length items \<Longrightarrow> f i = None \<Longrightarrow> holds f w \<Longrightarrow>
      processRepo_query deps (items ! i) w = (q, w') \<Longrightarrow>
      holds f w' \<and> (case q of Inl e \<Rightarrow> external e | Inr ps \<Rightarrow> asked i ps)"
    and notify_law: "\<And>i f w ps q w'. i < length items \<Longrightarrow> f i = None \<Longrightarrow> holds f w \<Longrightarrow> asked i ps \<Longrightarrow>
      processRepo_notify deps ps w = (q, w') \<Longrightarrow> q = Inr () \<and> (\<exists>x. told i x \<and> holds (f(i \<mapsto> x)) w')"
begin

lemma pool_step_told:
  assumes ok: "pool_ok items p" and j: "j < length (workers p)" "active (workers p ! j)"
    and st: "worker_step deps items (workers p ! j) (cursor p) w = (s, c, w')"
    and inv: "pool_told asked told items p f" "holds f w"
  shows "\<exists>f'. pool_told asked told items \<lparr>cursor = c, workers = (workers p)[j := s]\<rparr> f' \<and> holds f' w'"
proof (cases "workers p ! j")
  case Loop
  with st have s: "s = (if cursor p < length items then Querying (cursor p) else Ended)"
    "c = (if cursor p < length items then cursor p + 1 else cursor p)" "w' = w"
    by (auto split: if_splits)
  have "\<not> others_busy p j (cursor p)"
    using pool_okD(2) [OF ok] by (fastforce simp: others_busy_def)
  with s(1,2) Loop have "idle_item \<lparr>cursor = c, workers = (workers p)[j := s]\<rparr> i = idle_item p i" for i
    by (auto simp: idle_item_update [OF j(1)] idle_item_at [OF j(1)] less_Suc_eq)
  then have "pool_told asked told items \<lparr>cursor = c, workers = (workers p)[j := s]\<rparr> f"
    using s(1) by (intro pool_told_quiet [OF inv(1) j]) (auto split: if_splits)
  with inv(2) s(3) show ?thesis by blast
next
  case (Querying i)
  then have b: "busy_with (workers p ! j) = Some i" by simp
  have "\<not> idle_item p i" using b j(1) by (auto simp: idle_item_def)
  then have f: "f i = None" by (rule pool_toldD(2) [OF inv(1) pool_okD(1) [OF ok j(1) b]])
  from st Querying obtain q where q: "processRepo_query deps (items ! i) w = (q, w')"
    "s = (case q of Inl e \<Rightarrow> Rejected e | Inr ps \<Rightarrow> Notifying i ps)" "c = cursor p"
    by (auto split: prod.splits sum.splits)
  note out = query_law [OF pool_okD(1) [OF ok j(1) b] f inv(2) q(1)]
  have "pool_told asked told items \<lparr>cursor = c, workers = (workers p)[j := s]\<rparr> f"
    using q(2,3) out Querying
    by (intro pool_told_quiet [OF inv(1) j])
      (auto simp: idle_item_update [OF j(1)] idle_item_at [OF j(1)] split: sum.splits)
  with out show ?thesis by blast
next
  case (Notifying i ps)
  then have b: "busy_with (workers p ! j) = Some i" by simp
  have "\<not> idle_item p i" using b j(1) by (auto simp: idle_item_def)
  then have f: "f i = None" by (rule pool_toldD(2) [OF inv(1) pool_okD(1) [OF ok j(1) b]])
  from st Notifying obtain q where q: "processRepo_notify deps ps w = (q, w')"
    "s = (case q of Inl e \<Rightarrow> Rejected e | Inr _ \<Rightarrow> Loop)" "c = cursor p"
    by (auto split: prod.splits sum.splits)
  from notify_law [OF pool_okD(1) [OF ok j(1) b] f inv(2) pool_toldD(4) [OF inv(1) j(1) Notifying] q(1)]
  obtain x where x: "q = Inr ()" "told i x" "holds (f(i \<mapsto> x)) w'" by blast
  from pool_told_notified [OF ok inv(1) j(1) Notifying x(2)] x(3) show ?thesis by (auto simp: q x(1))
qed (use j(2) in simp_all)

text \<open>The whole loop.\<close>

lemma pool_loop_told:
  assumes "pool_ok items p" and "pool_told asked told items p f" and "holds f w"
    and "pool_loop pick deps items (p, w) = (q, w')"
  shows "\<exists>p' f'. pool_ok items p' \<and> pool_told asked told items p' f' \<and> holds f' w' \<and>
    (case q of Inl e \<Rightarrow> rejection p' = Some e | Inr p'' \<Rightarrow> p'' = p' \<and> rejection p' = None \<and> \<not> list_ex active (workers p'))"
  using assms
proof (induction "pool_measure items p" arbitrary: p w f rule: less_induct)
  case less
  show ?case
  proof (cases "rejection p")
    case (Some e)
    with less.prems(4) have "q = Inl e" "w' = w" by (subst (asm) pool_loop.simps, simp)+
    with Some less.prems show ?thesis by auto
  next
    case None
    show ?thesis
    proof (cases "list_ex active (workers p)")
      case False
      with None less.prems(4) have "q = Inr p" "w' = w" by (subst (asm) pool_loop.simps, simp)+
      with None False less.prems show ?thesis by auto
    next
      case True
      let ?j = "first_active (workers p) (pick p)"
      from first_active_ok [OF True] have j: "?j < length (workers p)" "active (workers p ! ?j)" by blast+
      obtain s c w1 where st: "worker_step deps items (workers p ! ?j) (cursor p) w = (s, c, w1)" by (metis prod_cases3)
      let ?p = "\<lparr>cursor = c, workers = (workers p)[?j := s]\<rparr>"
      have step: "pool_step deps items ?j (p, w) = (?p, w1)" by (simp add: pool_step_def st)
      from pool_step_decreases [OF j, of items deps w] step
      have smaller: "pool_measure items ?p < pool_measure items p" by simp
      from pool_step_told [OF less.prems(1) j st less.prems(2,3)] obtain f1 where next_ok:
        "pool_told asked told items ?p f1" "holds f1 w1" by blast
      have "pool_loop pick deps items (?p, w1) = (q, w')"
        using less.prems(4) None True step by (subst (asm) pool_loop.simps) simp
      from less.hyps [OF smaller pool_ok_step [OF less.prems(1) j(1) st] next_ok this] show ?thesis .
    qed
  qed
qed

text \<open>When the promise resolves, every item was reached.\<close>

lemma all_items_reached:
  assumes ok: "pool_ok items p" and no: "rejection p = None" "\<not> list_ex active (workers p)" and i: "i < length items"
  shows "idle_item p i"
proof -
  have ended: "s = Ended" if "s \<in> set (workers p)" for s
  proof -
    from that no(2) have "\<not> active s" unfolding list_ex_iff by blast
    moreover from that no(1) have "\<forall>e. s \<noteq> Rejected e" unfolding rejection_none by blast
    ultimately show ?thesis by (cases s) auto
  qed
  from i ok have "workers p \<noteq> []" by (auto simp: pool_ok_def REPO_CONCURRENCY_def)
  then have "Ended \<in> set (workers p)" using ended by (metis list.set_intros(1) neq_Nil_conv)
  with ok have "cursor p = length items" by (simp add: pool_ok_def)
  moreover have "busy_with (workers p ! j) = None" if "j < length (workers p)" for j
    using ended [OF nth_mem [OF that]] by simp
  ultimately show ?thesis using i by (auto simp: idle_item_def)
qed

lemma processConcurrently_tells:
  assumes run: "processConcurrently pick deps items w = (q, w')" and start: "holds (\<lambda>_. None) w"
  shows "\<exists>f. holds f w' \<and> (\<forall>i < length items. \<forall>x. f i = Some x \<longrightarrow> told i x) \<and>
    (case q of Inl e \<Rightarrow> external e | Inr u \<Rightarrow> \<forall>i < length items. f i \<noteq> None)"
proof -
  obtain q1 where loop: "pool_loop pick deps items (start_pool items, w) = (q1, w')"
    and q: "q = map_sum id (\<lambda>_. ()) q1"
    using run by (auto simp: processConcurrently_def split: prod.splits)
  from pool_loop_told [OF pool_ok_start pool_told_start start loop]
  obtain p f where p: "pool_ok items p" "pool_told asked told items p f" "holds f w'"
    "case q1 of Inl e \<Rightarrow> rejection p = Some e | Inr p'' \<Rightarrow> p'' = p \<and> rejection p = None \<and> \<not> list_ex active (workers p)"
    by auto
  note old = pool_toldD [OF p(2)]
  have "case q of Inl e \<Rightarrow> external e | Inr u \<Rightarrow> \<forall>i < length items. f i \<noteq> None"
  proof (cases q1)
    case (Inl e)
    with p(4) have "external e" using rejection_some old(5) by auto
    with Inl q show ?thesis by simp
  next
    case (Inr p'')
    with p(4) have no: "rejection p = None" "\<not> list_ex active (workers p)" by simp_all
    have "f i \<noteq> None" if "i < length items" for i
      by (rule old(3) [OF that all_items_reached [OF p(1) no that] no(1)])
    with Inr q show ?thesis by simp
  qed
  with p(3) old(1) show ?thesis by blast
qed

end

text \<open>The notifications of the items that were reached.\<close>

abbreviation told_of :: "(nat \<Rightarrow> 'o multiset option) \<Rightarrow> nat \<Rightarrow> 'o multiset" where
  "told_of f i \<equiv> (case f i of None \<Rightarrow> {#} | Some N \<Rightarrow> N)"

abbreviation first_of :: "(nat \<Rightarrow> ('o multiset \<times> 'o2 multiset) option) \<Rightarrow> nat \<Rightarrow> 'o multiset" where
  "first_of f \<equiv> told_of (map_option fst \<circ> f)"

abbreviation second_of :: "(nat \<Rightarrow> ('o multiset \<times> 'o2 multiset) option) \<Rightarrow> nat \<Rightarrow> 'o2 multiset" where
  "second_of f \<equiv> told_of (map_option snd \<circ> f)"

lemma told_of_update:
  fixes f :: "nat \<Rightarrow> 'o multiset option"
  assumes "i < n" and "f i = None"
  shows "(\<Sum>k < n. told_of (f(i \<mapsto> N)) k) = (\<Sum>k < n. told_of f k) + N"
proof -
  have "(\<Sum>k < n. told_of (f(i \<mapsto> N)) k) = N + (\<Sum>k \<in> {..<n} - {i}. told_of (f(i \<mapsto> N)) k)"
    using assms(1) by (subst sum.remove [of _ i]) auto
  also have "(\<Sum>k \<in> {..<n} - {i}. told_of (f(i \<mapsto> N)) k) = (\<Sum>k \<in> {..<n} - {i}. told_of f k)"
    by (intro sum.cong) auto
  also have "\<dots> = (\<Sum>k < n. told_of f k)" using assms by (subst (2) sum.remove [of _ i]) auto
  finally show ?thesis by (simp add: add.commute)
qed

lemma multiset_sum_mono:
  fixes f g :: "nat \<Rightarrow> 'b multiset"
  shows "(\<And>i. i < n \<Longrightarrow> f i \<subseteq># g i) \<Longrightarrow> (\<Sum>i < n. f i) \<subseteq># (\<Sum>i < n. g i)"
  by (induction n) (simp_all add: subset_mset.add_mono)

lemma due_of_items: "sum_list (map (due S) items) = (\<Sum>i < length items. due S (items ! i))"
  by (simp add: sum_list_sum_nth atLeast0LessThan)

text \<open>What the query of an item reads, whatever the notifier is.\<close>

locale scan_reads =
  store: subscription_store R subs rest
  for R :: "'w subscription_repository"
    and subs :: "'w \<Rightarrow> subscription set"
    and rest :: "'w \<Rightarrow> 'x" +
  fixes foreign :: "string \<Rightarrow> ('w, unit) async"
  assumes foreign_law: "\<And>w q w'. foreign repo w = (q, w') \<Longrightarrow>
    (\<exists>e. q = Inl e \<and> external e) \<and> subs w' = subs w \<and> rest w' = rest w"
begin

lemma query_outcome:
  assumes "processRepo_query (ProcessorDeps provide R send_note foreign) item w = (q, w')"
  shows "subs w' = subs w \<and> rest w' = rest w \<and>
    (case q of Inl e \<Rightarrow> external e | Inr ps \<Rightarrow> mset ps = due (subs w) item \<and> snd item \<noteq> Inherited_Member)"
proof -
  obtain repo tag where item: "item = (repo, tag)" by fastforce
  show ?thesis
  proof (cases tag)
    case Inherited_Member
    with assms item have "await (foreign repo) (\<lambda>_. ret []) w = (q, w')"
      by (simp add: processRepo_query_def ProcessorDeps_def)
    then show ?thesis by (cases rule: await_outcome) (auto dest: foreign_law)
  next
    case (Tag t)
    with assms item have "await (getOutdatedSubscribers R repo t) (\<lambda>subscribers.
        ret (map (\<lambda>s. \<lparr>rp_email = out_email s, rp_repo = repo, rp_tag = t,
                        rp_unsubscribeToken = out_unsubscribeToken s\<rparr>) subscribers)) w = (q, w')"
      by (simp add: processRepo_query_def ProcessorDeps_def)
    then show ?thesis
    proof (cases rule: await_outcome)
      case (rejected e)
      from store.getOutdatedSubscribers_law [OF rejected(1)] rejected(2) show ?thesis by simp
    next
      case (resolved xs w1)
      from store.getOutdatedSubscribers_law [OF resolved(1)] obtain ss where ss:
        "subs w1 = subs w" "rest w1 = rest w"
        "distinct ss" "set ss = {s \<in> subs w. outdated repo t s}" "xs = map subscriber_of ss"
        by auto
      from resolved(2) ss(5) have q: "q = Inr (map (payload_for repo t) ss)" "w' = w1"
        by (simp_all add: subscriber_of_def payload_for_def)
      have "mset (map (payload_for repo t) ss) = image_mset (payload_for repo t) (mset_set (set ss))"
        by (simp add: mset_set_set ss(3))
      with q ss(1,2,4) item Tag show ?thesis by simp
    qed
  qed
qed

end

text \<open>The outcome of an item over the queue: \<open>M\<close> was put on it, by the calls \<open>C\<close>, one for each that was due.\<close>

definition item_queued :: "(release_payload \<Rightarrow> ('w, unit) async) \<Rightarrow> subscription set \<Rightarrow> string \<times> release_tag \<Rightarrow> release_payload multiset \<times> notify_call multiset \<Rightarrow> bool" where
  "item_queued send_note S item x \<longleftrightarrow> (case x of (M, C) \<Rightarrow>
     M \<subseteq># due S item \<and> accepted C \<subseteq># M \<and> image_mset fst C = due S item \<and> (reliable send_note \<longrightarrow> M = due S item) \<and>
     snd item \<noteq> Inherited_Member)"

locale processor_env =
  reads: scan_reads R subs "\<lambda>w. (sent w, other w)" foreign +
  out: outbox send_note sent "\<lambda>w. (subs w, other w)"
  for R :: "'w subscription_repository"
    and subs :: "'w \<Rightarrow> subscription set"
    and send_note :: "release_payload \<Rightarrow> ('w, unit) async"
    and sent :: "'w \<Rightarrow> release_payload list"
    and other :: "'w \<Rightarrow> 'x"
    and foreign :: "string \<Rightarrow> ('w, unit) async"
begin

lemma processRepo_query_outcome:
  assumes "processRepo_query (ProcessorDeps provide R send_note foreign) item w = (q, w')"
  shows "subs w' = subs w \<and> sent w' = sent w \<and> other w' = other w \<and>
    (case q of Inl e \<Rightarrow> external e | Inr ps \<Rightarrow> mset ps = due (subs w) item \<and> snd item \<noteq> Inherited_Member)"
  using reads.query_outcome [OF assms] by simp

lemma all_notified:
  assumes "all_settled (map send_note ps) w = (q, w')"
  shows "subs w' = subs w \<and> other w' = other w \<and>
    (\<exists>rs M. q = Inr rs \<and> length rs = length ps \<and> mset (sent w') = mset (sent w) + M \<and> M \<subseteq># mset ps \<and>
       accepted (mset (zip ps rs)) \<subseteq># M \<and> (reliable send_note \<longrightarrow> list_all (\<lambda>r. \<not> isl r) rs))"
  using assms
proof (induction ps arbitrary: w q w')
  case Nil
  then show ?case by simp
next
  case (Cons p ps)
  obtain r w1 where p: "send_note p w = (r, w1)" by fastforce
  obtain q2 w2 where ps: "all_settled (map send_note ps) w1 = (q2, w2)" by fastforce
  from Cons.IH [OF ps] obtain rs M where M: "q2 = Inr rs" "length rs = length ps" "subs w2 = subs w1" "other w2 = other w1"
    "mset (sent w2) = mset (sent w1) + M" "M \<subseteq># mset ps" "accepted (mset (zip ps rs)) \<subseteq># M"
    "reliable send_note \<longrightarrow> list_all (\<lambda>r. \<not> isl r) rs" by blast
  from Cons.prems p ps M(1) have w': "w' = w2" "q = Inr (r # rs)" by (simp_all add: await_def)
  from out.publish_law [OF p] obtain N where 1: "subs w1 = subs w" "other w1 = other w"
    "mset (sent w1) = mset (sent w) + N" "N = {#p#} \<or> isl r \<and> N = {#}" by (cases r) auto
  have rel: "reliable send_note \<longrightarrow> \<not> isl r" unfolding reliable_def using p by (metis fst_conv)
  have "N \<subseteq># {#p#}" using 1(4) by auto
  then have "N + M \<subseteq># mset (p # ps)" using subset_mset.add_mono [OF _ M(6)] by fastforce
  moreover have "accepted (mset (zip (p # ps) (r # rs))) \<subseteq># N + M"
    using 1(4) M(7) by (auto intro: subset_mset.order_trans [OF _ mset_subset_eq_add_right])
  ultimately show ?case using 1 M w' rel
    by (intro conjI exI [of _ "r # rs"] exI [of _ "N + M"]) (simp_all add: add.assoc)
qed

lemma processRepo_notify_outcome:
  assumes "processRepo_notify (ProcessorDeps provide R send_note foreign) ps w = (q, w')"
  shows "q = Inr () \<and> subs w' = subs w \<and> other w' = other w \<and>
    (reliable send_note \<longrightarrow> mset (sent w') = mset (sent w) + mset ps)"
proof -
  from watched_notify [of "ProcessorDeps provide R send_note foreign" ps w] assms obtain rs where
    q: "q = Inr ()" "all_settled (map send_note ps) w = (Inr rs, w')" by (auto simp: ProcessorDeps_def)
  from all_notified [OF q(2)] obtain M where M: "subs w' = subs w" "other w' = other w" "length rs = length ps"
    "mset (sent w') = mset (sent w) + M" "M \<subseteq># mset ps" "accepted (mset (zip ps rs)) \<subseteq># M"
    "reliable send_note \<longrightarrow> list_all (\<lambda>r. \<not> isl r) rs" by auto
  have "M = mset ps" if "reliable send_note"
    using M(5,6) all_accepted [OF _ M(3)] M(7) that by (simp add: subset_mset.antisym)
  with q(1) M(1,2,4) show ?thesis by simp
qed

text \<open>The queue as an environment of the pool: of each item the pool knows what was put on the queue and the calls.\<close>

lemma queue_pool:
  "pool_env (watched (ProcessorDeps provide R send_note foreign)) items
     (\<lambda>f (w, calls). subs w = S \<and> other w = x \<and> mset (sent w) = base + (\<Sum>i < length items. first_of f i) \<and>
        mset calls = (\<Sum>i < length items. second_of f i))
     (\<lambda>i ps. mset ps = due S (items ! i) \<and> snd (items ! i) \<noteq> Inherited_Member)
     (\<lambda>i. item_queued send_note S (items ! i))"
proof (unfold_locales, goal_cases)
  case (1 i f wl q wl')
  obtain w calls where wl: "wl = (w, calls)" by fastforce
  from 1(4) obtain w' where run: "processRepo_query (ProcessorDeps provide R send_note foreign) (items ! i) w = (q, w')"
    "wl' = (w', calls)" by (auto simp: wl watched_query unwatched_run split: prod.splits)
  from processRepo_query_outcome [OF run(1)] 1(3) show ?case by (cases q) (simp_all add: wl run(2))
next
  case (2 i f wl ps q wl')
  obtain w calls where wl: "wl = (w, calls)" by fastforce
  from watched_notify [of "ProcessorDeps provide R send_note foreign" ps w calls] 2(5) obtain rs w' where
    run: "all_settled (map send_note ps) w = (Inr rs, w')" "q = Inr ()" "wl' = (w', calls @ zip ps rs)"
    by (auto simp: wl ProcessorDeps_def)
  from all_notified [OF run(1)] obtain M where M: "subs w' = subs w" "other w' = other w" "length rs = length ps"
    "mset (sent w') = mset (sent w) + M" "M \<subseteq># mset ps" "accepted (mset (zip ps rs)) \<subseteq># M"
    "reliable send_note \<longrightarrow> list_all (\<lambda>r. \<not> isl r) rs" by auto
  let ?x = "(M, mset (zip ps rs))"
  have rel: "M = mset ps" if "reliable send_note"
    using M(5,6) all_accepted [OF _ M(3)] M(7) that by (simp add: subset_mset.antisym)
  have "image_mset fst (mset (zip ps rs)) = mset ps" by (metis M(3) map_fst_zip mset_map)
  with M(5,6) rel 2(4) have told: "item_queued send_note S (items ! i) ?x" by (simp add: item_queued_def)
  have none: "(map_option fst \<circ> f) i = None" "(map_option snd \<circ> f) i = None" using 2(2) by simp_all
  have "mset (sent w') = base + (\<Sum>k < length items. first_of (f(i \<mapsto> ?x)) k) \<and>
      mset (calls @ zip ps rs) = (\<Sum>k < length items. second_of (f(i \<mapsto> ?x)) k)"
    using 2(3) told_of_update [where f = "map_option fst \<circ> f" and N = M, OF 2(1) none(1)]
      told_of_update [where f = "map_option snd \<circ> f" and N = "mset (zip ps rs)", OF 2(1) none(2)] M(4)
    by (simp add: wl map_option_o_map_upd add.assoc)
  with run(2,3) told M(1,2) 2(3) wl show ?case by (intro conjI exI [of _ ?x]) simp_all
qed

lemma processConcurrently_calls:
  assumes run: "processConcurrently pick (watched (ProcessorDeps provide R send_note foreign)) items (w, []) = (q, (w', calls))"
  shows "subs w' = subs w \<and> other w' = other w \<and> (\<exists>M. mset (sent w') = mset (sent w) + M \<and>
    M \<subseteq># sum_list (map (due (subs w)) items) \<and> accepted (mset calls) \<subseteq># M \<and>
    (case q of
       Inl e \<Rightarrow> external e
     | Inr u \<Rightarrow> list_all (\<lambda>item. snd item \<noteq> Inherited_Member) items \<and>
         mset (map fst calls) = sum_list (map (due (subs w)) items) \<and>
         (reliable send_note \<longrightarrow> M = sum_list (map (due (subs w)) items))))"
proof -
  from pool_env.processConcurrently_tells [OF queue_pool run, of "subs w" "other w" "mset (sent w)"]
  obtain f where f: "subs w' = subs w" "other w' = other w"
    "mset (sent w') = mset (sent w) + (\<Sum>i < length items. first_of f i)" "mset calls = (\<Sum>i < length items. second_of f i)"
    "\<And>i x. i < length items \<Longrightarrow> f i = Some x \<Longrightarrow> item_queued send_note (subs w) (items ! i) x"
    "case q of Inl e \<Rightarrow> external e | Inr u \<Rightarrow> \<forall>i < length items. f i \<noteq> None"
    by auto
  have item: "first_of f i \<subseteq># due (subs w) (items ! i)" "accepted (second_of f i) \<subseteq># first_of f i" if "i < length items" for i
    using f(5) [OF that] by (cases "f i"; fastforce simp: item_queued_def)+
  have sub: "(\<Sum>i < length items. first_of f i) \<subseteq># sum_list (map (due (subs w)) items)"
    unfolding due_of_items using item(1) by (intro multiset_sum_mono)
  have acc: "accepted (mset calls) \<subseteq># (\<Sum>i < length items. first_of f i)"
    unfolding f(4) accepted_sum using item(2) by (intro multiset_sum_mono)
  have "case q of
       Inl e \<Rightarrow> external e
     | Inr u \<Rightarrow> list_all (\<lambda>item. snd item \<noteq> Inherited_Member) items \<and>
         mset (map fst calls) = sum_list (map (due (subs w)) items) \<and>
         (reliable send_note \<longrightarrow> (\<Sum>i < length items. first_of f i) = sum_list (map (due (subs w)) items))"
  proof (cases q)
    case (Inl e)
    with f(6) show ?thesis by simp
  next
    case (Inr u)
    with f(6) have some: "\<exists>x. f i = Some x \<and> item_queued send_note (subs w) (items ! i) x" if "i < length items" for i
      using that f(5) by auto
    have "list_all (\<lambda>item. snd item \<noteq> Inherited_Member) items"
      unfolding list_all_length using some by (fastforce simp: item_queued_def)
    moreover have "mset (map fst calls) = (\<Sum>i < length items. image_mset fst (second_of f i))"
      by (simp add: f(4) fst_of_sum)
    moreover have "\<dots> = sum_list (map (due (subs w)) items)"
      unfolding due_of_items by (rule sum.cong) (use some in \<open>fastforce simp: item_queued_def\<close>)+
    moreover have "(\<Sum>i < length items. first_of f i) = sum_list (map (due (subs w)) items)" if "reliable send_note"
      unfolding due_of_items by (rule sum.cong) (use some that in \<open>fastforce simp: item_queued_def\<close>)+
    ultimately show ?thesis using Inr by simp
  qed
  with f(1-3) sub acc show ?thesis by blast
qed

lemma processConcurrently_outcome:
  assumes run: "processConcurrently pick (ProcessorDeps provide R send_note foreign) items w = (q, w')"
  shows "subs w' = subs w \<and> other w' = other w \<and> (case q of
      Inl e \<Rightarrow> external e \<and> (\<exists>M. mset (sent w') = mset (sent w) + M \<and> M \<subseteq># sum_list (map (due (subs w)) items))
    | Inr u \<Rightarrow> list_all (\<lambda>item. snd item \<noteq> Inherited_Member) items \<and>
        (\<exists>M. mset (sent w') = mset (sent w) + M \<and> M \<subseteq># sum_list (map (due (subs w)) items) \<and>
          (reliable send_note \<longrightarrow> M = sum_list (map (due (subs w)) items))))"
proof -
  obtain q1 w1 calls where watch:
    "processConcurrently pick (watched (ProcessorDeps provide R send_note foreign)) items (w, []) = (q1, (w1, calls))"
    by (metis prod.exhaust)
  with watched_concurrently [OF watch] run have "q1 = q" "w1 = w'" by simp_all
  with processConcurrently_calls [OF watch] show ?thesis by (cases q) auto
qed

text \<open>One repository after the other does the same.\<close>

lemma sequential_outcome:
  assumes "for_each items (processRepo (ProcessorDeps provide R send_note foreign)) w = (Inr u, w')"
  shows "subs w' = subs w \<and> other w' = other w \<and>
    (reliable send_note \<longrightarrow> mset (sent w') = mset (sent w) + sum_list (map (due (subs w)) items))"
  using assms
proof (induction items arbitrary: w)
  case (Cons item items)
  from Cons.prems [unfolded for_each.simps] obtain w1 where
    one: "processRepo (ProcessorDeps provide R send_note foreign) item w = (Inr (), w1)" and
    rest: "for_each items (processRepo (ProcessorDeps provide R send_note foreign)) w1 = (Inr u, w')"
    by (elim await_outcome) auto
  from one [unfolded processRepo_def] obtain ps w2 where
    query: "processRepo_query (ProcessorDeps provide R send_note foreign) item w = (Inr ps, w2)" and
    told: "processRepo_notify (ProcessorDeps provide R send_note foreign) ps w2 = (Inr (), w1)"
    by (elim await_outcome) auto
  from processRepo_query_outcome [OF query] processRepo_notify_outcome [OF told]
  have "subs w1 = subs w" "other w1 = other w"
    "reliable send_note \<longrightarrow> mset (sent w1) = mset (sent w) + due (subs w) item" by auto
  with Cons.IH [OF rest] show ?case by (auto simp: add.assoc)
qed simp

end

section \<open>An instance for evaluation\<close>

record system_world = queue_world +
  sy_subs :: "subscription list"

definition mem_system_subscriptions :: "'z system_world_scheme subscription_delegate" where
  "mem_system_subscriptions = listed_subscriptions sy_subs (\<lambda>xs w. w\<lparr>sy_subs := xs\<rparr>)"

definition mem_release_notifier :: "release_payload \<Rightarrow> ('z system_world_scheme, unit) async" where
  "mem_release_notifier = QueueNotifier (RabbitEmailQueue_publish (ret mem_queue_channel))"

text \<open>A database client that refuses an argument of the wrong type.\<close>

definition refuse_query :: "string \<Rightarrow> ('w, unit) async" where
  "refuse_query repo = throw (Other ''PrismaClientValidationError'')"

lemma processor_over_channel:
  fixes view :: "'z system_world_scheme \<Rightarrow> 'v"
  assumes ch: "amqp_channel ch qw_broker (\<lambda>w. (set (sy_subs w), view w))"
    and view: "\<And>xs w. view (w\<lparr>sy_subs := xs\<rparr>) = view w"
  shows "processor_env (SubscriptionRepository mem_system_subscriptions) (\<lambda>w. set (sy_subs w))
    (QueueNotifier (RabbitEmailQueue_publish (ret ch))) (\<lambda>w. notified (emails_on_queue (qw_broker w))) view refuse_query"
proof (intro processor_env.intro scan_reads.intro scan_reads_axioms.intro)
  show "subscription_store (SubscriptionRepository mem_system_subscriptions) (\<lambda>w. set (sy_subs w))
      (\<lambda>w. (notified (emails_on_queue (qw_broker w)), view w))"
    unfolding mem_system_subscriptions_def
    by (rule subscription_prisma.store, rule listed_subscription_prisma) (simp_all add: view)
  have "channel_source (ret ch) qw_broker (\<lambda>w. (set (sy_subs w), view w))"
    by unfold_locales (simp add: ch)
  then show "outbox (QueueNotifier (RabbitEmailQueue_publish (ret ch))) (\<lambda>w. notified (emails_on_queue (qw_broker w)))
      (\<lambda>w. (set (sy_subs w), view w))"
    by (intro QueueNotifier_outbox channel_source.RabbitEmailQueue_outbox)
qed (auto simp: refuse_query_def)

lemma mem_processor:
  fixes view :: "'z system_world_scheme \<Rightarrow> 'v"
  assumes "\<And>xs w. view (w\<lparr>qw_broker := xs\<rparr>) = view w" and "\<And>xs w. view (w\<lparr>sy_subs := xs\<rparr>) = view w"
  shows "processor_env (SubscriptionRepository mem_system_subscriptions) (\<lambda>w. set (sy_subs w))
    mem_release_notifier (\<lambda>w. notified (emails_on_queue (qw_broker w))) view refuse_query"
  unfolding mem_release_notifier_def
  by (intro processor_over_channel mem_queue_amqp_channel) (simp_all add: assms)

text \<open>A notifier over a channel that never closes.\<close>

definition steady_channel :: "'z queue_world_scheme channel" where
  "steady_channel = logged qw_broker (\<lambda>xs w. w\<lparr>qw_broker := xs\<rparr>) (\<lambda>_ _. False)"

definition steady_notifier :: "release_payload \<Rightarrow> (system_world, unit) async" where
  "steady_notifier = QueueNotifier (RabbitEmailQueue_publish (ret steady_channel))"

lemma steady_processor:
  "processor_env (SubscriptionRepository mem_system_subscriptions) (\<lambda>w. set (sy_subs w))
    steady_notifier (\<lambda>w. notified (emails_on_queue (qw_broker w))) rw_keys refuse_query"
  unfolding steady_notifier_def steady_channel_def
  by (intro processor_over_channel logged_amqp_channel) simp_all

lemma steady_reliable: "reliable steady_notifier"
  by (simp add: reliable_def steady_notifier_def QueueNotifier_def RabbitEmailQueue_publish_def steady_channel_def
      logged_def Let_def)

interpretation mem_processor: processor_env "SubscriptionRepository mem_system_subscriptions"
    "\<lambda>w. set (sy_subs w)" mem_release_notifier "\<lambda>w. notified (emails_on_queue (qw_broker w))"
    "rw_keys :: system_world \<Rightarrow> _" refuse_query
  by (rule mem_processor) simp_all

interpretation mem_pool: pool_env
    "watched (ProcessorDeps provide (SubscriptionRepository mem_system_subscriptions) mem_release_notifier refuse_query)" items
    "\<lambda>f (w, calls). set (sy_subs w) = S \<and> rw_keys (w :: system_world) = x \<and>
       mset (notified (emails_on_queue (qw_broker w))) = base + (\<Sum>i < length items. first_of f i) \<and>
       mset calls = (\<Sum>i < length items. second_of f i)"
    "\<lambda>i ps. mset ps = due S (items ! i) \<and> snd (items ! i) \<noteq> Inherited_Member"
    "\<lambda>i. item_queued (mem_release_notifier :: release_payload \<Rightarrow> (system_world, unit) async) S (items ! i)"
  for provide items S x base
  by (rule mem_processor.queue_pool)

section \<open>Properties\<close>

text \<open>Running the pool for a number of steps, as long as a loop is active.\<close>

fun pool_steps :: "(pool \<Rightarrow> nat) \<Rightarrow> 'w processor_deps \<Rightarrow> (string \<times> release_tag) list \<Rightarrow> nat \<Rightarrow>
    pool \<times> 'w \<Rightarrow> pool \<times> 'w" where
  "pool_steps pick deps items 0 (p, w) = (p, w)"
| "pool_steps pick deps items (Suc k) (p, w) =
     (if list_ex active (workers p)
      then pool_steps pick deps items k (pool_step deps items (first_active (workers p) (pick p)) (p, w))
      else (p, w))"

lemma pool_steps_ok:
  "pool_ok items p \<Longrightarrow> pool_ok items (fst (pool_steps pick deps items k (p, w)))"
proof (induction k arbitrary: p w)
  case (Suc k)
  show ?case
  proof (cases "list_ex active (workers p)")
    case True
    let ?j = "first_active (workers p) (pick p)"
    obtain s c w1 where st: "worker_step deps items (workers p ! ?j) (cursor p) w = (s, c, w1)"
      by (metis prod_cases3)
    from pool_ok_step [OF Suc.prems _ st] first_active_ok [OF True, of "pick p"]
    have "pool_ok items \<lparr>cursor = c, workers = (workers p)[?j := s]\<rparr>" by simp
    from Suc.IH [OF this] True show ?thesis by (simp add: pool_step_def st)
  qed (use Suc.prems in simp)
qed simp

lemma pool_steps_end:
  "pool_measure items p \<le> k \<Longrightarrow> \<not> list_ex active (workers (fst (pool_steps pick deps items k (p, w))))"
proof (induction k arbitrary: p w)
  case 0
  have "\<not> active s" if "s \<in> set (workers p)" for s
  proof
    assume "active s"
    from 0 have "\<forall>n \<in> set (map weight (workers p)). n = 0" by (simp add: pool_measure_def)
    with that have "weight s = 0" by simp
    with weight_pos [OF \<open>active s\<close>] show False by simp
  qed
  then show ?case by (simp add: list_ex_iff)
next
  case (Suc k)
  show ?case
  proof (cases "list_ex active (workers p)")
    case True
    let ?j = "first_active (workers p) (pick p)"
    obtain p1 w1 where st: "pool_step deps items ?j (p, w) = (p1, w1)" by fastforce
    from pool_step_decreases [of ?j p items deps w] first_active_ok [OF True, of "pick p"] st
    have "pool_measure items p1 < pool_measure items p" by simp
    with Suc.prems Suc.IH [of p1 w1] True st show ?thesis by simp
  qed simp
qed

text \<open>C35. Whatever loop runs next and whatever the database and the notifier answer, at most five
  repositories are in progress at any time, each with one loop, and after at most \<open>4 n + 5\<close> steps for
  \<open>n\<close> repositories every loop has ended.\<close>

theorem pool_terminates:
  "\<not> list_ex active (workers (fst (pool_steps pick deps items (4 * length items + 5) (start_pool items, w)))) \<and>
   length (filter (\<lambda>s. busy_with s \<noteq> None) (workers (fst (pool_steps pick deps items k (start_pool items, w))))) \<le> 5 \<and>
   pool_ok items (fst (pool_steps pick deps items k (start_pool items, w)))"
proof (intro conjI)
  have "pool_measure items (start_pool items) \<le> 4 * length items + 5"
    by (simp add: pool_measure_def start_pool_def sum_list_replicate REPO_CONCURRENCY_def)
  then show "\<not> list_ex active (workers (fst (pool_steps pick deps items (4 * length items + 5) (start_pool items, w))))"
    by (rule pool_steps_end)
  show ok: "pool_ok items (fst (pool_steps pick deps items k (start_pool items, w)))"
    by (rule pool_steps_ok [OF pool_ok_start])
  then have "length (workers (fst (pool_steps pick deps items k (start_pool items, w)))) \<le> 5"
    by (simp add: pool_ok_def REPO_CONCURRENCY_def)
  then show "length (filter (\<lambda>s. busy_with s \<noteq> None) (workers (fst (pool_steps pick deps items k (start_pool items, w))))) \<le> 5"
    by (rule order_trans [OF length_filter_le])
qed

text \<open>A batch that is processed without an error notifies exactly the active subscribers of its
  repositories whose last seen tag differs from the latest release, each once, with the link of
  their own subscription: no other notification is sent, and none is missing unless the queue
  refused it. No row of the database changes; a repository without a release is skipped.\<close>

lemma scan_notifies_outdated:
  assumes env: "processor_env R subs send_note sent other foreign"
    and provide: "provide repos w = (Inr releases, w1)" "subs w1 = subs w" "sent w1 = sent w" "other w1 = other w"
    and run: "process_batch pick (ProcessorDeps provide R send_note foreign) repos w = (Inr u, w')"
    and some: "repos \<noteq> []"
  shows "subs w' = subs w \<and> other w' = other w \<and>
    (\<exists>M. mset (sent w') = mset (sent w) + M \<and>
       M \<subseteq># sum_list (map (due (subs w)) (pending_items repos releases)) \<and>
       (reliable send_note \<longrightarrow> M = sum_list (map (due (subs w)) (pending_items repos releases))))"
proof -
  from run some provide(1) have
    "processConcurrently pick (ProcessorDeps provide R send_note foreign) (pending_items repos releases) w1 = (Inr u, w')"
    by (simp add: process_batch_def await_resolved ProcessorDeps_def)
  from processor_env.processConcurrently_outcome [OF env this] provide(2-4) show ?thesis by auto
qed

definition subscribed :: "string \<Rightarrow> string \<Rightarrow> string option \<Rightarrow> subscription" where
  "subscribed i repo tag = \<lparr>sub_id = i, sub_email = i, repository = repo, status = ACTIVE,
     confirmToken = i, unsubscribeToken = i, lastSeenTag = tag, createdAt = 0\<rparr>"

definition scanned_system :: system_world where
  "scanned_system = \<lparr>rw_keys = Map.empty, rw_now = 0, rw_uuids = 0, rw_down = False,
     qw_broker = [], qw_closed = False, qw_full = False,
     sy_subs = [subscribed ''a'' ''o/r'' None, subscribed ''b'' ''o/r'' (Some ''v1''), subscribed ''c'' ''p/q'' None]\<rparr>"

definition mem_scanner_deps :: "(string \<times> string) list \<Rightarrow> system_world processor_deps" where
  "mem_scanner_deps releases = ProcessorDeps (\<lambda>repos. ret releases)
     (SubscriptionRepository mem_system_subscriptions) mem_release_notifier refuse_query"

lemmas processor_run_defs =
  process_batch_def processConcurrently_def pool_loop.simps start_pool_def REPO_CONCURRENCY_def
  mem_scanner_deps_def ProcessorDeps_def pending_items_def js_get_def map_filter_simps rejection_def
  first_active_def pool_step_def processRepo_query_def processRepo_notify_def
  SubscriptionRepository_def getOutdatedSubscribers_q_def mem_system_subscriptions_def
  listed_subscriptions_def listed_def io_defs mem_release_notifier_def QueueNotifier_def
  RabbitEmailQueue_publish_def mem_queue_channel_def pressured_def logged_def Let_def sql_not_def

lemma scanned_example:
  "process_batch (\<lambda>_. 0) (mem_scanner_deps [(''o/r'', ''v1'')]) [''o/r''] scanned_system =
     (Inr (), scanned_system\<lparr>qw_broker := [Sent EMAIL_QUEUE_NAME (Text (email_message_json (Release
        (releaseIdempotencyKey ''a'' ''o/r'' ''v1'') ''a'' ''o/r'' ''v1'' ''a''))) no_headers]\<rparr>)"
  by (simp add: processor_run_defs scanned_system_def subscribed_def)

text \<open>C24. The loops agree with the simplest way to process a batch, one repository after another: for
  every order in which the loops run, both send the same notifications, as long as the queue takes
  them.\<close>

theorem pool_agrees_with_sequential:
  assumes env: "processor_env R subs send_note sent other foreign"
    and reliable: "reliable send_note"
    and pool: "processConcurrently pick (ProcessorDeps provide R send_note foreign) items w = (Inr u, w1)"
    and seq: "for_each items (processRepo (ProcessorDeps provide R send_note foreign)) w = (Inr u', w2)"
  shows "mset (sent w1) = mset (sent w2) \<and> subs w1 = subs w2 \<and> other w1 = other w2"
  using processor_env.processConcurrently_outcome [OF env pool] processor_env.sequential_outcome [OF env seq] reliable
  by auto

definition steady_deps :: "system_world processor_deps" where
  "steady_deps = ProcessorDeps (\<lambda>repos. ret []) (SubscriptionRepository mem_system_subscriptions)
     steady_notifier refuse_query"

lemmas steady_run_defs =
  processor_run_defs steady_deps_def steady_notifier_def steady_channel_def scanned_system_def subscribed_def
  processRepo_def

theorem pool_agrees_with_sequential_witness:
  "mset (notified (emails_on_queue (qw_broker (snd (processConcurrently (\<lambda>p. cursor p) steady_deps
       [(''o/r'', Tag ''v1''), (''p/q'', Tag ''v2'')] scanned_system))))) =
   mset (notified (emails_on_queue (qw_broker (snd (for_each [(''o/r'', Tag ''v1''), (''p/q'', Tag ''v2'')]
       (processRepo steady_deps) scanned_system)))))"
proof -
  let ?items = "[(''o/r'', Tag ''v1''), (''p/q'', Tag ''v2'')]"
  obtain q w1 where pool: "processConcurrently (\<lambda>p. cursor p) steady_deps ?items scanned_system = (q, w1)" by fastforce
  moreover have "fst (processConcurrently (\<lambda>p. cursor p) steady_deps ?items scanned_system) = Inr ()"
    by (simp add: steady_run_defs)
  ultimately have q: "q = Inr ()" by simp
  obtain q' w2 where seq: "for_each ?items (processRepo steady_deps) scanned_system = (q', w2)" by fastforce
  moreover have "fst (for_each ?items (processRepo steady_deps) scanned_system) = Inr ()"
    by (simp add: steady_run_defs)
  ultimately have q': "q' = Inr ()" by simp
  show ?thesis
    using pool_agrees_with_sequential [OF steady_processor steady_reliable
        pool [unfolded steady_deps_def q] seq [unfolded steady_deps_def q']] pool seq
    by (simp add: steady_deps_def)
qed

text \<open>A repository named like a member every JavaScript object inherits, such as \<open>constructor\<close>, has a
  release in every answer of GitHub. The query for it is refused, since what is found there is no
  string, and with it the batch: every batch it is part of is rejected, so up to 49 other
  repositories are retried and then given up without their notifications.\<close>

lemma inherited_name_fails_batch:
  assumes env: "processor_env R subs send_note sent other foreign"
    and provide: "provide repos w = (Inr releases, w1)"
    and name: "repo \<in> set repos" "repo \<in> set inherited" "map_of releases repo = None"
  shows "\<exists>e w'. process_batch pick (ProcessorDeps provide R send_note foreign) repos w = (Inl e, w') \<and> external e"
proof -
  let ?items = "pending_items repos releases"
  obtain q w' where run: "processConcurrently pick (ProcessorDeps provide R send_note foreign) ?items w1 = (q, w')"
    by fastforce
  have "(repo, Inherited_Member) \<in> set ?items"
    using name by (force simp: pending_items_def set_map_filter js_get_def)
  then have "\<not> list_all (\<lambda>item. snd item \<noteq> Inherited_Member) ?items" by (force simp: list_all_iff)
  with processor_env.processConcurrently_outcome [OF env run] obtain e where "q = Inl e" "external e"
    by (cases q) auto
  moreover have "repos \<noteq> []" using name(1) by auto
  ultimately show ?thesis
    using run provide by (simp add: process_batch_def await_resolved ProcessorDeps_def)
qed

end
