(* ===== verification/Scan_Worker.thy ===== *)
theory Scan_Worker
  imports Scan_Processor
begin

text \<open>
  The scan worker, \<open>git-release-notifier-be/src/workers/scanner/scanner.worker.ts\<close> with
  \<open>infrastructure/handlers.ts\<close>: what it does with one delivery of the scan queue. A batch that
  fails goes to the retry queue with a counter, whose messages the broker returns to the scan queue
  after five seconds; the fourth failure drops it. \<open>scan_delivery_settled\<close> says how every delivery
  ends, \<open>scan_retries_bounded\<close> that the retries do.

  The payload is whatever \<open>JSON.parse\<close> gives: the code casts it without a check. What the Redis
  client makes of an argument of \<open>unlock\<close> is \<open>redis_arg\<close>, \<open>delay\<close> is an operation that resolves.
\<close>

section \<open>The handlers\<close>

definition MAX_RETRIES :: int where "MAX_RETRIES = 3"
definition NACK_RETRY_DELAY_MS :: nat where "NACK_RETRY_DELAY_MS = 5000"
definition RATE_LIMIT_DELAY_MS :: nat where "RATE_LIMIT_DELAY_MS = 1000"

definition parsePayload :: "consume_message \<Rightarrow> json option" where
  "parsePayload msg = JSON_parse (msg_content msg)"

definition retry_headers :: "consume_message \<Rightarrow> amqp_headers" where
  "retry_headers msg = (spread_headers msg)\<lparr>retry_count := Some (retryCount msg + 1)\<rparr>"

definition worker_handleRetry :: "'w channel \<Rightarrow> consume_message \<Rightarrow> ('w, bool) async" where
  "worker_handleRetry ch msg =
     (if MAX_RETRIES \<le> retryCount msg then await (nack ch msg False) (\<lambda>_. ret True)
      else
        await (try_catch
            (await (sendConfirmed ch RETRY_QUEUE_NAME (msg_content msg) (retry_headers msg)) (\<lambda>_. ret True))
            (\<lambda>err. await (nack ch msg True) (\<lambda>_. ret False)))
          (\<lambda>published. if published then await (nack ch msg False) (\<lambda>_. ret False) else ret False))"

section \<open>The worker\<close>

text \<open>What is falsy among the JSON values.\<close>

definition truthy :: "json option \<Rightarrow> bool" where
  "truthy v = (case v of None \<Rightarrow> False | Some j \<Rightarrow> j \<notin> {JNull, JBool False, JNum 0, JStr []})"

definition releaseLock :: "'w lock_store \<Rightarrow> (json option \<Rightarrow> string) \<Rightarrow> json option \<Rightarrow> json option \<Rightarrow> ('w, unit) async" where
  "releaseLock locks redis_arg lockKey token = swallow (unlock locks (redis_arg lockKey) (redis_arg token))"

definition processMessage :: "'w channel \<Rightarrow> (json \<Rightarrow> ('w, unit) async) \<Rightarrow> 'w lock_store \<Rightarrow>
    (json option \<Rightarrow> string) \<Rightarrow> (nat \<Rightarrow> ('w, unit) async) \<Rightarrow> consume_message \<Rightarrow> ('w, unit) async" where
  "processMessage ch process locks redis_arg delay msg =
     (let payload = parsePayload msg in
      if \<not> truthy payload then ack ch msg
      else
        (case field (the payload) ''repos'' of
           None \<Rightarrow> throw (Other ''TypeError'')
         | Some JNull \<Rightarrow> throw (Other ''TypeError'')
         | Some repos \<Rightarrow>
             (let lockKey = field (the payload) ''lockKey''; lockToken = field (the payload) ''lockToken'' in
              try_catch
                (await (process repos) (\<lambda>_.
                 await (ack ch msg) (\<lambda>_.
                 await (if truthy lockKey then releaseLock locks redis_arg lockKey lockToken else ret ()) (\<lambda>_.
                 delay RATE_LIMIT_DELAY_MS))))
                (\<lambda>error.
                 await (worker_handleRetry ch msg) (\<lambda>permanent.
                 if permanent \<and> truthy lockKey then releaseLock locks redis_arg lockKey lockToken else ret ())))))"

text \<open>The callback given to \<open>channel.consume\<close>.\<close>

definition worker_onMessage :: "'w channel \<Rightarrow> (json \<Rightarrow> ('w, unit) async) \<Rightarrow> 'w lock_store \<Rightarrow>
    (json option \<Rightarrow> string) \<Rightarrow> (nat \<Rightarrow> ('w, unit) async) \<Rightarrow> consume_message option \<Rightarrow> ('w, unit) async" where
  "worker_onMessage ch process locks redis_arg delay m =
     (case m of
        None \<Rightarrow> ret ()
      | Some msg \<Rightarrow> try_catch (processMessage ch process locks redis_arg delay msg)
                     (\<lambda>err. swallow (nack ch msg False)))"

text \<open>
  The processor behind the cast: a list of strings is a batch; of anything else only \<open>length\<close> is
  read before the GitHub client fails on it.
\<close>

definition js_length :: "json \<Rightarrow> json option" where
  "js_length j = (case j of
      JArr js \<Rightarrow> Some (JNum (int (length js)))
    | JStr s \<Rightarrow> Some (JNum (int (length s)))
    | _ \<Rightarrow> field j ''length'')"

definition process_payload :: "(string list \<Rightarrow> ('w, unit) async) \<Rightarrow> json \<Rightarrow> ('w, unit) async" where
  "process_payload process repos =
     (case string_list repos of
        Some rs \<Rightarrow> process rs
      | None \<Rightarrow> if js_length repos = Some (JNum 0) then ret ()
                else throw (App (GithubError GITHUB_UNAVAILABLE)))"

lemma process_payload_strings [simp]: "process_payload process (JArr (map JStr rs)) = process rs"
  by (simp add: process_payload_def)

lemma process_payload_one: "process_payload process (JArr [JStr r]) = process [r]"
  using process_payload_strings [of process "[r]"] by simp

section \<open>How a delivery ends\<close>

text \<open>What the worker may tell the broker of a batch that failed; it says less when the channel closes.\<close>

abbreviation retry_event :: "consume_message \<Rightarrow> broker_event" where
  "retry_event msg \<equiv> Sent RETRY_QUEUE_NAME (msg_content msg) (retry_headers msg)"

definition failed_batch_events :: "consume_message \<Rightarrow> broker_event list set" where
  "failed_batch_events msg =
     (if MAX_RETRIES \<le> retryCount msg then {[Nacked msg False], []}
      else {[retry_event msg, Nacked msg False], [retry_event msg, Nacked msg True], [Nacked msg True],
            [retry_event msg], []})"

context closing_channel begin

lemma worker_handleRetry_outcome:
  assumes "worker_handleRetry ch msg w = (q, w')"
  shows "rest w' = rest w \<and> (\<exists>evs \<in> failed_batch_events msg. broker w' = broker w @ evs \<and>
    (case q of Inl e \<Rightarrow> closed w' \<and> list_all (\<lambda>e. \<not> settles msg e) evs
     | Inr b \<Rightarrow> b = (MAX_RETRIES \<le> retryCount msg) \<and> length (filter (settles msg) evs) = 1) \<and>
    (closed w \<longrightarrow> isl q \<and> evs = []))"
proof (cases "MAX_RETRIES \<le> retryCount msg")
  case True
  with assms have "await (nack ch msg False) (\<lambda>_. ret True) w = (q, w')"
    by (simp add: worker_handleRetry_def)
  then show ?thesis
  proof (cases rule: await_outcome)
    case (rejected e)
    from nack_law [OF rejected(1)] nack_closed [OF rejected(1)] rejected(2) True show ?thesis
      by (simp add: failed_batch_events_def)
  next
    case (resolved a w1)
    from nack_law [OF resolved(1)] closed_nack [OF _ resolved(1)] resolved(2) True show ?thesis
      by (auto simp: failed_batch_events_def)
  qed
next
  case False
  let ?S = "retry_event msg"
  let ?send = "sendConfirmed ch RETRY_QUEUE_NAME (msg_content msg) (retry_headers msg)"
  have evs: "failed_batch_events msg = {[?S, Nacked msg False], [?S, Nacked msg True], [Nacked msg True], [?S], []}"
    using False by (simp add: failed_batch_events_def)
  from assms False have "await (try_catch (await ?send (\<lambda>_. ret True)) (\<lambda>err. await (nack ch msg True) (\<lambda>_. ret False)))
      (\<lambda>published. if published then await (nack ch msg False) (\<lambda>_. ret False) else ret False) w = (q, w')"
    by (simp add: worker_handleRetry_def)
  then show ?thesis
  proof (cases rule: await_try_catch_outcome)
    case (resolved a w1)
    then obtain u where s: "?send w = (Inr u, w1)" and "a = True" by (elim await_outcome) auto
    with resolved(2) have "await (nack ch msg False) (\<lambda>_. ret False) w1 = (q, w')" by simp
    then show ?thesis
    proof (cases rule: await_outcome)
      case (rejected e)
      from nack_law [OF rejected(1)] nack_closed [OF rejected(1)] closed_confirmed [OF _ s] rejected(2)
        sendConfirmed_law [OF s] False
      show ?thesis by (auto simp: evs)
    next
      case (resolved a w2)
      from nack_law [OF resolved(1)] closed_confirmed [OF _ s] resolved(2) sendConfirmed_law [OF s] False
      show ?thesis by (auto simp: evs)
    qed
  next
    case (rejected e w1)
    then have s: "?send w = (Inl e, w1)" by (elim await_outcome) auto
    from rejected(2) have "await (nack ch msg True) (\<lambda>_. ret False) w1 = (q, w')"
      by (simp add: await_assoc)
    then show ?thesis
    proof (cases rule: await_outcome)
      case (rejected e)
      from nack_law [OF rejected(1)] nack_closed [OF rejected(1)] closed_confirmed [OF _ s] rejected(2)
        sendConfirmed_law [OF s] False
      show ?thesis by (auto simp: evs)
    next
      case (resolved a w2)
      from nack_law [OF resolved(1)] closed_nack [OF _ resolved(1)] closed_confirmed [OF _ s] resolved(2)
        sendConfirmed_law [OF s] False
      show ?thesis by (auto simp: evs)
    qed
  qed
qed

end

section \<open>A worker and its environment\<close>

text \<open>The processor settles nothing and leaves the scan queues and the locks alone.\<close>

definition elsewhere :: "broker_event \<Rightarrow> bool" where
  "elsewhere e \<longleftrightarrow> (case e of Sent q c h \<Rightarrow> q \<notin> {QUEUE_NAME, RETRY_QUEUE_NAME} | _ \<Rightarrow> False)"

definition scan_events :: "broker_event list \<Rightarrow> broker_event list" where
  "scan_events = filter (\<lambda>e. \<not> elsewhere e)"

locale worker_env =
  chan: closing_channel ch broker held closed +
  lock: lock_contract locks held now issued broker
  for ch :: "'w channel"
    and broker :: "'w \<Rightarrow> broker_event list"
    and held :: "'w \<Rightarrow> locks"
    and closed :: "'w \<Rightarrow> bool"
    and locks :: "'w lock_store"
    and now issued +
  fixes process :: "json \<Rightarrow> ('w, unit) async"
    and redis_arg :: "json option \<Rightarrow> string"
    and delay :: "nat \<Rightarrow> ('w, unit) async"
  assumes process_law: "\<And>w q w'. process repos w = (q, w') \<Longrightarrow>
      held w' = held w \<and> scan_events (broker w') = scan_events (broker w)"
    and redis_arg_law: "redis_arg (Some (JStr s)) = s"
    and delay_law: "\<And>w q w'. delay ms w = (q, w') \<Longrightarrow>
      q = Inr () \<and> broker w' = broker w \<and> held w' = held w \<and> now w \<le> now w'"

text \<open>
  The end of a delivery of the job \<open>p\<close>. \<open>settle\<close> is what the worker told the broker of it: all went
  well and it was acknowledged, the batch failed, or the channel closed and the broker has the
  delivery again. The lock changes hands only by its owner giving it up, once the job is over.
\<close>

definition job_over :: "consume_message \<Rightarrow> broker_event list \<Rightarrow> bool" where
  "job_over msg settle \<longleftrightarrow> settle = [Acked msg] \<or> MAX_RETRIES \<le> retryCount msg \<and> settle = [Nacked msg False]"

definition reliable_unlock :: "'w lock_store \<Rightarrow> bool" where
  "reliable_unlock locks \<longleftrightarrow> (\<forall>k t w. \<not> isl (fst (unlock locks k t w)))"

definition job_lock_end :: "'w lock_store \<Rightarrow> ('w \<Rightarrow> locks) \<Rightarrow> ('w \<Rightarrow> nat) \<Rightarrow> bool \<Rightarrow> scan_job \<Rightarrow> 'w \<Rightarrow> 'w \<Rightarrow> bool" where
  "job_lock_end locks held now over p w w' \<longleftrightarrow>
     (held w' = held w \<or> over \<and> held w' = (held w)(job_lockKey p := None)) \<and>
     (over \<longrightarrow> reliable_unlock locks \<longrightarrow> (\<forall>t \<ge> now w'. live (held w') t (job_lockKey p) \<noteq> Some (job_lockToken p)))"

text \<open>The two ends of the \<open>try\<close> of \<open>processMessage\<close>.\<close>

definition after_success :: "'w channel \<Rightarrow> 'w lock_store \<Rightarrow> (json option \<Rightarrow> string) \<Rightarrow> (nat \<Rightarrow> ('w, unit) async) \<Rightarrow>
    consume_message \<Rightarrow> json option \<Rightarrow> json option \<Rightarrow> ('w, unit) async" where
  "after_success ch locks redis_arg delay msg lockKey token =
     await (ack ch msg) (\<lambda>_.
     await (if truthy lockKey then releaseLock locks redis_arg lockKey token else ret ()) (\<lambda>_.
     delay RATE_LIMIT_DELAY_MS))"

definition after_failure :: "'w channel \<Rightarrow> 'w lock_store \<Rightarrow> (json option \<Rightarrow> string) \<Rightarrow> consume_message \<Rightarrow>
    json option \<Rightarrow> json option \<Rightarrow> ('w, unit) async" where
  "after_failure ch locks redis_arg msg lockKey token =
     await (worker_handleRetry ch msg) (\<lambda>permanent.
     if permanent \<and> truthy lockKey then releaseLock locks redis_arg lockKey token else ret ())"

context worker_env begin

lemma releaseLock_outcome:
  assumes "releaseLock locks redis_arg (Some (JStr key)) (Some (JStr token)) w = (q, w')"
  shows "q = Inr () \<and> broker w' = broker w \<and> now w \<le> now w' \<and>
    (held w' = held w \<or> held w' = (held w)(key := None) \<and> live (held w) (now w') key = Some token) \<and>
    (reliable_unlock locks \<longrightarrow> (\<forall>t \<ge> now w'. live (held w') t key \<noteq> Some token))"
proof -
  from swallow_resolves [OF assms [unfolded releaseLock_def redis_arg_law]] obtain q1
    where q: "q = Inr ()" and run: "unlock locks key token w = (q1, w')" by blast
  note law = lock.unlock_law [OF run]
  have held: "held w' = held w \<or> held w' = (held w)(key := None) \<and> live (held w) (now w') key = Some token"
    using law by (cases q1) (simp, blast, simp split: if_splits)
  have "live (held w') t key \<noteq> Some token" if "q1 = Inr u" "now w' \<le> t" for t u
  proof (cases "live (held w) (now w') key = Some token")
    case True
    with law that have "held w' key = None" by simp
    then show ?thesis by (simp add: live_def)
  next
    case False
    with law that have "held w' = held w" by simp
    with False live_later [OF _ that(2)] show ?thesis by metis
  qed
  moreover have "\<exists>u. q1 = Inr u" if "reliable_unlock locks"
    using that [unfolded reliable_unlock_def, rule_format, of key token w] run by (cases q1) simp_all
  ultimately show ?thesis using q law held by auto
qed

lemma payload_of_job:
  assumes "parsePayload msg = Some (scan_job_json p)"
  shows "truthy (parsePayload msg)" "field (the (parsePayload msg)) ''repos'' = Some (JArr (map JStr (job_repos p)))"
    "field (the (parsePayload msg)) ''lockKey'' = Some (JStr (job_lockKey p))"
    "field (the (parsePayload msg)) ''lockToken'' = Some (JStr (job_lockToken p))"
  by (simp_all add: assms truthy_def scan_job_json_def field_def)

lemma processMessage_job:
  assumes "parsePayload msg = Some (scan_job_json p)"
  shows "processMessage ch process locks redis_arg delay msg =
    try_catch (await (process (JArr (map JStr (job_repos p)))) (\<lambda>_. after_success ch locks redis_arg delay msg (Some (JStr (job_lockKey p))) (Some (JStr (job_lockToken p)))))
      (\<lambda>e. after_failure ch locks redis_arg msg (Some (JStr (job_lockKey p))) (Some (JStr (job_lockToken p))))"
  using payload_of_job [OF assms] by (simp add: processMessage_def after_success_def after_failure_def Let_def)

lemma after_success_outcome:
  assumes run: "after_success ch locks redis_arg delay msg (Some (JStr key)) (Some (JStr token)) w = (q, w')" and key: "key \<noteq> []"
    and p: "job_lockKey p = key" "job_lockToken p = token"
  shows "(\<exists>e. q = Inl e \<and> closed w' \<and> broker w' = broker w \<and> held w' = held w) \<or>
    (q = Inr () \<and> broker w' = broker w @ [Acked msg] \<and> job_lock_end locks held now True p w w')"
  using run unfolding after_success_def
proof (cases rule: await_outcome)
  case (rejected e)
  from chan.ack_law [OF rejected(1)] chan.ack_closed [OF rejected(1)] rejected(2) show ?thesis by simp
next
  case (resolved u w1)
  from chan.ack_law [OF resolved(1)] have 1: "broker w1 = broker w @ [Acked msg]" "held w1 = held w" by simp_all
  from resolved(2) key have "await (releaseLock locks redis_arg (Some (JStr key)) (Some (JStr token)))
      (\<lambda>_. delay RATE_LIMIT_DELAY_MS) w1 = (q, w')" by (simp add: truthy_def)
  then show ?thesis
  proof (cases rule: await_outcome)
    case (rejected e)
    from releaseLock_outcome [OF rejected(1)] show ?thesis by simp
  next
    case (resolved u' w2)
    from releaseLock_outcome [OF resolved(1)] delay_law [OF resolved(2)] 1 p show ?thesis
      by (auto simp: job_lock_end_def)
  qed
qed

lemma after_failure_outcome:
  assumes run: "after_failure ch locks redis_arg msg (Some (JStr key)) (Some (JStr token)) w = (q, w')" and key: "key \<noteq> []"
    and p: "job_lockKey p = key" "job_lockToken p = token"
  shows "\<exists>settle \<in> failed_batch_events msg. broker w' = broker w @ settle \<and>
    (q = Inr () \<and> job_lock_end locks held now (job_over msg settle) p w w' \<and>
       \<not> list_all (\<lambda>e. \<not> settles msg e) settle \<or>
     isl q \<and> closed w' \<and> held w' = held w \<and> list_all (\<lambda>e. \<not> settles msg e) settle) \<and>
    (closed w \<longrightarrow> settle = [] \<and> isl q)"
  using run unfolding after_failure_def
proof (cases rule: await_outcome)
  case (rejected e)
  from chan.worker_handleRetry_outcome [OF rejected(1)] rejected(2) show ?thesis by fastforce
next
  case (resolved permanent w1)
  from chan.worker_handleRetry_outcome [OF resolved(1)] obtain settle where
    s: "settle \<in> failed_batch_events msg" "broker w1 = broker w @ settle" "held w1 = held w"
      "permanent = (MAX_RETRIES \<le> retryCount msg)" "length (filter (settles msg) settle) = 1" "\<not> closed w"
    by auto
  have some: "\<not> list_all (\<lambda>e. \<not> settles msg e) settle"
    using s(5) by (metis filter_False length_0_conv list_all_iff zero_neq_one)
  have over: "job_over msg settle = permanent"
    using s(1,4,5) by (auto simp: job_over_def failed_batch_events_def split: if_splits)
  show ?thesis
  proof (cases permanent)
    case True
    with resolved(2) key have "releaseLock locks redis_arg (Some (JStr key)) (Some (JStr token)) w1 = (q, w')"
      by (simp add: truthy_def)
    from releaseLock_outcome [OF this] s True over p some show ?thesis
      by (intro bexI [of _ settle]) (auto simp: job_lock_end_def)
  next
    case False
    with resolved(2) have "q = Inr ()" "w' = w1" by simp_all
    with s False over some show ?thesis by (intro bexI [of _ settle]) (simp_all add: job_lock_end_def)
  qed
qed

lemma onMessage_job:
  assumes job: "parsePayload msg = Some (scan_job_json p)" "job_lockKey p \<noteq> []"
    and run: "worker_onMessage ch process locks redis_arg delay (Some msg) w = (q, w')"
  shows "q = Inr () \<and> (\<exists>r w1 settle. process (JArr (map JStr (job_repos p))) w = (r, w1) \<and>
    broker w' = broker w1 @ settle \<and>
    settle \<in> (if isl r then failed_batch_events msg else {[Acked msg], []}) \<and>
    job_lock_end locks held now (job_over msg settle) p w1 w' \<and>
    (list_all (\<lambda>e. \<not> settles msg e) settle \<longrightarrow> closed w'))"
proof -
  let ?k = "Some (JStr (job_lockKey p))" and ?t = "Some (JStr (job_lockToken p))"
  let ?s = "after_success ch locks redis_arg delay msg ?k ?t" and ?f = "after_failure ch locks redis_arg msg ?k ?t"
  obtain r w1 where pr: "process (JArr (map JStr (job_repos p))) w = (r, w1)" by fastforce
  have not_over: "\<not> job_over msg settle" if "list_all (\<lambda>e. \<not> settles msg e) settle" for settle
    using that by (auto simp: job_over_def)
  have failed: "q = Inr () \<and> (\<exists>settle \<in> failed_batch_events msg. broker w' = broker v @ settle \<and>
      job_lock_end locks held now (job_over msg settle) p v w' \<and>
      (list_all (\<lambda>e. \<not> settles msg e) settle \<longrightarrow> closed w') \<and> (closed v \<longrightarrow> settle = []))"
    if "try_catch ?f (\<lambda>err. swallow (nack ch msg False)) v = (q, w')" for v
    using that
  proof (cases rule: try_catch_outcome)
    case (rejected e v1)
    from after_failure_outcome [OF rejected(1) job(2) refl refl] obtain settle where
      s: "settle \<in> failed_batch_events msg" "broker v1 = broker v @ settle" "closed v1" "held v1 = held v"
        "list_all (\<lambda>e. \<not> settles msg e) settle" "closed v \<longrightarrow> settle = []" by auto
    from chan.swallow_nack_closed [OF rejected(2) s(3)] have w': "q = Inr ()" "broker w' = broker v1" "held w' = held v1"
      "closed w'" by simp_all
    moreover have "job_lock_end locks held now (job_over msg settle) p v w'"
      unfolding job_lock_end_def w'(3) s(4) using not_over [OF s(5)] by blast
    moreover have "broker w' = broker v @ settle" unfolding w'(2) s(2) ..
    ultimately show ?thesis using s(1,6) w'(1,4) by blast
  next
    case (resolved u)
    from after_failure_outcome [OF resolved(1) job(2) refl refl] obtain settle where
      s: "settle \<in> failed_batch_events msg" "broker w' = broker v @ settle"
        "job_lock_end locks held now (job_over msg settle) p v w' \<and> \<not> list_all (\<lambda>e. \<not> settles msg e) settle"
        "closed v \<longrightarrow> settle = []" by (metis isl_def sum.simps(4))
    from resolved(2) have "q = Inr ()" by simp
    with s show ?thesis by blast
  qed
  from run processMessage_job [OF job(1)] have run':
    "try_catch (try_catch (await (process (JArr (map JStr (job_repos p)))) (\<lambda>_. ?s)) (\<lambda>e. ?f))
       (\<lambda>err. swallow (nack ch msg False)) w = (q, w')" by (simp add: worker_onMessage_def)
  show ?thesis
  proof (cases r)
    case (Inl e)
    with pr have "try_catch (await (process (JArr (map JStr (job_repos p)))) (\<lambda>_. ?s)) (\<lambda>e. ?f) w = ?f w1"
      by (simp add: try_catch_rejected [OF await_rejected])
    with run' have "try_catch ?f (\<lambda>err. swallow (nack ch msg False)) w1 = (q, w')" by (simp add: try_catch_def)
    from failed [OF this] pr Inl show ?thesis by auto
  next
    case (Inr u)
    obtain r2 w2 where s: "?s w1 = (r2, w2)" by fastforce
    with pr Inr have body: "await (process (JArr (map JStr (job_repos p)))) (\<lambda>_. ?s) w = (r2, w2)"
      by (simp add: await_def)
    from after_success_outcome [OF s job(2) refl refl] show ?thesis
    proof
      assume "\<exists>e. r2 = Inl e \<and> closed w2 \<and> broker w2 = broker w1 \<and> held w2 = held w1"
      then obtain e where r2: "r2 = Inl e" "closed w2" "broker w2 = broker w1" "held w2 = held w1" by blast
      with body run' have "try_catch ?f (\<lambda>err. swallow (nack ch msg False)) w2 = (q, w')"
        by (simp add: try_catch_def)
      from failed [OF this] r2 obtain settle where "q = Inr ()" "broker w' = broker w1 @ settle"
        "job_lock_end locks held now (job_over msg settle) p w2 w'"
        "list_all (\<lambda>e. \<not> settles msg e) settle \<longrightarrow> closed w'" "settle = []" by auto
      with pr Inr r2(4) show ?thesis by (auto simp: job_lock_end_def job_over_def)
    next
      assume r2: "r2 = Inr () \<and> broker w2 = broker w1 @ [Acked msg] \<and> job_lock_end locks held now True p w1 w2"
      with body run' have "q = Inr ()" "w' = w2" by (auto simp: try_catch_def)
      with r2 pr Inr show ?thesis
        by (intro conjI exI [of _ "Inr u"] exI [of _ w1] exI [of _ "[Acked msg]"]) (simp_all add: job_over_def)
    qed
  qed
qed

end

section \<open>Retries\<close>

text \<open>
  The retry queue has a time to live and the scan queue as its dead letter queue: the broker returns
  each of its messages, with its headers. \<open>again m m'\<close>: handling \<open>m\<close> made the broker deliver \<open>m'\<close>.
\<close>

definition returned_by_retry_queue :: "broker_event list \<Rightarrow> consume_message \<Rightarrow> bool" where
  "returned_by_retry_queue evs m \<longleftrightarrow>
     (case msg_headers m of None \<Rightarrow> False | Some h \<Rightarrow> Sent RETRY_QUEUE_NAME (msg_content m) h \<in> set evs)"

definition again :: "('w \<Rightarrow> broker_event list) \<Rightarrow> (consume_message option \<Rightarrow> ('w, unit) async) \<Rightarrow>
    consume_message \<Rightarrow> consume_message \<Rightarrow> bool" where
  "again broker on_message m m' \<longleftrightarrow> (\<exists>w q w' evs. on_message (Some m) w = (q, w') \<and>
     broker w' = broker w @ evs \<and> returned_by_retry_queue evs m')"

lemma scan_events_simps:
  "scan_events (evs @ evs') = scan_events evs @ scan_events evs'"
  "e \<in> set (scan_events evs) \<longleftrightarrow> e \<in> set evs \<and> \<not> elsewhere e"
  by (simp_all add: scan_events_def)

lemma retry_event_not_elsewhere: "\<not> elsewhere (Sent RETRY_QUEUE_NAME c h)"
  by (simp add: elsewhere_def)

lemma retryCount_retried:
  "msg_headers m' = Some (retry_headers m) \<Longrightarrow> retryCount m' = retryCount m + 1"
  by (simp add: retryCount_def retry_headers_def spread_headers_def)

context worker_env begin

lemma again_counts:
  assumes job: "parsePayload m = Some (scan_job_json p)" "job_lockKey p \<noteq> []"
    and "again broker (worker_onMessage ch process locks redis_arg delay) m m'"
  shows "retryCount m < MAX_RETRIES" "retryCount m' = retryCount m + 1" "msg_content m' = msg_content m"
proof -
  from assms(3) obtain w q w' evs h where run: "worker_onMessage ch process locks redis_arg delay (Some m) w = (q, w')"
    and evs: "broker w' = broker w @ evs" and h: "msg_headers m' = Some h"
    and sent: "Sent RETRY_QUEUE_NAME (msg_content m') h \<in> set evs"
    by (auto simp: again_def returned_by_retry_queue_def split: option.splits)
  from onMessage_job [OF job run] obtain r w1 settle where
    pr: "process (JArr (map JStr (job_repos p))) w = (r, w1)" and w1: "broker w' = broker w1 @ settle"
    and settle: "settle \<in> (if isl r then failed_batch_events m else {[Acked m], []})" by blast
  from process_law [OF pr] w1 evs have "scan_events evs = scan_events settle"
    by (metis append_same_eq scan_events_simps(1) same_append_eq)
  with sent retry_event_not_elsewhere have "Sent RETRY_QUEUE_NAME (msg_content m') h \<in> set settle"
    by (metis scan_events_simps(2))
  with settle have "retryCount m < MAX_RETRIES \<and> msg_content m' = msg_content m \<and> h = retry_headers m"
    by (auto simp: failed_batch_events_def split: if_splits)
  with retryCount_retried [of m' m] h show "retryCount m < MAX_RETRIES" "retryCount m' = retryCount m + 1"
    "msg_content m' = msg_content m" by simp_all
qed

lemma again_chain:
  assumes job: "parsePayload m = Some (scan_job_json p)" "job_lockKey p \<noteq> []"
    and "(again broker (worker_onMessage ch process locks redis_arg delay) ^^ n) m m'"
  shows "msg_content m' = msg_content m \<and> retryCount m' = retryCount m + int n \<and>
    (n \<noteq> 0 \<longrightarrow> retryCount m' \<le> MAX_RETRIES)"
  using assms(3)
proof (induction n arbitrary: m')
  case (Suc n)
  then obtain m1 where 1: "(again broker (worker_onMessage ch process locks redis_arg delay) ^^ n) m m1"
    and 2: "again broker (worker_onMessage ch process locks redis_arg delay) m1 m'" by auto
  from Suc.IH [OF 1] have "parsePayload m1 = Some (scan_job_json p)" using job(1) by (simp add: parsePayload_def)
  from again_counts [OF this job(2) 2] Suc.IH [OF 1] show ?case by simp
qed simp

end

section \<open>An instance for evaluation\<close>

lemma process_batch_preserves:
  assumes "\<And>rs. preserves v (provider deps rs)" and "\<And>i. preserves v (processRepo_query deps i)"
    and "\<And>ps. preserves v (processRepo_notify deps ps)"
  shows "preserves v (process_batch pick deps repos)"
proof -
  have step: "v w' = v w" if "pool_step deps items j (p, w) = (p', w')" for items j p w p' w'
    using that by (cases "workers p ! j")
      (auto simp: pool_step_def Let_def split: prod.splits sum.splits if_splits
        dest: preservesD [OF assms(2)] preservesD [OF assms(3)])
  have loop: "v w' = v w" if "pool_loop pick deps items (p, w) = (q, w')" for items p w q w'
    using that
  proof (induction "pool_measure items p" arbitrary: p w rule: less_induct)
    case less
    show ?case
    proof (cases "rejection p = None \<and> list_ex active (workers p)")
      case True
      let ?j = "first_active (workers p) (pick p)"
      obtain p1 w1 where st: "pool_step deps items ?j (p, w) = (p1, w1)" by fastforce
      from first_active_ok True have "?j < length (workers p)" "active (workers p ! ?j)" by blast+
      from pool_step_decreases [OF this, of items deps w] st
      have "pool_measure items p1 < pool_measure items p" by simp
      moreover from less.prems True st have "pool_loop pick deps items (p1, w1) = (q, w')"
        by (subst (asm) pool_loop.simps) simp
      ultimately show ?thesis using less.hyps step [OF st] by metis
    next
      case False
      with less.prems show ?thesis by (subst (asm) pool_loop.simps) (auto split: option.splits)
    qed
  qed
  have "preserves v (processConcurrently pick deps items)" for items
    by (rule preservesI) (auto simp: processConcurrently_def split: prod.splits dest: loop)
  then show ?thesis unfolding process_batch_def by (auto intro!: preserves_await assms(1))
qed

text \<open>The worker of the container: the processor over the database and the email queue, the lock store over
  Redis, its own channel. GitHub is the argument \<open>provide\<close>.\<close>

definition mem_worker_deps :: "(string list \<Rightarrow> (system_world, (string \<times> string) list) async) \<Rightarrow> system_world processor_deps" where
  "mem_worker_deps provide = ProcessorDeps provide (SubscriptionRepository mem_system_subscriptions)
     mem_release_notifier refuse_query"

definition string_arg :: "json option \<Rightarrow> string" where
  "string_arg v = (case v of Some (JStr s) \<Rightarrow> s | _ \<Rightarrow> [])"

definition mem_worker :: "(string list \<Rightarrow> (system_world, (string \<times> string) list) async) \<Rightarrow>
    consume_message option \<Rightarrow> (system_world, unit) async" where
  "mem_worker provide = worker_onMessage mem_queue_channel
     (process_payload (process_batch (\<lambda>_. 0) (mem_worker_deps provide))) mem_lock_store string_arg (\<lambda>_. ret ())"

definition worker_view :: "'z queue_world_scheme \<Rightarrow> keyspace \<times> broker_event list" where
  "worker_view w = (rw_keys w, scan_events (qw_broker w))"

lemma mem_notifier_view: "preserves worker_view (mem_release_notifier p)"
proof (rule preservesI)
  fix w :: "'b system_world_scheme" and r w'
  assume "mem_release_notifier p w = (r, w')"
  then show "worker_view w' = worker_view w"
    by (auto simp: mem_release_notifier_def QueueNotifier_def RabbitEmailQueue_publish_def mem_queue_channel_def
        pressured_def logged_def Let_def worker_view_def scan_events_def elsewhere_def queue_names QUEUE_NAME_def
        RETRY_QUEUE_NAME_def split: if_splits)
qed

lemma mem_query_view: "preserves worker_view (processRepo_query (mem_worker_deps provide) item)"
proof (rule preservesI)
  fix w r w' assume run: "processRepo_query (mem_worker_deps provide) item w = (r, w')"
  then have "w' = w"
    by (cases item; cases "snd item")
      (auto simp: processRepo_query_def mem_worker_deps_def ProcessorDeps_def refuse_query_def
        SubscriptionRepository_def getOutdatedSubscribers_q_def mem_system_subscriptions_def
        listed_subscriptions_def listed_def io_defs)
  then show "worker_view w' = worker_view w" by simp
qed

lemma mem_process_view:
  assumes "\<And>rs. preserves worker_view (provide rs)"
  shows "preserves worker_view (process_payload (process_batch (\<lambda>_. 0) (mem_worker_deps provide)) repos)"
proof -
  have "preserves worker_view (processRepo_notify (mem_worker_deps provide) ps)" for ps
    unfolding processRepo_notify_def
    by (auto intro!: preserves_await preserves_all_settled simp: mem_worker_deps_def ProcessorDeps_def mem_notifier_view)
  moreover have "preserves worker_view (provider (mem_worker_deps provide) rs)" for rs
    using assms by (simp add: mem_worker_deps_def ProcessorDeps_def)
  ultimately have "preserves worker_view (process_batch (\<lambda>_. 0) (mem_worker_deps provide) rs)" for rs
    by (intro process_batch_preserves mem_query_view)
  then show ?thesis by (auto simp: process_payload_def split: option.split)
qed

lemma mem_worker_env:
  assumes "\<And>rs. preserves worker_view (provide rs)"
  shows "worker_env mem_queue_channel qw_broker rw_keys qw_closed mem_lock_store rw_now mem_issued
    (process_payload (process_batch (\<lambda>_. 0) (mem_worker_deps provide))) string_arg (\<lambda>_. ret ())"
proof (intro worker_env.intro worker_env_axioms.intro)
  show "closing_channel mem_queue_channel qw_broker (rw_keys :: system_world \<Rightarrow> _) qw_closed"
    unfolding mem_queue_channel_def
    by (intro pressured_closing_channel logged_closing_channel) simp_all
  show "lock_contract mem_lock_store rw_keys rw_now mem_issued (qw_broker :: system_world \<Rightarrow> _)"
    by (rule redis_locks.contract, rule mem_redis_locks) simp_all
  fix repos w q w'
  assume "process_payload (process_batch (\<lambda>_. 0) (mem_worker_deps provide)) repos w = (q, w')"
  from preservesD [OF mem_process_view [OF assms] this]
  show "rw_keys w' = rw_keys w \<and> scan_events (qw_broker w') = scan_events (qw_broker w)"
    by (simp add: worker_view_def)
qed (simp_all add: string_arg_def)

interpretation mem_worker: worker_env mem_queue_channel qw_broker rw_keys qw_closed mem_lock_store rw_now mem_issued
    "process_payload (process_batch (\<lambda>_. 0) (mem_worker_deps (\<lambda>rs. ret [])))" string_arg "\<lambda>_. ret ()"
  by (rule mem_worker_env) simp

section \<open>Properties\<close>

text \<open>C29. Every delivery of a scan job ends in one of these ways: the batch went through and the delivery is
  acknowledged; it failed and a copy with the next retry count is on the retry queue (or the delivery
  is requeued, when the broker would not take the copy); it failed for the fourth time and is
  dropped; or the channel closed and the broker still has the delivery. It is settled at most once,
  a failed batch is never acknowledged, nothing but the job's own lock is touched, and that lock is
  given up only when the job is over: while a batch waits for its retry the producer cannot queue
  it again.\<close>

theorem scan_delivery_settled:
  assumes env: "worker_env ch broker held closed locks now issued process redis_arg delay"
    and job: "parsePayload msg = Some (scan_job_json p)" "job_lockKey p \<noteq> []"
    and run: "worker_onMessage ch process locks redis_arg delay (Some msg) w = (q, w')"
  shows "q = Inr () \<and> (\<exists>r w1 settle. process (JArr (map JStr (job_repos p))) w = (r, w1) \<and>
    broker w' = broker w1 @ settle \<and>
    settle \<in> (if isl r then failed_batch_events msg else {[Acked msg], []}) \<and>
    length (filter (settles msg) settle) \<le> 1 \<and>
    job_lock_end locks held now (job_over msg settle) p w1 w' \<and>
    (list_all (\<lambda>e. \<not> settles msg e) settle \<longrightarrow> closed w'))"
proof -
  from worker_env.onMessage_job [OF env job run] obtain r w1 settle where
    out: "q = Inr ()" "process (JArr (map JStr (job_repos p))) w = (r, w1)" "broker w' = broker w1 @ settle"
      "settle \<in> (if isl r then failed_batch_events msg else {[Acked msg], []})"
      "job_lock_end locks held now (job_over msg settle) p w1 w'"
      "list_all (\<lambda>e. \<not> settles msg e) settle \<longrightarrow> closed w'" by blast
  have "length (filter (settles msg) settle) \<le> 1"
    using out(4) by (auto simp: failed_batch_events_def split: if_splits)
  with out show ?thesis by blast
qed

definition one_job :: scan_job where
  "one_job = \<lparr>job_repos = [''o/r''], job_lockKey = ''k'', job_lockToken = ''t''\<rparr>"

definition job_delivery :: "int \<Rightarrow> consume_message" where
  "job_delivery n = \<lparr>deliveryTag = 1, msg_content = Text (scan_job_json one_job),
     msg_headers = Some (no_headers\<lparr>retry_count := Some n\<rparr>)\<rparr>"

lemma job_delivery_simps:
  "parsePayload (job_delivery n) = Some (scan_job_json one_job)" "job_lockKey one_job \<noteq> []"
  "retryCount (job_delivery n) = n"
  by (simp_all add: parsePayload_def job_delivery_def one_job_def retryCount_def spread_headers_def)

theorem scan_delivery_settled_witness:
  "\<exists>settle. qw_broker (snd (mem_worker (\<lambda>rs. throw (App GithubRateLimitError)) (Some (job_delivery 3)) scanned_system)) = settle \<and>
     settle \<in> {[Nacked (job_delivery 3) False], []}"
proof -
  let ?p = "\<lambda>rs. throw (App GithubRateLimitError)"
  obtain q w' where run: "mem_worker ?p (Some (job_delivery 3)) scanned_system = (q, w')" by fastforce
  have pr: "process_payload (process_batch (\<lambda>_. 0) (mem_worker_deps ?p)) (JArr (map JStr (job_repos one_job))) scanned_system
      = (Inl (App GithubRateLimitError), scanned_system)"
    by (simp add: one_job_def process_payload_one process_batch_def mem_worker_deps_def ProcessorDeps_def)
  from scan_delivery_settled [OF mem_worker_env [of ?p] job_delivery_simps(1,2) run [unfolded mem_worker_def]]
  obtain settle where "qw_broker w' = qw_broker scanned_system @ settle"
    "settle \<in> failed_batch_events (job_delivery 3)" unfolding pr by auto
  with run show ?thesis
    by (simp add: scanned_system_def failed_batch_events_def job_delivery_simps MAX_RETRIES_def)
qed

text \<open>C38. A job that fails again and again is retried at most three times: a chain of deliveries, each
  returned by the retry queue because of the one before, ends after \<open>MAX_RETRIES\<close> retries, carries
  the same job throughout, and counts its retries.\<close>

theorem scan_retries_bounded:
  assumes env: "worker_env ch broker held closed locks now issued process redis_arg delay"
    and job: "parsePayload m = Some (scan_job_json p)" "job_lockKey p \<noteq> []" "msg_headers m = None"
    and chain: "(again broker (worker_onMessage ch process locks redis_arg delay) ^^ n) m m'"
  shows "n \<le> 3 \<and> retryCount m' = int n \<and> parsePayload m' = Some (scan_job_json p) \<and>
    (n = 3 \<longrightarrow> \<not> again broker (worker_onMessage ch process locks redis_arg delay) m' m'')"
proof -
  note out = worker_env.again_chain [OF env job(1,2) chain]
  have 0: "retryCount m = 0" by (simp add: retryCount_def spread_headers_def job(3) no_headers_def)
  have p: "parsePayload m' = Some (scan_job_json p)" using out job(1) by (simp add: parsePayload_def)
  have "n \<le> 3" using out 0 by (auto simp: MAX_RETRIES_def)
  moreover have "n = 3 \<longrightarrow> \<not> again broker (worker_onMessage ch process locks redis_arg delay) m' m''"
    using worker_env.again_counts(1) [OF env p job(2), of m''] out 0 by (auto simp: MAX_RETRIES_def)
  ultimately show ?thesis using out 0 p by simp
qed

definition fresh_delivery :: consume_message where
  "fresh_delivery = (job_delivery 0)\<lparr>msg_headers := None\<rparr>"

lemma fresh_delivery_simps:
  "parsePayload fresh_delivery = Some (scan_job_json one_job)" "msg_headers fresh_delivery = None"
  "msg_content fresh_delivery = Text (scan_job_json one_job)" "retryCount fresh_delivery = 0"
  "retry_headers fresh_delivery = no_headers\<lparr>retry_count := Some 1\<rparr>"
  by (simp_all add: parsePayload_def job_delivery_def fresh_delivery_def retryCount_def spread_headers_def
      no_headers_def retry_headers_def)

lemma retried_example:
  "qw_broker (snd (mem_worker (\<lambda>rs. throw (App GithubRateLimitError)) (Some fresh_delivery) scanned_system)) =
     [Sent RETRY_QUEUE_NAME (Text (scan_job_json one_job)) (no_headers\<lparr>retry_count := Some 1\<rparr>), Nacked fresh_delivery False]"
proof -
  have repos: "field (scan_job_json one_job) ''repos'' = Some (JArr (map JStr [''o/r'']))"
    "truthy (Some (scan_job_json one_job))"
    by (simp_all add: one_job_def scan_job_json_def field_def truthy_def)
  show ?thesis
    unfolding mem_worker_def worker_onMessage_def processMessage_def
    by (simp only: fresh_delivery_simps repos Let_def option.case option.sel not_True_eq_False if_False
        process_payload_strings json.case)
      (simp add: process_batch_def mem_worker_deps_def ProcessorDeps_def worker_handleRetry_def MAX_RETRIES_def
        fresh_delivery_simps mem_queue_channel_def pressured_def logged_def Let_def io_defs scanned_system_def)
qed

theorem scan_retries_bounded_witness:
  "again qw_broker (mem_worker (\<lambda>rs. throw (App GithubRateLimitError))) fresh_delivery (job_delivery 1) \<and>
   retryCount (job_delivery 1) = 1"
proof -
  let ?p = "\<lambda>rs. throw (App GithubRateLimitError)"
  let ?m = "job_delivery 1"
  have once: "again qw_broker (mem_worker ?p) fresh_delivery ?m"
    unfolding again_def returned_by_retry_queue_def
    using retried_example
    by (intro exI [of _ scanned_system] exI [of _ "fst (mem_worker ?p (Some fresh_delivery) scanned_system)"]
        exI [of _ "snd (mem_worker ?p (Some fresh_delivery) scanned_system)"])
      (simp add: scanned_system_def job_delivery_def)
  then have "(again qw_broker (mem_worker ?p) ^^ 1) fresh_delivery ?m"
    by (simp add: relcompp_apply)
  from scan_retries_bounded [OF mem_worker_env [of ?p] fresh_delivery_simps(1) job_delivery_simps(2)
      fresh_delivery_simps(2) this [unfolded mem_worker_def]] once
  show ?thesis by simp
qed

end
