(* ===== verification/Worker_Subscription.thy ===== *)
theory Worker_Subscription
  imports Delivered_Consumer Scan_Worker
begin

text \<open>
  How the consumers of \<open>git-release-notifier-be\<close> subscribe to their queues: \<open>subscribe\<close> of the scan worker
  (\<open>src/workers/scanner/scanner.worker.ts\<close>), \<open>startDeliveredConsumer\<close>
  (\<open>src/workers/delivered/delivered.consumer.ts\<close>) and \<open>startConfirmationReplyConsumer\<close>
  (\<open>src/modules/saga/adapters/rabbit-confirmation-reply.consumer.ts\<close>). The three have the same body and differ
  in the queue, in how many deliveries may be unsettled at a time, and in what follows a channel that closed and
  a first start that failed; \<open>consumer_code\<close> says so.

  A state holds the calls in progress (each at the \<open>await\<close> it waits at), the timers, the channels as the
  broker sees them, and the deliveries; \<open>sub_step\<close> is one run of code between two \<open>await\<close>s or one event.
  The promise of \<open>consume\<close> is not awaited (\<open>void\<close>): its rejection is unhandled and ends the process.
\<close>

section \<open>The state\<close>

record consumer_code =
  queue_name :: string
  prefetch :: nat
  resubscribes :: bool
  exits_on_first_failure :: bool

definition scan_consumer :: consumer_code where
  "scan_consumer = \<lparr>queue_name = QUEUE_NAME, prefetch = 1, resubscribes = True, exits_on_first_failure = True\<rparr>"

definition delivered_consumer :: consumer_code where
  "delivered_consumer =
     \<lparr>queue_name = RELEASE_DELIVERED_QUEUE_NAME, prefetch = 20, resubscribes = True, exits_on_first_failure = True\<rparr>"

definition reply_consumer :: consumer_code where
  "reply_consumer =
     \<lparr>queue_name = SAGA_CONFIRMATION_REPLY_QUEUE, prefetch = 20, resubscribes = False, exits_on_first_failure = False\<rparr>"

text \<open>A call of \<open>subscribe\<close>, by the process at its start or by a timer: it asks for a channel, or it declares
  queues and limits on one, without handlers yet.\<close>

datatype subscribe_call = Asking bool | Declaring bool nat

fun first_call :: "subscribe_call \<Rightarrow> bool" where
  "first_call (Asking b) = b"
| "first_call (Declaring b c) = b"

text \<open>\<open>listening\<close>: the channels that are open with \<open>consume\<close> sent; \<open>granted\<close>: those the broker delivers on;
  \<open>unsettled\<close>: the deliveries of the current channel neither acknowledged nor rejected yet; \<open>handling\<close>: the
  calls of the message handler that have not returned.\<close>

record subscription_state =
  calls :: "subscribe_call list"
  timers :: nat
  listening :: "nat set"
  granted :: "nat set"
  unsettled :: nat
  handling :: nat
  exited :: bool
  fresh_channel :: nat

definition worker_started :: subscription_state where
  "worker_started = \<lparr>calls = [Asking True], timers = 0, listening = {}, granted = {}, unsettled = 0, handling = 0,
     exited = False, fresh_channel = 0\<rparr>"

section \<open>The code\<close>

definition worker_scheduleReconnect :: "subscription_state \<Rightarrow> subscription_state" where
  "worker_scheduleReconnect s = s\<lparr>timers := timers s + 1\<rparr>"

definition reconnect_timer :: "subscription_state \<Rightarrow> subscription_state" where
  "reconnect_timer s = s\<lparr>timers := timers s - 1, calls := calls s @ [Asking False]\<rparr>"

text \<open>A call that is rejected: the timer's \<open>catch\<close> schedules another, that of the first start ends the process
  or logs.\<close>

definition subscribe_rejected :: "consumer_code \<Rightarrow> subscribe_call \<Rightarrow> subscription_state \<Rightarrow> subscription_state" where
  "subscribe_rejected code p s =
     (let s' = s\<lparr>calls := remove1 p (calls s)\<rparr> in
      if \<not> first_call p then worker_scheduleReconnect s'
      else if exits_on_first_failure code then s'\<lparr>exited := True\<rparr>
      else s')"

text \<open>The end of \<open>subscribe\<close>: handlers, then \<open>consume\<close>.\<close>

definition subscribe_ends :: "subscribe_call \<Rightarrow> nat \<Rightarrow> subscription_state \<Rightarrow> subscription_state" where
  "subscribe_ends p c s =
     s\<lparr>calls := remove1 p (calls s), listening := insert c (listening s), unsettled := 0\<rparr>"

definition worker_on_close :: "consumer_code \<Rightarrow> nat \<Rightarrow> subscription_state \<Rightarrow> subscription_state" where
  "worker_on_close code c s =
     (let s' = s\<lparr>listening := listening s - {c}, granted := granted s - {c}, unsettled := 0\<rparr> in
      if resubscribes code then worker_scheduleReconnect s' else s')"

text \<open>
  The channel of a call may close at any time. Until the handlers are registered the call is rejected
  (\<open>declaring_lost\<close>), or, when it closes together with the last answer, \<open>consume\<close> on it is (\<open>consume_rejected\<close>);
  so is a \<open>consume\<close> the broker has not answered. The broker keeps to the limit of unsettled deliveries.
\<close>

inductive sub_step :: "consumer_code \<Rightarrow> subscription_state \<Rightarrow> subscription_state \<Rightarrow> bool" for code where
  refused: "\<not> exited s \<Longrightarrow> Asking b \<in> set (calls s) \<Longrightarrow> sub_step code s (subscribe_rejected code (Asking b) s)"
| opened: "\<not> exited s \<Longrightarrow> Asking b \<in> set (calls s) \<Longrightarrow>
    sub_step code s
      (s\<lparr>calls := remove1 (Asking b) (calls s) @ [Declaring b (fresh_channel s)], fresh_channel := Suc (fresh_channel s)\<rparr>)"
| declaring_lost: "\<not> exited s \<Longrightarrow> Declaring b c \<in> set (calls s) \<Longrightarrow>
    sub_step code s (subscribe_rejected code (Declaring b c) s)"
| subscribes: "\<not> exited s \<Longrightarrow> Declaring b c \<in> set (calls s) \<Longrightarrow> sub_step code s (subscribe_ends (Declaring b c) c s)"
| consume_rejected: "\<not> exited s \<Longrightarrow> Declaring b c \<in> set (calls s) \<or> c \<in> listening s \<and> c \<notin> granted s \<Longrightarrow>
    sub_step code s (s\<lparr>exited := True\<rparr>)"
| grants: "\<not> exited s \<Longrightarrow> c \<in> listening s \<Longrightarrow> sub_step code s (s\<lparr>granted := insert c (granted s)\<rparr>)"
| closes: "\<not> exited s \<Longrightarrow> c \<in> granted s \<Longrightarrow> sub_step code s (worker_on_close code c s)"
| fires: "\<not> exited s \<Longrightarrow> 0 < timers s \<Longrightarrow> sub_step code s (reconnect_timer s)"
| delivers: "\<not> exited s \<Longrightarrow> granted s \<noteq> {} \<Longrightarrow> unsettled s < prefetch code \<Longrightarrow>
    sub_step code s (s\<lparr>unsettled := unsettled s + 1, handling := handling s + 1\<rparr>)"
| settles: "\<not> exited s \<Longrightarrow> 0 < unsettled s \<Longrightarrow> sub_step code s (s\<lparr>unsettled := unsettled s - 1\<rparr>)"
| returns: "\<not> exited s \<Longrightarrow> unsettled s < handling s \<Longrightarrow> sub_step code s (s\<lparr>handling := handling s - 1\<rparr>)"

lemmas sub_defs = worker_scheduleReconnect_def reconnect_timer_def subscribe_rejected_def subscribe_ends_def
  worker_on_close_def Let_def

lemmas consumer_codes = scan_consumer_def delivered_consumer_def reply_consumer_def

section \<open>The invariant\<close>

text \<open>Calls, timers and channels together are one thing: whatever ends passes it on. A consumer that does not
  subscribe again can lose it.\<close>

definition tokens :: "subscription_state \<Rightarrow> nat" where
  "tokens s = length (calls s) + timers s + card (listening s)"

definition subscription_ok :: "consumer_code \<Rightarrow> subscription_state \<Rightarrow> bool" where
  "subscription_ok code s \<longleftrightarrow>
     granted s \<subseteq> listening s \<and> unsettled s \<le> prefetch code \<and> unsettled s \<le> handling s \<and> finite (listening s) \<and>
     (exited s \<or>
      (if resubscribes code \<and> exits_on_first_failure code then tokens s = 1 else tokens s \<le> 1))"

lemma one_call:
  assumes "p \<in> set (calls s)" and "tokens s \<le> 1" and "finite (listening s)"
  shows "calls s = [p]" and "timers s = 0" and "listening s = {}"
proof -
  from assms(1) have "0 < length (calls s)" by (cases "calls s") simp_all
  with assms(2) have n: "length (calls s) = 1" "timers s = 0" "card (listening s) = 0"
    unfolding tokens_def by linarith+
  then show "timers s = 0" "listening s = {}" using assms(3) by simp_all
  from n(1) assms(1) show "calls s = [p]" by (cases "calls s") simp_all
qed

lemma one_channel:
  assumes "c \<in> listening s" and "tokens s \<le> 1" and "finite (listening s)"
  shows "listening s = {c}" and "timers s = 0" and "calls s = []"
proof -
  from assms(1,3) have "0 < card (listening s)" by (auto simp: card_gt_0_iff)
  with assms(2) have c: "card (listening s) = 1" and "timers s = 0" "length (calls s) = 0"
    unfolding tokens_def by linarith+
  then show "timers s = 0" "calls s = []" by simp_all
  from c assms(1) show "listening s = {c}" by (auto simp: card_1_singleton_iff)
qed

lemma worker_started_ok: "subscription_ok code worker_started"
  by (simp add: subscription_ok_def worker_started_def tokens_def)

lemma sub_step_ok:
  assumes ok: "subscription_ok code s" and step: "sub_step code s s'"
  shows "subscription_ok code s'"
proof -
  from step have up: "\<not> exited s" by cases
  with ok have few: "tokens s \<le> 1" and fin: "finite (listening s)" by (auto simp: subscription_ok_def split: if_splits)
  note call = one_call [OF _ few fin] and channel = one_channel [OF _ few fin]
  from step show ?thesis
  proof cases
    case (refused b)
    with call [of "Asking b"] ok up show ?thesis
      by (cases "first_call (Asking b)") (auto simp: subscription_ok_def tokens_def sub_defs)
  next
    case (opened b)
    with call [of "Asking b"] ok up show ?thesis by (auto simp: subscription_ok_def tokens_def)
  next
    case (declaring_lost b c)
    with call [of "Declaring b c"] ok up show ?thesis
      by (cases "first_call (Declaring b c)") (auto simp: subscription_ok_def tokens_def sub_defs)
  next
    case (subscribes b c)
    with call [of "Declaring b c"] ok up show ?thesis by (auto simp: subscription_ok_def tokens_def sub_defs)
  next
    case (grants c)
    with channel [of c] ok show ?thesis by (auto simp: subscription_ok_def tokens_def)
  next
    case (closes c)
    with ok have "c \<in> listening s" by (auto simp: subscription_ok_def)
    from channel [OF this] closes ok up show ?thesis by (auto simp: subscription_ok_def tokens_def sub_defs)
  next
    case fires
    with few have "timers s = 1" "length (calls s) = 0" "card (listening s) = 0"
      unfolding tokens_def by linarith+
    with fires ok up show ?thesis by (auto simp: subscription_ok_def tokens_def sub_defs)
  qed (use ok in \<open>auto simp: subscription_ok_def tokens_def split: if_splits\<close>)
qed

lemma sub_reachable_ok: "(sub_step code)\<^sup>*\<^sup>* worker_started s \<Longrightarrow> subscription_ok code s"
  by (induction rule: rtranclp_induct) (use worker_started_ok sub_step_ok in blast)+

section \<open>Properties\<close>

text \<open>C16. The scan worker and the consumer of delivery events keep listening. Over all interleavings of calls, lost
  channels, timers and deliveries, until the process exits: there is exactly one of a call that subscribes, a
  timer that starts one, and a channel with the subscription on it, so no lost channel is forgotten and no
  queue is subscribed twice. At most one scan job, and at most 20 delivery events, are unsettled at a time.\<close>

theorem workers_keep_listening:
  assumes "(sub_step code)\<^sup>*\<^sup>* worker_started s" and "code \<in> {scan_consumer, delivered_consumer}"
  shows "unsettled s \<le> (if queue_name code = QUEUE_NAME then 1 else 20) \<and>
    (exited s \<or>
     (length (calls s) = 1 \<and> timers s = 0 \<and> listening s = {}) \<or>
     (calls s = [] \<and> timers s = 1 \<and> listening s = {}) \<or>
     (calls s = [] \<and> timers s = 0 \<and> (\<exists>c. listening s = {c} \<and> granted s \<subseteq> {c})))"
proof -
  from sub_reachable_ok [OF assms(1)] have ok: "subscription_ok code s" .
  from assms(2) have code: "resubscribes code" "exits_on_first_failure code"
    "prefetch code = (if queue_name code = QUEUE_NAME then 1 else 20)"
    by (auto simp: consumer_codes queue_names QUEUE_NAME_def)
  with ok have "unsettled s \<le> (if queue_name code = QUEUE_NAME then 1 else 20)" by (simp add: subscription_ok_def)
  moreover have "exited s \<or> length (calls s) + timers s + card (listening s) = 1" and "finite (listening s)"
    and g: "granted s \<subseteq> listening s"
    using ok code(1,2) by (simp_all add: subscription_ok_def tokens_def)
  then have "exited s \<or> (length (calls s) = 1 \<and> timers s = 0 \<and> listening s = {}) \<or>
     (calls s = [] \<and> timers s = 1 \<and> listening s = {}) \<or>
     (calls s = [] \<and> timers s = 0 \<and> card (listening s) = 1)" by (auto simp: add_is_1)
  then have "exited s \<or> (length (calls s) = 1 \<and> timers s = 0 \<and> listening s = {}) \<or>
     (calls s = [] \<and> timers s = 1 \<and> listening s = {}) \<or>
     (calls s = [] \<and> timers s = 0 \<and> (\<exists>c. listening s = {c} \<and> granted s \<subseteq> {c}))"
    using g by (auto simp: card_1_singleton_iff)
  ultimately show ?thesis by blast
qed

text \<open>Concrete runs.\<close>

abbreviation listens :: "nat \<Rightarrow> subscription_state" where
  "listens n \<equiv> worker_started\<lparr>calls := [], listening := {0}, granted := {0}, handling := n, fresh_channel := 1\<rparr>"

lemma sub_run: "(sub_step code)\<^sup>*\<^sup>* a b \<Longrightarrow> sub_step code b c \<Longrightarrow> c = d \<Longrightarrow> (sub_step code)\<^sup>*\<^sup>* a d"
  by (metis rtranclp.rtrancl_into_rtrancl)

lemma listens_run: "(sub_step code)\<^sup>*\<^sup>* worker_started (listens 0)"
proof -
  let ?s1 = "worker_started\<lparr>calls := [Declaring True 0], fresh_channel := 1\<rparr>"
  let ?s2 = "worker_started\<lparr>calls := [], listening := {0}, fresh_channel := 1\<rparr>"
  have r1: "(sub_step code)\<^sup>*\<^sup>* worker_started ?s1"
    by (rule sub_run [OF rtranclp.rtrancl_refl], rule sub_step.opened [of _ True]) (simp_all add: worker_started_def)
  have r2: "(sub_step code)\<^sup>*\<^sup>* worker_started ?s2"
    by (rule sub_run [OF r1], rule sub_step.subscribes [of _ True 0]) (simp_all add: worker_started_def sub_defs)
  show ?thesis
    by (rule sub_run [OF r2], rule sub_step.grants [of _ 0]) (simp_all add: worker_started_def)
qed

theorem workers_keep_listening_witness:
  "(sub_step scan_consumer)\<^sup>*\<^sup>* worker_started (worker_started\<lparr>calls := [], timers := 1, fresh_channel := 1\<rparr>) \<and>
   unsettled (worker_started\<lparr>calls := [], timers := 1, fresh_channel := 1\<rparr>) \<le> 1"
proof -
  let ?s = "worker_started\<lparr>calls := [], timers := 1, fresh_channel := 1\<rparr>"
  have run: "(sub_step scan_consumer)\<^sup>*\<^sup>* worker_started ?s"
    by (rule sub_run [OF listens_run], rule sub_step.closes [of _ 0])
      (simp_all add: worker_started_def sub_defs consumer_codes)
  with workers_keep_listening [OF run] show ?thesis by (simp add: consumer_codes)
qed

text \<open>The reply consumer of the saga: after its channel closed nothing subscribes again, however long the server
  runs; the same holds when its first start fails.\<close>

definition deaf :: "subscription_state \<Rightarrow> bool" where
  "deaf s \<longleftrightarrow> \<not> exited s \<and> calls s = [] \<and> timers s = 0 \<and> listening s = {} \<and> granted s = {}"

lemma reply_consumer_goes_deaf:
  "\<exists>s. (sub_step reply_consumer)\<^sup>*\<^sup>* worker_started s \<and> deaf s"
  "(sub_step reply_consumer)\<^sup>*\<^sup>* s s' \<Longrightarrow> deaf s \<Longrightarrow> deaf s'"
proof -
  let ?s = "worker_started\<lparr>calls := [], fresh_channel := 1\<rparr>"
  have "(sub_step reply_consumer)\<^sup>*\<^sup>* worker_started ?s"
    by (rule sub_run [OF listens_run], rule sub_step.closes [of _ 0])
      (simp_all add: worker_started_def sub_defs consumer_codes)
  then show "\<exists>s. (sub_step reply_consumer)\<^sup>*\<^sup>* worker_started s \<and> deaf s"
    by (intro exI [of _ ?s]) (simp add: deaf_def worker_started_def)
  have step: "deaf b" if "sub_step reply_consumer a b" "deaf a" for a b
    using that by cases (auto simp: deaf_def)
  show "deaf s'" if "(sub_step reply_consumer)\<^sup>*\<^sup>* s s'" "deaf s"
    using that by (induction rule: rtranclp_induct) (use step in blast)+
qed

text \<open>A scan job is settled before the pause that is meant to limit the rate (\<open>processMessage\<close>), and the broker
  then delivers the next: any number of handlers can be in their pause at the same time.\<close>

lemma rate_limit_limits_nothing:
  "(sub_step scan_consumer)\<^sup>*\<^sup>* worker_started (listens n)"
proof (induction n)
  case 0
  show ?case by (rule listens_run)
next
  case (Suc n)
  let ?s = "(listens (Suc n))\<lparr>unsettled := 1\<rparr>"
  have r: "(sub_step scan_consumer)\<^sup>*\<^sup>* worker_started ?s"
    by (rule sub_run [OF Suc], rule sub_step.delivers) (simp_all add: worker_started_def consumer_codes)
  show ?case by (rule sub_run [OF r], rule sub_step.settles) (simp_all add: worker_started_def)
qed

end
