(* ===== verification/Consumer_Lifecycle.thy ===== *)
theory Consumer_Lifecycle
  imports Prelude
begin

text \<open>
  How the email consumer starts, subscribes again and stops: the module state of
  \<open>notification-service/src/consumer/email.consumer.ts\<close> and the functions \<open>setupConsumer\<close>,
  \<open>scheduleReconnect\<close>, \<open>startEmailConsumer\<close> and \<open>stopEmailConsumer\<close>. They run interleaved with each
  other and with the events of the channels, so a state is the module's variables, the calls that are in
  progress (each at the \<open>await\<close> it waits at) and the channels as the broker sees them; \<open>life_step\<close> is one
  run of code between two \<open>await\<close>s or one event.

  A channel operation that is rejected means that its channel is closed; the calls that wait for a
  channel are rejected when it closes.
\<close>

section \<open>The state\<close>

text \<open>Where a call of \<open>setupConsumer\<close> is: it asks for a channel; it declares the queues on it, without
  handlers yet; its handlers are registered and it subscribes.\<close>

datatype setup_call = Opening | Preparing nat | Subscribing nat

datatype stop_phase = Running | Cancelling nat | Draining | Closing nat | Stopped

text \<open>\<open>reconnectTimer\<close>: the variable holds a timer; \<open>pending_timers\<close>: the timers the runtime still has to fire, which
  may be more than the variable knows of; \<open>overdue\<close>: the deadline of the shutdown has passed; \<open>clean_stop\<close>: no setup was in progress when it began.\<close>

record life =
  channel_var :: "nat option"
  consumerTag :: "nat option"
  shuttingDown :: bool
  inFlight :: nat
  reconnectTimer :: bool
  pending_timers :: nat
  setups :: "setup_call list"
  stopping :: stop_phase
  overdue :: bool
  clean_stop :: bool
  open_channels :: "nat set"
  consuming :: "nat set"
  next_channel :: nat

definition started :: life where
  "started = \<lparr>channel_var = None, consumerTag = None, shuttingDown = False, inFlight = 0, reconnectTimer = False, pending_timers = 0,
     setups = [Opening], stopping = Running, overdue = False, clean_stop = False,
     open_channels = {}, consuming = {}, next_channel = 0\<rparr>"

section \<open>The code\<close>

text \<open>\<open>setTimeout\<close> starts one more timer, \<open>clearTimeout\<close> ends the one in the variable. (A timer that fires empties
  the variable, so the variable always holds the one started last, and it has not fired yet.)\<close>

definition life_scheduleReconnect :: "life \<Rightarrow> life" where
  "life_scheduleReconnect s =
     (if shuttingDown s then s
      else if reconnectTimer s then s
      else s\<lparr>reconnectTimer := True, pending_timers := Suc (pending_timers s)\<rparr>)"

definition timer_callback :: "life \<Rightarrow> life" where
  "timer_callback s =
     (let s' = s\<lparr>reconnectTimer := False, pending_timers := pending_timers s - 1\<rparr> in
      if shuttingDown s' then s' else s'\<lparr>setups := setups s' @ [Opening]\<rparr>)"

text \<open>The handler of \<open>close\<close>.\<close>

definition on_close :: "life \<Rightarrow> life" where
  "on_close s =
     (if shuttingDown s then s
      else life_scheduleReconnect (s\<lparr>channel_var := None, consumerTag := None\<rparr>))"

text \<open>A setup that is rejected: \<open>startEmailConsumer\<close> and the timer do the same.\<close>

definition setup_rejected :: "setup_call \<Rightarrow> life \<Rightarrow> life" where
  "setup_rejected p s = life_scheduleReconnect (s\<lparr>setups := remove1 p (setups s)\<rparr>)"

definition setup_resolved :: "nat \<Rightarrow> life \<Rightarrow> life" where
  "setup_resolved c s =
     s\<lparr>setups := remove1 (Subscribing c) (setups s), channel_var := Some c, consumerTag := Some c\<rparr>"

definition stop_begins :: "life \<Rightarrow> life" where
  "stop_begins s =
     s\<lparr>shuttingDown := True, reconnectTimer := False,
       pending_timers := (if reconnectTimer s then pending_timers s - 1 else pending_timers s), clean_stop := (setups s = []),
       stopping := (case (channel_var s, consumerTag s) of
           (Some c, Some tag) \<Rightarrow> Cancelling c
         | _ \<Rightarrow> Draining)\<rparr>"

definition stop_drained :: "life \<Rightarrow> life" where
  "stop_drained s = s\<lparr>stopping := (case channel_var s of None \<Rightarrow> Stopped | Some c \<Rightarrow> Closing c)\<rparr>"

definition stop_closed :: "life \<Rightarrow> life" where
  "stop_closed s = s\<lparr>channel_var := None, consumerTag := None, stopping := Stopped\<rparr>"

text \<open>The channel is gone for the broker.\<close>

definition gone :: "nat \<Rightarrow> life \<Rightarrow> life" where
  "gone c s = s\<lparr>open_channels := open_channels s - {c}, consuming := consuming s - {c}\<rparr>"

fun setup_channel :: "setup_call \<Rightarrow> nat set" where
  "setup_channel Opening = {}"
| "setup_channel (Preparing c) = {c}"
| "setup_channel (Subscribing c) = {c}"

text \<open>
  \<open>life_step cancels\<close>: with \<open>cancels\<close> the broker may cancel a subscription on its own (its queue was
  deleted), which reaches \<open>onMessage\<close> as \<open>null\<close>.
\<close>

inductive life_step :: "bool \<Rightarrow> life \<Rightarrow> life \<Rightarrow> bool" for cancels where
  refused: "Opening \<in> set (setups s) \<Longrightarrow> life_step cancels s (setup_rejected Opening s)"
| opened: "Opening \<in> set (setups s) \<Longrightarrow> c = next_channel s \<Longrightarrow>
    life_step cancels s
      (s\<lparr>setups := remove1 Opening (setups s) @ [Preparing c], next_channel := Suc c,
         open_channels := insert c (open_channels s)\<rparr>)"
| prepared: "Preparing c \<in> set (setups s) \<Longrightarrow>
    life_step cancels s (s\<lparr>setups := remove1 (Preparing c) (setups s) @ [Subscribing c]\<rparr>)"
| preparing_lost: "Preparing c \<in> set (setups s) \<Longrightarrow>
    life_step cancels s (setup_rejected (Preparing c) (gone c s))"
| subscribed: "Subscribing c \<in> set (setups s) \<Longrightarrow>
    life_step cancels s (setup_resolved c (s\<lparr>consuming := insert c (consuming s)\<rparr>))"
| subscribing_lost: "Subscribing c \<in> set (setups s) \<Longrightarrow>
    life_step cancels s (setup_rejected (Subscribing c) (on_close (gone c s)))"
| subscribed_lost: "Subscribing c \<in> set (setups s) \<Longrightarrow>
    life_step cancels s (setup_resolved c (on_close (gone c s)))"
| closes: "c \<in> open_channels s \<Longrightarrow> \<not> list_ex (\<lambda>p. c \<in> setup_channel p) (setups s) \<Longrightarrow>
    life_step cancels s (on_close (gone c s))"
| fires: "0 < pending_timers s \<Longrightarrow> life_step cancels s (timer_callback s)"
| delivers: "c \<in> consuming s \<Longrightarrow> life_step cancels s (s\<lparr>inFlight := Suc (inFlight s)\<rparr>)"
| settles: "0 < inFlight s \<Longrightarrow> life_step cancels s (s\<lparr>inFlight := inFlight s - 1\<rparr>)"
| stops: "stopping s = Running \<Longrightarrow> life_step cancels s (stop_begins s)"
| cancelled: "stopping s = Cancelling c \<Longrightarrow>
    life_step cancels s (s\<lparr>consuming := consuming s - {c}, stopping := Draining\<rparr>)"
| cancel_fails: "stopping s = Cancelling c \<Longrightarrow> c \<notin> open_channels s \<Longrightarrow>
    life_step cancels s (s\<lparr>stopping := Draining\<rparr>)"
| deadline: "stopping s = Draining \<Longrightarrow> life_step cancels s (s\<lparr>overdue := True\<rparr>)"
| drained: "stopping s = Draining \<Longrightarrow> inFlight s = 0 \<or> overdue s \<Longrightarrow> life_step cancels s (stop_drained s)"
| channel_closed: "stopping s = Closing c \<Longrightarrow>
    life_step cancels s (stop_closed (gone c s))"
| broker_cancels: "cancels \<Longrightarrow> c \<in> consuming s \<Longrightarrow> life_step cancels s (s\<lparr>consuming := consuming s - {c}\<rparr>)"

lemmas life_defs = life_scheduleReconnect_def timer_callback_def on_close_def setup_rejected_def setup_resolved_def
  stop_begins_def stop_drained_def stop_closed_def gone_def Let_def

section \<open>The invariant\<close>

text \<open>The channels are those of the setup in progress or the one of the module; without a setup in progress
  and a timer there is a consumer.\<close>

definition channels_ok :: "bool \<Rightarrow> life \<Rightarrow> bool" where
  "channels_ok cancels s \<longleftrightarrow>
     (case setups s of
        [] \<Rightarrow> consuming s \<subseteq> open_channels s \<and> (\<exists>c. open_channels s \<subseteq> {c}) \<and>
          (open_channels s \<subseteq> set_option (channel_var s) \<or> stopping s = Stopped) \<and>
          (reconnectTimer s \<longrightarrow> open_channels s = {}) \<and>
          (shuttingDown s \<or> reconnectTimer s \<or> open_channels s \<noteq> {} \<and> (cancels \<or> consuming s = open_channels s))
      | [p] \<Rightarrow> \<not> reconnectTimer s \<and> consuming s = {} \<and> open_channels s = setup_channel p \<and>
          setup_channel p \<subseteq> {..< next_channel s} - set_option (channel_var s)
      | _ \<Rightarrow> False) \<and> set_option (channel_var s) \<subseteq> {..< next_channel s}"

definition stop_ok :: "life \<Rightarrow> bool" where
  "stop_ok s \<longleftrightarrow>
     pending_timers s = (if reconnectTimer s then 1 else 0) \<and>
     (shuttingDown s \<longrightarrow> \<not> reconnectTimer s) \<and> (shuttingDown s \<longleftrightarrow> stopping s \<noteq> Running) \<and>
     (shuttingDown s \<longrightarrow> clean_stop s \<longrightarrow> setups s = [] \<and>
        (case stopping s of Closing c \<Rightarrow> open_channels s \<subseteq> {c} | Stopped \<Rightarrow> open_channels s = {} | _ \<Rightarrow> True)) \<and>
     (case stopping s of
        Cancelling c \<Rightarrow> c < next_channel s \<and> list_all (\<lambda>p. c \<notin> setup_channel p) (setups s)
      | Closing c \<Rightarrow> c < next_channel s \<and> list_all (\<lambda>p. c \<notin> setup_channel p) (setups s)
      | _ \<Rightarrow> True)"

lemma setup_in_progress:
  assumes "channels_ok cancels s" and "p \<in> set (setups s)"
  shows "setups s = [p] \<and> \<not> reconnectTimer s \<and> consuming s = {} \<and> open_channels s = setup_channel p \<and>
    setup_channel p \<subseteq> {..< next_channel s} - set_option (channel_var s) \<and> set_option (channel_var s) \<subseteq> {..< next_channel s}"
  using assms by (auto simp: channels_ok_def split: list.splits)

lemma ok_ignores [simp]:
  "channels_ok cancels (s\<lparr>inFlight := n\<rparr>) = channels_ok cancels s" "stop_ok (s\<lparr>inFlight := n\<rparr>) = stop_ok s"
  "channels_ok cancels (s\<lparr>overdue := b\<rparr>) = channels_ok cancels s" "stop_ok (s\<lparr>overdue := b\<rparr>) = stop_ok s"
  by (simp_all add: channels_ok_def stop_ok_def cong: list.case_cong stop_phase.case_cong)

lemma started_ok: "channels_ok cancels started \<and> stop_ok started"
  by (simp add: channels_ok_def stop_ok_def started_def)

text \<open>The two shapes in which a setup ends: nothing is open any more and the timer runs (unless the service
  is stopping), or the module has the channel.\<close>

lemma given_up_ok:
  assumes "stop_ok s" and "setups s = [p]"
    and "setups s' = []" "open_channels s' = {}" "consuming s' = {}" "shuttingDown s' = shuttingDown s"
    and "reconnectTimer s' = (\<not> shuttingDown s)" "pending_timers s' = (if shuttingDown s then 0 else 1)" "stopping s' = stopping s" "clean_stop s' = clean_stop s"
    and "set_option (channel_var s') \<subseteq> {..< next_channel s'}" "next_channel s' = next_channel s"
  shows "channels_ok cancels s' \<and> stop_ok s'"
  using assms by (simp add: channels_ok_def stop_ok_def split: stop_phase.splits)

lemma given_up:
  assumes ok: "channels_ok cancels s" "stop_ok s" and p: "p \<in> set (setups s)" and c: "setup_channel p \<subseteq> {c}"
  shows "channels_ok cancels (setup_rejected p (gone c s)) \<and> stop_ok (setup_rejected p (gone c s))"
    and "channels_ok cancels (setup_rejected p (on_close (gone c s))) \<and> stop_ok (setup_rejected p (on_close (gone c s)))"
    and "p = Subscribing c \<Longrightarrow>
      channels_ok cancels (setup_resolved c (on_close (gone c s))) \<and> stop_ok (setup_resolved c (on_close (gone c s)))"
proof -
  from setup_in_progress [OF ok(1) p] have 1: "setups s = [p]" "\<not> reconnectTimer s" "consuming s = {}"
    "open_channels s = setup_channel p" "setup_channel p \<subseteq> {..< next_channel s}"
    "set_option (channel_var s) \<subseteq> {..< next_channel s}" by auto
  have timers: "pending_timers s = 0" using 1(2) ok(2) by (simp add: stop_ok_def)
  note given_up = given_up_ok [OF ok(2) 1(1)]
  have none: "setup_channel p - {c} = {}" using c by blast
  show "channels_ok cancels (setup_rejected p (gone c s)) \<and> stop_ok (setup_rejected p (gone c s))"
    by (rule given_up) (simp_all add: life_defs 1 none timers)
  show "channels_ok cancels (setup_rejected p (on_close (gone c s))) \<and> stop_ok (setup_rejected p (on_close (gone c s)))"
    by (rule given_up) (simp_all add: life_defs 1 none timers)
  show "channels_ok cancels (setup_resolved c (on_close (gone c s))) \<and> stop_ok (setup_resolved c (on_close (gone c s)))"
    if "p = Subscribing c"
    by (rule given_up) (use that 1(5) in \<open>simp_all add: life_defs 1(1-4,6) none timers\<close>)
qed

lemma life_step_ok:
  assumes "life_step cancels s s'" and ok: "channels_ok cancels s" "stop_ok s"
  shows "channels_ok cancels s' \<and> stop_ok s'"
  using assms(1)
proof cases
  case refused
  from setup_in_progress [OF ok(1) refused(2)] have 1: "setups s = [Opening]" "\<not> reconnectTimer s" "consuming s = {}"
    "open_channels s = {}" "set_option (channel_var s) \<subseteq> {..< next_channel s}" by simp_all
  moreover from 1(2) ok(2) have "pending_timers s = 0" by (simp add: stop_ok_def)
  ultimately show ?thesis
    unfolding refused(1) by (intro given_up_ok [OF ok(2)]) (simp_all add: life_defs)
next
  case (opened c)
  from setup_in_progress [OF ok(1) opened(2)] ok(2) show ?thesis
    unfolding opened(1) opened(3)
    by (cases "channel_var s") (auto simp: channels_ok_def stop_ok_def split: stop_phase.splits)
next
  case (prepared c)
  from setup_in_progress [OF ok(1) prepared(2)] ok(2) show ?thesis
    unfolding prepared(1) by (simp add: channels_ok_def stop_ok_def split: stop_phase.splits)
next
  case (preparing_lost c)
  show ?thesis unfolding preparing_lost(1) by (rule given_up(1) [OF ok preparing_lost(2)]) simp
next
  case (subscribed c)
  from setup_in_progress [OF ok(1) subscribed(2)] ok(2) show ?thesis
    unfolding subscribed(1) by (simp add: channels_ok_def stop_ok_def life_defs split: stop_phase.splits)
next
  case (subscribing_lost c)
  show ?thesis unfolding subscribing_lost(1) by (rule given_up(2) [OF ok subscribing_lost(2)]) simp
next
  case (subscribed_lost c)
  show ?thesis unfolding subscribed_lost(1) by (rule given_up(3) [OF ok subscribed_lost(2)]) simp_all
next
  case (closes c)
  have "setups s = []"
  proof (cases "setups s")
    case (Cons p ps)
    with setup_in_progress [OF ok(1), of p] closes(2,3) show ?thesis by auto
  qed
  moreover from this closes(2) ok(1) have "open_channels s = {c}" by (auto simp: channels_ok_def)
  ultimately show ?thesis
    using ok unfolding closes(1)
    by (cases "shuttingDown s") (auto simp: channels_ok_def stop_ok_def life_defs split: stop_phase.splits)
next
  case fires
  have t: "reconnectTimer s" "pending_timers s = 1" using fires(2) ok(2) by (auto simp: stop_ok_def split: if_splits)
  have "setups s = []" "\<not> shuttingDown s"
    using t ok setup_in_progress [OF ok(1), of "hd (setups s)"] by (auto simp: stop_ok_def hd_in_set)
  with t ok show ?thesis
    unfolding fires(1) by (auto simp: channels_ok_def stop_ok_def life_defs)
next
  case (delivers c)
  with ok show ?thesis by simp
next
  case settles
  with ok show ?thesis by simp
next
  case stops
  with ok show ?thesis
    by (auto simp: channels_ok_def stop_ok_def life_defs split: list.splits option.splits)
next
  case (cancelled c)
  with ok show ?thesis by (auto simp: channels_ok_def stop_ok_def split: list.splits)
next
  case (cancel_fails c)
  with ok show ?thesis by (auto simp: channels_ok_def stop_ok_def split: list.splits)
next
  case deadline
  with ok show ?thesis by simp
next
  case drained
  with ok show ?thesis by (auto simp: channels_ok_def stop_ok_def life_defs split: list.splits option.splits)
next
  case (channel_closed c)
  show ?thesis
  proof (cases "setups s")
    case Nil
    with channel_closed(2) ok show ?thesis
      unfolding channel_closed(1) by (auto simp: channels_ok_def stop_ok_def life_defs)
  next
    case (Cons p ps)
    with setup_in_progress [OF ok(1), of p] channel_closed(2) ok(2) show ?thesis
      unfolding channel_closed(1) by (auto simp: channels_ok_def stop_ok_def life_defs)
  qed
next
  case (broker_cancels c)
  with ok show ?thesis by (auto simp: channels_ok_def stop_ok_def split: list.splits stop_phase.splits)
qed

lemma life_reachable_ok:
  assumes "(life_step cancels)\<^sup>*\<^sup>* started s"
  shows "channels_ok cancels s \<and> stop_ok s"
  using assms by (induction rule: rtranclp_induct) (use started_ok life_step_ok in blast)+

section \<open>Properties\<close>

text \<open>C15. The email consumer does not fall silent. Over all interleavings of setups, lost channels, timers,
  deliveries and a shutdown (as long as the broker does not cancel the subscription itself), unless it is
  stopping, it consumes, or a setup is in progress, or a timer will start the next one; never more than one
  of them. A channel that is lost while a setup is subscribing on it is reported twice, by its \<open>close\<close> event and
  by the rejected setup, and still only one timer is started. So there is at most one setup, one timer, one
  channel and one subscription (prefetch 1: one message at a time). Stopping ends the timer for good, and a stop that
  began while no setup was in progress leaves no channel open.\<close>

theorem email_consumer_stays_subscribed:
  assumes "(life_step False)\<^sup>*\<^sup>* started s"
  shows "(shuttingDown s \<or> 0 < pending_timers s \<or> setups s \<noteq> [] \<or>
      (\<exists>c. channel_var s = Some c \<and> open_channels s = {c} \<and> consuming s = {c})) \<and>
    length (setups s) + pending_timers s + card (consuming s) \<le> 1 \<and> card (open_channels s) \<le> 1 \<and>
    (shuttingDown s \<longrightarrow> pending_timers s = 0) \<and>
    (stopping s = Stopped \<and> clean_stop s \<longrightarrow> open_channels s = {} \<and> consuming s = {})"
proof -
  from life_reachable_ok [OF assms] have ok: "channels_ok False s" "stop_ok s" by simp_all
  from ok(2) have timers: "pending_timers s = (if reconnectTimer s then 1 else 0)" by (simp add: stop_ok_def)
  show ?thesis
  proof (cases "setups s")
    case Nil
    with ok(1) obtain c where c: "consuming s \<subseteq> open_channels s" "open_channels s \<subseteq> {c}"
      "open_channels s \<subseteq> set_option (channel_var s) \<or> stopping s = Stopped"
      "reconnectTimer s \<longrightarrow> open_channels s = {}"
      "shuttingDown s \<or> reconnectTimer s \<or> open_channels s \<noteq> {} \<and> consuming s = open_channels s"
      by (auto simp: channels_ok_def)
    then have sets: "open_channels s = {} \<or> open_channels s = {c}" "consuming s = {} \<or> consuming s = {c}" by auto
    then have "card (open_channels s) \<le> 1" "card (consuming s) \<le> 1" by auto
    moreover have "shuttingDown s \<longrightarrow> \<not> reconnectTimer s" using ok(2) by (auto simp: stop_ok_def)
    moreover have "reconnectTimer s \<longrightarrow> consuming s = {}" using c(1,4) by auto
    moreover have "shuttingDown s \<or> reconnectTimer s \<or>
        (\<exists>c. channel_var s = Some c \<and> open_channels s = {c} \<and> consuming s = {c})"
    proof (cases "shuttingDown s \<or> reconnectTimer s")
      case False
      with c(5) sets have "open_channels s = {c}" "consuming s = {c}" by auto
      moreover have "stopping s = Running" using False ok(2) by (simp add: stop_ok_def)
      ultimately show ?thesis using c(3) by (cases "channel_var s") auto
    qed blast
    moreover have "stopping s = Stopped \<and> clean_stop s \<longrightarrow> open_channels s = {} \<and> consuming s = {}"
      using ok(2) c(1) by (auto simp: stop_ok_def)
    ultimately show ?thesis using Nil timers by auto
  next
    case (Cons p ps)
    with setup_in_progress [OF ok(1), of p] ok(2) timers show ?thesis
      by (cases p) (auto simp: stop_ok_def)
  qed
qed

text \<open>Steps with their result written out, for concrete runs.\<close>

lemma life_run: "(life_step cancels)\<^sup>*\<^sup>* a b \<Longrightarrow> life_step cancels b c \<Longrightarrow> c = d \<Longrightarrow> (life_step cancels)\<^sup>*\<^sup>* a d"
  by (metis rtranclp.rtrancl_into_rtrancl)

abbreviation subscribed_at :: "nat \<Rightarrow> life" where
  "subscribed_at c \<equiv> started\<lparr>setups := [], channel_var := Some c, consumerTag := Some c, open_channels := {c},
     consuming := {c}, next_channel := Suc c\<rparr>"

lemma subscribing_run: "(life_step cancels)\<^sup>*\<^sup>* started (started\<lparr>setups := [Subscribing 0], open_channels := {0}, next_channel := 1\<rparr>)"
proof -
  let ?s1 = "started\<lparr>setups := [Preparing 0], open_channels := {0}, next_channel := 1\<rparr>"
  have r1: "(life_step cancels)\<^sup>*\<^sup>* started ?s1"
    by (rule life_run [OF rtranclp.rtrancl_refl], rule life_step.opened [of _ 0]) (simp_all add: started_def)
  show ?thesis by (rule life_run [OF r1], rule life_step.prepared [of 0]) (simp_all add: started_def)
qed

lemma subscribed_run: "(life_step cancels)\<^sup>*\<^sup>* started (subscribed_at 0)"
  by (rule life_run [OF subscribing_run], rule life_step.subscribed [of 0]) (simp_all add: started_def life_defs)

theorem email_consumer_stays_subscribed_witness:
  "\<exists>s. (life_step False)\<^sup>*\<^sup>* started s \<and> pending_timers s = 1 \<and> card (consuming s) = 0"
proof -
  let ?s = "started\<lparr>setups := [], reconnectTimer := True, pending_timers := 1, next_channel := 1\<rparr>"
  have run: "(life_step False)\<^sup>*\<^sup>* started ?s"
    by (rule life_run [OF subscribing_run], rule life_step.subscribing_lost [of 0]) (simp_all add: started_def life_defs)
  from email_consumer_stays_subscribed [OF run] run show ?thesis by (intro exI [of _ ?s]) simp
qed

text \<open>A setup that is in progress when the service stops is forgotten: its channel opens afterwards and
  consumes, and nothing closes it before the connection is closed.\<close>

lemma late_setup_survives_stop:
  "\<exists>s. (life_step False)\<^sup>*\<^sup>* started s \<and> stopping s = Stopped \<and> consuming s = {0}"
proof -
  let ?s0 = "started\<lparr>setups := [Subscribing 0], open_channels := {0}, next_channel := 1\<rparr>"
  let ?s1 = "?s0\<lparr>shuttingDown := True, stopping := Draining\<rparr>" and ?s2 = "?s0\<lparr>shuttingDown := True, stopping := Stopped\<rparr>"
  let ?s3 = "(subscribed_at 0)\<lparr>shuttingDown := True, stopping := Stopped\<rparr>"
  have r1: "(life_step False)\<^sup>*\<^sup>* started ?s1"
    by (rule life_run [OF subscribing_run], rule life_step.stops) (simp_all add: started_def life_defs)
  have r2: "(life_step False)\<^sup>*\<^sup>* started ?s2"
    by (rule life_run [OF r1], rule life_step.drained) (simp_all add: started_def life_defs)
  have "(life_step False)\<^sup>*\<^sup>* started ?s3"
    by (rule life_run [OF r2], rule life_step.subscribed [of 0]) (simp_all add: started_def life_defs)
  then show ?thesis by (intro exI [of _ ?s3]) simp
qed

text \<open>When the broker cancels the subscription, \<open>onMessage\<close> gets \<open>null\<close> and returns: the channel stays open,
  no setup and no timer follows, and the service consumes nothing although it is not stopping.\<close>

lemma cancelled_consumer_falls_silent:
  "\<exists>s. (life_step True)\<^sup>*\<^sup>* started s \<and> \<not> shuttingDown s \<and> pending_timers s = 0 \<and> setups s = [] \<and> consuming s = {}"
proof -
  let ?s = "(subscribed_at 0)\<lparr>consuming := {}\<rparr>"
  have "(life_step True)\<^sup>*\<^sup>* started ?s"
    by (rule life_run [OF subscribed_run], rule life_step.broker_cancels [of _ 0]) (simp_all add: started_def)
  then show ?thesis by (intro exI [of _ ?s]) (simp add: started_def)
qed

end
