(* ===== verification/Channel_Cache.thy ===== *)
theory Channel_Cache
  imports Prelude
begin

text \<open>
  A promise kept in a variable: \<open>getChannel\<close> of \<open>RabbitEmailQueue\<close>
  (\<open>git-release-notifier-be/src/modules/sender/adapters/rabbit-email-queue.ts\<close>) and of
  \<open>RabbitDeliveredPublisher\<close> (\<open>notification-service/src/modules/sender/adapters\<close>), and
  \<open>getRabbitConnection\<close> of both services (\<open>lib/rabbit/rabbit.connection.ts\<close>, see \<open>Rabbit_Connection\<close>), which
  all have the same body: a call returns the promise that is there; otherwise it starts one, and if that is rejected, empties
  the variable. The handlers of \<open>error\<close> and \<open>close\<close> empty it too; the client emits the two in one go.

  A state is the variable, the promises and what became of them, the calls that wait, and the channels (or
  connections) that are open. \<open>cache_step\<close> is one call, one event or the code after one \<open>await\<close>.
\<close>

section \<open>The state\<close>

datatype progress = Unsettled | Resolved nat | Rejected

text \<open>A waiting call: its promise, and whether it started it.\<close>

type_synonym waiter = "nat \<times> bool"

record cache =
  promise_var :: "nat option"
  promises :: "progress list"
  waiters :: "waiter list"
  open_now :: "nat set"
  next_open :: nat

definition empty_cache :: cache where
  "empty_cache = \<lparr>promise_var = None, promises = [], waiters = [], open_now = {}, next_open = 0\<rparr>"

section \<open>The code\<close>

definition get_cached :: "cache \<Rightarrow> cache" where
  "get_cached s =
     (case promise_var s of
        Some p \<Rightarrow> s\<lparr>waiters := waiters s @ [(p, False)]\<rparr>
      | None \<Rightarrow>
          (let p = length (promises s) in
           s\<lparr>promise_var := Some p, promises := promises s @ [Unsettled], waiters := waiters s @ [(p, True)]\<rparr>))"

definition create_resolves :: "nat \<Rightarrow> cache \<Rightarrow> cache" where
  "create_resolves p s =
     s\<lparr>promises := (promises s)[p := Resolved (next_open s)], open_now := insert (next_open s) (open_now s),
       next_open := Suc (next_open s)\<rparr>"

definition create_rejects :: "nat \<Rightarrow> cache \<Rightarrow> cache" where
  "create_rejects p s = s\<lparr>promises := (promises s)[p := Rejected]\<rparr>"

text \<open>The continuation of a call: \<open>catch\<close> empties the variable, for the call that started the promise.\<close>

definition call_resumes :: "waiter \<Rightarrow> cache \<Rightarrow> cache" where
  "call_resumes x s =
     (let s' = s\<lparr>waiters := remove1 x (waiters s)\<rparr> in
      if snd x \<and> promises s ! fst x = Rejected then s'\<lparr>promise_var := None\<rparr> else s')"

definition cached_on_close :: "nat \<Rightarrow> cache \<Rightarrow> cache" where
  "cached_on_close c s = s\<lparr>open_now := open_now s - {c}, promise_var := None\<rparr>"

text \<open>\<open>cache_step late\<close>: with \<open>late\<close> a channel may be closed before the handlers are registered, when the close
  arrives together with the answer that the code still has to resume on.\<close>

inductive cache_step :: "bool \<Rightarrow> cache \<Rightarrow> cache \<Rightarrow> bool" for late where
  calls: "cache_step late s (get_cached s)"
| creates: "p < length (promises s) \<Longrightarrow> promises s ! p = Unsettled \<Longrightarrow> cache_step late s (create_resolves p s)"
| fails: "p < length (promises s) \<Longrightarrow> promises s ! p = Unsettled \<Longrightarrow> cache_step late s (create_rejects p s)"
| resumes: "x \<in> set (waiters s) \<Longrightarrow> promises s ! fst x \<noteq> Unsettled \<Longrightarrow> cache_step late s (call_resumes x s)"
| closes: "c \<in> open_now s \<Longrightarrow> cache_step late s (cached_on_close c s)"
| closed_early: "late \<Longrightarrow> p < length (promises s) \<Longrightarrow> promises s ! p = Unsettled \<Longrightarrow>
    cache_step late s ((create_resolves p s)\<lparr>open_now := open_now s\<rparr>)"

lemmas cache_defs = get_cached_def create_resolves_def create_rejects_def call_resumes_def cached_on_close_def Let_def

section \<open>The invariant\<close>

text \<open>The promises that matter: not settled yet, resolved to an open channel, or rejected with the call that
  started it still to resume. The variable holds the only one; if no channel closes early, it holds no other.\<close>

definition matters :: "cache \<Rightarrow> nat \<Rightarrow> bool" where
  "matters s p \<longleftrightarrow> p < length (promises s) \<and>
     (case promises s ! p of
        Unsettled \<Rightarrow> True
      | Resolved c \<Rightarrow> c \<in> open_now s
      | Rejected \<Rightarrow> (p, True) \<in> set (waiters s))"

definition cache_ok :: "bool \<Rightarrow> cache \<Rightarrow> bool" where
  "cache_ok late s \<longleftrightarrow>
     (\<forall>p. matters s p \<longrightarrow> promise_var s = Some p) \<and>
     (\<forall>p. promise_var s = Some p \<longrightarrow> p < length (promises s) \<and> (late \<or> matters s p)) \<and>
     (\<forall>c \<in> open_now s. \<exists>p < length (promises s). promises s ! p = Resolved c) \<and>
     (\<forall>p < length (promises s). \<forall>c. promises s ! p = Resolved c \<longrightarrow> c < next_open s) \<and>
     (\<forall>x \<in> set (waiters s). fst x < length (promises s)) \<and> distinct (map fst (filter snd (waiters s))) \<and>
     (\<forall>p < length (promises s). promises s ! p = Unsettled \<longrightarrow> (p, True) \<in> set (waiters s))"

lemma cache_okD:
  assumes "cache_ok late s"
  shows "matters s p \<Longrightarrow> promise_var s = Some p"
    and "promise_var s = Some p \<Longrightarrow> p < length (promises s) \<and> (late \<or> matters s p)"
    and "x \<in> set (waiters s) \<Longrightarrow> fst x < length (promises s)"
  using assms unfolding cache_ok_def by blast+

lemma cache_ok_empty: "cache_ok late empty_cache"
  by (simp add: cache_ok_def matters_def empty_cache_def)

lemma open_numbers: "cache_ok late s \<Longrightarrow> c \<in> open_now s \<Longrightarrow> c < next_open s"
  unfolding cache_ok_def by blast

lemma call_ok:
  assumes "cache_ok late s"
  shows "cache_ok late (get_cached s)"
proof (cases "promise_var s")
  case (Some p)
  then have p: "p < length (promises s)" using assms by (simp add: cache_ok_def)
  have "matters (get_cached s) p' = matters s p'" for p'
    using Some by (auto simp: matters_def cache_defs split: progress.split)
  with assms Some p show ?thesis by (simp add: cache_ok_def cache_defs)
next
  case None
  let ?n = "length (promises s)"
  have m: "matters (get_cached s) p' \<longleftrightarrow> p' = ?n" for p'
  proof (cases "p' < ?n")
    case True
    then have "matters (get_cached s) p' = matters s p'"
      using None by (auto simp: matters_def cache_defs nth_append split: progress.split)
    with assms None True show ?thesis by (simp add: cache_ok_def)
  qed (use None in \<open>auto simp: matters_def cache_defs nth_append\<close>)
  have "distinct (map fst (filter snd (waiters s)) @ [?n])"
    using assms by (force simp: cache_ok_def)
  with assms None m show ?thesis
    by (auto simp: cache_ok_def cache_defs nth_append less_Suc_eq)
qed

lemma settle_ok:
  assumes ok: "cache_ok late s" and p: "p < length (promises s)" "promises s ! p = Unsettled"
  shows "cache_ok late (create_resolves p s)" and "cache_ok late (create_rejects p s)"
proof -
  have waits: "(p, True) \<in> set (waiters s)" using ok p by (simp add: cache_ok_def)
  have num: "c < next_open s" if "p' < length (promises s)" "promises s ! p' = Resolved c" for p' c
    using ok that unfolding cache_ok_def by blast
  have "matters (create_resolves p s) p' = matters s p'" for p'
    using p num [of p'] by (cases "p' = p") (auto simp: matters_def cache_defs split: progress.split)
  moreover have "\<exists>p' < length (promises s). promises (create_resolves p s) ! p' = Resolved c"
    if "c \<in> open_now (create_resolves p s)" for c
  proof (cases "c = next_open s")
    case True
    with p show ?thesis by (intro exI [of _ p]) (simp add: cache_defs)
  next
    case False
    with that have "c \<in> open_now s" by (simp add: cache_defs)
    then obtain p' where "p' < length (promises s)" "promises s ! p' = Resolved c" using ok unfolding cache_ok_def by blast
    with p show ?thesis by (intro exI [of _ p']) (auto simp: cache_defs nth_list_update)
  qed
  ultimately show "cache_ok late (create_resolves p s)"
    using ok p unfolding cache_ok_def by (auto simp: cache_defs nth_list_update less_Suc_eq)
  have "matters (create_rejects p s) p' = matters s p'" for p'
    using p waits by (cases "p' = p") (auto simp: matters_def cache_defs split: progress.split)
  moreover have "\<exists>p' < length (promises s). promises (create_rejects p s) ! p' = Resolved c"
    if "c \<in> open_now s" for c
  proof -
    from that obtain p' where "p' < length (promises s)" "promises s ! p' = Resolved c" using ok unfolding cache_ok_def by blast
    with p show ?thesis by (intro exI [of _ p']) (auto simp: cache_defs nth_list_update)
  qed
  ultimately show "cache_ok late (create_rejects p s)"
    using ok p unfolding cache_ok_def by (auto simp: cache_defs nth_list_update)
qed

lemma resume_ok:
  assumes ok: "cache_ok late s" and x: "x \<in> set (waiters s)" "promises s ! fst x \<noteq> Unsettled"
  shows "cache_ok late (call_resumes x s)"
proof -
  let ?s = "call_resumes x s"
  have dist: "distinct (map fst (filter snd (remove1 x (waiters s))))"
    by (rule distinct_map_filter_remove1) (use ok in \<open>simp add: cache_ok_def\<close>)
  have keeps: "(p, True) \<in> set (remove1 x (waiters s)) \<longleftrightarrow> (p, True) \<in> set (waiters s) \<and> (p, True) \<noteq> x" for p
  proof (cases "x = (p, True)")
    case True
    have "distinct (filter snd (waiters s))" using ok by (simp add: cache_ok_def distinct_map)
    then have "x \<notin> set (filter snd (remove1 x (waiters s)))" by (simp add: filter_remove1)
    with True show ?thesis by simp
  next
    case False
    then show ?thesis by (simp add: in_set_remove1)
  qed
  have fields: "promises ?s = promises s" "open_now ?s = open_now s" "next_open ?s = next_open s"
    "waiters ?s = remove1 x (waiters s)" by (simp_all add: cache_defs)
  have sub: "set (remove1 x (waiters s)) \<subseteq> set (waiters s)" by (rule set_remove1_subset)
  have m: "(matters ?s p \<longrightarrow> promise_var ?s = Some p) \<and>
      (promise_var ?s = Some p \<longrightarrow> p < length (promises s) \<and> (late \<or> matters ?s p))" for p
  proof (cases "snd x \<and> promises s ! fst x = Rejected")
    case True
    then have "(fst x, True) \<in> set (waiters s)" using x(1) by (cases x) simp
    moreover have "fst x < length (promises s)" using ok x(1) by (simp add: cache_ok_def)
    ultimately have "matters s (fst x)" using True by (simp add: matters_def)
    with ok have var: "promise_var s = Some (fst x)" by (simp add: cache_ok_def)
    have "matters ?s p \<longleftrightarrow> matters s p \<and> p \<noteq> fst x" 
      using True by (auto simp: matters_def fields keeps prod_eq_iff split: progress.split)
    with ok var True show ?thesis by (auto simp: cache_ok_def call_resumes_def Let_def)
  next
    case False
    then have "matters ?s p = matters s p"
      by (auto simp: matters_def fields keeps split: progress.split)
    with ok False show ?thesis by (auto simp: cache_ok_def call_resumes_def Let_def)
  qed
  have uns: "(p, True) \<in> set (remove1 x (waiters s))" if "p < length (promises s)" "promises s ! p = Unsettled" for p
    using ok x(2) that unfolding cache_ok_def keeps by auto
  show ?thesis
    using ok m dist sub uns unfolding cache_ok_def fields by blast
qed

lemma close_ok:
  assumes ok: "cache_ok late s" and c: "c \<in> open_now s"
  shows "cache_ok late (cached_on_close c s)"
proof -
  from ok c obtain p0 where p0: "p0 < length (promises s)" "promises s ! p0 = Resolved c" unfolding cache_ok_def by blast
  with c have "matters s p0" by (simp add: matters_def)
  with ok have "promise_var s = Some p0" by (simp add: cache_ok_def)
  then have var: "matters s p \<Longrightarrow> p = p0" for p using ok by (force simp: cache_ok_def)
  have "\<not> matters (cached_on_close c s) p" for p
  proof
    assume "matters (cached_on_close c s) p"
    then have "matters s p" "promises s ! p \<noteq> Resolved c"
      by (auto simp: matters_def cache_defs split: progress.splits)
    with var p0(2) show False by simp
  qed
  with ok show ?thesis unfolding cache_ok_def by (auto simp: cache_defs)
qed

lemma close_early_ok:
  assumes ok: "cache_ok True s" and p: "p < length (promises s)" "promises s ! p = Unsettled"
  shows "cache_ok True ((create_resolves p s)\<lparr>open_now := open_now s\<rparr>)"
proof -
  let ?s = "(create_resolves p s)\<lparr>open_now := open_now s\<rparr>"
  have num: "next_open s \<notin> open_now s" using open_numbers [OF ok] by blast
  have "matters s p'" if "matters ?s p'" for p'
    using p num that by (cases "p' = p") (auto simp: matters_def cache_defs split: progress.splits)
  moreover have "\<exists>p' < length (promises s). promises ?s ! p' = Resolved c" if "c \<in> open_now s" for c
  proof -
    from that obtain p' where "p' < length (promises s)" "promises s ! p' = Resolved c" using ok unfolding cache_ok_def by blast
    with p show ?thesis by (intro exI [of _ p']) (auto simp: cache_defs nth_list_update)
  qed
  ultimately show ?thesis
    using ok p unfolding cache_ok_def by (auto simp: cache_defs nth_list_update less_Suc_eq)
qed

lemma cache_step_ok: "cache_step late s s' \<Longrightarrow> cache_ok late s \<Longrightarrow> cache_ok late s'"
  by (erule cache_step.cases) (auto intro: call_ok settle_ok resume_ok close_ok close_early_ok)

lemma cache_reachable_ok: "(cache_step late)\<^sup>*\<^sup>* empty_cache s \<Longrightarrow> cache_ok late s"
  by (induction rule: rtranclp_induct) (use cache_ok_empty cache_step_ok in blast)+

text \<open>So at most one is open or being opened, and unless one closed early the variable says which.\<close>

lemma cache_ok_found:
  assumes "cache_ok late s"
  shows "c \<in> open_now s \<Longrightarrow> \<exists>p. promise_var s = Some p \<and> p < length (promises s) \<and> promises s ! p = Resolved c"
    and "p < length (promises s) \<Longrightarrow> promises s ! p = Unsettled \<Longrightarrow> promise_var s = Some p"
proof -
  from assms have m: "matters s p \<Longrightarrow> promise_var s = Some p" for p by (simp add: cache_ok_def)
  show "\<exists>p. promise_var s = Some p \<and> p < length (promises s) \<and> promises s ! p = Resolved c" if "c \<in> open_now s"
  proof -
    from assms that obtain p where "p < length (promises s)" "promises s ! p = Resolved c" unfolding cache_ok_def by blast
    with that m [of p] show ?thesis by (auto simp: matters_def)
  qed
  show "promise_var s = Some p" if "p < length (promises s)" "promises s ! p = Unsettled"
    using m [of p] that by (simp add: matters_def)
qed

lemma cache_ok_one:
  assumes ok: "cache_ok late s"
  shows "card (open_now s) + card {p. p < length (promises s) \<and> promises s ! p = Unsettled} \<le> 1"
proof -
  let ?U = "{p. p < length (promises s) \<and> promises s ! p = Unsettled}"
  have U: "?U \<subseteq> set_option (promise_var s)" using cache_ok_found(2) [OF ok] by auto
  show ?thesis
  proof (cases "open_now s = {}")
    case True
    moreover have "card ?U \<le> card (set_option (promise_var s))" by (rule card_mono [OF _ U]) simp
    moreover have "card (set_option (promise_var s)) \<le> 1" by (cases "promise_var s") simp_all
    ultimately show ?thesis by simp
  next
    case False
    then obtain c p where p: "promise_var s = Some p" "promises s ! p = Resolved c" using cache_ok_found(1) [OF ok] by blast
    then have "open_now s \<subseteq> {c}" using cache_ok_found(1) [OF ok] by fastforce
    then have "card (open_now s) \<le> card {c}" by (rule card_mono [rotated]) simp
    moreover have "?U = {}" using U p by auto
    ultimately show ?thesis by (simp only: card.empty) simp
  qed
qed

lemma cache_ok_var:
  assumes ok: "cache_ok False s"
  shows "case promise_var s of
       None \<Rightarrow> open_now s = {} \<and> list_all (\<lambda>r. r \<noteq> Unsettled) (promises s)
     | Some p \<Rightarrow> p < length (promises s) \<and>
         (case promises s ! p of
            Unsettled \<Rightarrow> open_now s = {}
          | Resolved c \<Rightarrow> open_now s = {c}
          | Rejected \<Rightarrow> open_now s = {} \<and> (p, True) \<in> set (waiters s))"
proof (cases "promise_var s")
  case None
  have "open_now s = {}" using cache_ok_found(1) [OF ok] None by force
  moreover have "promises s ! p \<noteq> Unsettled" if "p < length (promises s)" for p
    using cache_ok_found(2) [OF ok that] None by auto
  ultimately show ?thesis using None by (simp add: list_all_length)
next
  case (Some p)
  with ok have p: "p < length (promises s)" "matters s p" by (simp_all add: cache_ok_def)
  have only: "promises s ! p = Resolved c" if "c \<in> open_now s" for c
    using cache_ok_found(1) [OF ok that] Some by simp
  have none: "open_now s = {}" if "\<And>c. promises s ! p \<noteq> Resolved c" using only that by blast
  show ?thesis
  proof (cases "promises s ! p")
    case (Resolved c)
    then have "c \<in> open_now s" using p(2) by (simp add: matters_def)
    moreover have "c' = c" if "c' \<in> open_now s" for c' using only [OF that] Resolved by simp
    ultimately have "open_now s = {c}" by blast
    with Some p(1) Resolved show ?thesis by simp
  qed (use Some p none in \<open>simp_all add: matters_def\<close>)
qed

section \<open>Properties\<close>

text \<open>Publishers share one channel. Over all interleavings of calls,
  channels that open, fail or close, and resumed calls, at most one channel is open or being opened. A call
  that finds a promise finds the one that is being opened or is open, or one that just failed and whose
  first caller has not resumed yet; if the variable is empty nothing is open and nothing is being opened, so
  a new promise loses no channel.\<close>

lemma one_channel_at_a_time:
  assumes "(cache_step False)\<^sup>*\<^sup>* empty_cache s"
  shows "card (open_now s) + card {p. p < length (promises s) \<and> promises s ! p = Unsettled} \<le> 1 \<and>
    (case promise_var s of
       None \<Rightarrow> open_now s = {} \<and> list_all (\<lambda>r. r \<noteq> Unsettled) (promises s)
     | Some p \<Rightarrow> p < length (promises s) \<and>
         (case promises s ! p of
            Unsettled \<Rightarrow> open_now s = {}
          | Resolved c \<Rightarrow> open_now s = {c}
          | Rejected \<Rightarrow> open_now s = {} \<and> (p, True) \<in> set (waiters s)))"
  using cache_ok_one [OF cache_reachable_ok [OF assms]] cache_ok_var [OF cache_reachable_ok [OF assms]] by blast

lemma cache_run: "(cache_step late)\<^sup>*\<^sup>* a b \<Longrightarrow> cache_step late b c \<Longrightarrow> c = d \<Longrightarrow> (cache_step late)\<^sup>*\<^sup>* a d"
  by (metis rtranclp.rtrancl_into_rtrancl)

lemma asked_run:
  "(cache_step late)\<^sup>*\<^sup>* empty_cache
     \<lparr>promise_var = Some 0, promises = [Unsettled], waiters = [(0, True)], open_now = {}, next_open = 0\<rparr>"
  by (rule cache_run [OF rtranclp.rtrancl_refl], rule cache_step.calls) (simp add: cache_defs empty_cache_def)

text \<open>
  A channel that is closed in the moment it is ready, before its handlers are registered, stays in the
  variable for good: from then on every call gets the closed channel, until the process is restarted.
\<close>

definition stale :: "cache \<Rightarrow> bool" where
  "stale s \<longleftrightarrow> promise_var s = Some 0 \<and> promises s = [Resolved 0] \<and> open_now s = {} \<and>
     list_all (\<lambda>x. fst x = 0) (waiters s)"

lemma stale_channel_is_kept:
  "\<exists>s. (cache_step True)\<^sup>*\<^sup>* empty_cache s \<and> stale s"
  "(cache_step late)\<^sup>*\<^sup>* s s' \<Longrightarrow> stale s \<Longrightarrow> stale s'"
proof -
  let ?s = "\<lparr>promise_var = Some 0, promises = [Resolved 0], waiters = [(0, True)], open_now = {}, next_open = 1\<rparr>"
  have "(cache_step True)\<^sup>*\<^sup>* empty_cache ?s"
    by (rule cache_run [OF asked_run], rule cache_step.closed_early [of _ 0]) (simp_all add: cache_defs)
  then show "\<exists>s. (cache_step True)\<^sup>*\<^sup>* empty_cache s \<and> stale s" by (intro exI [of _ ?s]) (simp add: stale_def)
  have step: "stale b" if "cache_step late a b" "stale a" for a b
    using that
  proof cases
    case (resumes x)
    with that(2) have "fst x = 0" by (auto simp: stale_def list_all_iff)
    with resumes that(2) show ?thesis by (auto simp: stale_def cache_defs list_all_iff dest: set_mp [OF set_remove1_subset])
  qed (auto simp: stale_def cache_defs)
  show "stale s'" if "(cache_step late)\<^sup>*\<^sup>* s s'" "stale s"
    using that by (induction rule: rtranclp_induct) (use step in blast)+
qed

text \<open>The channel of \<open>RabbitDeliveredPublisher\<close>: the same code, so that what is shown above holds for it.\<close>

definition delivered_getChannel :: "cache \<Rightarrow> cache" where
  "delivered_getChannel s =
     (case promise_var s of
        Some p \<Rightarrow> s\<lparr>waiters := waiters s @ [(p, False)]\<rparr>
      | None \<Rightarrow>
          (let p = length (promises s) in
           s\<lparr>promise_var := Some p, promises := promises s @ [Unsettled], waiters := waiters s @ [(p, True)]\<rparr>))"

definition delivered_getChannel_resumes :: "waiter \<Rightarrow> cache \<Rightarrow> cache" where
  "delivered_getChannel_resumes x s =
     (case x of (p, started_it) \<Rightarrow>
        s\<lparr>waiters := remove1 x (waiters s),
          promise_var := (if promises s ! p = Rejected \<and> started_it then None else promise_var s)\<rparr>)"

definition delivered_createChannel :: "nat \<Rightarrow> cache \<Rightarrow> cache" where
  "delivered_createChannel p s =
     s\<lparr>promises := (promises s)[p := Resolved (next_open s)], open_now := insert (next_open s) (open_now s),
       next_open := Suc (next_open s)\<rparr>"

definition delivered_channel_closed :: "nat \<Rightarrow> cache \<Rightarrow> cache" where
  "delivered_channel_closed c s = s\<lparr>open_now := open_now s - {c}, promise_var := None\<rparr>"

lemma delivered_channel_is_cached:
  "delivered_getChannel = get_cached" "delivered_getChannel_resumes = call_resumes"
  "delivered_createChannel = create_resolves" "delivered_channel_closed = cached_on_close"
  by (intro ext; simp add: delivered_getChannel_def delivered_getChannel_resumes_def delivered_createChannel_def
      delivered_channel_closed_def cache_defs split: prod.split)+

end
