(* ===== verification/Service_Shutdown.thy ===== *)
theory Service_Shutdown
  imports Consumer_Lifecycle Channel_Cache
begin

text \<open>
  The process of the notification service, \<open>notification-service/src/index.ts\<close>: \<open>main\<close> starts the metrics
  server, the gRPC server and the consumer, and a signal stops the consumer, the gRPC server, the
  RabbitMQ connection (\<open>lib/rabbit/rabbit.connection.ts\<close>), Redis and the metrics server, one after the
  other. A state has the consumer as \<open>Consumer_Lifecycle\<close> models it, the connection as \<open>Channel_Cache\<close>
  does, the gRPC calls in progress and the point \<open>main\<close> or \<open>shutdown\<close> waits at; \<open>process_step\<close> is one step of
  any of them.
\<close>

section \<open>The connection to RabbitMQ\<close>

definition note_getRabbitConnection :: "cache \<Rightarrow> cache" where
  "note_getRabbitConnection s =
     (case promise_var s of
        Some p \<Rightarrow> s\<lparr>waiters := waiters s @ [(p, False)]\<rparr>
      | None \<Rightarrow>
          (let p = length (promises s) in
           s\<lparr>promise_var := Some p, promises := promises s @ [Unsettled], waiters := waiters s @ [(p, True)]\<rparr>))"

text \<open>The handlers of \<open>error\<close> and \<open>close\<close>, which the client emits together.\<close>

definition note_connection_lost :: "nat \<Rightarrow> cache \<Rightarrow> cache" where
  "note_connection_lost c s = s\<lparr>open_now := open_now s - {c}, promise_var := None\<rparr>"

lemma note_connection_is_cached:
  "note_getRabbitConnection = get_cached" "note_connection_lost = cached_on_close"
  by (intro ext; simp add: note_getRabbitConnection_def get_cached_def note_connection_lost_def cached_on_close_def)+

section \<open>The process\<close>

datatype main_phase = Binding_Grpc | Starting_Consumer | Serving
  | Stopping_Consumer | Closing_Grpc | Closing_Rabbit nat | Closing_Redis | Closing_Metrics
  | Exited int | Killed

text \<open>\<open>before_close\<close>: how many connections had been asked for when \<open>closeRabbitConnection\<close> was called.\<close>

record process =
  phase :: main_phase
  sv_consumer :: life
  rabbit :: cache
  rabbit_closing :: bool
  accepting :: bool
  calls :: nat
  redis_open :: bool
  metrics_open :: bool
  before_close :: nat

definition launched :: process where
  "launched = \<lparr>phase = Binding_Grpc, sv_consumer = started\<lparr>setups := []\<rparr>, rabbit = empty_cache, rabbit_closing = False,
     accepting = False, calls = 0, redis_open = True, metrics_open = True, before_close = 0\<rparr>"

text \<open>\<open>main\<close> after \<open>startNotificationGrpcServer\<close>, and after \<open>startEmailConsumer\<close>, whose first setup has ended.\<close>

definition grpc_bound :: "process \<Rightarrow> process" where
  "grpc_bound s = s\<lparr>accepting := True, sv_consumer := started, phase := Starting_Consumer\<rparr>"

definition consumer_started :: "process \<Rightarrow> process" where
  "consumer_started s = s\<lparr>phase := Serving\<rparr>"

text \<open>\<open>main().catch\<close>.\<close>

definition start_failed :: "process \<Rightarrow> process" where
  "start_failed s = s\<lparr>phase := Exited 1\<rparr>"

text \<open>\<open>shutdown\<close>, from one \<open>await\<close> to the next. \<open>shuttingDown\<close> is set exactly when the process no longer serves.\<close>

definition on_signal :: "process \<Rightarrow> process" where
  "on_signal s =
     (if phase s \<noteq> Serving then s
      else s\<lparr>phase := Stopping_Consumer, sv_consumer := stop_begins (sv_consumer s)\<rparr>)"

definition consumer_stopped :: "process \<Rightarrow> process" where
  "consumer_stopped s = s\<lparr>phase := Closing_Grpc, accepting := False\<rparr>"

definition note_closeRabbitConnection :: "process \<Rightarrow> process" where
  "note_closeRabbitConnection s =
     (let s' = s\<lparr>rabbit_closing := True, before_close := length (promises (rabbit s))\<rparr> in
      case promise_var (rabbit s') of
        None \<Rightarrow> s'\<lparr>phase := Closing_Redis\<rparr>
      | Some p \<Rightarrow> s'\<lparr>rabbit := (rabbit s')\<lparr>promise_var := None\<rparr>, phase := Closing_Rabbit p\<rparr>)"

text \<open>The promise it awaited is settled: a connection is closed, and \<open>close\<close> resolves when it is. A connection that
  was lost meanwhile refuses to be closed, which is only logged, like a connection that could not be made.\<close>

definition rabbit_closed :: "nat \<Rightarrow> process \<Rightarrow> process" where
  "rabbit_closed p s =
     (case promises (rabbit s) ! p of
        Resolved c \<Rightarrow> s\<lparr>rabbit := note_connection_lost c (rabbit s), phase := Closing_Redis\<rparr>
      | _ \<Rightarrow> s\<lparr>phase := Closing_Redis\<rparr>)"

definition closeRedis :: "process \<Rightarrow> process" where
  "closeRedis s = s\<lparr>redis_open := False, phase := Closing_Metrics\<rparr>"

text \<open>\<open>quit\<close> is rejected: nobody handles the rejection of \<open>shutdown\<close>, and the runtime ends the process.\<close>

definition shutdown_rejected :: "process \<Rightarrow> process" where
  "shutdown_rejected s = s\<lparr>phase := Exited 1\<rparr>"

definition shutdown_complete :: "process \<Rightarrow> process" where
  "shutdown_complete s = s\<lparr>metrics_open := False, phase := Exited 0\<rparr>"

definition over :: "process \<Rightarrow> bool" where
  "over s \<longleftrightarrow> (case phase s of Exited code \<Rightarrow> True | Killed \<Rightarrow> True | _ \<Rightarrow> False)"

text \<open>Before \<open>main\<close> has registered its handlers a signal ends the process.\<close>

inductive process_step :: "process \<Rightarrow> process \<Rightarrow> bool" where
  binds: "phase s = Binding_Grpc \<Longrightarrow> process_step s (grpc_bound s)"
| bind_fails: "phase s = Binding_Grpc \<Longrightarrow> process_step s (start_failed s)"
| ready: "phase s = Starting_Consumer \<Longrightarrow> setups (sv_consumer s) = [] \<Longrightarrow> process_step s (consumer_started s)"
| killed: "phase s \<in> {Binding_Grpc, Starting_Consumer} \<Longrightarrow> process_step s (s\<lparr>phase := Killed\<rparr>)"
| consumer_runs: "\<not> over s \<Longrightarrow> phase s \<noteq> Binding_Grpc \<Longrightarrow> life_step False (sv_consumer s) l \<Longrightarrow>
    (stopping (sv_consumer s) = Running \<Longrightarrow> stopping l = Running) \<Longrightarrow> process_step s (s\<lparr>sv_consumer := l\<rparr>)"
| rabbit_runs: "\<not> over s \<Longrightarrow> cache_step True (rabbit s) r \<Longrightarrow> process_step s (s\<lparr>rabbit := r\<rparr>)"
| call_arrives: "\<not> over s \<Longrightarrow> accepting s \<Longrightarrow> process_step s (s\<lparr>calls := Suc (calls s)\<rparr>)"
| call_answered: "\<not> over s \<Longrightarrow> 0 < calls s \<Longrightarrow> process_step s (s\<lparr>calls := calls s - 1\<rparr>)"
| signalled: "phase s \<notin> {Binding_Grpc, Starting_Consumer} \<Longrightarrow> \<not> over s \<Longrightarrow> process_step s (on_signal s)"
| consumer_stops: "phase s = Stopping_Consumer \<Longrightarrow> stopping (sv_consumer s) = Stopped \<Longrightarrow>
    process_step s (consumer_stopped s)"
| grpc_stops: "phase s = Closing_Grpc \<Longrightarrow> calls s = 0 \<Longrightarrow> process_step s (note_closeRabbitConnection s)"
| rabbit_stops: "phase s = Closing_Rabbit p \<Longrightarrow> promises (rabbit s) ! p \<noteq> Unsettled \<Longrightarrow>
    process_step s (rabbit_closed p s)"
| redis_quits: "phase s = Closing_Redis \<Longrightarrow> process_step s (closeRedis s)"
| redis_fails: "phase s = Closing_Redis \<Longrightarrow> process_step s (shutdown_rejected s)"
| metrics_stops: "phase s = Closing_Metrics \<Longrightarrow> process_step s (shutdown_complete s)"

lemmas process_defs = grpc_bound_def consumer_started_def start_failed_def on_signal_def consumer_stopped_def
  note_closeRabbitConnection_def rabbit_closed_def closeRedis_def shutdown_rejected_def shutdown_complete_def Let_def

section \<open>The consumer while it stops\<close>

text \<open>A stop that found no setup in progress cancels the subscription before it waits for the messages in flight.\<close>

definition drain_ok :: "life \<Rightarrow> bool" where
  "drain_ok l \<longleftrightarrow> (channel_var l = None \<longleftrightarrow> consumerTag l = None) \<and>
     (clean_stop l \<longrightarrow>
        (case stopping l of
           Running \<Rightarrow> True
         | Cancelling c \<Rightarrow> open_channels l \<subseteq> {c}
         | Draining \<Rightarrow> consuming l = {}
         | Closing c \<Rightarrow> consuming l = {} \<and> (inFlight l = 0 \<or> overdue l)
         | Stopped \<Rightarrow> consuming l = {} \<and> (inFlight l = 0 \<or> overdue l)))"

definition life_ok :: "life \<Rightarrow> bool" where
  "life_ok l \<longleftrightarrow> channels_ok False l \<and> stop_ok l \<and> drain_ok l"

lemma drain_step:
  assumes st: "life_step False l l'" and ok: "channels_ok False l" "stop_ok l" "drain_ok l"
  shows "drain_ok l'"
proof -
  have ok': "channels_ok False l'" "stop_ok l'" using life_step_ok [OF st ok(1,2)] by simp_all
  have quiet: "setups l = []" if "clean_stop l" "shuttingDown l" using that ok(2) by (simp add: stop_ok_def)
  show ?thesis
    using st
    by cases
      (use ok ok' quiet in \<open>auto simp: drain_ok_def life_defs channels_ok_def stop_ok_def
        split: stop_phase.splits option.splits list.splits if_splits\<close>)
qed

section \<open>The invariant of the process\<close>

text \<open>A promise that is over: settled, and its connection, if it got one, no longer open.\<close>

definition connection_over :: "cache \<Rightarrow> nat \<Rightarrow> bool" where
  "connection_over r p \<longleftrightarrow> promises r ! p \<noteq> Unsettled \<and> (\<forall>c. promises r ! p = Resolved c \<longrightarrow> c \<notin> open_now r)"

definition numbers_ok :: "cache \<Rightarrow> bool" where
  "numbers_ok r \<longleftrightarrow> (\<forall>p < length (promises r). \<forall>c. promises r ! p = Resolved c \<longrightarrow> c < next_open r)"

definition process_ok :: "process \<Rightarrow> bool" where
  "process_ok s \<longleftrightarrow>
     (life_ok (sv_consumer s) \<or> phase s \<in> {Binding_Grpc, Exited 1, Killed}) \<and>
     numbers_ok (rabbit s) \<and> before_close s \<le> length (promises (rabbit s)) \<and> (rabbit_closing s \<or> cache_ok True (rabbit s)) \<and>
     redis_open s = (phase s \<notin> {Closing_Metrics, Exited 0}) \<and> metrics_open s = (phase s \<noteq> Exited 0) \<and>
     (case phase s of
        Binding_Grpc \<Rightarrow> \<not> accepting s \<and> \<not> rabbit_closing s
      | Starting_Consumer \<Rightarrow> stopping (sv_consumer s) = Running \<and> \<not> rabbit_closing s
      | Serving \<Rightarrow> stopping (sv_consumer s) = Running \<and> \<not> rabbit_closing s
      | Stopping_Consumer \<Rightarrow> \<not> rabbit_closing s
      | Closing_Grpc \<Rightarrow> stopping (sv_consumer s) = Stopped \<and> \<not> accepting s \<and> \<not> rabbit_closing s
      | Closing_Rabbit p \<Rightarrow> stopping (sv_consumer s) = Stopped \<and> \<not> accepting s \<and> calls s = 0 \<and> rabbit_closing s \<and>
          (\<forall>q < before_close s. q \<noteq> p \<longrightarrow> connection_over (rabbit s) q)
      | Closing_Redis \<Rightarrow> stopping (sv_consumer s) = Stopped \<and> \<not> accepting s \<and> calls s = 0 \<and> rabbit_closing s \<and>
          (\<forall>q < before_close s. connection_over (rabbit s) q)
      | Closing_Metrics \<Rightarrow> stopping (sv_consumer s) = Stopped \<and> \<not> accepting s \<and> calls s = 0 \<and> rabbit_closing s \<and>
          (\<forall>q < before_close s. connection_over (rabbit s) q)
      | Exited code \<Rightarrow> code = 1 \<or>
          code = 0 \<and> stopping (sv_consumer s) = Stopped \<and> \<not> accepting s \<and> calls s = 0 \<and> rabbit_closing s \<and>
          (\<forall>q < before_close s. connection_over (rabbit s) q)
      | Killed \<Rightarrow> True)"

lemma stopped_stays: "life_step b l l' \<Longrightarrow> stopping l = Stopped \<Longrightarrow> stopping l' = Stopped"
  by (erule life_step.cases) (auto simp: life_defs)

lemma rabbit_step_ok:
  assumes "cache_step True r r'" and "numbers_ok r"
  shows "numbers_ok r' \<and> length (promises r) \<le> length (promises r') \<and>
    (\<forall>q < length (promises r). connection_over r q \<longrightarrow> connection_over r' q)"
  using assms(1)
proof cases
  case calls
  with assms(2) show ?thesis
    by (auto simp: numbers_ok_def connection_over_def cache_defs nth_append less_Suc_eq split: option.splits)
next
  case (resumes x)
  with assms(2) show ?thesis by (simp add: numbers_ok_def connection_over_def cache_defs)
next
  case (creates p)
  with assms(2) show ?thesis
    by (auto simp: numbers_ok_def connection_over_def cache_defs nth_list_update less_Suc_eq)
next
  case (fails p)
  with assms(2) show ?thesis
    by (auto simp: numbers_ok_def connection_over_def cache_defs nth_list_update)
next
  case (closes c)
  with assms(2) show ?thesis by (auto simp: numbers_ok_def connection_over_def cache_defs)
next
  case (closed_early p)
  with assms(2) show ?thesis
    by (auto simp: numbers_ok_def connection_over_def cache_defs nth_list_update less_Suc_eq)
qed

text \<open>When the connection is asked to close, the variable knows of every promise that is not over.\<close>

lemma only_the_variable:
  "cache_ok True r \<Longrightarrow> q < length (promises r) \<Longrightarrow> promise_var r \<noteq> Some q \<Longrightarrow> connection_over r q"
  using cache_okD(1) [of True r q] by (auto simp: connection_over_def matters_def)

lemma closed_over: "promises r ! p = Resolved c \<Longrightarrow> connection_over (note_connection_lost c r) p"
  and closed_keeps: "connection_over r q \<Longrightarrow> connection_over (note_connection_lost c r) q"
  by (auto simp: connection_over_def note_connection_lost_def)

lemma started_life_ok: "life_ok started"
  using started_ok by (simp add: life_ok_def drain_ok_def started_def)

lemma life_ok_step: "life_step False l l' \<Longrightarrow> life_ok l \<Longrightarrow> life_ok l'"
  using life_step_ok drain_step unfolding life_ok_def by blast

lemma process_step_ok:
  assumes st: "process_step s s'" and ok: "process_ok s"
  shows "process_ok s'"
  using st
proof cases
  case (consumer_runs l)
  with ok have "life_ok l" by (auto simp: process_ok_def over_def intro: life_ok_step)
  with consumer_runs ok stopped_stays [OF consumer_runs(4)] show ?thesis
    by (auto simp: process_ok_def over_def split: main_phase.splits)
next
  case (rabbit_runs r)
  with ok have "numbers_ok (rabbit s)" by (simp add: process_ok_def)
  note st = rabbit_step_ok [OF rabbit_runs(3) this]
  have "rabbit_closing s \<or> cache_ok True r" using cache_step_ok [OF rabbit_runs(3)] ok by (auto simp: process_ok_def)
  moreover have "connection_over r q" if "connection_over (rabbit s) q" "q < before_close s" for q
    using st that ok by (simp add: process_ok_def)
  ultimately show ?thesis
    using rabbit_runs st ok by (auto simp: process_ok_def over_def split: main_phase.splits)
next
  case signalled
  with ok have "life_ok (stop_begins (sv_consumer s))" if "phase s = Serving"
    using that life_ok_step [OF life_step.stops] by (auto simp: process_ok_def)
  with signalled ok show ?thesis by (auto simp: process_ok_def on_signal_def split: main_phase.splits)
next
  case grpc_stops
  with ok have cache: "cache_ok True (rabbit s)" by (auto simp: process_ok_def)
  have keep: "connection_over ((rabbit s)\<lparr>promise_var := None\<rparr>) q = connection_over (rabbit s) q" for q
    by (simp add: connection_over_def)
  show ?thesis
    using grpc_stops ok only_the_variable [OF cache] keep
    by (cases "promise_var (rabbit s)") (auto simp: process_ok_def process_defs numbers_ok_def)
next
  case (rabbit_stops p)
  with ok have over: "\<forall>q < before_close s. q \<noteq> p \<longrightarrow> connection_over (rabbit s) q" by (simp add: process_ok_def)
  show ?thesis
  proof (cases "promises (rabbit s) ! p")
    case (Resolved c)
    have "connection_over (note_connection_lost c (rabbit s)) q" if "q < before_close s" for q
      using over closed_over [OF Resolved] closed_keeps that by blast
    then show ?thesis using rabbit_stops ok Resolved
      by (auto simp: process_ok_def process_defs numbers_ok_def note_connection_lost_def)
  next
    case Rejected
    then have "connection_over (rabbit s) q" if "q < before_close s" for q
      using over that by (cases "q = p") (auto simp: connection_over_def)
    then show ?thesis using rabbit_stops ok Rejected by (auto simp: process_ok_def process_defs)
  qed (use rabbit_stops in simp)
qed (use ok started_life_ok in \<open>auto simp: process_ok_def process_defs over_def started_def split: main_phase.splits\<close>)

lemma launched_ok: "process_ok launched"
  by (simp add: process_ok_def launched_def numbers_ok_def cache_ok_empty) (simp add: empty_cache_def)

section \<open>Properties\<close>

text \<open>C18. The shutdown takes its steps in an order that lets the work in progress finish. Over all interleavings of
  messages, gRPC calls, lost connections and signals, Redis is only left when the consumer has stopped,
  no gRPC call is in progress and none is accepted, and (if no setup was in progress when the signal came)
  nothing is consumed and every message in flight was settled, unless the deadline has passed. Before Redis
  is closed the RabbitMQ connection has ended: whatever connection was open, or being opened, when
  \<open>closeRabbitConnection\<close> was called is open no more. The process exits with 0 only after Redis and the metrics
  server were closed.\<close>

theorem shutdown_in_order:
  assumes "process_step\<^sup>*\<^sup>* launched s"
  shows "(\<not> redis_open s \<longrightarrow> stopping (sv_consumer s) = Stopped \<and> calls s = 0 \<and> \<not> accepting s \<and> rabbit_closing s \<and>
      (clean_stop (sv_consumer s) \<longrightarrow>
        consuming (sv_consumer s) = {} \<and> (inFlight (sv_consumer s) = 0 \<or> overdue (sv_consumer s)))) \<and>
    (phase s = Closing_Redis \<or> \<not> redis_open s \<longrightarrow>
      (\<forall>p < before_close s. promises (rabbit s) ! p \<noteq> Unsettled \<and>
        (\<forall>c. promises (rabbit s) ! p = Resolved c \<longrightarrow> c \<notin> open_now (rabbit s)))) \<and>
    (phase s = Exited 0 \<longrightarrow> \<not> redis_open s \<and> \<not> metrics_open s)"
proof -
  from assms have ok: "process_ok s"
    by (induction rule: rtranclp_induct) (use launched_ok process_step_ok in blast)+
  have stopped: "consuming l = {} \<and> (inFlight l = 0 \<or> overdue l)" if "life_ok l" "stopping l = Stopped" "clean_stop l" for l
    using that by (simp add: life_ok_def drain_ok_def)
  show ?thesis
  proof (cases "phase s \<in> {Closing_Metrics, Exited 0}")
    case True
    then have "life_ok (sv_consumer s)" "stopping (sv_consumer s) = Stopped" using ok by (auto simp: process_ok_def)
    with stopped [OF this] True ok show ?thesis by (auto simp: process_ok_def connection_over_def)
  qed (use ok in \<open>auto simp: process_ok_def connection_over_def\<close>)
qed

lemma process_run: "process_step\<^sup>*\<^sup>* a b \<Longrightarrow> process_step b c \<Longrightarrow> c = d \<Longrightarrow> process_step\<^sup>*\<^sup>* a d"
  by (metis rtranclp.rtrancl_into_rtrancl)

abbreviation idle_consumer :: life where
  "idle_consumer \<equiv> started\<lparr>setups := [], reconnectTimer := True, pending_timers := 1\<rparr>"

abbreviation ended_consumer :: life where
  "ended_consumer \<equiv> started\<lparr>setups := [], shuttingDown := True, clean_stop := True, stopping := Stopped\<rparr>"

lemma consumer_run:
  assumes "process_step\<^sup>*\<^sup>* launched s" and "life_step False (sv_consumer s) l"
    and "\<not> over s" "phase s \<noteq> Binding_Grpc" "stopping (sv_consumer s) = Running \<longrightarrow> stopping l = Running"
    and "d = s\<lparr>sv_consumer := l\<rparr>"
  shows "process_step\<^sup>*\<^sup>* launched d"
  by (rule process_run [OF assms(1) process_step.consumer_runs]) (use assms in auto)

abbreviation one_connection :: cache where
  "one_connection \<equiv> \<lparr>promise_var = Some 0, promises = [Resolved 0], waiters = [(0, True)], open_now = {0}, next_open = 1\<rparr>"

abbreviation closed_connection :: cache where
  "closed_connection \<equiv> one_connection\<lparr>promise_var := None, open_now := {}\<rparr>"

text \<open>A run in which the connection was open when the signal came.\<close>

lemma rabbit_run:
  assumes "process_step\<^sup>*\<^sup>* launched s" and "cache_step True (rabbit s) r" and "\<not> over s" and "d = s\<lparr>rabbit := r\<rparr>"
  shows "process_step\<^sup>*\<^sup>* launched d"
  by (rule process_run [OF assms(1) process_step.rabbit_runs]) (use assms in auto)

lemma redis_closing_run:
  "process_step\<^sup>*\<^sup>* launched (launched\<lparr>phase := Closing_Redis, sv_consumer := ended_consumer, rabbit := closed_connection,
     rabbit_closing := True, before_close := 1\<rparr>)"
proof -
  let ?at = "\<lambda>p l. launched\<lparr>phase := p, accepting := True, sv_consumer := l\<rparr>"
  let ?asked = "\<lparr>promise_var = Some 0, promises = [Unsettled], waiters = [(0, True)], open_now = {}, next_open = 0\<rparr>"
  let ?draining = "started\<lparr>setups := [], shuttingDown := True, clean_stop := True, stopping := Draining\<rparr>"
  have r1: "process_step\<^sup>*\<^sup>* launched (?at Starting_Consumer started)"
    by (rule process_run [OF rtranclp.rtrancl_refl], rule process_step.binds) (simp_all add: launched_def process_defs)
  have r2: "process_step\<^sup>*\<^sup>* launched (?at Starting_Consumer idle_consumer)"
    by (rule consumer_run [OF r1, of "setup_rejected Opening started"], simp, rule life_step.refused)
      (simp_all add: started_def life_defs over_def)
  have r3: "process_step\<^sup>*\<^sup>* launched (?at Serving idle_consumer)"
    by (rule process_run [OF r2], rule process_step.ready) (simp_all add: process_defs)
  have r4: "process_step\<^sup>*\<^sup>* launched ((?at Serving idle_consumer)\<lparr>rabbit := ?asked\<rparr>)"
    by (rule rabbit_run [OF r3, of "get_cached empty_cache"])
      (simp_all add: launched_def over_def cache_step.calls, simp add: cache_defs empty_cache_def)
  have r5: "process_step\<^sup>*\<^sup>* launched ((?at Serving idle_consumer)\<lparr>rabbit := one_connection\<rparr>)"
    by (rule rabbit_run [OF r4, of "create_resolves 0 ?asked"], simp, rule cache_step.creates)
      (simp_all add: over_def cache_defs)
  have r6: "process_step\<^sup>*\<^sup>* launched ((?at Stopping_Consumer ?draining)\<lparr>rabbit := one_connection\<rparr>)"
    by (rule process_run [OF r5], rule process_step.signalled)
      (simp_all add: process_defs over_def life_defs started_def)
  have r7: "process_step\<^sup>*\<^sup>* launched ((?at Stopping_Consumer ended_consumer)\<lparr>rabbit := one_connection\<rparr>)"
    by (rule consumer_run [OF r6, of "stop_drained ?draining"], simp, rule life_step.drained)
      (simp_all add: started_def life_defs over_def)
  have r8: "process_step\<^sup>*\<^sup>* launched (launched\<lparr>phase := Closing_Grpc, sv_consumer := ended_consumer, rabbit := one_connection\<rparr>)"
    by (rule process_run [OF r7], rule process_step.consumer_stops) (simp_all add: process_defs launched_def)
  have r9: "process_step\<^sup>*\<^sup>* launched (launched\<lparr>phase := Closing_Rabbit 0, sv_consumer := ended_consumer,
      rabbit := one_connection\<lparr>promise_var := None\<rparr>, rabbit_closing := True, before_close := 1\<rparr>)"
    by (rule process_run [OF r8], rule process_step.grpc_stops) (simp_all add: process_defs launched_def)
  show ?thesis
    by (rule process_run [OF r9], rule process_step.rabbit_stops [of _ 0])
      (simp_all add: process_defs note_connection_lost_def)
qed

theorem shutdown_in_order_witness:
  "\<exists>s. process_step\<^sup>*\<^sup>* launched s \<and> phase s = Exited 0 \<and> before_close s = 1 \<and> \<not> redis_open s \<and> calls s = 0 \<and>
     promises (rabbit s) ! 0 \<noteq> Unsettled"
proof -
  let ?s = "launched\<lparr>sv_consumer := ended_consumer, rabbit := closed_connection, rabbit_closing := True, before_close := 1,
    redis_open := False, phase := Closing_Metrics\<rparr>"
  have r1: "process_step\<^sup>*\<^sup>* launched ?s"
    by (rule process_run [OF redis_closing_run], rule process_step.redis_quits) (simp_all add: process_defs)
  have r2: "process_step\<^sup>*\<^sup>* launched (?s\<lparr>metrics_open := False, phase := Exited 0\<rparr>)"
    by (rule process_run [OF r1], rule process_step.metrics_stops) (simp_all add: process_defs)
  with shutdown_in_order [OF r2] show ?thesis by (intro exI [of _ "?s\<lparr>metrics_open := False, phase := Exited 0\<rparr>"]) simp
qed

text \<open>When Redis is gone already, \<open>quit\<close> is rejected and with it \<open>shutdown\<close>, which nobody awaits: the process ends
  with an error although everything was stopped in order, and the metrics server is never closed.\<close>

lemma lost_redis_fails_shutdown:
  "\<exists>s. process_step\<^sup>*\<^sup>* launched s \<and> phase s = Exited 1 \<and> rabbit_closing s \<and> metrics_open s"
proof -
  let ?s = "launched\<lparr>phase := Exited 1, sv_consumer := ended_consumer, rabbit := closed_connection, rabbit_closing := True,
    before_close := 1\<rparr>"
  have "process_step\<^sup>*\<^sup>* launched ?s"
    by (rule process_run [OF redis_closing_run], rule process_step.redis_fails) (simp_all add: process_defs)
  then show ?thesis by (intro exI [of _ ?s]) (simp add: launched_def)
qed

end
