(* ===== verification/Schedulers.thy ===== *)
theory Schedulers
  imports Scan_Processor Saga_Consumer
begin

text \<open>
  The cron jobs of the server: \<open>SchedulerService\<close>
  (\<open>git-release-notifier-be/src/modules/scheduler/service/scheduler.service.ts\<close>) starts a scan every
  minute, \<open>SagaTimeoutScheduler\<close> (\<open>modules/saga/scheduler/saga-timeout.scheduler.ts\<close>) a sweep of the
  sagas; the hooks of \<open>modules/scheduler/scheduler.module.ts\<close> start and stop both. \<open>node-cron\<close> is the
  argument \<open>schedule\<close> and \<open>stop_task\<close>, what it promises the locale \<open>cron\<close>.
\<close>

section \<open>Starting and stopping\<close>

definition SCAN_CRON_EXPRESSION :: string where "SCAN_CRON_EXPRESSION = ''* * * * *''"
definition TIMEOUT_SWEEP_CRON :: string where "TIMEOUT_SWEEP_CRON = ''* * * * *''"

text \<open>The handler a task runs; the private field of a scheduler is its task, if it has one.\<close>

datatype cron_handler = Generate_Jobs | Compensate_Stuck

record 'w cron_api =
  schedule :: "string \<Rightarrow> cron_handler \<Rightarrow> 'w \<Rightarrow> nat \<times> 'w"
  stop_task :: "nat \<Rightarrow> 'w \<Rightarrow> 'w"

definition SchedulerService_start :: "'w cron_api \<Rightarrow> nat option \<times> 'w \<Rightarrow> nat option \<times> 'w" where
  "SchedulerService_start api s =
     (case fst s of
        Some task \<Rightarrow> s
      | None \<Rightarrow> (case schedule api SCAN_CRON_EXPRESSION Generate_Jobs (snd s) of (task, w) \<Rightarrow> (Some task, w)))"

definition SchedulerService_stop :: "'w cron_api \<Rightarrow> nat option \<times> 'w \<Rightarrow> nat option \<times> 'w" where
  "SchedulerService_stop api s =
     (case fst s of None \<Rightarrow> s | Some task \<Rightarrow> (None, stop_task api task (snd s)))"

definition SagaTimeoutScheduler_start :: "'w cron_api \<Rightarrow> nat option \<times> 'w \<Rightarrow> nat option \<times> 'w" where
  "SagaTimeoutScheduler_start api s =
     (case fst s of
        Some task \<Rightarrow> s
      | None \<Rightarrow> (case schedule api TIMEOUT_SWEEP_CRON Compensate_Stuck (snd s) of (task, w) \<Rightarrow> (Some task, w)))"

definition SagaTimeoutScheduler_stop :: "'w cron_api \<Rightarrow> nat option \<times> 'w \<Rightarrow> nat option \<times> 'w" where
  "SagaTimeoutScheduler_stop api s =
     (case fst s of None \<Rightarrow> s | Some task \<Rightarrow> (None, stop_task api task (snd s)))"

text \<open>The two schedulers of the server and the world; the calls are those of the module's hooks, \<open>onReady\<close> and
  \<open>onClose\<close>, or of anyone else.\<close>

record 'w schedulers =
  scan_task :: "nat option"
  sweep_task :: "nat option"
  cron_world :: 'w

datatype scheduler_call = Start_Scan | Stop_Scan | Start_Sweep | Stop_Sweep

fun scheduler_run :: "'w cron_api \<Rightarrow> scheduler_call \<Rightarrow> 'w schedulers \<Rightarrow> 'w schedulers" where
  "scheduler_run api Start_Scan s =
     (case SchedulerService_start api (scan_task s, cron_world s) of (t, w) \<Rightarrow> s\<lparr>scan_task := t, cron_world := w\<rparr>)"
| "scheduler_run api Stop_Scan s =
     (case SchedulerService_stop api (scan_task s, cron_world s) of (t, w) \<Rightarrow> s\<lparr>scan_task := t, cron_world := w\<rparr>)"
| "scheduler_run api Start_Sweep s =
     (case SagaTimeoutScheduler_start api (sweep_task s, cron_world s) of (t, w) \<Rightarrow> s\<lparr>sweep_task := t, cron_world := w\<rparr>)"
| "scheduler_run api Stop_Sweep s =
     (case SagaTimeoutScheduler_stop api (sweep_task s, cron_world s) of (t, w) \<Rightarrow> s\<lparr>sweep_task := t, cron_world := w\<rparr>)"

definition onReady :: "'w cron_api \<Rightarrow> 'w schedulers \<Rightarrow> 'w schedulers" where
  "onReady api s = scheduler_run api Start_Sweep (scheduler_run api Start_Scan s)"

definition onClose :: "'w cron_api \<Rightarrow> 'w schedulers \<Rightarrow> 'w schedulers" where
  "onClose api s = scheduler_run api Stop_Sweep (scheduler_run api Stop_Scan s)"

lemma run_fields:
  "scan_task (scheduler_run api Start_Scan s) \<noteq> None" "scan_task (scheduler_run api Stop_Scan s) = None"
  "scan_task (scheduler_run api Start_Sweep s) = scan_task s" "scan_task (scheduler_run api Stop_Sweep s) = scan_task s"
  "sweep_task (scheduler_run api Start_Sweep s) \<noteq> None" "sweep_task (scheduler_run api Stop_Sweep s) = None"
  by (cases "scan_task s"; cases "sweep_task s"; simp add: SchedulerService_start_def SchedulerService_stop_def
      SagaTimeoutScheduler_start_def SagaTimeoutScheduler_stop_def split: prod.split)+

lemma hook_tasks:
  "scan_task (onReady api s) \<noteq> None" "sweep_task (onReady api s) \<noteq> None"
  "scan_task (onClose api s) = None" "sweep_task (onClose api s) = None"
  unfolding onReady_def onClose_def run_fields(3,4) by (fact run_fields)+

text \<open>The tasks that run are those of the schedulers; a new task has a number of its own, stopping one leaves the others.\<close>

definition tasks_of :: "'w schedulers \<Rightarrow> (nat \<times> cron_handler) set" where
  "tasks_of s = (\<lambda>t. (t, Generate_Jobs)) ` set_option (scan_task s) \<union> (\<lambda>t. (t, Compensate_Stuck)) ` set_option (sweep_task s)"

definition in_step :: "('w \<Rightarrow> (nat \<times> cron_handler) set) \<Rightarrow> 'w schedulers \<Rightarrow> bool" where
  "in_step running s \<longleftrightarrow> running (cron_world s) = tasks_of s \<and>
     (scan_task s = None \<or> sweep_task s = None \<or> scan_task s \<noteq> sweep_task s)"

locale cron =
  fixes api :: "'w cron_api" and running :: "'w \<Rightarrow> (nat \<times> cron_handler) set"
  assumes schedule_law: "\<And>w t w'. schedule api e h w = (t, w') \<Longrightarrow> t \<notin> fst ` running w \<and> running w' = insert (t, h) (running w)"
    and stop_law: "\<And>w t. running (stop_task api t w) = {x \<in> running w. fst x \<noteq> t}"
begin

lemma in_step_update:
  "in_step running (s\<lparr>scan_task := t, cron_world := w\<rparr>) \<longleftrightarrow>
     running w = (\<lambda>t. (t, Generate_Jobs)) ` set_option t \<union> (\<lambda>t. (t, Compensate_Stuck)) ` set_option (sweep_task s) \<and>
     (t = None \<or> sweep_task s = None \<or> t \<noteq> sweep_task s)"
  "in_step running (s\<lparr>sweep_task := t, cron_world := w\<rparr>) \<longleftrightarrow>
     running w = (\<lambda>t. (t, Generate_Jobs)) ` set_option (scan_task s) \<union> (\<lambda>t. (t, Compensate_Stuck)) ` set_option t \<and>
     (scan_task s = None \<or> t = None \<or> scan_task s \<noteq> t)"
  by (simp_all add: in_step_def tasks_of_def)

lemma start_in_step:
  assumes "running w = (\<lambda>t. (t, h')) ` set_option other" and "schedule api e h w = (t, w')"
  shows "running w' = insert (t, h) ((\<lambda>t. (t, h')) ` set_option other)" and "other = None \<or> Some t \<noteq> other"
  using schedule_law [OF assms(2)] assms(1) by (cases other; simp)+

lemma stop_in_step:
  assumes "running w = insert (t, h) ((\<lambda>t. (t, h')) ` set_option other)" and "other = None \<or> Some t \<noteq> other"
  shows "running (stop_task api t w) = (\<lambda>t. (t, h')) ` set_option other"
  using assms by (cases other) (auto simp: stop_law)

lemma call_in_step:
  assumes ok: "in_step running s"
  shows "in_step running (scheduler_run api call s)"
proof (cases call)
  case Start_Scan
  show ?thesis
  proof (cases "scan_task s")
    case None
    obtain t w where sch: "schedule api SCAN_CRON_EXPRESSION Generate_Jobs (cron_world s) = (t, w)" by fastforce
    from ok None have "running (cron_world s) = (\<lambda>t. (t, Compensate_Stuck)) ` set_option (sweep_task s)"
      by (simp add: in_step_def tasks_of_def)
    note new = start_in_step [OF this sch]
    have "scheduler_run api call s = s\<lparr>scan_task := Some t, cron_world := w\<rparr>"
      by (simp add: Start_Scan SchedulerService_start_def None sch)
    then show ?thesis using new by (simp only: in_step_update) simp
  qed (use ok in \<open>simp add: Start_Scan SchedulerService_start_def in_step_def tasks_of_def\<close>)
next
  case Stop_Scan
  show ?thesis
  proof (cases "scan_task s")
    case (Some t)
    with ok have old: "running (cron_world s) = insert (t, Generate_Jobs) ((\<lambda>t. (t, Compensate_Stuck)) ` set_option (sweep_task s))"
      "sweep_task s = None \<or> Some t \<noteq> sweep_task s" by (simp_all add: in_step_def tasks_of_def)
    have "scheduler_run api call s = s\<lparr>scan_task := None, cron_world := stop_task api t (cron_world s)\<rparr>"
      by (simp add: Stop_Scan SchedulerService_stop_def Some)
    then show ?thesis using stop_in_step [OF old] by (simp only: in_step_update) simp
  qed (use ok in \<open>simp add: Stop_Scan SchedulerService_stop_def in_step_def tasks_of_def\<close>)
next
  case Start_Sweep
  show ?thesis
  proof (cases "sweep_task s")
    case None
    obtain t w where sch: "schedule api TIMEOUT_SWEEP_CRON Compensate_Stuck (cron_world s) = (t, w)" by fastforce
    from ok None have "running (cron_world s) = (\<lambda>t. (t, Generate_Jobs)) ` set_option (scan_task s)"
      by (simp add: in_step_def tasks_of_def)
    note new = start_in_step [OF this sch]
    have "scheduler_run api call s = s\<lparr>sweep_task := Some t, cron_world := w\<rparr>"
      by (simp add: Start_Sweep SagaTimeoutScheduler_start_def None sch)
    then show ?thesis using new by (simp only: in_step_update) auto
  qed (use ok in \<open>simp add: Start_Sweep SagaTimeoutScheduler_start_def in_step_def tasks_of_def\<close>)
next
  case Stop_Sweep
  show ?thesis
  proof (cases "sweep_task s")
    case (Some t)
    with ok have old: "running (cron_world s) = insert (t, Compensate_Stuck) ((\<lambda>t. (t, Generate_Jobs)) ` set_option (scan_task s))"
      "scan_task s = None \<or> Some t \<noteq> scan_task s" by (auto simp: in_step_def tasks_of_def)
    have "scheduler_run api call s = s\<lparr>sweep_task := None, cron_world := stop_task api t (cron_world s)\<rparr>"
      by (simp add: Stop_Sweep SagaTimeoutScheduler_stop_def Some)
    then show ?thesis using stop_in_step [OF old] by (simp only: in_step_update) simp
  qed (use ok in \<open>simp add: Stop_Sweep SagaTimeoutScheduler_stop_def in_step_def tasks_of_def\<close>)
qed

lemma calls_in_step:
  "in_step running s \<Longrightarrow> in_step running (foldl (\<lambda>s call. scheduler_run api call s) s calls)"
  by (induction calls arbitrary: s) (simp_all add: call_in_step)

end

section \<open>The handlers\<close>

definition generateJobs :: "('w, (string \<times> nat) list) async \<Rightarrow> (string list \<Rightarrow> ('w, unit) async) \<Rightarrow> ('w, unit) async" where
  "generateJobs repositorySource addJobs =
     await repositorySource (\<lambda>repos.
       if length repos = 0 then ret ()
       else addJobs (map fst repos))"

definition scan_tick :: "('w, (string \<times> nat) list) async \<Rightarrow> (string list \<Rightarrow> ('w, unit) async) \<Rightarrow> ('w, unit) async" where
  "scan_tick repositorySource addJobs = try_catch (generateJobs repositorySource addJobs) (\<lambda>error. ret ())"

definition sweep_tick :: "(nat \<Rightarrow> ('w, unit) async) \<Rightarrow> nat \<Rightarrow> ('w, unit) async" where
  "sweep_tick compensateStuck_it timeoutMs = try_catch (compensateStuck_it timeoutMs) (\<lambda>err. ret ())"

section \<open>An instance for evaluation\<close>

definition mem_cron :: "(nat \<times> cron_handler) list cron_api" where
  "mem_cron = \<lparr>schedule = (\<lambda>e h w. (Suc (sum_list (map fst w)), (Suc (sum_list (map fst w)), h) # w)),
     stop_task = (\<lambda>t w. filter (\<lambda>x. fst x \<noteq> t) w)\<rparr>"

lemma fresh_task: "Suc (sum_list (map fst w)) \<notin> fst ` set (w :: (nat \<times> cron_handler) list)"
proof
  assume "Suc (sum_list (map fst w)) \<in> fst ` set w"
  then have "Suc (sum_list (map fst w)) \<le> sum_list (map fst w)" by (intro member_le_sum_list) simp_all
  then show False by simp
qed

interpretation mem_cron: cron mem_cron set
proof
  fix w :: "(nat \<times> cron_handler) list" and e h t w'
  assume "schedule mem_cron e h w = (t, w')"
  with fresh_task [of w] show "t \<notin> fst ` set w \<and> set w' = insert (t, h) (set w)" by (auto simp: mem_cron_def)
qed (auto simp: mem_cron_def)

section \<open>Properties\<close>

text \<open>However often and in whatever order the schedulers are started and stopped, each has at most one task
  running, the one it holds: a second start schedules nothing, a stop ends the task. When the server is
  ready both run, when it closes none does.\<close>

lemma schedulers_hold_one_task:
  assumes "cron api running" and "running w = {}"
  shows "running (cron_world (foldl (\<lambda>s call. scheduler_run api call s)
        \<lparr>scan_task = None, sweep_task = None, cron_world = w\<rparr> calls)) =
      tasks_of (foldl (\<lambda>s call. scheduler_run api call s) \<lparr>scan_task = None, sweep_task = None, cron_world = w\<rparr> calls) \<and>
    card (running (cron_world (onReady api (foldl (\<lambda>s call. scheduler_run api call s)
        \<lparr>scan_task = None, sweep_task = None, cron_world = w\<rparr> calls)))) = 2 \<and>
    running (cron_world (onClose api (foldl (\<lambda>s call. scheduler_run api call s)
        \<lparr>scan_task = None, sweep_task = None, cron_world = w\<rparr> calls))) = {}"
proof -
  let ?s = "foldl (\<lambda>s call. scheduler_run api call s) \<lparr>scan_task = None, sweep_task = None, cron_world = w\<rparr> calls"
  have s: "in_step running ?s"
    by (rule cron.calls_in_step [OF assms(1)]) (simp add: in_step_def tasks_of_def assms(2))
  have ready: "in_step running (onReady api ?s)" and close: "in_step running (onClose api ?s)"
    unfolding onReady_def onClose_def by (intro cron.call_in_step [OF assms(1)] s)+
  obtain t t' where t: "scan_task (onReady api ?s) = Some t" "sweep_task (onReady api ?s) = Some t'"
    using hook_tasks(1,2) [of api ?s] by blast
  with ready have "running (cron_world (onReady api ?s)) = {(t, Generate_Jobs), (t', Compensate_Stuck)}" "t \<noteq> t'"
    by (auto simp: in_step_def tasks_of_def)
  then have "card (running (cron_world (onReady api ?s))) = 2" by simp
  moreover have "running (cron_world (onClose api ?s)) = {}"
    using close hook_tasks(3,4) [of api ?s] by (simp add: in_step_def tasks_of_def)
  ultimately show ?thesis using s by (simp add: in_step_def)
qed

text \<open>C19. One tick of the scan, from the table to the queue: when nothing fails, every repository that has an
  active subscription is in exactly one new job, or its batch is still locked by an earlier scan; no other
  repository is in a job, and the table is not written.\<close>

theorem scan_tick_covers_active:
  assumes env: "producer_env locks held now issued createChannel broker subs"
    and table: "subscription_store R subs (\<lambda>w. (held w, now w, issued w, broker w))"
    and names: "\<And>s. s \<in> subs w \<Longrightarrow> status s = ACTIVE \<Longrightarrow> plain (CHR '','') (repository s)"
    and run: "generateJobs (groupByRepository R) (addScanJobs locks (RabbitScanQueue_open createChannel)) w = (Inr u, w')"
  shows "subs w' = subs w \<and>
    (\<exists>jobs. jobs_on_queue (broker w') = jobs_on_queue (broker w) @ jobs \<and>
      distinct (concat (map job_repos jobs)) \<and>
      set (concat (map job_repos jobs)) \<subseteq> repository ` {s \<in> subs w. status s = ACTIVE} \<and>
      (\<forall>s \<in> subs w. status s = ACTIVE \<longrightarrow> repository s \<in> set (concat (map job_repos jobs)) \<or>
        (\<exists>b. repository s \<in> set b \<and> live (held w) (now w) (buildLockKey b) \<noteq> None)))"
proof -
  from run [unfolded generateJobs_def] obtain gs w1 where g: "groupByRepository R w = (Inr gs, w1)"
    and add: "(if length gs = 0 then ret () else addScanJobs locks (RabbitScanQueue_open createChannel) (map fst gs)) w1 = (Inr u, w')"
    by (elim await_outcome) auto
  from subscription_store.groupByRepository_law [OF table g] have
    1: "subs w1 = subs w" "held w1 = held w" "now w1 = now w" "broker w1 = broker w"
      "grouped (subs w) (\<lambda>s. status s = ACTIVE) repository gs" by simp_all
  then have names1: "distinct (map fst gs)" "set (map fst gs) = repository ` {s \<in> subs w. status s = ACTIVE}"
    by (simp_all add: grouped_def)
  show ?thesis
  proof (cases "gs = []")
    case True
    with add have "w' = w1" by simp
    moreover have "\<not> (s \<in> subs w \<and> status s = ACTIVE)" for s using names1(2) True by auto
    ultimately show ?thesis using 1 by (intro conjI exI [of _ "[]"]) auto
  next
    case False
    with add have add': "addScanJobs locks (RabbitScanQueue_open createChannel) (map fst gs) w1 = (Inr u, w')" by simp
    have "list_all (plain (CHR '','')) (map fst gs)" unfolding list_all_iff names1(2) using names by blast
    from addScanJobs_covers [OF env names1(1) this add'] 1(1-4) names1(2) show ?thesis
      unfolding list_all_iff names1(2) by (elim conjE exE) (intro conjI exI, auto)
  qed
qed

lemma mem_scan_env: "producer_env mem_lock_store rw_keys rw_now mem_issued (ret mem_queue_channel)
    (qw_broker :: system_world \<Rightarrow> _) (\<lambda>w. set (sy_subs w))"
proof (rule producer_env.intro)
  show "lock_contract mem_lock_store rw_keys rw_now mem_issued (\<lambda>w :: system_world. (qw_broker w, set (sy_subs w)))"
    by (rule redis_locks.contract, rule mem_redis_locks) simp_all
  have "amqp_channel mem_queue_channel qw_broker
      (\<lambda>w :: system_world. (rw_keys w, rw_now w, mem_issued w, set (sy_subs w)))"
    by (rule mem_queue_amqp_channel) (simp add: mem_issued_def)
  then show "channel_source (ret mem_queue_channel) qw_broker
      (\<lambda>w :: system_world. (rw_keys w, rw_now w, mem_issued w, set (sy_subs w)))"
    by unfold_locales simp
qed

lemma mem_scan_table: "subscription_store (SubscriptionRepository mem_system_subscriptions) (\<lambda>w. set (sy_subs w))
    (\<lambda>w :: system_world. (rw_keys w, rw_now w, mem_issued w, qw_broker w))"
  unfolding mem_system_subscriptions_def
  by (rule subscription_prisma.store, rule listed_subscription_prisma) (simp_all add: mem_issued_def)

lemma scan_tick_run:
  "\<exists>w'. generateJobs (groupByRepository (SubscriptionRepository mem_system_subscriptions))
      (addScanJobs mem_lock_store (RabbitScanQueue_open (ret mem_queue_channel)))
      (scanned_system\<lparr>sy_subs := [subscribed ''a'' ''o/r'' None]\<rparr>) = (Inr (), w')"
proof -
  let ?w = "scanned_system\<lparr>sy_subs := [subscribed ''a'' ''o/r'' None]\<rparr>"
  have "groupByRepository (SubscriptionRepository mem_system_subscriptions) ?w = (Inr [(''o/r'', 1)], ?w)"
    by (simp add: SubscriptionRepository_def groupByRepository_q_def mem_system_subscriptions_def listed_subscriptions_def
        listed_def Let_def subscribed_def io_defs)
  moreover have "chunk [''o/r''] SCAN_BATCH_SIZE = Some [[''o/r'']]"
    by (simp add: chunk_def chunk_loop_returns SCAN_BATCH_SIZE_def batches_of_step)
  ultimately show ?thesis
    by (simp add: generateJobs_def await_resolved addScanJobs_def RabbitScanQueue_open_def queue_run_defs scanned_system_def)
qed

theorem scan_tick_covers_active_witness:
  "set (sy_subs (snd (generateJobs (groupByRepository (SubscriptionRepository mem_system_subscriptions))
      (addScanJobs mem_lock_store (RabbitScanQueue_open (ret mem_queue_channel)))
      (scanned_system\<lparr>sy_subs := [subscribed ''a'' ''o/r'' None]\<rparr>)))) = {subscribed ''a'' ''o/r'' None}"
proof -
  obtain w' where run: "generateJobs (groupByRepository (SubscriptionRepository mem_system_subscriptions))
      (addScanJobs mem_lock_store (RabbitScanQueue_open (ret mem_queue_channel)))
      (scanned_system\<lparr>sy_subs := [subscribed ''a'' ''o/r'' None]\<rparr>) = (Inr (), w')"
    using scan_tick_run by blast
  from scan_tick_covers_active [OF mem_scan_env mem_scan_table _ run] run show ?thesis
    by (simp add: subscribed_def plain_def)
qed

end
