(* ===== verification/Env_Config.thy ===== *)
theory Env_Config
  imports Complex_Main Server_Api
begin

text \<open>
  The configuration of the two programs, \<open>lib/config/env.config.ts\<close> of the server and of the
  notification service: the schema of the environment, the exit of the process when a variable is
  invalid, and the \<open>config\<close> object. \<open>process.env\<close> is a partial function (\<open>dotenv\<close> has already filled it).
  The schema library is not code of the repository: what its string formats accept and its own
  messages are the parameter \<open>zod\<close>; the checks the schemas combine are written out. \<open>z.coerce.number\<close>
  calls \<open>Number\<close>, whose grammar for strings is \<open>js_Number\<close>; a number is the exact rational it denotes,
  before the rounding to a double.
\<close>

section \<open>\<open>Number\<close> of a string\<close>

text \<open>White space and line ends, among the characters of a \<open>string\<close>.\<close>

definition js_space :: "char \<Rightarrow> bool" where
  "js_space c \<longleftrightarrow> (of_char c :: nat) \<in> {9, 10, 11, 12, 13, 32, 160}"

definition js_trim :: "string \<Rightarrow> string" where
  "js_trim s = rev (dropWhile js_space (rev (dropWhile js_space s)))"

definition digit_of :: "char \<Rightarrow> nat option" where
  "digit_of c = (let n = of_char c in
     if 48 \<le> n \<and> n \<le> 57 then Some (n - 48)
     else if 97 \<le> n \<and> n \<le> 102 then Some (n - 87)
     else if 65 \<le> n \<and> n \<le> 70 then Some (n - 55) else None)"

fun digits_value :: "nat \<Rightarrow> nat \<Rightarrow> string \<Rightarrow> nat option" where
  "digits_value base acc [] = Some acc"
| "digits_value base acc (c # cs) =
     (case digit_of c of
        None \<Rightarrow> None
      | Some d \<Rightarrow> if d < base then digits_value base (base * acc + d) cs else None)"

definition numeral_of :: "nat \<Rightarrow> string \<Rightarrow> nat option" where
  "numeral_of base s = (if s = [] then None else digits_value base 0 s)"

fun signed_numeral :: "string \<Rightarrow> int option" where
  "signed_numeral (CHR ''+'' # s) = map_option int (numeral_of 10 s)"
| "signed_numeral (CHR ''-'' # s) = map_option (\<lambda>n. - int n) (numeral_of 10 s)"
| "signed_numeral s = map_option int (numeral_of 10 s)"

definition mantissa :: "string \<Rightarrow> rat option" where
  "mantissa m =
     (let i = takeWhile (\<lambda>c. c \<noteq> CHR ''.'') m; f = drop 1 (dropWhile (\<lambda>c. c \<noteq> CHR ''.'') m) in
      map_option (\<lambda>n. of_nat n / 10 ^ length f) (numeral_of 10 (i @ f)))"

definition decimal :: "string \<Rightarrow> rat option" where
  "decimal s =
     (let is_e = (\<lambda>c. c = CHR ''e'' \<or> c = CHR ''E''); m = takeWhile (\<lambda>c. \<not> is_e c) s; e = dropWhile (\<lambda>c. \<not> is_e c) s in
      case (mantissa m, if e = [] then Some 0 else signed_numeral (tl e)) of
        (Some r, Some k) \<Rightarrow> Some (if 0 \<le> k then r * 10 ^ nat k else r / 10 ^ nat (- k))
      | _ \<Rightarrow> None)"

fun signed_decimal :: "string \<Rightarrow> rat option" where
  "signed_decimal (CHR ''+'' # s) = decimal s"
| "signed_decimal (CHR ''-'' # s) = map_option uminus (decimal s)"
| "signed_decimal s = decimal s"

fun literal :: "string \<Rightarrow> rat option" where
  "literal [] = Some 0"
| "literal (CHR ''0'' # c # s) =
     (if c = CHR ''x'' \<or> c = CHR ''X'' then map_option of_nat (numeral_of 16 s)
      else if c = CHR ''o'' \<or> c = CHR ''O'' then map_option of_nat (numeral_of 8 s)
      else if c = CHR ''b'' \<or> c = CHR ''B'' then map_option of_nat (numeral_of 2 s)
      else signed_decimal (CHR ''0'' # c # s))"
| "literal s = signed_decimal s"

text \<open>\<open>None\<close> stands for NaN and for the infinities; neither is a number for the schema.\<close>

definition js_Number :: "string \<Rightarrow> rat option" where
  "js_Number s = (case literal (js_trim s) of
      None \<Rightarrow> None
    | Some r \<Rightarrow> if \<bar>r\<bar> < 2 ^ 1024 - 2 ^ 970 then Some r else None)"

lemmas js_Number_defs = js_Number_def js_trim_def js_space_def numeral_of_def digit_of_def mantissa_def decimal_def

lemma js_Number_examples:
  "js_Number '''' = Some 0" "js_Number ''3000'' = Some 3000" "js_Number '' 0x1F '' = Some 31"
  "js_Number ''-1.5e1'' = Some (- 15)" "js_Number ''.5'' = Some (1 / 2)" "js_Number ''10s'' = None" "js_Number ''.'' = None"
  by (simp_all add: js_Number_defs)

section \<open>The schemas\<close>

type_synonym environment = "string \<Rightarrow> string option"

datatype z_problem = Expected_String | Expected_Number | Expected_One_Of "string list"
  | Shorter_Than nat | Not_A_Url | Not_An_Email

record zod =
  is_url :: "string \<Rightarrow> bool"
  is_email :: "string \<Rightarrow> bool"
  own_message :: "z_problem \<Rightarrow> string"

text \<open>A check fails with its problem and the message the schema gives for it, if any.\<close>

type_synonym z_fault = "z_problem \<times> string option"

definition z_enum :: "(string \<times> 'a) list \<Rightarrow> string option \<Rightarrow> z_fault + 'a" where
  "z_enum options x = (case x of
      None \<Rightarrow> Inl (Expected_One_Of (map fst options), None)
    | Some s \<Rightarrow> (case map_of options s of None \<Rightarrow> Inl (Expected_One_Of (map fst options), None) | Some a \<Rightarrow> Inr a))"

definition z_number :: "string option \<Rightarrow> z_fault + rat" where
  "z_number x = (case x of
      None \<Rightarrow> Inl (Expected_Number, None)
    | Some s \<Rightarrow> (case js_Number s of None \<Rightarrow> Inl (Expected_Number, None) | Some r \<Rightarrow> Inr r))"

definition z_text :: "(string \<Rightarrow> bool) \<Rightarrow> z_problem \<Rightarrow> string option \<Rightarrow> string option \<Rightarrow> z_fault + string" where
  "z_text ok problem msg x = (case x of
      None \<Rightarrow> Inl (Expected_String, None)
    | Some s \<Rightarrow> if ok s then Inr s else Inl (problem, msg))"

definition z_default :: "'a \<Rightarrow> (string option \<Rightarrow> z_fault + 'a) \<Rightarrow> string option \<Rightarrow> z_fault + 'a" where
  "z_default d check x = (if x = None then Inr d else check x)"

abbreviation z_min :: "nat \<Rightarrow> string option \<Rightarrow> string option \<Rightarrow> z_fault + string" where
  "z_min n \<equiv> z_text (\<lambda>s. n \<le> length s) (Shorter_Than n)"

abbreviation z_url :: "zod \<Rightarrow> string option \<Rightarrow> string option \<Rightarrow> z_fault + string" where
  "z_url Z \<equiv> z_text (is_url Z) Not_A_Url"

text \<open>The issues of a variable.\<close>

definition issue :: "string \<Rightarrow> z_fault + 'a \<Rightarrow> (string \<times> z_fault) list" where
  "issue path v = (case v of Inl f \<Rightarrow> [(path, f)] | Inr _ \<Rightarrow> [])"

datatype node_env = Development | Production | Test

definition node_envs :: "(string \<times> node_env) list" where
  "node_envs = [(''development'', Development), (''production'', Production), (''test'', Test)]"

subsection \<open>The server\<close>

datatype release_transport = Queue_Transport | Grpc_Transport

record server_config =
  sc_env :: node_env
  server_port :: rat
  db_url :: string
  sc_redis_url :: string
  sc_rabbit_url :: string
  github_token :: string
  api_key :: string
  transport :: release_transport
  grpcUrl :: string

definition server_schema :: "zod \<Rightarrow> environment \<Rightarrow> (string \<times> z_fault) list + server_config" where
  "server_schema Z env =
     (let nodeEnv = z_default Development (z_enum node_envs) (env ''NODE_ENV'');
          port = z_default 3000 z_number (env ''PORT'');
          db = z_url Z (Some ''Invalid DATABASE_URL'') (env ''DATABASE_URL'');
          redisUrl = z_url Z (Some ''Invalid REDIS_URL'') (env ''REDIS_URL'');
          rabbit = z_url Z (Some ''Invalid RABBITMQ_URL'') (env ''RABBITMQ_URL'');
          token = z_min 1 (Some ''GITHUB_TOKEN is required'') (env ''GITHUB_TOKEN'');
          key = z_min 8 (Some ''API_KEY should be at least 8 characters long'') (env ''API_KEY'');
          kind = z_default Queue_Transport (z_enum [(''queue'', Queue_Transport), (''grpc'', Grpc_Transport)])
            (env ''RELEASE_TRANSPORT'');
          url = z_default ''localhost:50052'' (z_min 1 None) (env ''NOTIFICATION_GRPC_URL'');
          issues = issue ''NODE_ENV'' nodeEnv @ issue ''PORT'' port @ issue ''DATABASE_URL'' db @
            issue ''REDIS_URL'' redisUrl @ issue ''RABBITMQ_URL'' rabbit @ issue ''GITHUB_TOKEN'' token @
            issue ''API_KEY'' key @ issue ''RELEASE_TRANSPORT'' kind @ issue ''NOTIFICATION_GRPC_URL'' url
      in if issues \<noteq> [] then Inl issues
         else Inr \<lparr>sc_env = projr nodeEnv, server_port = projr port, db_url = projr db,
           sc_redis_url = projr redisUrl, sc_rabbit_url = projr rabbit, github_token = projr token,
           api_key = projr key, transport = projr kind, grpcUrl = projr url\<rparr>)"

subsection \<open>The notification service\<close>

record notification_config =
  nc_env :: node_env
  nc_rabbit_url :: string
  nc_redis_url :: string
  app_url :: string
  metrics_port :: rat
  grpc_port :: rat
  reconnectDelayMs :: rat
  shutdownTimeoutMs :: rat
  ttlSeconds :: rat
  leaseSeconds :: rat
  mail_host :: string
  mail_port :: rat
  mail_user :: string
  mail_pass :: string

definition notification_schema :: "zod \<Rightarrow> environment \<Rightarrow> (string \<times> z_fault) list + notification_config" where
  "notification_schema Z env =
     (let nodeEnv = z_default Development (z_enum node_envs) (env ''NODE_ENV'');
          rabbit = z_url Z (Some ''Invalid RABBITMQ_URL'') (env ''RABBITMQ_URL'');
          redisUrl = z_url Z (Some ''Invalid REDIS_URL'') (env ''REDIS_URL'');
          app = z_default ''http://localhost:3000'' (z_url Z None) (env ''APP_URL'');
          metrics = z_default 9101 z_number (env ''METRICS_PORT'');
          grpc = z_default 50052 z_number (env ''GRPC_PORT'');
          reconnect = z_default 5000 z_number (env ''RECONNECT_DELAY_MS'');
          shutdown = z_default 10000 z_number (env ''SHUTDOWN_TIMEOUT_MS'');
          ttl = z_default 86400 z_number (env ''IDEMPOTENCY_TTL_SECONDS'');
          lease = z_default 60 z_number (env ''IDEMPOTENCY_LEASE_SECONDS'');
          host = z_min 1 None (env ''SMTP_HOST'');
          port = z_number (env ''SMTP_PORT'');
          user = z_text (is_email Z) Not_An_Email None (env ''SMTP_USER'');
          pass = z_min 1 None (env ''SMTP_PASS'');
          issues = issue ''NODE_ENV'' nodeEnv @ issue ''RABBITMQ_URL'' rabbit @ issue ''REDIS_URL'' redisUrl @
            issue ''APP_URL'' app @ issue ''METRICS_PORT'' metrics @ issue ''GRPC_PORT'' grpc @
            issue ''RECONNECT_DELAY_MS'' reconnect @ issue ''SHUTDOWN_TIMEOUT_MS'' shutdown @
            issue ''IDEMPOTENCY_TTL_SECONDS'' ttl @ issue ''IDEMPOTENCY_LEASE_SECONDS'' lease @
            issue ''SMTP_HOST'' host @ issue ''SMTP_PORT'' port @ issue ''SMTP_USER'' user @ issue ''SMTP_PASS'' pass
      in if issues \<noteq> [] then Inl issues
         else Inr \<lparr>nc_env = projr nodeEnv, nc_rabbit_url = projr rabbit, nc_redis_url = projr redisUrl,
           app_url = projr app, metrics_port = projr metrics, grpc_port = projr grpc,
           reconnectDelayMs = projr reconnect, shutdownTimeoutMs = projr shutdown, ttlSeconds = projr ttl,
           leaseSeconds = projr lease, mail_host = projr host, mail_port = projr port, mail_user = projr user,
           mail_pass = projr pass\<rparr>)"

section \<open>Loading the configuration\<close>

text \<open>The module either ends the process, after the lines it has printed, or exports the configuration.\<close>

datatype 'c load_outcome = Exited int "string list" | Running 'c

definition issue_line :: "zod \<Rightarrow> string \<times> z_fault \<Rightarrow> string" where
  "issue_line Z i = (case i of (path, problem, msg) \<Rightarrow>
     ''['' @ path @ '']: '' @ (case msg of None \<Rightarrow> own_message Z problem | Some m \<Rightarrow> m))"

definition load_config :: "zod \<Rightarrow> (string \<times> z_fault) list + 'c \<Rightarrow> 'c load_outcome" where
  "load_config Z parsed = (case parsed of
      Inl issues \<Rightarrow> Exited 1 (map (issue_line Z) issues)
    | Inr c \<Rightarrow> Running c)"

definition server_start :: "zod \<Rightarrow> environment \<Rightarrow> server_config load_outcome" where
  "server_start Z env = load_config Z (server_schema Z env)"

definition notification_start :: "zod \<Rightarrow> environment \<Rightarrow> notification_config load_outcome" where
  "notification_start Z env = load_config Z (notification_schema Z env)"

section \<open>What a configuration is\<close>

text \<open>The values a variable may have, and what the program makes of it.\<close>

definition unset_or :: "(string \<Rightarrow> bool) \<Rightarrow> string option \<Rightarrow> bool" where
  "unset_or ok x \<longleftrightarrow> (case x of None \<Rightarrow> True | Some s \<Rightarrow> ok s)"

definition given :: "(string \<Rightarrow> bool) \<Rightarrow> string option \<Rightarrow> bool" where
  "given ok x \<longleftrightarrow> (case x of None \<Rightarrow> False | Some s \<Rightarrow> ok s)"

definition value_or :: "'a \<Rightarrow> (string \<Rightarrow> 'a) \<Rightarrow> string option \<Rightarrow> 'a" where
  "value_or d f x = (case x of None \<Rightarrow> d | Some s \<Rightarrow> f s)"

abbreviation numeric :: "string \<Rightarrow> bool" where "numeric s \<equiv> js_Number s \<noteq> None"

abbreviation number :: "string \<Rightarrow> rat" where "number s \<equiv> the (js_Number s)"

definition server_variables :: "zod \<Rightarrow> (string \<times> (string option \<Rightarrow> bool)) list" where
  "server_variables Z =
     [(''NODE_ENV'', unset_or (\<lambda>s. s \<in> {''development'', ''production'', ''test''})),
      (''PORT'', unset_or numeric), (''DATABASE_URL'', given (is_url Z)), (''REDIS_URL'', given (is_url Z)),
      (''RABBITMQ_URL'', given (is_url Z)), (''GITHUB_TOKEN'', given (\<lambda>s. s \<noteq> [])),
      (''API_KEY'', given (\<lambda>s. 8 \<le> length s)), (''RELEASE_TRANSPORT'', unset_or (\<lambda>s. s \<in> {''queue'', ''grpc''})),
      (''NOTIFICATION_GRPC_URL'', unset_or (\<lambda>s. s \<noteq> []))]"

definition server_values :: "environment \<Rightarrow> server_config" where
  "server_values env =
     \<lparr>sc_env = value_or Development (\<lambda>s. the (map_of node_envs s)) (env ''NODE_ENV''),
      server_port = value_or 3000 number (env ''PORT''), db_url = the (env ''DATABASE_URL''),
      sc_redis_url = the (env ''REDIS_URL''), sc_rabbit_url = the (env ''RABBITMQ_URL''),
      github_token = the (env ''GITHUB_TOKEN''), api_key = the (env ''API_KEY''),
      transport = value_or Queue_Transport (\<lambda>s. if s = ''grpc'' then Grpc_Transport else Queue_Transport)
        (env ''RELEASE_TRANSPORT''),
      grpcUrl = value_or ''localhost:50052'' id (env ''NOTIFICATION_GRPC_URL'')\<rparr>"

definition notification_variables :: "zod \<Rightarrow> (string \<times> (string option \<Rightarrow> bool)) list" where
  "notification_variables Z =
     [(''NODE_ENV'', unset_or (\<lambda>s. s \<in> {''development'', ''production'', ''test''})),
      (''RABBITMQ_URL'', given (is_url Z)), (''REDIS_URL'', given (is_url Z)), (''APP_URL'', unset_or (is_url Z)),
      (''METRICS_PORT'', unset_or numeric), (''GRPC_PORT'', unset_or numeric),
      (''RECONNECT_DELAY_MS'', unset_or numeric), (''SHUTDOWN_TIMEOUT_MS'', unset_or numeric),
      (''IDEMPOTENCY_TTL_SECONDS'', unset_or numeric), (''IDEMPOTENCY_LEASE_SECONDS'', unset_or numeric),
      (''SMTP_HOST'', given (\<lambda>s. s \<noteq> [])), (''SMTP_PORT'', given numeric), (''SMTP_USER'', given (is_email Z)),
      (''SMTP_PASS'', given (\<lambda>s. s \<noteq> []))]"

definition notification_values :: "environment \<Rightarrow> notification_config" where
  "notification_values env =
     \<lparr>nc_env = value_or Development (\<lambda>s. the (map_of node_envs s)) (env ''NODE_ENV''),
      nc_rabbit_url = the (env ''RABBITMQ_URL''), nc_redis_url = the (env ''REDIS_URL''),
      app_url = value_or ''http://localhost:3000'' id (env ''APP_URL''),
      metrics_port = value_or 9101 number (env ''METRICS_PORT''), grpc_port = value_or 50052 number (env ''GRPC_PORT''),
      reconnectDelayMs = value_or 5000 number (env ''RECONNECT_DELAY_MS''),
      shutdownTimeoutMs = value_or 10000 number (env ''SHUTDOWN_TIMEOUT_MS''),
      ttlSeconds = value_or 86400 number (env ''IDEMPOTENCY_TTL_SECONDS''),
      leaseSeconds = value_or 60 number (env ''IDEMPOTENCY_LEASE_SECONDS''),
      mail_host = the (env ''SMTP_HOST''), mail_port = value_or 0 number (env ''SMTP_PORT''),
      mail_user = the (env ''SMTP_USER''), mail_pass = the (env ''SMTP_PASS'')\<rparr>"

text \<open>The invalid variables, in the order of the schema.\<close>

definition invalid :: "environment \<Rightarrow> (string \<times> (string option \<Rightarrow> bool)) list \<Rightarrow> string list" where
  "invalid env vs = map fst (filter (\<lambda>(k, ok). \<not> ok (env k)) vs)"

section \<open>Checks\<close>

text \<open>A check accepts what \<open>ok\<close> does, with the value \<open>val\<close>.\<close>

definition check :: "(string option \<Rightarrow> z_fault + 'a) \<Rightarrow> (string option \<Rightarrow> bool) \<Rightarrow> (string option \<Rightarrow> 'a) \<Rightarrow> bool" where
  "check v ok val \<longleftrightarrow> (\<forall>x. if ok x then v x = Inr (val x) else isl (v x))"

named_theorems checks

lemma check_number [checks]: "check z_number (given numeric) (value_or 0 number)"
  by (auto simp: check_def z_number_def given_def value_or_def split: option.splits)

lemma check_default_number [checks]: "check (z_default d z_number) (unset_or numeric) (value_or d number)"
  by (auto simp: check_def z_default_def z_number_def unset_or_def value_or_def split: option.splits)

lemma check_string [checks]: "check (z_text ok problem msg) (given ok) the"
  by (auto simp: check_def z_text_def given_def split: option.splits)

lemma check_min [checks]: "check (z_min 1 msg) (given (\<lambda>s. s \<noteq> [])) the"
  by (auto simp: check_def z_text_def given_def Suc_le_eq split: option.splits)

lemma check_default_string [checks]: "check (z_default d (z_text ok problem msg)) (unset_or ok) (value_or d id)"
  by (auto simp: check_def z_default_def z_text_def unset_or_def value_or_def split: option.splits)

lemma check_default_min [checks]: "check (z_default d (z_min 1 msg)) (unset_or (\<lambda>s. s \<noteq> [])) (value_or d id)"
  by (auto simp: check_def z_default_def z_text_def unset_or_def value_or_def Suc_le_eq split: option.splits)

lemma check_node_env [checks]: "check (z_default Development (z_enum node_envs))
    (unset_or (\<lambda>s. s \<in> {''development'', ''production'', ''test''})) (value_or Development (\<lambda>s. the (map_of node_envs s)))"
  by (auto simp: check_def z_default_def z_enum_def node_envs_def unset_or_def value_or_def split: option.splits)

lemma check_transport [checks]:
  "check (z_default Queue_Transport (z_enum [(''queue'', Queue_Transport), (''grpc'', Grpc_Transport)]))
    (unset_or (\<lambda>s. s \<in> {''queue'', ''grpc''}))
    (value_or Queue_Transport (\<lambda>s. if s = ''grpc'' then Grpc_Transport else Queue_Transport))"
  by (auto simp: check_def z_default_def z_enum_def unset_or_def value_or_def split: option.splits)

lemma invalid_Nil: "map fst [] = invalid env []"
  by (simp add: invalid_def)

lemma invalid_Cons:
  assumes "check v ok val" and "map fst is = invalid env vs"
  shows "map fst (issue k (v (env k)) @ is) = invalid env ((k, ok) # vs)"
  using assms by (cases "v (env k)") (auto simp: check_def issue_def invalid_def split: if_splits)

lemma invalid_last:
  assumes "check v ok val"
  shows "map fst (issue k (v (env k))) = invalid env [(k, ok)]"
  using invalid_Cons [OF assms invalid_Nil] by simp

lemma check_value: "check v ok val \<Longrightarrow> ok x \<Longrightarrow> projr (v x) = val x"
  by (auto simp: check_def split: if_splits)

lemma invalid_none: "invalid env vs = [] \<longleftrightarrow> list_all (\<lambda>(k, ok). ok (env k)) vs"
  by (induction vs) (auto simp: invalid_def)

text \<open>The schemas accept exactly the environments without an invalid variable.\<close>

definition meets :: "(string \<times> z_fault) list + 'c \<Rightarrow> string list \<Rightarrow> 'c \<Rightarrow> bool" where
  "meets parsed bad c \<longleftrightarrow> (case parsed of Inl is \<Rightarrow> map fst is = bad \<and> bad \<noteq> [] | Inr c' \<Rightarrow> bad = [] \<and> c' = c)"

lemma meetsI:
  "map fst is = bad \<Longrightarrow> (bad = [] \<Longrightarrow> c = c') \<Longrightarrow> meets (if is \<noteq> [] then Inl is else Inr c) bad c'"
  by (auto simp: meets_def)

lemmas check_values = checks [THEN check_value]

lemma server_schema_meets: "meets (server_schema Z env) (invalid env (server_variables Z)) (server_values env)"
  unfolding server_schema_def Let_def server_variables_def
proof (rule meetsI, goal_cases)
  case 1
  show ?case by (rule invalid_Cons invalid_last checks)+
next
  case 2
  then show ?case by (simp add: invalid_none server_values_def check_values del: One_nat_def)
qed

lemma notification_schema_meets:
  "meets (notification_schema Z env) (invalid env (notification_variables Z)) (notification_values env)"
  unfolding notification_schema_def Let_def notification_variables_def
proof (rule meetsI, goal_cases)
  case 1
  show ?case by (rule invalid_Cons invalid_last checks)+
next
  case 2
  then show ?case by (simp add: invalid_none notification_values_def check_values del: One_nat_def)
qed

lemma load_meets:
  assumes "meets parsed bad c"
  shows "case load_config Z parsed of
      Exited code lines \<Rightarrow> code = 1 \<and> bad \<noteq> [] \<and> list_all2 (\<lambda>line k. \<exists>m. line = ''['' @ k @ '']: '' @ m) lines bad
    | Running c' \<Rightarrow> bad = [] \<and> c' = c"
  using assms
  by (cases parsed) (auto simp: meets_def load_config_def issue_line_def list_all2_conv_all_nth split: prod.splits)

text \<open>C23. Either program starts with a complete configuration or not at all. If a variable is missing where it is
  required, or has a value that is not allowed, the process prints one line for each such variable,
  naming them in the order of the schema, and exits with code 1. Otherwise it runs on the configuration that has
  the value of every variable that is set and the default of every other one.\<close>

theorem configuration_complete_or_exit:
  "(case server_start Z env of
      Exited code lines \<Rightarrow> code = 1 \<and> invalid env (server_variables Z) \<noteq> [] \<and>
        list_all2 (\<lambda>line k. \<exists>m. line = ''['' @ k @ '']: '' @ m) lines (invalid env (server_variables Z))
    | Running c \<Rightarrow> invalid env (server_variables Z) = [] \<and> c = server_values env) \<and>
   (case notification_start Z env of
      Exited code lines \<Rightarrow> code = 1 \<and> invalid env (notification_variables Z) \<noteq> [] \<and>
        list_all2 (\<lambda>line k. \<exists>m. line = ''['' @ k @ '']: '' @ m) lines (invalid env (notification_variables Z))
    | Running c \<Rightarrow> invalid env (notification_variables Z) = [] \<and> c = notification_values env)"
  unfolding server_start_def notification_start_def
  by (intro conjI load_meets server_schema_meets notification_schema_meets)

text \<open>A server that runs lets no one at the subscriptions of an address without a key of at least eight
  characters: an absent or repeated header, and a shorter one, is refused with 401 before anything
  is read, whatever the environment was.\<close>

lemma running_server_has_key:
  assumes start: "server_start Z env = Running c"
    and weak: "\<And>k. apiKey = Once k \<Longrightarrow> length k < 8"
  shows "\<exists>b. get_subscriptions isDev (api_key c) svc apiKey email w = ((401, b), w)"
proof -
  from load_meets [where Z = Z, OF server_schema_meets [of Z env]] start have
    "invalid env (server_variables Z) = []" "c = server_values env" by (simp_all add: server_start_def)
  then have key: "8 \<le> length (api_key c)"
    by (auto simp: invalid_none server_variables_def server_values_def given_def split: option.splits)
  then have "api_key c \<noteq> []" "apiKey \<noteq> Once (api_key c)" using weak by force+
  then show ?thesis by (simp add: get_subscriptions_def verifyApiKey_def respond_def errorHandler_status)
qed

definition example_zod :: zod where
  "example_zod = \<lparr>is_url = (\<lambda>s. s \<noteq> []), is_email = (\<lambda>s. CHR ''@'' \<in> set s), own_message = (\<lambda>_. ''Invalid input'')\<rparr>"

definition server_environment :: environment where
  "server_environment = [''DATABASE_URL'' \<mapsto> ''postgres://db'', ''REDIS_URL'' \<mapsto> ''redis://r'', ''RABBITMQ_URL'' \<mapsto> ''amqp://q'',
     ''GITHUB_TOKEN'' \<mapsto> ''t'', ''API_KEY'' \<mapsto> ''secret-key'']"

definition notification_environment :: environment where
  "notification_environment = [''RABBITMQ_URL'' \<mapsto> ''amqp://q'', ''REDIS_URL'' \<mapsto> ''redis://r'', ''SMTP_HOST'' \<mapsto> ''smtp'',
     ''SMTP_PORT'' \<mapsto> ''587'', ''SMTP_USER'' \<mapsto> ''a@b'', ''SMTP_PASS'' \<mapsto> ''p'']"

lemmas schema_run_defs = server_start_def notification_start_def server_schema_def notification_schema_def load_config_def
  Let_def z_default_def z_enum_def z_number_def z_text_def issue_def issue_line_def node_envs_def example_zod_def
  server_environment_def notification_environment_def js_Number_defs

lemma server_example: "\<exists>c. server_start example_zod server_environment = Running c"
  by (simp add: schema_run_defs)

text \<open>An empty variable is not an unset one: \<open>IDEMPOTENCY_LEASE_SECONDS=\<close> (and likewise a negative or a
  fractional value) is accepted, and the lease is then 0, which Redis refuses in \<open>SET ... EX\<close>, so that no
  notification can be claimed.\<close>

lemma empty_lease_accepted:
  "\<exists>c. notification_start example_zod (notification_environment(''IDEMPOTENCY_LEASE_SECONDS'' \<mapsto> [])) = Running c \<and>
     leaseSeconds c = 0"
  "\<exists>c. notification_start example_zod (notification_environment(''IDEMPOTENCY_LEASE_SECONDS'' \<mapsto> ''-1'')) = Running c \<and>
     leaseSeconds c = - 1"
  by (simp_all add: schema_run_defs)

end
