(* ===== verification/Grpc_Scan.thy ===== *)
theory Grpc_Scan
  imports Notification_Grpc Scan_Processor Env_Config
begin

text \<open>
  A scan batch with the gRPC transport: \<open>createNotifier\<close> (\<open>composition/factories.ts\<close>) hands the
  processor a \<open>GrpcNotifier\<close>, whose calls run the handler of the notification service and which
  advances the last seen tag itself, while other loops of the pool go on. The batch is an
  interpretation of \<open>pool_env\<close>: what the pool knows of the world is \<open>batch_told\<close>.
\<close>

section \<open>The notifier of the configuration\<close>

definition createNotifier :: "release_transport \<Rightarrow> (release_request \<Rightarrow> ('w, release_response) async) \<Rightarrow>
    (email_message \<Rightarrow> ('w, unit) async) \<Rightarrow> 'w subscription_repository \<Rightarrow> release_payload \<Rightarrow> ('w, unit) async" where
  "createNotifier kind call publish tagRepository =
     (if kind = Grpc_Transport then GrpcNotifier call tagRepository else QueueNotifier publish)"

section \<open>Rows whose tag was advanced\<close>

definition about :: "release_payload \<Rightarrow> subscription \<Rightarrow> bool" where
  "about p s \<longleftrightarrow> sub_email s = rp_email p \<and> repository s = rp_repo p"

definition advance_rows :: "release_payload set \<Rightarrow> subscription set \<Rightarrow> subscription set" where
  "advance_rows A S = {s \<in> S. \<forall>p \<in> A. \<not> about p s} \<union>
     {s\<lparr>lastSeenTag := Some (rp_tag p)\<rparr> | s p. s \<in> S \<and> p \<in> A \<and> about p s}"

lemma advance_rows_empty [simp]: "advance_rows {} S = S"
  by (simp add: advance_rows_def)

text \<open>No two of the payloads are about the same row.\<close>

definition one_each :: "release_payload set \<Rightarrow> bool" where
  "one_each A \<longleftrightarrow> inj_on (\<lambda>p. (rp_email p, rp_repo p)) A"

lemma about_advanced [simp]: "about p (s\<lparr>lastSeenTag := t\<rparr>) = about p s"
  by (simp add: about_def)

lemma advance_rows_insert:
  assumes "\<And>p'. p' \<in> A \<Longrightarrow> (rp_email p', rp_repo p') \<noteq> (rp_email p, rp_repo p)"
  shows "updated (advance_rows A S) (\<lambda>s. sub_email s = rp_email p \<and> repository s = rp_repo p)
      (\<lambda>s. s\<lparr>lastSeenTag := Some (rp_tag p)\<rparr>) = advance_rows (insert p A) S" (is "?l = ?r")
proof -
  have other: "\<not> about p' s" if "p' \<in> A" "about p s" for p' s
    using assms [OF that(1)] that(2) by (auto simp: about_def)
  have upd: "?l = updated (advance_rows A S) (about p) (\<lambda>s. s\<lparr>lastSeenTag := Some (rp_tag p)\<rparr>)"
    by (simp add: about_def [abs_def])
  show ?thesis
  proof (intro equalityI subsetI)
    fix x assume "x \<in> ?l"
    then have "x \<in> updated (advance_rows A S) (about p) (\<lambda>s. s\<lparr>lastSeenTag := Some (rp_tag p)\<rparr>)" by (simp only: upd)
    then show "x \<in> ?r"
      using other by (cases rule: updated_cases) (fastforce simp: advance_rows_def)+
  next
    fix x assume "x \<in> ?r"
    then consider (kept) "x \<in> S" "\<not> about p x" "\<forall>p' \<in> A. \<not> about p' x"
      | (mine) s where "s \<in> S" "about p s" "x = s\<lparr>lastSeenTag := Some (rp_tag p)\<rparr>"
      | (theirs) s p' where "s \<in> S" "p' \<in> A" "about p' s" "x = s\<lparr>lastSeenTag := Some (rp_tag p')\<rparr>"
      by (auto simp: advance_rows_def)
    then have "x \<in> updated (advance_rows A S) (about p) (\<lambda>s. s\<lparr>lastSeenTag := Some (rp_tag p)\<rparr>)"
    proof cases
      case kept
      then show ?thesis by (auto simp: updated_def advance_rows_def image_iff intro!: bexI [of _ x])
    next
      case mine
      then have "s \<in> advance_rows A S" using other by (auto simp: advance_rows_def)
      with mine show ?thesis by (auto simp: updated_def image_iff intro!: bexI [of _ s])
    next
      case theirs
      then have "\<not> about p x" "x \<in> advance_rows A S" using other by (auto simp: advance_rows_def)
      then show ?thesis by (auto simp: updated_def image_iff intro!: bexI [of _ x])
    qed
    then show "x \<in> ?l" by (simp only: upd)
  qed
qed

text \<open>Advancing rows of other repositories changes nothing for a query.\<close>

lemma outdated_advance_other:
  assumes "\<And>p. p \<in> A \<Longrightarrow> rp_repo p \<noteq> repo"
  shows "{s \<in> advance_rows A S. outdated repo tag s} = {s \<in> S. outdated repo tag s}"
proof -
  have "\<not> about p s" if "p \<in> A" "repository s = repo" for p s
    using assms [OF that(1)] that(2) by (auto simp: about_def)
  then show ?thesis by (fastforce simp: advance_rows_def outdated_def)
qed

text \<open>After the batch a query finds the rows that were not advanced.\<close>

lemma outdated_advance_same:
  assumes "\<And>p. p \<in> A \<Longrightarrow> rp_repo p = repo \<Longrightarrow> rp_tag p = tag"
  shows "{s \<in> advance_rows A S. outdated repo tag s} = {s \<in> S. outdated repo tag s \<and> (\<forall>p \<in> A. \<not> about p s)}"
proof -
  have "rp_tag p = tag" if "p \<in> A" "about p s" "repository s = repo" for p s
    using assms [OF that(1)] that(2,3) by (auto simp: about_def)
  then show ?thesis by (fastforce simp: advance_rows_def outdated_def)
qed

section \<open>What the notifications of a batch have done\<close>

abbreviation note_key :: "release_payload \<Rightarrow> string" where
  "note_key p \<equiv> releaseIdempotencyKey (rp_email p) (rp_repo p) (rp_tag p)"

text \<open>
  From the rows \<open>S\<close>, marks \<open>ks\<close> and mails \<open>ms\<close> to \<open>S'\<close>, \<open>ks'\<close> and \<open>ms'\<close>: the mails of \<open>D\<close> were sent, the tags
  of \<open>A\<close> advanced. A tag is only advanced when a mail with its key was sent or had been confirmed.
\<close>

definition delivered_releases :: "string \<Rightarrow> subscription set \<Rightarrow> keyspace \<Rightarrow> send_options list \<Rightarrow>
    release_payload multiset \<Rightarrow> release_payload multiset \<Rightarrow>
    subscription set \<Rightarrow> keyspace \<Rightarrow> send_options list \<Rightarrow> bool" where
  "delivered_releases baseUrl S ks ms A D S' ks' ms' \<longleftrightarrow>
     S' = advance_rows (set_mset A) S \<and>
     (\<exists>ds. ms' = ms @ map (release_mail baseUrl) ds \<and> mset ds = D) \<and>
     (\<forall>k. marked_done ks' k \<longrightarrow> marked_done ks k \<or> (\<exists>p \<in># D. note_key p = k)) \<and>
     (\<forall>p \<in># A. marked_done ks (note_key p) \<or> (\<exists>p' \<in># D. note_key p' = note_key p))"

lemma delivered_none: "delivered_releases baseUrl S ks ms {#} {#} S ks ms"
  by (simp add: delivered_releases_def)

context grpc_notifying begin

lemma notifier_step:
  assumes old: "delivered_releases baseUrl S ks ms A D (subs w) (marks w) (mailbox w)"
    and fresh: "\<And>p'. p' \<in># A \<Longrightarrow> (rp_email p', rp_repo p') \<noteq> (rp_email p, rp_repo p)"
    and short: "short_request (release_request_of p)"
    and run: "GrpcNotifier call R p w = (q, w')"
  shows "other w' = other w \<and> (\<exists>D'. D' \<subseteq># {#p#} \<and>
    delivered_releases baseUrl S ks ms (A + accepted {#(p, q)#}) (D + D') (subs w') (marks w') (mailbox w'))"
proof -
  note out = notifier_outcome [OF short run]
  from old obtain ds where ds: "mailbox w = ms @ map (release_mail baseUrl) ds" "mset ds = D"
    and S: "subs w = advance_rows (set_mset A) S"
    and done_: "\<And>k. marked_done (marks w) k \<Longrightarrow> marked_done ks k \<or> (\<exists>p \<in># D. note_key p = k)"
    and told: "\<And>p. p \<in># A \<Longrightarrow> marked_done ks (note_key p) \<or> (\<exists>p' \<in># D. note_key p' = note_key p)"
    by (auto simp: delivered_releases_def)
  define D' where "D' = (if mailbox w' = mailbox w @ [release_mail baseUrl p] then {#p#} else {#})"
  have mails: "\<exists>ds. mailbox w' = ms @ map (release_mail baseUrl) ds \<and> mset ds = D + D'"
  proof (cases "mailbox w' = mailbox w @ [release_mail baseUrl p]")
    case True
    then show ?thesis using ds by (intro exI [of _ "ds @ [p]"]) (simp add: D'_def)
  next
    case False
    with out have "mailbox w' = mailbox w" by (cases q) auto
    with False ds show ?thesis by (intro exI [of _ ds]) (simp add: D'_def)
  qed
  have done': "marked_done ks k \<or> (\<exists>p \<in># D + D'. note_key p = k)" if "marked_done (marks w') k" for k
    using out that done_ [of k] by (auto simp: D'_def)
  have told': "marked_done ks (note_key p') \<or> (\<exists>p \<in># D + D'. note_key p = note_key p')" if "p' \<in># A" for p'
    using told [OF that] by auto
  have intro: "delivered_releases baseUrl S ks ms (A + A') (D + D') (subs w') (marks w') (mailbox w')"
    if "subs w' = advance_rows (set_mset (A + A')) S"
      and "\<And>p'. p' \<in># A' \<Longrightarrow> marked_done ks (note_key p') \<or> (\<exists>p \<in># D + D'. note_key p = note_key p')" for A'
    unfolding delivered_releases_def
  proof (intro conjI allI impI ballI)
    fix p' assume "p' \<in># A + A'"
    then show "marked_done ks (note_key p') \<or> (\<exists>p \<in># D + D'. note_key p = note_key p')"
      using told' that(2) by (metis union_iff)
  qed (rule that(1), rule mails, erule done')
  show ?thesis
  proof (cases q)
    case (Inl e)
    from out Inl have same: "subs w' = subs w" by simp
    have "delivered_releases baseUrl S ks ms (A + {#}) (D + D') (subs w') (marks w') (mailbox w')"
    proof (rule intro)
      show "subs w' = advance_rows (set_mset (A + {#})) S" by (simp add: same S)
    qed simp
    moreover have "D' \<subseteq># {#p#}" by (simp add: D'_def)
    ultimately show ?thesis using conjunct1 [OF out] Inl by (intro conjI exI [of _ D']) simp_all
  next
    case (Inr u)
    with out have S': "subs w' = advance_rows (set_mset (A + {#p#})) S"
      using advance_rows_insert [of "set_mset A" p S] fresh S by auto
    have "marked_done ks (note_key p) \<or> (\<exists>p' \<in># D + D'. note_key p' = note_key p)"
    proof (cases "D' = {#p#}")
      case False
      with out Inr obtain t where "live (marks w) t (namespaced (note_key p)) = Some DONE_MARK"
        by (auto simp: D'_def split: if_splits)
      then have "marked_done (marks w) (note_key p)" by (rule live_done)
      with done_ show ?thesis by auto
    qed simp
    then have "delivered_releases baseUrl S ks ms (A + {#p#}) (D + D') (subs w') (marks w') (mailbox w')"
      by (intro intro [OF S']) simp
    moreover have "D' \<subseteq># {#p#}" by (simp add: D'_def)
    ultimately show ?thesis using conjunct1 [OF out] Inr by (intro conjI exI [of _ D']) simp_all
  qed
qed

lemma notifications_step:
  assumes "delivered_releases baseUrl S ks ms A D (subs w) (marks w) (mailbox w)"
    and "\<And>p p'. p \<in> set ps \<Longrightarrow> p' \<in># A \<Longrightarrow> (rp_email p', rp_repo p') \<noteq> (rp_email p, rp_repo p)"
    and "distinct (map (\<lambda>p. (rp_email p, rp_repo p)) ps)"
    and "\<And>p. p \<in> set ps \<Longrightarrow> short_request (release_request_of p)"
    and "all_settled (map (GrpcNotifier call R) ps) w = (q, w')"
  shows "other w' = other w \<and> (\<exists>rs. q = Inr rs \<and> length rs = length ps \<and> (\<exists>D'. D' \<subseteq># mset ps \<and>
    delivered_releases baseUrl S ks ms (A + accepted (mset (zip ps rs))) (D + D') (subs w') (marks w') (mailbox w')))"
  using assms
proof (induction ps arbitrary: A D w q w')
  case Nil
  then show ?case by (auto intro!: exI [of _ "{#}"])
next
  case (Cons p ps)
  obtain r w1 where p: "GrpcNotifier call R p w = (r, w1)" by fastforce
  obtain q2 w2 where ps: "all_settled (map (GrpcNotifier call R) ps) w1 = (q2, w2)" by fastforce
  from notifier_step [OF Cons.prems(1) _ _ p] Cons.prems(2,4) obtain D1 where 1: "other w1 = other w"
    "D1 \<subseteq># {#p#}"
    "delivered_releases baseUrl S ks ms (A + accepted {#(p, r)#}) (D + D1) (subs w1) (marks w1) (mailbox w1)" by auto
  have fresh: "(rp_email p'', rp_repo p'') \<noteq> (rp_email p', rp_repo p')"
    if "p' \<in> set ps" "p'' \<in># A + accepted {#(p, r)#}" for p' p''
  proof -
    from that(2) have "p'' \<in># A \<or> p'' = p" by (auto split: if_splits)
    then show ?thesis using Cons.prems(2,3) that(1) by force
  qed
  from Cons.IH [OF 1(3) fresh _ _ ps] Cons.prems(3,4) obtain rs D2 where 2: "other w2 = other w1" "q2 = Inr rs"
    "length rs = length ps" "D2 \<subseteq># mset ps"
    "delivered_releases baseUrl S ks ms (A + accepted {#(p, r)#} + accepted (mset (zip ps rs))) (D + D1 + D2)
      (subs w2) (marks w2) (mailbox w2)" by auto
  from Cons.prems(5) p ps 2(2) have w': "w' = w2" "q = Inr (r # rs)" by (simp_all add: await_def)
  have acc: "accepted (mset (zip (p # ps) (r # rs))) = accepted {#(p, r)#} + accepted (mset (zip ps rs))" by simp
  have "D1 + D2 \<subseteq># mset (p # ps)" using subset_mset.add_mono [OF 1(2) 2(4)] by simp
  moreover have "delivered_releases baseUrl S ks ms (A + accepted (mset (zip (p # ps) (r # rs)))) (D + (D1 + D2))
      (subs w') (marks w') (mailbox w')"
    using 2(5) unfolding acc w' by (simp only: add.assoc)
  ultimately show ?case using 1(1) 2(1,3) w'
    by (intro conjI exI [of _ "r # rs"] exI [of _ "D1 + D2"]) (assumption | simp)+
qed

end

section \<open>The batch\<close>

locale grpc_scan =
  grpc: grpc_notifying redis sendMail stop_timer tally marks mailbox now subs other R W call baseUrl ttl lease +
  reads: scan_reads R subs "\<lambda>w. (marks w, mailbox w, other w)" foreign
  for redis :: "'w redis_client"
    and sendMail :: "string \<Rightarrow> send_options \<Rightarrow> ('w, unit) async"
    and stop_timer :: "('w, unit) async"
    and tally :: "string \<Rightarrow> bool \<Rightarrow> ('w, unit) async"
    and marks :: "'w \<Rightarrow> keyspace"
    and mailbox :: "'w \<Rightarrow> send_options list"
    and now :: "'w \<Rightarrow> nat"
    and subs :: "'w \<Rightarrow> subscription set"
    and other :: "'w \<Rightarrow> 'x"
    and R :: "'w subscription_repository"
    and W :: Notification_Proto.wire
    and call :: "release_request \<Rightarrow> ('w, release_response) async"
    and baseUrl :: string
    and ttl lease :: nat
    and foreign :: "string \<Rightarrow> ('w, unit) async"

text \<open>What is due for different rows is different, and belongs to the repository of its item.\<close>

lemma due_repo: "p \<in># due S item \<Longrightarrow> finite S \<Longrightarrow> rp_repo p = fst item \<and> (\<exists>t. snd item = Tag t \<and> rp_tag p = t)"
  by (cases item; cases "snd item") (auto simp: payload_for_def)

lemma distinct_of_mset_set:
  assumes "mset xs = mset_set T" and "finite T"
  shows "distinct xs"
proof -
  from assms have "set xs = T" by (metis finite_set_mset_mset_set set_mset_mset)
  with assms show ?thesis by (simp add: distinct_count_atmost_1 count_mset_set')
qed

lemma due_rows_differ:
  assumes "subscriptions_wf S" and "finite S" and "mset ps = due S item"
  shows "distinct (map (\<lambda>p. (rp_email p, rp_repo p)) ps)"
proof (cases item)
  case (Pair repo tag)
  show ?thesis
  proof (cases tag)
    case (Tag t)
    let ?key = "\<lambda>p. (rp_email p, rp_repo p)" and ?rows = "{s \<in> S. outdated repo t s}"
    have inj: "inj_on (\<lambda>s. ?key (payload_for repo t s)) ?rows"
      using subscriptions_wfD(4) [OF assms(1)] by (auto simp: inj_on_def payload_for_def outdated_def)
    have "image_mset ?key (mset ps) = image_mset (\<lambda>s. ?key (payload_for repo t s)) (mset_set ?rows)"
      by (simp add: assms(3) Pair Tag image_mset.compositionality comp_def)
    also have "\<dots> = mset_set ((\<lambda>s. ?key (payload_for repo t s)) ` ?rows)"
      by (rule image_mset_mset_set [OF inj])
    finally have "mset (map ?key ps) = mset_set ((\<lambda>s. ?key (payload_for repo t s)) ` ?rows)" by simp
    then show ?thesis by (rule distinct_of_mset_set) (use assms(2) in \<open>auto intro: finite_subset\<close>)
  qed (use assms(3) Pair in simp)
qed

text \<open>The outcome of one item: \<open>C\<close> are the calls, one for each that was due, and \<open>D\<close> were mailed.\<close>

definition item_told :: "subscription set \<Rightarrow> string \<times> release_tag \<Rightarrow> notify_call multiset \<times> release_payload multiset \<Rightarrow> bool" where
  "item_told S item x \<longleftrightarrow> (case x of (C, D) \<Rightarrow>
     image_mset fst C = due S item \<and> D \<subseteq># due S item \<and> snd item \<noteq> Inherited_Member)"

context grpc_scan begin

text \<open>The world after the notifications \<open>f\<close>, and the calls so far.\<close>

definition batch_told :: "subscription set \<Rightarrow> keyspace \<Rightarrow> send_options list \<Rightarrow> 'x \<Rightarrow> (string \<times> release_tag) list \<Rightarrow>
    (nat \<Rightarrow> (notify_call multiset \<times> release_payload multiset) option) \<Rightarrow> 'w \<times> notify_call list \<Rightarrow> bool" where
  "batch_told S ks ms x items f = (\<lambda>(w, calls). other w = x \<and>
     (\<forall>i < length items. \<forall>y. f i = Some y \<longrightarrow> item_told S (items ! i) y) \<and>
     mset calls = (\<Sum>i < length items. first_of f i) \<and>
     delivered_releases baseUrl S ks ms (accepted (mset calls)) (\<Sum>i < length items. second_of f i)
       (subs w) (marks w) (mailbox w))"

lemma advanced_repo:
  assumes "batch_told S ks ms x items f (w, calls)" and "finite S" and "p \<in># accepted (mset calls)"
  obtains k where "k < length items" and "f k \<noteq> None" and "rp_repo p = fst (items ! k)" and "p \<in># due S (items ! k)"
proof -
  from assms(1,3) have "p \<in># (\<Sum>i < length items. accepted (first_of f i))" by (simp add: batch_told_def accepted_sum)
  then obtain k where k: "k < length items" "p \<in># accepted (first_of f k)" by (auto simp: set_mset_sum)
  then obtain C D where f: "f k = Some (C, D)" "p \<in># accepted C" by (cases "f k") auto
  with assms(1) k(1) have "image_mset fst C = due S (items ! k)" by (auto simp: batch_told_def item_told_def)
  with mset_subset_eqD [OF accepted_subset f(2)] have "p \<in># due S (items ! k)" by simp
  with due_repo [OF this assms(2)] show thesis using that [OF k(1)] f(1) by simp
qed

lemma grpc_pool:
  assumes wf: "subscriptions_wf S" and fin: "finite S" and repos: "distinct (map fst items)"
    and short: "\<And>i p. i < length items \<Longrightarrow> p \<in># due S (items ! i) \<Longrightarrow> short_request (release_request_of p)"
  shows "pool_env (watched (ProcessorDeps provide R (GrpcNotifier call R) foreign)) items (batch_told S ks ms x items)
     (\<lambda>i ps. mset ps = due S (items ! i) \<and> snd (items ! i) \<noteq> Inherited_Member) (\<lambda>i. item_told S (items ! i))"
proof (unfold_locales, goal_cases)
  case (1 i f wl q wl')
  obtain w calls where wl: "wl = (w, calls)" by fastforce
  from 1(4) obtain w' where run: "processRepo_query (ProcessorDeps provide R (GrpcNotifier call R) foreign) (items ! i) w = (q, w')"
    "wl' = (w', calls)" by (auto simp: wl watched_query unwatched_run split: prod.splits)
  note old = 1(3) [unfolded wl]
  have "rp_repo p \<noteq> fst (items ! i)" if p: "p \<in># accepted (mset calls)" for p
  proof -
    from advanced_repo [OF old fin p] obtain k where k: "k < length items" "f k \<noteq> None" "rp_repo p = fst (items ! k)" by blast
    with 1(2) have "k \<noteq> i" by auto
    with k(1,3) 1(1) repos show ?thesis by (auto simp: distinct_conv_nth)
  qed
  then have "due (subs w) (items ! i) = due S (items ! i)"
    using old by (cases "items ! i"; cases "snd (items ! i)")
      (auto simp: batch_told_def delivered_releases_def outdated_advance_other)
  moreover note out = reads.query_outcome [OF run(1)]
  moreover from out have same: "subs w' = subs w" "marks w' = marks w" "mailbox w' = mailbox w" "other w' = other w" by simp_all
  moreover have "batch_told S ks ms x items f (w', calls)" using old unfolding batch_told_def prod.case same .
  ultimately show ?case by (cases q) (simp_all add: run(2))
next
  case (2 i f wl ps q wl')
  obtain w calls where wl: "wl = (w, calls)" by fastforce
  note old = 2(3) [unfolded wl]
  from watched_notify [of "ProcessorDeps provide R (GrpcNotifier call R) foreign" ps w calls] 2(5) obtain rs w' where
    run: "all_settled (map (GrpcNotifier call R) ps) w = (Inr rs, w')" "q = Inr ()" "wl' = (w', calls @ zip ps rs)"
    by (auto simp: wl ProcessorDeps_def)
  have fresh: "(rp_email p', rp_repo p') \<noteq> (rp_email p, rp_repo p)"
    if "p \<in> set ps" "p' \<in># accepted (mset calls)" for p p'
  proof -
    from advanced_repo [OF old fin that(2)] obtain k where k: "k < length items" "f k \<noteq> None" "rp_repo p' = fst (items ! k)" by blast
    with 2(2) have "k \<noteq> i" by auto
    with k(1,3) 2(1) repos have "rp_repo p' \<noteq> fst (items ! i)" by (auto simp: distinct_conv_nth)
    moreover from that(1) 2(4) have "p \<in># due S (items ! i)" by (metis set_mset_mset)
    then have "rp_repo p = fst (items ! i)" using due_repo fin by blast
    ultimately show ?thesis by simp
  qed
  have short': "short_request (release_request_of p)" if "p \<in> set ps" for p
    using that 2(4) short [OF 2(1)] by (metis set_mset_mset)
  from old have "delivered_releases baseUrl S ks ms (accepted (mset calls))
      (\<Sum>k < length items. second_of f k) (subs w) (marks w) (mailbox w)" unfolding batch_told_def prod.case by blast
  from grpc.notifications_step [OF this fresh due_rows_differ [OF wf fin conjunct1 [OF 2(4)]] short' run(1)]
  obtain D where new: "other w' = other w" "length rs = length ps" "D \<subseteq># mset ps"
    "delivered_releases baseUrl S ks ms (accepted (mset calls) + accepted (mset (zip ps rs)))
      ((\<Sum>k < length items. second_of f k) + D) (subs w') (marks w') (mailbox w')" by auto
  let ?y = "(mset (zip ps rs), D)"
  have none: "(map_option fst \<circ> f) i = None" "(map_option snd \<circ> f) i = None" using 2(2) by simp_all
  have "image_mset fst (mset (zip ps rs)) = mset ps" by (metis new(2) map_fst_zip mset_map)
  with new(3) 2(4) have told: "item_told S (items ! i) ?y" by (simp add: item_told_def)
  have "batch_told S ks ms x items (f(i \<mapsto> ?y)) (w', calls @ zip ps rs)"
    unfolding batch_told_def prod.case
  proof (intro conjI)
    show "other w' = x" using new(1) old by (simp add: batch_told_def)
    show "\<forall>k < length items. \<forall>y. (f(i \<mapsto> ?y)) k = Some y \<longrightarrow> item_told S (items ! k) y"
      using old told by (auto simp: batch_told_def)
    show "mset (calls @ zip ps rs) = (\<Sum>k < length items. first_of (f(i \<mapsto> ?y)) k)"
      using old told_of_update [where f = "map_option fst \<circ> f" and N = "mset (zip ps rs)", OF 2(1) none(1)]
      by (simp add: batch_told_def map_option_o_map_upd)
    show "delivered_releases baseUrl S ks ms (accepted (mset (calls @ zip ps rs)))
        (\<Sum>k < length items. second_of (f(i \<mapsto> ?y)) k) (subs w') (marks w') (mailbox w')"
      using new(4) told_of_update [where f = "map_option snd \<circ> f" and N = D, OF 2(1) none(2)]
      by (simp add: map_option_o_map_upd)
  qed
  with run(2,3) told show ?case by blast
qed

end

lemma pending_repos: "distinct repos \<Longrightarrow> distinct (map fst (pending_items repos releases))"
proof -
  have "map fst (pending_items repos releases) = filter (\<lambda>r. \<exists>t. (r, t) \<in> set (pending_items [r] releases)) repos"
    by (induction repos) (auto simp: pending_items_def map_filter_simps split: option.splits sum.splits if_splits)
  then show "distinct repos \<Longrightarrow> distinct (map fst (pending_items repos releases))" by (simp only: distinct_filter)
qed

context grpc_scan begin

lemma grpc_batch:
  assumes wf: "subscriptions_wf (subs w)" and repos: "distinct (map fst items)"
    and short: "\<And>p. p \<in># sum_list (map (due (subs w)) items) \<Longrightarrow> short_request (release_request_of p)"
    and run: "processConcurrently pick (watched (ProcessorDeps provide R (GrpcNotifier call R) foreign)) items (w, [])
      = (Inr u, (w', calls))"
  shows "other w' = other w \<and> mset (map fst calls) = sum_list (map (due (subs w)) items) \<and>
    (\<exists>D. D \<subseteq># sum_list (map (due (subs w)) items) \<and>
      delivered_releases baseUrl (subs w) (marks w) (mailbox w) (accepted (mset calls)) D (subs w') (marks w') (mailbox w'))"
proof -
  let ?S = "subs w"
  have short': "short_request (release_request_of p)" if "i < length items" "p \<in># due ?S (items ! i)" for i p
    using that by (intro short) (force simp: due_of_items set_mset_sum)
  have start: "batch_told ?S (marks w) (mailbox w) (other w) items (\<lambda>_. None) (w, [])"
    by (simp add: batch_told_def delivered_none)
  have "pool_env (watched (ProcessorDeps provide R (GrpcNotifier call R) foreign)) items
      (batch_told ?S (marks w) (mailbox w) (other w) items)
      (\<lambda>i ps. mset ps = due ?S (items ! i) \<and> snd (items ! i) \<noteq> Inherited_Member) (\<lambda>i. item_told ?S (items ! i))"
    by (rule grpc_pool [OF wf grpc.table.finite_subs repos]) (erule (1) short')
  from pool_env.processConcurrently_tells [OF this run start]
  obtain f where f: "batch_told ?S (marks w) (mailbox w) (other w) items f (w', calls)"
    "\<And>i y. i < length items \<Longrightarrow> f i = Some y \<Longrightarrow> item_told ?S (items ! i) y"
    "\<forall>i < length items. f i \<noteq> None" by auto
  have item: "image_mset fst (first_of f i) = due ?S (items ! i)" "second_of f i \<subseteq># due ?S (items ! i)"
    if i: "i < length items" for i
  proof -
    from f(3) i obtain C D where fi: "f i = Some (C, D)" by fastforce
    with f(2) [OF i fi] show "image_mset fst (first_of f i) = due ?S (items ! i)" "second_of f i \<subseteq># due ?S (items ! i)"
      by (simp_all add: item_told_def)
  qed
  have "mset (map fst calls) = (\<Sum>i < length items. image_mset fst (first_of f i))"
    using f(1) by (simp add: batch_told_def fst_of_sum)
  also have "\<dots> = sum_list (map (due ?S) items)"
    unfolding due_of_items by (rule sum.cong [OF refl]) (use item(1) in auto)
  finally have calls: "mset (map fst calls) = sum_list (map (due ?S) items)" .
  have "(\<Sum>i < length items. second_of f i) \<subseteq># sum_list (map (due ?S) items)"
    unfolding due_of_items using item(2) by (intro multiset_sum_mono)
  with calls f(1) show ?thesis by (auto simp: batch_told_def)
qed

end

text \<open>The next query for a repository of the batch.\<close>

lemma outdated_after_batch:
  assumes wf: "subscriptions_wf S" and fin: "finite S" and repos: "distinct (map fst items)"
    and A: "A \<subseteq># sum_list (map (due S) items)" and item: "(repo, Tag tag) \<in> set items"
  shows "{s \<in> advance_rows (set_mset A) S. outdated repo tag s} =
    {s \<in> S. outdated repo tag s \<and> payload_for repo tag s \<notin># A}"
proof -
  have origin: "\<exists>t. (rp_repo p, Tag t) \<in> set items \<and> rp_tag p = t \<and> (\<exists>s \<in> S. outdated (rp_repo p) t s \<and> p = payload_for (rp_repo p) t s)"
    if "p \<in># A" for p
  proof -
    from mset_subset_eqD [OF A that] obtain x where x: "x \<in> set items" "p \<in># due S x" by (auto simp: set_mset_sum_list)
    obtain r t where "x = (r, t)" by fastforce
    with x fin show ?thesis by (cases t) (auto simp: payload_for_def)
  qed
  have tags: "rp_tag p = tag" if "p \<in># A" "rp_repo p = repo" for p
    using origin [OF that(1)] that(2) item repos by (metis Pair_inject distinct_map inj_onD fst_conv release_tag.inject)
  have "(\<forall>p \<in># A. \<not> about p s) \<longleftrightarrow> payload_for repo tag s \<notin># A" if s: "s \<in> S" "outdated repo tag s" for s
  proof -
    have repo: "repository s = repo" using s(2) by (simp add: outdated_def)
    have "p = payload_for repo tag s" if "p \<in># A" "about p s" for p
    proof -
      from that(2) repo have p: "rp_repo p = repo" "sub_email s = rp_email p" by (simp_all add: about_def)
      with tags that(1) have "rp_tag p = tag" by blast
      with origin [OF that(1)] p(1) obtain s' where s': "s' \<in> S" "outdated repo tag s'" "p = payload_for repo tag s'" by auto
      with p(2) repo have "s' = s" using subscriptions_wfD(4) [OF wf s'(1) s(1)] by (simp add: payload_for_def outdated_def)
      with s'(3) show ?thesis by simp
    qed
    moreover have "about (payload_for repo tag s) s" using repo by (simp add: about_def payload_for_def)
    ultimately show ?thesis by blast
  qed
  moreover have "{s \<in> advance_rows (set_mset A) S. outdated repo tag s} =
      {s \<in> S. outdated repo tag s \<and> (\<forall>p \<in># A. \<not> about p s)}"
    by (rule outdated_advance_same) (rule tags)
  ultimately show ?thesis by blast
qed

text \<open>C8. A batch over gRPC that is processed without an error has called the notification service once for
  each subscriber that was due and for no one else, and has advanced the last seen tag of exactly those
  whose call succeeded: the next query for a repository of the batch finds again the subscribers
  whose call was rejected in this batch, and no one else. No subscriber loses a release: a tag is only advanced when
  the mail with its key was sent in this batch or had been confirmed before, and each due subscriber gets
  at most one mail.\<close>

theorem grpc_scan_delivers:
  assumes env: "grpc_scan redis sendMail stop_timer tally marks mailbox now subs other R W call baseUrl ttl lease foreign"
    and wf: "subscriptions_wf (subs w)" and repos: "distinct repos" "repos \<noteq> []"
    and provide: "provide repos w = (Inr releases, w1)" "subs w1 = subs w" "marks w1 = marks w" "mailbox w1 = mailbox w"
      "other w1 = other w"
    and all: "all_due = sum_list (map (due (subs w)) (pending_items repos releases))"
    and short: "\<And>p. p \<in># all_due \<Longrightarrow> short_request (release_request_of p)"
    and run: "process_batch pick (ProcessorDeps provide R (createNotifier Grpc_Transport call publish R) foreign) repos w
      = (Inr u, w')"
  shows "\<exists>calls D. process_batch pick (watched (ProcessorDeps provide R (createNotifier Grpc_Transport call publish R) foreign))
      repos (w, []) = (Inr u, (w', calls)) \<and>
    mset (map fst calls) = all_due \<and> D \<subseteq># all_due \<and> other w' = other w \<and>
    delivered_releases baseUrl (subs w) (marks w) (mailbox w) (accepted (mset calls)) D (subs w') (marks w') (mailbox w') \<and>
    (\<forall>repo tag. (repo, Tag tag) \<in> set (pending_items repos releases) \<longrightarrow>
      {s \<in> subs w'. outdated repo tag s} =
        {s \<in> subs w. outdated repo tag s \<and> payload_for repo tag s \<notin># accepted (mset calls)})"
proof -
  let ?items = "pending_items repos releases"
  let ?D = "ProcessorDeps provide R (createNotifier Grpc_Transport call publish R) foreign"
  from watched_batch [OF run] obtain calls where
    watch: "process_batch pick (watched ?D) repos (w, []) = (Inr u, (w', calls))" by blast
  then have loop: "processConcurrently pick (watched (ProcessorDeps provide R (GrpcNotifier call R) foreign)) ?items (w1, [])
      = (Inr u, (w', calls))"
    using watched_first [of ?D repos w "Inr releases" w1 pick "[]"] repos(2) provide(1)
    by (simp add: ProcessorDeps_def createNotifier_def)
  from grpc_scan.grpc_batch [OF env _ pending_repos [OF repos(1)] _ loop] wf short obtain D where D:
    "other w' = other w" "mset (map fst calls) = all_due" "D \<subseteq># all_due"
    "delivered_releases baseUrl (subs w) (marks w) (mailbox w) (accepted (mset calls)) D (subs w') (marks w') (mailbox w')"
    unfolding all provide(2-5) by blast
  from D(2) accepted_subset [of "mset calls"] have A: "accepted (mset calls) \<subseteq># sum_list (map (due (subs w)) ?items)"
    by (simp add: all)
  have "finite (subs w)"
    by (rule subscription_store.finite_subs [OF scan_reads.axioms(1) [OF grpc_scan.axioms(2) [OF env]]])
  from outdated_after_batch [OF wf this pending_repos [OF repos(1)] A] watch D show ?thesis
    unfolding delivered_releases_def by blast
qed

lemma whole_scan: "grpc_scan mem_redis note_smtp (ret ()) (\<lambda>_ _. ret ()) rw_keys nw_mailbox rw_now (\<lambda>w. set (wh_subs w))
    nw_broker mem_tags varint_wire (wired_call varint_wire mem_handler) ''http://localhost:3000'' 86400 60 refuse_query"
  by (intro grpc_scan.intro whole_grpc.grpc_notifying_axioms scan_reads.intro scan_reads_axioms.intro whole_tags)
    (auto simp: refuse_query_def)

interpretation whole_scan: grpc_scan mem_redis note_smtp "ret ()" "\<lambda>_ _. ret ()" rw_keys nw_mailbox rw_now
    "\<lambda>w. set (wh_subs w)" nw_broker mem_tags varint_wire "wired_call varint_wire mem_handler"
    "''http://localhost:3000''" 86400 60 refuse_query
  by (rule whole_scan)

definition whole_deps :: "whole_world processor_deps" where
  "whole_deps = ProcessorDeps (\<lambda>repos. ret [(''o/r'', ''v1'')]) mem_tags
     (createNotifier Grpc_Transport (wired_call varint_wire mem_handler) (\<lambda>m. ret ()) mem_tags) refuse_query"

lemma whole_batch:
  "\<exists>w'. process_batch (\<lambda>_. 0) whole_deps [''o/r''] (whole_at [subscriber_row None]) = (Inr (), w')"
proof -
  obtain w1 where "GrpcNotifier (wired_call varint_wire mem_handler) mem_tags note_payload (whole_at [subscriber_row None])
      = (Inr (), w1)" using whole_notified by blast
  moreover have "processRepo_query whole_deps (''o/r'', Tag ''v1'') (whole_at [subscriber_row None]) =
      (Inr [note_payload], whole_at [subscriber_row None])"
    by (simp add: processRepo_query_def whole_deps_def ProcessorDeps_def mem_tags_def SubscriptionRepository_def
        getOutdatedSubscribers_q_def listed_subscriptions_def listed_def whole_at_def note_world.defs subscriber_row_def
        note_payload_def sql_not_def io_defs)
  ultimately show ?thesis
    by (simp add: process_batch_def processConcurrently_def pool_loop.simps start_pool_def REPO_CONCURRENCY_def
        pending_items_def js_get_def map_filter_simps rejection_def first_active_def pool_step_def
        processRepo_notify_def whole_deps_def ProcessorDeps_def createNotifier_def await_def ret_def)
qed

theorem grpc_scan_delivers_witness:
  "\<exists>w'. process_batch (\<lambda>_. 0) whole_deps [''o/r''] (whole_at [subscriber_row None]) = (Inr (), w') \<and>
     length (nw_mailbox w') \<le> 1"
proof -
  let ?w = "whole_at [subscriber_row None]" and ?all = "{#note_payload#}"
  obtain w' where run: "process_batch (\<lambda>_. 0) whole_deps [''o/r''] ?w = (Inr (), w')" using whole_batch by blast
  have all: "?all = sum_list (map (due (set (wh_subs ?w))) (pending_items [''o/r''] [(''o/r'', ''v1'')]))"
  proof -
    have "{s \<in> set (wh_subs ?w). outdated ''o/r'' ''v1'' s} = {subscriber_row None}"
      by (auto simp: whole_at_def note_world.defs subscriber_row_def outdated_def)
    then show ?thesis
      by (simp add: pending_items_def js_get_def map_filter_simps payload_for_def subscriber_row_def note_payload_def)
  qed
  have wf: "subscriptions_wf (set (wh_subs ?w))"
    by (simp add: whole_at_def note_world.defs subscriptions_wf_def unique_by_def)
  have "short_request (release_request_of p)" if "p \<in># ?all" for p using that note_payload_short by simp
  from grpc_scan_delivers [OF whole_scan wf _ _ _ _ _ _ _ all this run [unfolded whole_deps_def]]
  obtain D where "D \<subseteq># ?all" "\<exists>ds. nw_mailbox w' = nw_mailbox ?w @ map (release_mail ''http://localhost:3000'') ds \<and> mset ds = D"
    by (auto simp: delivered_releases_def io_defs)
  then obtain ds where "nw_mailbox w' = nw_mailbox ?w @ map (release_mail ''http://localhost:3000'') ds" "mset ds \<subseteq># ?all" by auto
  moreover from size_mset_mono [OF this(2)] have "length ds \<le> 1" by simp
  moreover have "nw_mailbox ?w = []" by (simp add: whole_at_def note_at_def note_world.defs)
  ultimately show ?thesis using run by simp
qed

end
