(* ===== verification/Composition.thy ===== *)
theory Composition
  imports Schedulers Grpc_Scan
begin

text \<open>
  How the server and the worker are put together: \<open>composition/factories.ts\<close>,
  \<open>composition/containers\<close> and \<open>composition/di.plugin.ts\<close>. A container is the record of what it
  constructs from the clients of the libraries; the properties are about these records, so about the
  components as they are connected.
\<close>

section \<open>The containers\<close>

text \<open>The GitHub endpoint, the HTTP status of a failed request, and the cache's JSON text of a batch result.\<close>

record 'w github_link =
  rawRequest :: "string \<Rightarrow> ('w, graphql_response) async"
  http_status :: "js_error \<Rightarrow> nat option"
  encode_result :: "batch_result \<Rightarrow> string"
  decode_result :: "string \<Rightarrow> batch_result option"

definition createCachedGithubClient :: "'w github_link \<Rightarrow> 'w redis_client \<Rightarrow> nat \<Rightarrow>
    string list \<Rightarrow> ('w, batch_result) async" where
  "createCachedGithubClient gh redis ttl =
     CachedGithubClient_batch (GithubClient_batch (rawRequest gh) (http_status gh)) redis (decode_result gh)
       (encode_result gh) ttl"

text \<open>The jobs of the two schedulers and the reading of the gauge stand for the objects that run them.\<close>

record 'w server_container =
  subscriptionService :: "'w subscription_service"
  scan_job_tick :: "('w, unit) async"
  subscribeSaga :: "'w subscribe_saga"
  sweep_job_tick :: "('w, unit) async"
  active_gauge :: "('w, nat) async"

definition createServerContainer :: "'w subscription_delegate \<Rightarrow> 'w saga_delegate \<Rightarrow> ('w \<Rightarrow> nat) \<Rightarrow> ('w, string) async \<Rightarrow>
    'w redis_client \<Rightarrow> 'w github_link \<Rightarrow> ('w, 'w channel) async \<Rightarrow> ('w, 'w channel) async \<Rightarrow> 'w server_container" where
  "createServerContainer sdb gdb clock randomUUID redis gh getChannel createChannel =
     (let githubClient = createCachedGithubClient gh redis REDIS_CACHE_TTL_SECONDS;
          subscriptionRepository = SubscriptionRepository sdb;
          saga = server_saga sdb gdb clock getChannel;
          lockStore = RedisLockStore redis randomUUID;
          queue = RabbitScanQueue_open createChannel
      in \<lparr>subscriptionService = SubscriptionService subscriptionRepository (GitHubRepoProvider_exists githubClient) saga,
          scan_job_tick = scan_tick (groupByRepository subscriptionRepository) (addScanJobs lockStore queue),
          subscribeSaga = saga,
          sweep_job_tick = sweep_tick (compensate_stuck saga) CONFIRMATION_TIMEOUT_MS,
          active_gauge = countActive subscriptionRepository\<rparr>)"

record 'w worker_container =
  processor :: "string list \<Rightarrow> ('w, unit) async"
  lockStore :: "'w lock_store"
  tagRepository :: "'w subscription_repository"

definition worker_deps :: "release_transport \<Rightarrow> 'w subscription_delegate \<Rightarrow> (string \<Rightarrow> ('w, unit) async) \<Rightarrow>
    'w github_link \<Rightarrow> (release_request \<Rightarrow> ('w, release_response) async) \<Rightarrow> ('w, 'w channel) async \<Rightarrow> 'w processor_deps" where
  "worker_deps kind sdb foreign gh call getChannel =
     (let githubClient = GithubClient_batch (rawRequest gh) (http_status gh);
          subscriptionRepository = SubscriptionRepository sdb;
          notifier = createNotifier kind call (RabbitEmailQueue_publish getChannel) subscriptionRepository
      in ProcessorDeps (GithubRelease_batch githubClient) subscriptionRepository notifier foreign)"

definition createWorkerContainer :: "release_transport \<Rightarrow> (pool \<Rightarrow> nat) \<Rightarrow> 'w subscription_delegate \<Rightarrow> (string \<Rightarrow> ('w, unit) async) \<Rightarrow>
    ('w, string) async \<Rightarrow> 'w redis_client \<Rightarrow> 'w github_link \<Rightarrow> (release_request \<Rightarrow> ('w, release_response) async) \<Rightarrow>
    ('w, 'w channel) async \<Rightarrow> ('w, unit) async \<Rightarrow> (bool \<Rightarrow> ('w, unit) async) \<Rightarrow> 'w worker_container" where
  "createWorkerContainer kind pick sdb foreign randomUUID redis gh call getChannel stop_timer tally =
     \<lparr>processor = MeteredScanBatchProcessor stop_timer tally
        (process_batch pick (worker_deps kind sdb foreign gh call getChannel)),
      lockStore = RedisLockStore redis randomUUID,
      tagRepository = SubscriptionRepository sdb\<rparr>"

text \<open>The parts of the server are those the other theories are about.\<close>

lemma server_container_parts:
  "subscriptionService (createServerContainer sdb gdb clock randomUUID redis gh getChannel createChannel) =
     server_service sdb gdb clock getChannel (GitHubRepoProvider_exists (createCachedGithubClient gh redis REDIS_CACHE_TTL_SECONDS))"
  "subscribeSaga (createServerContainer sdb gdb clock randomUUID redis gh getChannel createChannel) =
     server_saga sdb gdb clock getChannel"
  "active_gauge (createServerContainer sdb gdb clock randomUUID redis gh getChannel createChannel) =
     countActive (SubscriptionRepository sdb)"
  by (simp_all add: createServerContainer_def server_service_def Let_def)

section \<open>What GitHub's answer owes\<close>

text \<open>The tag of the last node with a name.\<close>

definition last_answer :: "graphql_response \<Rightarrow> string \<Rightarrow> string option" where
  "last_answer resp r =
     (case filter (\<lambda>n. nameWithOwner n = r) (nodes_of resp) of [] \<Rightarrow> None | ns \<Rightarrow> latestRelease (last ns))"

text \<open>The notifications for a repository: to its active subscribers that have not seen the tag.\<close>

definition owed :: "subscription set \<Rightarrow> graphql_response \<Rightarrow> string \<Rightarrow> release_payload multiset" where
  "owed S resp r =
     (case last_answer resp r of
        None \<Rightarrow> {#}
      | Some tag \<Rightarrow> if r = [] \<or> tag = [] then {#} else due S (r, Tag tag))"

lemma parsed_answer:
  assumes "r \<noteq> []"
  shows "map_of (parseLatestReleases data) r =
    (case filter (\<lambda>n. nameWithOwner n = r) (List.map_filter snd data) of [] \<Rightarrow> None | ns \<Rightarrow> Some (latestRelease (last ns)))"
proof -
  have "map_of (fold add_node nodes acc) r =
      (case filter (\<lambda>n. nameWithOwner n = r) (List.map_filter id nodes) of
         [] \<Rightarrow> map_of acc r | ns \<Rightarrow> Some (latestRelease (last ns)))" for nodes acc
  proof (induction nodes arbitrary: acc)
    case (Cons n nodes)
    with assms show ?case
      by (cases n) (auto simp: add_node_def map_filter_simps split: list.split)
  qed (simp add: map_filter_simps)
  from this [of "map snd data" "[]"] show ?thesis
    by (simp add: parseLatestReleases_def map_filter_def filter_map o_def split: list.split)
qed

lemma released_tags:
  assumes "distinct (map fst result)"
  shows "map_of (List.map_filter (\<lambda>(k, v). map_option (Pair k) v) result) r = (case map_of result r of Some (Some t) \<Rightarrow> Some t | _ \<Rightarrow> None)"
  using assms
proof (induction result)
  case (Cons kv result)
  obtain k v where kv: "kv = (k, v)" by fastforce
  have "map_of result k = None" using Cons.prems kv by (simp add: map_of_eq_None_iff)
  with Cons kv show ?case by (cases v) (auto simp: map_filter_simps)
qed (simp add: map_filter_simps)

lemma owed_of_releases:
  assumes "\<And>r. r \<noteq> [] \<Longrightarrow> map_of releases r = last_answer resp r" and "map_of releases [] = None"
  shows "sum_list (map (due S) (pending_items repos releases)) = sum_list (map (owed S resp) repos)"
proof (induction repos)
  case (Cons r repos)
  have "sum_list (map (due S) (pending_items [r] releases)) = owed S resp r"
  proof (cases "r = []")
    case True
    with assms(2) show ?thesis
      by (simp add: pending_items_def js_get_def map_filter_simps owed_def inherited_def split: option.split)
  next
    case False
    with assms(1) [OF this] show ?thesis
      by (simp add: pending_items_def js_get_def map_filter_simps owed_def split: option.split)
  qed
  moreover have "pending_items (r # repos) releases = pending_items [r] releases @ pending_items repos releases"
    by (simp add: pending_items_def map_filter_simps split: option.split)
  ultimately show ?case using Cons.IH by simp
qed (simp add: pending_items_def map_filter_simps)

text \<open>The adapter of the worker over the client.\<close>

lemma github_releases:
  assumes api: "github_api raw rest" and repos: "repos \<noteq> []"
    and run: "GithubRelease_batch (GithubClient_batch raw http) repos w = (Inr releases, w')"
  shows "rest w' = rest w \<and> (\<exists>resp w0. raw (buildLatestReleasesQuery repos) w = (Inr resp, w0) \<and>
    (\<forall>r. map_of releases r = (if r = [] then None else last_answer resp r)))"
proof -
  from run [unfolded GithubRelease_batch_def] obtain result where
    batch: "GithubClient_batch raw http repos w = (Inr result, w')"
    and rel: "releases = List.map_filter (\<lambda>(k, v). map_option (Pair k) v) result"
    by (elim await_outcome) auto
  from github_api.batch_outcome [OF api batch] repos obtain resp w0 where
    r: "rest w' = rest w" "raw (buildLatestReleasesQuery repos) w = (Inr resp, w0)"
    "result = parseLatestReleases (case resp_data resp of None \<Rightarrow> [] | Some d \<Rightarrow> d)" by auto
  let ?data = "case resp_data resp of None \<Rightarrow> [] | Some d \<Rightarrow> d"
  have "map_of releases r = (if r = [] then None else last_answer resp r)" for r
  proof (cases "r = []")
    case True
    have "[] \<notin> fst ` set result" unfolding r(3) by (simp add: parse_names)
    then have "map_of result [] = None" by (simp add: map_of_eq_None_iff)
    with True show ?thesis unfolding rel by (subst released_tags) (simp_all add: r(3) parseLatestReleases_distinct)
  next
    case False
    have "map_of releases r = (case map_of result r of Some (Some t) \<Rightarrow> Some t | _ \<Rightarrow> None)"
      unfolding rel by (rule released_tags) (simp add: r(3) parseLatestReleases_distinct)
    with parsed_answer [OF False, of ?data] False show ?thesis
      by (simp add: r(3) last_answer_def nodes_of_def split: list.split option.split)
  qed
  with r(1,2) show ?thesis by blast
qed

text \<open>The decorator adds measurements to what the processor does.\<close>

lemma metered_resolved:
  assumes m: "mail_metrics stop_timer (\<lambda>_. tally) box rest"
    and run: "MeteredScanBatchProcessor stop_timer tally process repos w = (Inr u, w')"
  shows "\<exists>w1. process repos w = (Inr (), w1) \<and> box w' = box w1 \<and> rest w' = rest w1"
proof -
  obtain r w1 where p: "process repos w = (r, w1)" by fastforce
  obtain s w2 where s: "stop_timer w1 = (s, w2)" by fastforce
  from mail_metrics.stop_law [OF m s] have 2: "s = Inr ()" "box w2 = box w1" "rest w2 = rest w1" by simp_all
  from p s 2(1) have timed: "withTimer stop_timer (process repos) w = (r, w2)" by (simp add: withTimer_def finally_do_def)
  obtain c w3 where c: "tally (\<not> isl r) w2 = (c, w3)" by fastforce
  from mail_metrics.tally_law [OF m c] have 3: "c = Inr ()" "box w3 = box w2" "rest w3 = rest w2" by simp_all
  show ?thesis
  proof (cases r)
    case (Inl e)
    with run timed c 3(1) show ?thesis
      by (simp add: MeteredScanBatchProcessor_def try_catch_def await_def throw_def)
  next
    case (Inr v)
    with run timed c 3(1) have "w' = w3" by (simp add: MeteredScanBatchProcessor_def try_catch_def await_def)
    with p Inr 2 3 show ?thesis by simp
  qed
qed

section \<open>Properties\<close>

text \<open>C6. The worker as it is put together, over the email queue: a batch that resolves has asked GitHub once for its
  repositories and has tried, once each, exactly the notifications the answer owes: for each repository the tag
  of its last node with that very name is due to the active subscribers that have not seen it. What was put on
  the queue is among these, each at most once, and includes every one whose publication succeeded: one that is
  missing was refused by the queue in this run. The tables stay as they are.\<close>

theorem worker_sends_what_github_owes:
  assumes env: "processor_env (SubscriptionRepository sdb) subs
      (createNotifier Queue_Transport call (RabbitEmailQueue_publish getChannel) (SubscriptionRepository sdb)) sent other foreign"
    and api: "github_api (rawRequest gh) (\<lambda>w. (subs w, sent w, other w))"
    and metrics: "mail_metrics stop_timer (\<lambda>_. tally) sent (\<lambda>w. (subs w, other w))"
    and repos: "repos \<noteq> []"
    and run: "processor (createWorkerContainer Queue_Transport pick sdb foreign randomUUID redis gh call getChannel stop_timer tally)
      repos w = (Inr u, w')"
  shows "\<exists>resp w0 w1 calls M. rawRequest gh (buildLatestReleasesQuery repos) w = (Inr resp, w0) \<and>
    process_batch pick (watched (worker_deps Queue_Transport sdb foreign gh call getChannel)) repos (w, []) = (Inr (), (w1, calls)) \<and>
    mset (map fst calls) = sum_list (map (owed (subs w) resp) repos) \<and>
    mset (sent w') = mset (sent w) + M \<and> accepted (mset calls) \<subseteq># M \<and>
    M \<subseteq># sum_list (map (owed (subs w) resp) repos) \<and>
    sent w' = sent w1 \<and> subs w' = subs w \<and> other w' = other w"
proof -
  let ?N = "createNotifier Queue_Transport call (RabbitEmailQueue_publish getChannel) (SubscriptionRepository sdb)"
  let ?P = "GithubRelease_batch (GithubClient_batch (rawRequest gh) (http_status gh))"
  let ?D = "ProcessorDeps ?P (SubscriptionRepository sdb) ?N foreign"
  have deps: "worker_deps Queue_Transport sdb foreign gh call getChannel = ?D" by (simp add: worker_deps_def Let_def)
  from run have "MeteredScanBatchProcessor stop_timer tally (process_batch pick ?D) repos w = (Inr u, w')"
    by (simp add: createWorkerContainer_def deps)
  from metered_resolved [OF metrics this] obtain w2 where
    batch: "process_batch pick ?D repos w = (Inr (), w2)" and
    view: "subs w' = subs w2" "sent w' = sent w2" "other w' = other w2" by auto
  from watched_batch [OF batch] obtain calls where
    watch: "process_batch pick (watched ?D) repos (w, []) = (Inr (), (w2, calls))" by blast
  obtain r w1 where rel: "?P repos w = (r, w1)" by fastforce
  from watch rel repos obtain releases where r: "r = Inr releases"
    and pool: "processConcurrently pick (watched ?D) (pending_items repos releases) (w1, []) = (Inr (), (w2, calls))"
    using watched_first [of ?D repos w r w1 pick "[]"] by (cases r) (simp_all add: ProcessorDeps_def)
  from github_releases [OF api repos rel [unfolded r]] obtain resp w0 where
    1: "subs w1 = subs w" "sent w1 = sent w" "other w1 = other w"
    "rawRequest gh (buildLatestReleasesQuery repos) w = (Inr resp, w0)"
    "\<And>r. map_of releases r = (if r = [] then None else last_answer resp r)" by auto
  have owed: "sum_list (map (due (subs w)) (pending_items repos releases)) = sum_list (map (owed (subs w) resp) repos)"
    by (rule owed_of_releases) (simp_all add: 1(5))
  from processor_env.processConcurrently_calls [OF env pool] obtain M where
    2: "subs w2 = subs w" "other w2 = other w" "mset (sent w2) = mset (sent w) + M" "accepted (mset calls) \<subseteq># M"
    "M \<subseteq># sum_list (map (due (subs w)) (pending_items repos releases))"
    "mset (map fst calls) = sum_list (map (due (subs w)) (pending_items repos releases))" by (auto simp: 1(1-3))
  show ?thesis
    using 1(4) watch 2(1-4) view 2(5,6) [unfolded owed] unfolding deps
    by (intro exI [of _ resp] exI [of _ w0] exI [of _ w2] exI [of _ calls] exI [of _ M]) simp
qed

definition example_github :: "'w github_link" where
  "example_github = \<lparr>rawRequest = mem_github [(''o/r'', ''v1'')] [''o/r''], http_status = (\<lambda>_. None),
     encode_result = (\<lambda>_. ''json''), decode_result = (\<lambda>_. None)\<rparr>"

definition example_worker :: "system_world worker_container" where
  "example_worker = createWorkerContainer Queue_Transport (\<lambda>_. 0) mem_system_subscriptions refuse_query mem_uuid mem_redis
     example_github (\<lambda>_. throw (Other ''off'')) (ret mem_queue_channel) (ret ()) (\<lambda>_. ret ())"

lemma example_notifier:
  "createNotifier Queue_Transport call (RabbitEmailQueue_publish (ret mem_queue_channel)) R = mem_release_notifier"
  by (simp add: createNotifier_def mem_release_notifier_def)

lemma example_releases:
  "GithubRelease_batch (GithubClient_batch (mem_github [(''o/r'', ''v1'')] [''o/r'']) (\<lambda>_. None)) [''o/r''] w =
     (Inr [(''o/r'', ''v1'')], w)"
  by (simp add: GithubRelease_batch_def GithubClient_batch_def mem_github_def classify_response_def parseLatestReleases_def
      add_node_def map_filter_simps await_def try_catch_def ret_def)

lemma example_worker_run:
  "fst (processor example_worker [''o/r''] scanned_system) = Inr ()"
  by (simp add: example_worker_def createWorkerContainer_def worker_deps_def example_github_def MeteredScanBatchProcessor_def withTimer_def
      createNotifier_def example_releases processor_run_defs scanned_system_def subscribed_def)

theorem worker_sends_what_github_owes_witness:
  "\<exists>w'. processor example_worker [''o/r''] scanned_system = (Inr (), w') \<and> set (sy_subs w') = set (sy_subs scanned_system)"
proof -
  obtain q w' where run: "processor example_worker [''o/r''] scanned_system = (q, w')" by fastforce
  with example_worker_run have q: "q = Inr ()" by simp
  have metrics: "mail_metrics (ret ()) (\<lambda>_ _. ret ()) (\<lambda>w. notified (emails_on_queue (qw_broker w)))
      (\<lambda>w :: system_world. (set (sy_subs w), rw_keys w))" by unfold_locales simp_all
  have api: "github_api (rawRequest example_github)
      (\<lambda>w :: system_world. (set (sy_subs w), notified (emails_on_queue (qw_broker w)), rw_keys w))"
    by (simp add: example_github_def mem_github_api)
  have env: "processor_env (SubscriptionRepository mem_system_subscriptions) (\<lambda>w :: system_world. set (sy_subs w))
      (createNotifier Queue_Transport (\<lambda>_. throw (Other ''off'')) (RabbitEmailQueue_publish (ret mem_queue_channel))
        (SubscriptionRepository mem_system_subscriptions))
      (\<lambda>w. notified (emails_on_queue (qw_broker w))) rw_keys refuse_query"
    unfolding example_notifier by (rule mem_processor.processor_env_axioms)
  from worker_sends_what_github_owes [OF env api metrics _ run [unfolded example_worker_def q]] run q
  show ?thesis by auto
qed

end
