(* ===== verification/Html_Pages.thy ===== *)
theory Html_Pages
  imports Server_Api
begin

text \<open>
  The HTML pages of the server: \<open>renderHtml\<close> (\<open>lib/html/html.renderer.ts\<close>) with its cache of templates, and
  the routes of \<open>modules/subscriptions/routes/html.routes.ts\<close> with the pages they send. The files under
  \<open>public\<close> are a parameter. \<open>replaceAll\<close> is that of JavaScript: in the replacement a \<open>$\<close> followed by \<open>$\<close>, \<open>&\<close>, a
  backtick or a quote is a pattern.
\<close>

section \<open>\<open>replaceAll\<close>\<close>

fun get_substitution :: "string \<Rightarrow> string \<Rightarrow> string \<Rightarrow> string \<Rightarrow> string" where
  "get_substitution matched before after (CHR ''$'' # c # s) =
     (if c = CHR ''$'' then CHR ''$'' # get_substitution matched before after s
      else if c = CHR ''&'' then matched @ get_substitution matched before after s
      else if c = CHR 0x60 then before @ get_substitution matched before after s
      else if c = CHR 0x27 then after @ get_substitution matched before after s
      else CHR ''$'' # get_substitution matched before after (c # s))"
| "get_substitution matched before after (c # s) = c # get_substitution matched before after s"
| "get_substitution matched before after [] = []"

text \<open>\<open>before\<close> is what was read already, in the order of the text.\<close>

function replace_from :: "string \<Rightarrow> string \<Rightarrow> string \<Rightarrow> string \<Rightarrow> string" where
  "replace_from pattern replacement before s =
     (if s = [] \<or> pattern = [] then s
      else if take (length pattern) s = pattern then
        get_substitution pattern before (drop (length pattern) s) replacement @
        replace_from pattern replacement (before @ pattern) (drop (length pattern) s)
      else hd s # replace_from pattern replacement (before @ [hd s]) (tl s))"
  by pat_completeness auto
termination by (relation "measure (\<lambda>(p, r, b, s). length s)") auto

declare replace_from.simps [simp del]

definition replaceAll :: "string \<Rightarrow> string \<Rightarrow> string \<Rightarrow> string" where
  "replaceAll s pattern replacement = replace_from pattern replacement [] s"

lemma replacement_examples:
  "replaceAll ''a{{X}}b{{X}}'' ''{{X}}'' ''1'' = ''a1b1''"
  "replaceAll ''a{{X}}b'' ''{{X}}'' ''[$&]'' = ''a[{{X}}]b''"
  by (simp_all add: replaceAll_def replace_from.simps)

lemma plain_substitution: "CHR ''$'' \<notin> set r \<Longrightarrow> get_substitution m b a r = r"
  by (induction m b a r rule: get_substitution.induct) auto

text \<open>\<open>occurs_at p s k\<close>: the pattern is found at position \<open>k\<close>.\<close>

definition occurs_at :: "string \<Rightarrow> string \<Rightarrow> nat \<Rightarrow> bool" where
  "occurs_at pattern s k \<longleftrightarrow> take (length pattern) (drop k s) = pattern"

lemma replace_nothing:
  assumes "pattern \<noteq> []" and "\<And>k. \<not> occurs_at pattern s k"
  shows "replace_from pattern r b s = s"
  using assms(2)
proof (induction s arbitrary: b)
  case (Cons c s)
  have "\<not> occurs_at pattern s k" for k using Cons.prems [of "Suc k"] by (simp add: occurs_at_def)
  moreover have "take (length pattern) (c # s) \<noteq> pattern" using Cons.prems [of 0] by (simp add: occurs_at_def)
  ultimately show ?case using Cons.IH by (subst replace_from.simps) simp
qed (simp add: replace_from.simps)

lemma replace_once:
  assumes "pattern \<noteq> []" and "\<And>k. occurs_at pattern (pre @ pattern @ post) k \<longleftrightarrow> k = length pre" and r: "CHR ''$'' \<notin> set r"
  shows "replace_from pattern r b (pre @ pattern @ post) = pre @ r @ post"
  using assms(2)
proof (induction pre arbitrary: b)
  case Nil
  have "\<not> occurs_at pattern post k" for k
    using Nil [of "length pattern + k"] assms(1) by (simp add: occurs_at_def)
  with replace_nothing [OF assms(1)] show ?case
    using assms(1) by (subst replace_from.simps) (simp add: plain_substitution [OF r])
next
  case (Cons c pre)
  have "occurs_at pattern (pre @ pattern @ post) k \<longleftrightarrow> k = length pre" for k
    using Cons.prems [of "Suc k"] by (simp add: occurs_at_def)
  moreover have "take (length pattern) (c # pre @ pattern @ post) \<noteq> pattern"
    using Cons.prems [of 0] by (simp add: occurs_at_def)
  ultimately show ?case using Cons.IH assms(1) by (subst replace_from.simps) simp
qed

section \<open>\<open>renderHtml\<close>\<close>

text \<open>The world next to the cache of the templates.\<close>

type_synonym template_cache = "string \<rightharpoonup> string"

definition on_world :: "('w, 'a) async \<Rightarrow> ('w \<times> template_cache, 'a) async" where
  "on_world m s = (case m (fst s) of (q, w') \<Rightarrow> (q, (w', snd s)))"

definition render :: "(string \<times> string) list \<Rightarrow> string \<Rightarrow> string" where
  "render variables template =
     foldl (\<lambda>html (key, value). replaceAll html (''{{'' @ key @ ''}}'') value) template variables"

definition renderHtml :: "(string \<Rightarrow> string option) \<Rightarrow> string \<Rightarrow> (string \<times> string) list \<Rightarrow>
    ('w \<times> template_cache, string) async" where
  "renderHtml files templateName variables s =
     (case snd s templateName of
        Some template \<Rightarrow> (Inr (render variables template), s)
      | None \<Rightarrow>
          (case files templateName of
             None \<Rightarrow> (Inl (Other ''ENOENT''), s)
           | Some template \<Rightarrow> (Inr (render variables template), (fst s, (snd s)(templateName \<mapsto> template)))))"

section \<open>The routes\<close>

text \<open>The status and the text of the answer.\<close>

type_synonym html_reply = "nat \<times> string"

definition index_route :: "(string \<Rightarrow> string option) \<Rightarrow> ('w \<times> template_cache, html_reply) async" where
  "index_route files = await (renderHtml files ''index.html'' []) (\<lambda>page. ret (200, page))"

definition subscriptions_route :: "(string \<Rightarrow> string option) \<Rightarrow> ('w \<times> template_cache, html_reply) async" where
  "subscriptions_route files = await (renderHtml files ''subscriptions.html'' []) (\<lambda>page. ret (200, page))"

definition CONFIRM_INVALID :: string where "CONFIRM_INVALID = ''Invalid or expired confirmation link''"

definition UNSUBSCRIBE_INVALID :: string where "UNSUBSCRIBE_INVALID = ''Invalid or expired unsubscribe link''"

definition confirm_route :: "(string \<Rightarrow> string option) \<Rightarrow> 'w subscription_service \<Rightarrow> string \<Rightarrow>
    ('w \<times> template_cache, html_reply) async" where
  "confirm_route files svc token =
     try_catch
       (await (on_world (confirmSubscription svc token)) (\<lambda>s.
        await (renderHtml files ''confirmed.html'' [(''REPO'', repository s)]) (\<lambda>page. ret (200, page))))
       (\<lambda>_. await (renderHtml files ''error.html'' [(''MESSAGE'', CONFIRM_INVALID)]) (\<lambda>page. ret (404, page)))"

definition unsubscribe_route :: "(string \<Rightarrow> string option) \<Rightarrow> 'w subscription_service \<Rightarrow> string \<Rightarrow>
    ('w \<times> template_cache, html_reply) async" where
  "unsubscribe_route files svc token =
     try_catch
       (await (on_world (unsubscribeFromRepo svc token)) (\<lambda>s.
        await (renderHtml files ''unsubscribed.html'' [(''REPO'', repository s)]) (\<lambda>page. ret (200, page))))
       (\<lambda>_. await (renderHtml files ''error.html'' [(''MESSAGE'', UNSUBSCRIBE_INVALID)]) (\<lambda>page. ret (404, page)))"

section \<open>Properties\<close>

text \<open>A file with one placeholder.\<close>

definition page_with :: "(string \<Rightarrow> string option) \<Rightarrow> string \<Rightarrow> string \<Rightarrow> string \<Rightarrow> string \<Rightarrow> bool" where
  "page_with files name key pre post \<longleftrightarrow>
     (let placeholder = ''{{'' @ key @ ''}}'' in
      files name = Some (pre @ placeholder @ post) \<and>
      (\<forall>k. occurs_at placeholder (pre @ placeholder @ post) k \<longleftrightarrow> k = length pre))"

definition cache_current :: "(string \<Rightarrow> string option) \<Rightarrow> template_cache \<Rightarrow> bool" where
  "cache_current files c \<longleftrightarrow> (\<forall>name t. c name = Some t \<longrightarrow> files name = Some t)"

lemma renderHtml_page:
  assumes "page_with files name key pre post" and "cache_current files c" and "CHR ''$'' \<notin> set value"
  shows "\<exists>c'. renderHtml files name [(key, value)] (w, c) = (Inr (pre @ value @ post), (w, c')) \<and> cache_current files c'"
proof -
  from assms(1) have there: "files name = Some (pre @ (''{{'' @ key @ ''}}'') @ post)" and
    once: "\<And>k. occurs_at (''{{'' @ key @ ''}}'') (pre @ (''{{'' @ key @ ''}}'') @ post) k \<longleftrightarrow> k = length pre"
    unfolding page_with_def Let_def by blast+
  have "render [(key, value)] (pre @ (''{{'' @ key @ ''}}'') @ post) = pre @ value @ post"
    using replace_once [OF _ once assms(3)] by (simp add: render_def replaceAll_def)
  then show ?thesis using there assms(2)
    by (cases "c name") (auto simp: renderHtml_def cache_current_def)
qed

lemma owner_name_chars: "owner_char c \<or> name_char c \<or> c = CHR ''/'' \<Longrightarrow> c \<notin> set ''$<>&\"{}''"
  by (auto simp: owner_char_def name_char_def less_eq_char_def)

lemma repo_format_harmless:
  assumes "repo_format r"
  shows "set r \<inter> set ''$<>&\"{}'' = {}"
proof -
  have "owner_char c \<or> name_char c \<or> c = CHR ''/''" if "c \<in> set r" for c
    using assms that by (auto simp: repo_format_iff list_all_iff)
  with owner_name_chars show ?thesis by blast
qed

lemma renderHtml_keeps:
  "renderHtml files name vars (w, c) = (q, (w', c')) \<Longrightarrow> w' = w \<and> (cache_current files c \<longrightarrow> cache_current files c')"
  by (auto simp: renderHtml_def cache_current_def split: option.splits if_splits)

lemma render_state:
  assumes "cache_current files c"
  obtains q c' where "renderHtml files name vars (w, c) = (q, (w, c'))" and "cache_current files c'"
proof -
  obtain q w' c' where "renderHtml files name vars (w, c) = (q, (w', c'))" by (metis prod.exhaust)
  with renderHtml_keeps [OF this] assms that show thesis by simp
qed

lemma link_route:
  assumes ok: "page_with files name ''REPO'' pre post" and bad: "page_with files ''error.html'' ''MESSAGE'' epre epost"
    and message: "CHR ''$'' \<notin> set message" and cached: "cache_current files c"
    and run: "try_catch
       (await (on_world m) (\<lambda>s. await (renderHtml files name [(''REPO'', repository s)]) (\<lambda>page. ret (200, page))))
       (\<lambda>_. await (renderHtml files ''error.html'' [(''MESSAGE'', message)]) (\<lambda>page. ret (404, page))) (w, c) = (q, (w', c'))"
  shows "cache_current files c' \<and> w' = snd (m w) \<and>
    (case fst (m w) of
       Inr s \<Rightarrow> repo_format (repository s) \<longrightarrow> q = Inr (200 :: nat, pre @ repository s @ post)
     | Inl e \<Rightarrow> q = Inr (404, epre @ message @ epost))"
proof -
  obtain r w1 where m: "m w = (r, w1)" by fastforce
  show ?thesis
  proof (cases r)
    case (Inl e)
    from renderHtml_page [OF bad cached message, of w1] obtain c1 where
      "renderHtml files ''error.html'' [(''MESSAGE'', message)] (w1, c) = (Inr (epre @ message @ epost), (w1, c1))"
      "cache_current files c1" by blast
    with run m Inl show ?thesis
      by (simp add: try_catch_def await_def on_world_def ret_def)
  next
    case (Inr s)
    obtain q1 c1 where page: "renderHtml files name [(''REPO'', repository s)] (w1, c) = (q1, (w1, c1))" "cache_current files c1"
      by (rule render_state [OF cached])
    obtain q2 c2 where err: "renderHtml files ''error.html'' [(''MESSAGE'', message)] (w1, c1) = (q2, (w1, c2))"
      "cache_current files c2" by (rule render_state [OF page(2)])
    have valid: "repo_format (repository s) \<longrightarrow> q1 = Inr (pre @ repository s @ post)"
    proof
      assume valid: "repo_format (repository s)"
      with repo_format_harmless [OF valid] have "CHR ''$'' \<notin> set (repository s)" by auto
      from renderHtml_page [OF ok cached this, of w1] page(1) show "q1 = Inr (pre @ repository s @ post)" by auto
    qed
    let ?body = "await (on_world m) (\<lambda>s. await (renderHtml files name [(''REPO'', repository s)]) (\<lambda>page. ret (200 :: nat, page)))"
    show ?thesis
    proof (cases q1)
      case (Inl e)
      with m Inr page have "?body (w, c) = (Inl e, (w1, c1))" by (simp add: await_def on_world_def)
      from run [unfolded try_catch_rejected [where m = ?body and w = "(w, c)", OF this]] err(1)
      have "q = map_sum id (Pair 404) q2" "w' = w1" "c' = c2" by (cases q2; simp add: await_def ret_def)+
      with m Inr err(2) Inl valid show ?thesis by simp
    next
      case (Inr p)
      with m \<open>r = Inr s\<close> page have "?body (w, c) = (Inr (200, p), (w1, c1))" by (simp add: await_def on_world_def ret_def)
      from run [unfolded try_catch_resolved [where m = ?body and w = "(w, c)", OF this]] m \<open>r = Inr s\<close> page(2) Inr valid show ?thesis by auto
    qed
  qed
qed

text \<open>The links of the mails answer what the service did. With a subscription found the answer is 200 and the page
  of the template with the name of the repository in place of its placeholder, character for character, a
  validated name bringing no markup into it; otherwise the answer is 404 and the page says that the
  link is invalid. Rendering leaves the world alone, and the cache holds the files as they are.\<close>

lemma html_links_answered:
  assumes pages: "page_with files ''confirmed.html'' ''REPO'' pre post"
      "page_with files ''unsubscribed.html'' ''REPO'' pre' post'" "page_with files ''error.html'' ''MESSAGE'' epre epost"
    and cached: "cache_current files c"
  shows "(case confirm_route files svc token (w, c) of (q, (w', c')) \<Rightarrow>
      cache_current files c' \<and> w' = snd (confirmSubscription svc token w) \<and>
      (case fst (confirmSubscription svc token w) of
         Inr s \<Rightarrow> repo_format (repository s) \<longrightarrow> q = Inr (200, pre @ repository s @ post) \<and>
           set (repository s) \<inter> set ''$<>&\"{}'' = {}
       | Inl e \<Rightarrow> q = Inr (404, epre @ CONFIRM_INVALID @ epost))) \<and>
    (case unsubscribe_route files svc token (w, c) of (q, (w', c')) \<Rightarrow>
      cache_current files c' \<and> w' = snd (unsubscribeFromRepo svc token w) \<and>
      (case fst (unsubscribeFromRepo svc token w) of
         Inr s \<Rightarrow> repo_format (repository s) \<longrightarrow> q = Inr (200, pre' @ repository s @ post') \<and>
           set (repository s) \<inter> set ''$<>&\"{}'' = {}
       | Inl e \<Rightarrow> q = Inr (404, epre @ UNSUBSCRIBE_INVALID @ epost)))"
proof (intro conjI)
  have texts: "CHR ''$'' \<notin> set CONFIRM_INVALID" "CHR ''$'' \<notin> set UNSUBSCRIBE_INVALID"
    by (simp_all add: CONFIRM_INVALID_def UNSUBSCRIBE_INVALID_def)
  obtain q w' c' where run: "confirm_route files svc token (w, c) = (q, (w', c'))" by (metis prod.exhaust)
  from link_route [OF pages(1,3) texts(1) cached run [unfolded confirm_route_def]] repo_format_harmless
  show "case confirm_route files svc token (w, c) of (q, (w', c')) \<Rightarrow>
      cache_current files c' \<and> w' = snd (confirmSubscription svc token w) \<and>
      (case fst (confirmSubscription svc token w) of
         Inr s \<Rightarrow> repo_format (repository s) \<longrightarrow> q = Inr (200, pre @ repository s @ post) \<and>
           set (repository s) \<inter> set ''$<>&\"{}'' = {}
       | Inl e \<Rightarrow> q = Inr (404, epre @ CONFIRM_INVALID @ epost))"
    by (cases "fst (confirmSubscription svc token w)") (simp_all add: run)
  obtain q w' c' where run': "unsubscribe_route files svc token (w, c) = (q, (w', c'))" by (metis prod.exhaust)
  from link_route [OF pages(2,3) texts(2) cached run' [unfolded unsubscribe_route_def]] repo_format_harmless
  show "case unsubscribe_route files svc token (w, c) of (q, (w', c')) \<Rightarrow>
      cache_current files c' \<and> w' = snd (unsubscribeFromRepo svc token w) \<and>
      (case fst (unsubscribeFromRepo svc token w) of
         Inr s \<Rightarrow> repo_format (repository s) \<longrightarrow> q = Inr (200, pre' @ repository s @ post') \<and>
           set (repository s) \<inter> set ''$<>&\"{}'' = {}
       | Inl e \<Rightarrow> q = Inr (404, epre @ UNSUBSCRIBE_INVALID @ epost))"
    by (cases "fst (unsubscribeFromRepo svc token w)") (simp_all add: run')
qed

definition example_pages :: "string \<Rightarrow> string option" where
  "example_pages = [''confirmed.html'' \<mapsto> ''<p>{{REPO}}</p>'', ''unsubscribed.html'' \<mapsto> ''{{REPO}}.'',
     ''error.html'' \<mapsto> ''{{MESSAGE}}'']"

lemma occurs_iff_upto:
  assumes "pattern \<noteq> []"
  shows "(\<forall>k. occurs_at pattern s k \<longleftrightarrow> k = n) \<longleftrightarrow> n < length s \<and> (\<forall>k < length s. occurs_at pattern s k \<longleftrightarrow> k = n)"
proof -
  have "\<not> occurs_at pattern s k" if "length s \<le> k" for k using assms that by (auto simp: occurs_at_def)
  then show ?thesis by (metis not_le_imp_less)
qed

lemma example_page:
  "page_with example_pages ''confirmed.html'' ''REPO'' ''<p>'' ''</p>''"
  "page_with example_pages ''unsubscribed.html'' ''REPO'' [] ''.''"
  "page_with example_pages ''error.html'' ''MESSAGE'' [] []"
  by (simp_all add: page_with_def example_pages_def occurs_iff_upto All_less_Suc2 eval_nat_numeral) (simp_all add: occurs_at_def)

end
