(* ===== verification/Server_App.thy ===== *)
theory Server_App
  imports Composition Html_Pages Mail_Service
begin

text \<open>
  The server as its clients reach it: the routes \<open>buildApp\<close> (\<open>git-release-notifier-be/src/app.ts\<close>) registers,
  those of \<open>subscription.route.ts\<close> and \<open>html.routes.ts\<close> among them, over the container that
  \<open>composition/di.plugin.ts\<close> attaches, and the gRPC methods. \<open>serve\<close> answers one request of either interface.
  Finding the route of a request is Fastify's: the argument \<open>app_router\<close>, of which the locale \<open>router\<close> states
  what the documentation promises.
\<close>

section \<open>Routes\<close>

datatype http_method = GET | HEAD | POST | PUT | PATCH | DELETE | OPTIONS

datatype route = Health | Metrics_Route
  | Index_Page | Subscriptions_Page | Confirm_Page | Unsubscribe_Page
  | Api_Subscribe | Api_Subscriptions | Api_Confirm | Api_Unsubscribe

type_synonym route_table = "(http_method \<times> string \<times> route) list"

definition htmlRoutes :: route_table where
  "htmlRoutes = [(GET, ''/'', Index_Page), (GET, ''/subscriptions'', Subscriptions_Page),
     (GET, ''/confirm/:token'', Confirm_Page), (GET, ''/unsubscribe/:token'', Unsubscribe_Page)]"

definition subscriptionRoutes :: route_table where
  "subscriptionRoutes = [(POST, ''/subscribe'', Api_Subscribe), (GET, ''/subscriptions'', Api_Subscriptions),
     (GET, ''/confirm/:token'', Api_Confirm), (GET, ''/unsubscribe/:token'', Api_Unsubscribe)]"

definition with_prefix :: "string \<Rightarrow> route_table \<Rightarrow> route_table" where
  "with_prefix base = map (\<lambda>(m, url, r). (m, base @ url, r))"

definition app_routes :: route_table where
  "app_routes = [(GET, ''/health'', Health), (GET, ''/metrics'', Metrics_Route)]
     @ htmlRoutes @ with_prefix ''/api'' subscriptionRoutes"

text \<open>A pattern and a path, segment by segment. A parameter takes a segment of at most a hundred characters.\<close>

fun match_segments :: "string list \<Rightarrow> string list \<Rightarrow> string list option" where
  "match_segments [] [] = Some []"
| "match_segments (p # ps) (s # ss) =
     (if take 1 p = '':'' then
        (if s = [] \<or> 100 < length s then None else map_option (Cons s) (match_segments ps ss))
      else if p = s then match_segments ps ss else None)"
| "match_segments _ _ = None"

text \<open>Every pattern has at most one parameter; a path without one has the empty string.\<close>

definition pattern_token :: "string \<Rightarrow> string \<Rightarrow> string option" where
  "pattern_token pattern path =
     map_option (\<lambda>ts. case ts of [] \<Rightarrow> [] | t # _ \<Rightarrow> t)
       (match_segments (split_on (CHR ''/'') pattern) (split_on (CHR ''/'') path))"

text \<open>A path without the characters that encode others, or end it.\<close>

definition plain_path :: "string \<Rightarrow> bool" where
  "plain_path path \<longleftrightarrow> set path \<inter> set ''%?;#'' = {}"

type_synonym router = "route_table \<Rightarrow> http_method \<Rightarrow> string \<Rightarrow> (route \<times> string) option"

locale router =
  fixes find_route :: router
  assumes found_law: "\<And>T m pattern r path token. (m, pattern, r) \<in> set T \<Longrightarrow> plain_path path \<Longrightarrow>
      pattern_token pattern path = Some token \<Longrightarrow>
      (\<And>pattern' r'. (m, pattern', r') \<in> set T \<Longrightarrow> pattern_token pattern' path \<noteq> None \<Longrightarrow>
        (pattern', r') = (pattern, r)) \<Longrightarrow>
      find_route T m path = Some (r, token)"

section \<open>Requests\<close>

text \<open>A request as the framework hands it on: the query parameter \<open>email\<close>, the header \<open>x-api-key\<close> and the parsed body.\<close>

record http_request =
  rq_method :: http_method
  rq_path :: string
  rq_email :: "string option"
  rq_apiKey :: header
  rq_body :: json

datatype grpc_request =
    Subscribe_Call string string | Confirm_Call string | Unsubscribe_Call string | List_Call string

datatype client_request = Http http_request | Grpc grpc_request

datatype answer = Healthy | Metrics nat | Page html_reply | Api http_reply | Thrown error_reply | No_Route
  | Wire "(grpc_status \<times> grpc_text) + Server_Api.wire"

record 'w app =
  app_service :: "'w subscription_service"
  app_gauge :: "('w, nat) async"
  app_files :: "string \<Rightarrow> string option"
  app_router :: router
  app_email_ok :: "string \<Rightarrow> bool"
  app_dev :: bool
  app_key :: string
  app_iso :: "nat \<Rightarrow> string"

definition buildApp :: "'w server_container \<Rightarrow> server_config \<Rightarrow> (string \<Rightarrow> string option) \<Rightarrow> router \<Rightarrow> (string \<Rightarrow> bool) \<Rightarrow>
    (nat \<Rightarrow> string) \<Rightarrow> 'w app" where
  "buildApp container config files find_route email_ok to_iso =
     \<lparr>app_service = subscriptionService container, app_gauge = active_gauge container, app_files = files,
      app_router = find_route, app_email_ok = email_ok, app_dev = (sc_env config = Development),
      app_key = api_key config, app_iso = to_iso\<rparr>"

section \<open>Answering\<close>

text \<open>What a handler throws goes to \<open>errorHandler\<close>.\<close>

definition reply_of :: "'w app \<Rightarrow> ('a \<Rightarrow> answer) \<Rightarrow> ('s, 'a) async \<Rightarrow> 's \<Rightarrow> answer \<times> 's" where
  "reply_of A f m s = (case m s of
      (Inl e, s') \<Rightarrow> (Thrown (errorHandler (app_dev A) e), s')
    | (Inr r, s') \<Rightarrow> (f r, s'))"

definition beside_cache :: "('a \<Rightarrow> answer) \<Rightarrow> ('w \<Rightarrow> 'a \<times> 'w) \<Rightarrow> 'w \<times> template_cache \<Rightarrow> answer \<times> ('w \<times> template_cache)" where
  "beside_cache f h s = (case h (fst s) of (r, w') \<Rightarrow> (f r, (w', snd s)))"

definition handle :: "'w app \<Rightarrow> http_request \<Rightarrow> route \<Rightarrow> string \<Rightarrow> 'w \<times> template_cache \<Rightarrow> answer \<times> ('w \<times> template_cache)" where
  "handle A req r token =
     (let svc = app_service A in
      case r of
        Health \<Rightarrow> (\<lambda>s. (Healthy, s))
      | Metrics_Route \<Rightarrow> reply_of A Metrics (on_world (app_gauge A))
      | Index_Page \<Rightarrow> reply_of A Page (index_route (app_files A))
      | Subscriptions_Page \<Rightarrow> reply_of A Page (subscriptions_route (app_files A))
      | Confirm_Page \<Rightarrow> reply_of A Page (confirm_route (app_files A) svc token)
      | Unsubscribe_Page \<Rightarrow> reply_of A Page (unsubscribe_route (app_files A) svc token)
      | Api_Subscribe \<Rightarrow> beside_cache Api (post_subscribe (app_email_ok A) (app_dev A) svc (rq_body req))
      | Api_Subscriptions \<Rightarrow> beside_cache Api (get_subscriptions (app_dev A) (app_key A) svc (rq_apiKey req) (rq_email req))
      | Api_Confirm \<Rightarrow> beside_cache Api (get_confirm (app_dev A) svc token)
      | Api_Unsubscribe \<Rightarrow> beside_cache Api (get_unsubscribe (app_dev A) svc token))"

definition grpc_method :: "'w app \<Rightarrow> grpc_request \<Rightarrow> 'w \<Rightarrow> ((grpc_status \<times> grpc_text) + Server_Api.wire) \<times> 'w" where
  "grpc_method A call =
     (let svc = app_service A in
      case call of
        Subscribe_Call email repo \<Rightarrow> grpc_Subscribe svc email repo
      | Confirm_Call token \<Rightarrow> grpc_Confirm svc token
      | Unsubscribe_Call token \<Rightarrow> grpc_Unsubscribe svc token
      | List_Call email \<Rightarrow> grpc_GetSubscriptions (app_iso A) svc email)"

fun serve :: "'w app \<Rightarrow> client_request \<Rightarrow> 'w \<times> template_cache \<Rightarrow> answer \<times> ('w \<times> template_cache)" where
  "serve A (Http req) s =
     (case app_router A app_routes (rq_method req) (rq_path req) of
        None \<Rightarrow> (No_Route, s)
      | Some (r, token) \<Rightarrow> handle A req r token s)"
| "serve A (Grpc call) s = beside_cache Wire (grpc_method A call) s"

fun serve_all :: "'w app \<Rightarrow> client_request list \<Rightarrow> 'w \<times> template_cache \<Rightarrow> answer list \<times> ('w \<times> template_cache)" where
  "serve_all A [] s = ([], s)"
| "serve_all A (q # qs) s =
     (case serve A q s of (a, s') \<Rightarrow> case serve_all A qs s' of (as, s'') \<Rightarrow> (a # as, s''))"

section \<open>Whose requests change a subscription\<close>

definition active_rows :: "subscription set \<Rightarrow> subscription set" where
  "active_rows S = {s \<in> S. status s = ACTIVE}"

text \<open>The token a request confirms or unsubscribes with.\<close>

definition confirms :: "'w app \<Rightarrow> client_request \<Rightarrow> string option" where
  "confirms A q = (case q of
      Http req \<Rightarrow> (case app_router A app_routes (rq_method req) (rq_path req) of
          Some (r, token) \<Rightarrow> if r \<in> {Confirm_Page, Api_Confirm} then Some token else None
        | None \<Rightarrow> None)
    | Grpc (Confirm_Call token) \<Rightarrow> Some token
    | Grpc _ \<Rightarrow> None)"

definition cancels :: "'w app \<Rightarrow> client_request \<Rightarrow> string option" where
  "cancels A q = (case q of
      Http req \<Rightarrow> (case app_router A app_routes (rq_method req) (rq_path req) of
          Some (r, token) \<Rightarrow> if r \<in> {Unsubscribe_Page, Api_Unsubscribe} then Some token else None
        | None \<Rightarrow> None)
    | Grpc (Unsubscribe_Call token) \<Rightarrow> Some token
    | Grpc _ \<Rightarrow> None)"

text \<open>From the rows \<open>S\<close> to \<open>S'\<close> with at most a confirmation token and a token to unsubscribe at hand.\<close>

definition guarded :: "string option \<Rightarrow> string option \<Rightarrow> subscription set \<Rightarrow> subscription set \<Rightarrow> bool" where
  "guarded confirmed cancelled S S' \<longleftrightarrow> (subscriptions_wf S \<longrightarrow> subscriptions_wf S' \<and>
     (\<forall>s \<in> active_rows S' - active_rows S. confirmed = Some (confirmToken s)) \<and>
     (\<forall>s \<in> active_rows S - active_rows S'. cancelled = Some (unsubscribeToken s)))"

lemma guarded_same [intro]: "guarded c u S S"
  by (simp add: guarded_def)

lemma guarded_weaken: "guarded None None S S' \<Longrightarrow> guarded c u S S'"
  by (auto simp: guarded_def)

text \<open>What the interfaces rely on: no operation of the service activates or removes without the token.\<close>

locale guarded_service =
  fixes svc :: "'w subscription_service"
    and gauge :: "('w, nat) async"
    and subs :: "'w \<Rightarrow> subscription set"
  assumes subscribe_guard: "\<And>w q w'. subscribeToRepo svc email repo w = (q, w') \<Longrightarrow> guarded None None (subs w) (subs w')"
    and confirm_guard: "\<And>w q w'. confirmSubscription svc token w = (q, w') \<Longrightarrow>
      guarded (Some token) None (subs w) (subs w')"
    and unsubscribe_guard: "\<And>w q w'. unsubscribeFromRepo svc token w = (q, w') \<Longrightarrow>
      guarded None (Some token) (subs w) (subs w')"
    and list_guard: "\<And>w q w'. getSubscriptionsByEmail svc email w = (q, w') \<Longrightarrow> subs w' = subs w"
    and gauge_guard: "\<And>w q w'. gauge w = (q, w') \<Longrightarrow> subs w' = subs w"

section \<open>The service keeps to its tokens\<close>

context saga_env begin

lemma start_guarded:
  assumes idle: "\<not> active_for email repo (subs w)" and run: "saga_start G R publish email repo w = (q, w')"
  shows "guarded None None (subs w) (subs w')"
proof -
  obtain r w1 where up: "upsertPending R email repo w = (r, w1)" by fastforce
  note law = st.upsertPending_law [OF up]
  have rest: "preserves subs (create_saga G k pl)" "preserves subs (publish m)" "preserves subs (updateState G i stt err)"
    for k pl m i stt err
    by (rule preservesI; auto dest!: sg.create_law mq.publish_law sg.updateState_law)+
  have kept: "subs w' = subs w1"
    using run [unfolded saga_start_def]
  proof (cases rule: await_outcome)
    case (rejected e)
    with up show ?thesis by simp
  next
    case (resolved a w2)
    with up have "w2 = w1" by simp
    have "preserves subs (await (create_saga G SUBSCRIBE_SAGA_TYPE \<lparr>pl_subscriptionId = sub_id a, pl_email = email, pl_repo = repo\<rparr>)
      (\<lambda>saga. await (publish (Confirmation (confirmationIdempotencyKey email repo (confirmToken a))
              email repo (confirmToken a) (saga_id saga))) (\<lambda>_.
     await (updateState G (saga_id saga) AWAITING_EMAIL None) (\<lambda>_. ret a))))"
      by (intro preserves_await rest preserves_ret)
    from preservesD [OF this resolved(2)] \<open>w2 = w1\<close> show ?thesis by simp
  qed
  show ?thesis
  proof (cases r)
    case (Inl e)
    with law kept show ?thesis by auto
  next
    case (Inr s)
    have "active_rows (subs w1) = active_rows (subs w)"
      using law idle Inr unfolding active_rows_def active_for_def
      by (auto simp: updated_def image_iff subscription_row_def)
    with st.upsertPending_wf [OF _ up] kept show ?thesis by (simp add: guarded_def)
  qed
qed

end

context service_env begin

lemma subscribe_guarded:
  assumes "subscribe_to R exists_repo \<lparr>start_saga = saga_start G R publish, on_reply = f, compensate_stuck = g\<rparr> email repo w = (q, w')"
  shows "guarded None None (subs w) (subs w')"
  using assms
proof (cases rule: subscribe_outcome)
  case (started w1)
  then have "guarded None None (subs w1) (subs w')" by (intro start_guarded) simp_all
  with started show ?thesis by simp
qed auto

lemma confirm_guarded:
  assumes run: "confirm_token R token w = (q, w')"
  shows "guarded (Some token) None (subs w) (subs w')"
  using confirm_outcome [OF _ run] by (cases q) (auto simp: guarded_def active_rows_def)

lemma unsubscribe_guarded:
  assumes run: "unsubscribe_token R token w = (q, w')"
  shows "guarded None (Some token) (subs w) (subs w')"
  using unsubscribe_outcome [OF _ run] by (cases q) (auto simp: guarded_def active_rows_def)

end

lemma server_guarded:
  assumes env: "server_service_env sdb subs gdb sagas clock getChannel broker other exists_repo"
  shows "guarded_service (server_service sdb gdb clock getChannel exists_repo) (countActive (SubscriptionRepository sdb)) subs"
proof -
  note E = server_service_env.service_env [OF env]
  note P = server_service_env.axioms(1) [OF env, THEN server_env.subscriptions_prisma]
  note ops = server_service_simps server_saga_simps
  show ?thesis
  proof
    show "guarded None None (subs w) (subs w')"
      if "subscribeToRepo (server_service sdb gdb clock getChannel exists_repo) email repo w = (q, w')" for email repo w q w'
      using service_env.subscribe_guarded [OF E] that by (simp add: ops)
    show "guarded (Some token) None (subs w) (subs w')"
      if "confirmSubscription (server_service sdb gdb clock getChannel exists_repo) token w = (q, w')" for token w q w'
      using service_env.confirm_guarded [OF E] that by (simp add: ops)
    show "guarded None (Some token) (subs w) (subs w')"
      if "unsubscribeFromRepo (server_service sdb gdb clock getChannel exists_repo) token w = (q, w')" for token w q w'
      using service_env.unsubscribe_guarded [OF E] that by (simp add: ops)
    show "subs w' = subs w"
      if "getSubscriptionsByEmail (server_service sdb gdb clock getChannel exists_repo) email w = (q, w')" for email w q w'
      using subscription_store.findByEmail_law [OF subscription_prisma.store [OF P]] that by (simp add: ops)
    show "subs w' = subs w" if "countActive (SubscriptionRepository sdb) w = (q, w')" for w q w'
      using prisma_table.count_reads [OF P [unfolded subscription_prisma_def]] that
      by (simp add: SubscriptionRepository_def countActive_q_def)
  qed
qed

section \<open>One request\<close>

lemma await_page_world: "fst (snd (await (renderHtml files name vars) (\<lambda>page. ret (f page)) s)) = fst s"
  by (simp add: await_def renderHtml_def ret_def split: option.split)

lemma link_page_world: "fst (snd (try_catch (await (on_world m) (\<lambda>x. await (renderHtml files name (vars x)) (\<lambda>page. ret (f page))))
     (\<lambda>_. await (renderHtml files name' vars') (\<lambda>page. ret (g page))) s)) = snd (m (fst s))"
proof -
  obtain q w where m: "m (fst s) = (q, w)" by fastforce
  let ?r = "on_world m s"
  have r: "?r = (q, (w, snd s))" by (simp add: on_world_def m)
  show ?thesis
  proof (cases q)
    case (Inl e)
    with r m show ?thesis by (simp add: try_catch_def await_rejected await_page_world)
  next
    case (Inr x)
    have page: "fst (snd (await (renderHtml files name (vars x)) (\<lambda>page. ret (f page)) (w, snd s))) = w"
      by (simp add: await_page_world)
    with r m Inr show ?thesis
      by (simp add: try_catch_def await_resolved await_page_world split: prod.split sum.split) (metis await_page_world fst_conv snd_conv)
  qed
qed

lemmas html_world = await_page_world link_page_world

lemma page_worlds:
  "fst (snd (index_route files s)) = fst s" "fst (snd (subscriptions_route files s)) = fst s"
  "fst (snd (confirm_route files svc token s)) = snd (confirmSubscription svc token (fst s))"
  "fst (snd (unsubscribe_route files svc token s)) = snd (unsubscribeFromRepo svc token (fst s))"
  by (simp_all add: html_world index_route_def subscriptions_route_def confirm_route_def unsubscribe_route_def)

lemma reply_of_world: "snd (reply_of A f m s) = snd (m s)"
  by (simp add: reply_of_def split: prod.split sum.split)

lemma beside_cache_world: "fst (snd (beside_cache f h s)) = snd (h (fst s))"
  by (simp add: beside_cache_def split: prod.split)

lemma api_worlds:
  "snd (get_confirm isDev svc token w) = snd (confirmSubscription svc token w)"
  "snd (get_unsubscribe isDev svc token w) = snd (unsubscribeFromRepo svc token w)"
  "snd (grpc_Confirm svc token w) = snd (confirmSubscription svc token w)"
  "snd (grpc_Unsubscribe svc token w) = snd (unsubscribeFromRepo svc token w)"
  "snd (grpc_Subscribe svc email repo w) = snd (subscribeToRepo svc email repo w)"
  "snd (grpc_GetSubscriptions f svc email w) = snd (getSubscriptionsByEmail svc email w)"
  by (simp_all add: get_confirm_def get_unsubscribe_def c_confirm_def c_unsubscribe_def respond_def grpc_call_def
      grpc_Confirm_def grpc_Unsubscribe_def grpc_Subscribe_def grpc_GetSubscriptions_def await_def ret_def
      split: prod.split sum.split)

lemma post_subscribe_world:
  "snd (post_subscribe email_ok isDev svc body w) = w \<or>
     (\<exists>email repo. snd (post_subscribe email_ok isDev svc body w) = snd (subscribeToRepo svc email repo w))"
  by (auto simp: post_subscribe_def c_subscribe_def respond_def await_def ret_def split: prod.split sum.split)
    (metis snd_conv)+

lemma get_subscriptions_world:
  "snd (get_subscriptions isDev key svc apiKey email w) = w \<or>
     (\<exists>e. snd (get_subscriptions isDev key svc apiKey email w) = snd (getSubscriptionsByEmail svc e w))"
  by (auto simp: get_subscriptions_def verifyApiKey_def c_getSubscriptions_def respond_def await_def ret_def throw_def
      split: prod.split sum.split option.split) (metis snd_conv)+

text \<open>The list of an address is only in an answer to its own route, with the key.\<close>

lemma listed_with_key:
  assumes "fst (handle A req r token s) = Api (st, Subscriptions e xs)"
  shows "r = Api_Subscriptions \<and> rq_apiKey req = Once (app_key A)"
  using assms
  by (cases r) (auto simp: handle_def Let_def reply_of_def beside_cache_def post_subscribe_def get_subscriptions_def
      get_confirm_def get_unsubscribe_def c_subscribe_def c_confirm_def c_unsubscribe_def verifyApiKey_def respond_def
      await_def ret_def throw_def split: prod.splits sum.splits if_splits)

context guarded_service begin

lemma guards:
  "guarded None None (subs w) (subs (snd (subscribeToRepo svc email repo w)))"
  "guarded (Some token) None (subs w) (subs (snd (confirmSubscription svc token w)))"
  "guarded None (Some token) (subs w) (subs (snd (unsubscribeFromRepo svc token w)))"
  "subs (snd (getSubscriptionsByEmail svc email w)) = subs w" "subs (snd (gauge w)) = subs w"
  using subscribe_guard confirm_guard unsubscribe_guard list_guard gauge_guard by (metis prod.collapse)+

lemma on_world_gauge: "subs (fst (snd (on_world gauge s))) = subs (fst s)"
  using guards(5) by (simp add: on_world_def split: prod.split) (metis snd_conv)

lemma handle_guarded:
  assumes A: "app_service A = svc" "app_gauge A = gauge"
  shows "guarded (if r \<in> {Confirm_Page, Api_Confirm} then Some token else None)
    (if r \<in> {Unsubscribe_Page, Api_Unsubscribe} then Some token else None)
    (subs (fst s)) (subs (fst (snd (handle A req r token s))))"
proof (cases r)
  case Api_Subscribe
  with A guards(1) [of "fst s"] post_subscribe_world [of "app_email_ok A" "app_dev A" svc "rq_body req" "fst s"] show ?thesis
    by (auto simp: handle_def Let_def beside_cache_world)
next
  case Api_Subscriptions
  with A guards(4) [where w = "fst s"]
    get_subscriptions_world [of "app_dev A" "app_key A" svc "rq_apiKey req" "rq_email req" "fst s"] show ?thesis
    by (auto simp: handle_def Let_def beside_cache_world)
qed (use A guards(2,3) on_world_gauge in
    \<open>auto simp: handle_def Let_def beside_cache_world reply_of_world page_worlds api_worlds\<close>)

lemma serve_guarded:
  assumes A: "app_service A = svc" "app_gauge A = gauge" and run: "serve A q s = (a, s')"
  shows "guarded (confirms A q) (cancels A q) (subs (fst s)) (subs (fst s'))"
proof (cases q)
  case (Http req)
  show ?thesis
  proof (cases "app_router A app_routes (rq_method req) (rq_path req)")
    case None
    with run Http show ?thesis by (auto simp: guarded_def)
  next
    case (Some found)
    then obtain r token where "app_router A app_routes (rq_method req) (rq_path req) = Some (r, token)" by (cases found) auto
    with run Http handle_guarded [OF A, of r token s req] show ?thesis by (simp add: confirms_def cancels_def)
  qed
next
  case (Grpc call)
  with run have "subs (fst s') = subs (snd (grpc_method A call (fst s)))"
    by (metis beside_cache_world serve.simps(2) snd_conv)
  with Grpc A show ?thesis
    by (cases call) (simp_all add: grpc_method_def Let_def confirms_def cancels_def guards api_worlds guarded_same)
qed

lemma serve_all_guarded:
  assumes A: "app_service A = svc" "app_gauge A = gauge"
    and "subscriptions_wf (subs (fst s))" and "serve_all A qs s = (as, s')"
  shows "subscriptions_wf (subs (fst s')) \<and>
    (\<forall>x \<in> active_rows (subs (fst s')) - active_rows (subs (fst s)). \<exists>q \<in> set qs. confirms A q = Some (confirmToken x)) \<and>
    (\<forall>x \<in> active_rows (subs (fst s)) - active_rows (subs (fst s')). \<exists>q \<in> set qs. cancels A q = Some (unsubscribeToken x))"
  using assms(3,4)
proof (induction qs arbitrary: s as)
  case (Cons q qs)
  obtain a s1 where one: "serve A q s = (a, s1)" by (metis prod.exhaust)
  obtain bs s2 where "serve_all A qs s1 = (bs, s2)" by (metis prod.exhaust)
  with one Cons.prems(2) have rest: "serve_all A qs s1 = (bs, s')" by simp
  from serve_guarded [OF A one] Cons.prems(1) have
    1: "subscriptions_wf (subs (fst s1))"
      "\<forall>x \<in> active_rows (subs (fst s1)) - active_rows (subs (fst s)). confirms A q = Some (confirmToken x)"
      "\<forall>x \<in> active_rows (subs (fst s)) - active_rows (subs (fst s1)). cancels A q = Some (unsubscribeToken x)"
    by (simp_all add: guarded_def)
  from Cons.IH [OF 1(1) rest] 1(2,3) show ?case unfolding list.set by blast
qed simp

end

lemma serve_all_listed:
  assumes "serve_all A qs s = (as, s')" and "(q, Api (st, Subscriptions e xs)) \<in> set (zip qs as)"
  shows "\<exists>req. q = Http req \<and> rq_apiKey req = Once (app_key A)"
  using assms
proof (induction qs arbitrary: s as)
  case (Cons q' qs)
  obtain a s1 where one: "serve A q' s = (a, s1)" by (metis prod.exhaust)
  obtain bs s2 where "serve_all A qs s1 = (bs, s2)" by (metis prod.exhaust)
  with one Cons.prems(1) have as: "as = a # bs" and rest: "serve_all A qs s1 = (bs, s')" by simp_all
  show ?case
  proof (cases "(q, Api (st, Subscriptions e xs)) \<in> set (zip qs bs)")
    case True
    from Cons.IH [OF rest this] show ?thesis .
  next
    case False
    with Cons.prems(2) as have q: "q = q'" "a = Api (st, Subscriptions e xs)" by auto
    show ?thesis
    proof (cases q')
      case (Http req)
      with one q(2) obtain r token where "app_router A app_routes (rq_method req) (rq_path req) = Some (r, token)"
        "fst (handle A req r token s) = Api (st, Subscriptions e xs)" by (auto split: option.splits)
      from listed_with_key [OF this(2)] Http q(1) show ?thesis by simp
    next
      case (Grpc call)
      with one q(2) show ?thesis by (auto simp: beside_cache_def split: prod.splits)
    qed
  qed
qed simp

section \<open>Properties\<close>

text \<open>C7. Over the whole interface of the server, REST, HTML and gRPC: whatever requests arrive, in any order, a
  subscription that is active in the end was active before or one of them carried its own confirmation
  token; one that was active is still there unless one of them carried its own token to unsubscribe; and the list of an
  address is in no answer over HTTP but to a request with the API key. (Requests that overlap are the
  subject of \<open>Saga_Interleaving\<close>.)\<close>

theorem requests_need_tokens:
  assumes env: "server_service_env sdb subs gdb sagas clock getChannel broker other exists_repo"
    and container: "subscriptionService container = server_service sdb gdb clock getChannel exists_repo"
      "active_gauge container = countActive (SubscriptionRepository sdb)"
    and wf: "subscriptions_wf (subs w)"
    and run: "serve_all (buildApp container config files find_route email_ok to_iso) reqs (w, cached) = (answers, (w', cached'))"
  shows "(\<forall>s \<in> active_rows (subs w'). s \<in> subs w \<and> status s = ACTIVE \<or>
      (\<exists>q \<in> set reqs. confirms (buildApp container config files find_route email_ok to_iso) q = Some (confirmToken s))) \<and>
    (\<forall>s \<in> active_rows (subs w). s \<in> subs w' \<or>
      (\<exists>q \<in> set reqs. cancels (buildApp container config files find_route email_ok to_iso) q = Some (unsubscribeToken s))) \<and>
    (\<forall>q st email xs. (q, Api (st, Subscriptions email xs)) \<in> set (zip reqs answers) \<longrightarrow>
      (\<exists>req. q = Http req \<and> rq_apiKey req = Once (api_key config)))"
proof -
  let ?A = "buildApp container config files find_route email_ok to_iso"
  have A: "app_service ?A = server_service sdb gdb clock getChannel exists_repo"
    "app_gauge ?A = countActive (SubscriptionRepository sdb)" "app_key ?A = api_key config"
    by (simp_all add: buildApp_def container)
  have "subscriptions_wf (subs (fst (w, cached)))" using wf by simp
  note moves = guarded_service.serve_all_guarded [OF server_guarded [OF env] A(1,2) this run, unfolded fst_conv]
  show ?thesis
  proof (intro conjI)
    show "\<forall>s \<in> active_rows (subs w'). s \<in> subs w \<and> status s = ACTIVE \<or> (\<exists>q \<in> set reqs. confirms ?A q = Some (confirmToken s))"
      using moves by (auto simp: active_rows_def)
    show "\<forall>s \<in> active_rows (subs w). s \<in> subs w' \<or> (\<exists>q \<in> set reqs. cancels ?A q = Some (unsubscribeToken s))"
      using moves by (auto simp: active_rows_def)
    show "\<forall>q st email xs. (q, Api (st, Subscriptions email xs)) \<in> set (zip reqs answers) \<longrightarrow>
        (\<exists>req. q = Http req \<and> rq_apiKey req = Once (api_key config))"
      using serve_all_listed [OF run] A(3) by metis
  qed
qed

text \<open>A request of its own, from the page of the link in the mail.\<close>

definition get_request :: "string \<Rightarrow> http_request" where
  "get_request path = \<lparr>rq_method = GET, rq_path = path, rq_email = None, rq_apiKey = Absent, rq_body = JNull\<rparr>"

text \<open>The first route that matches.\<close>

definition first_route :: router where
  "first_route T m path =
     (case List.map_filter (\<lambda>(m', pattern, r). if m' = m then map_option (Pair r) (pattern_token pattern path) else None) T of
        [] \<Rightarrow> None
      | x # _ \<Rightarrow> Some x)"

interpretation first_match: router first_route
proof
  fix T :: route_table and m pattern r path token
  assume entry: "(m, pattern, r) \<in> set T" "pattern_token pattern path = Some token"
    and only: "\<And>pattern' r'. (m, pattern', r') \<in> set T \<Longrightarrow> pattern_token pattern' path \<noteq> None \<Longrightarrow> (pattern', r') = (pattern, r)"
  let ?f = "\<lambda>(m', pattern, r). if m' = m then map_option (Pair r) (pattern_token pattern path) else None"
  have all: "x = (r, token)" if "x \<in> set (List.map_filter ?f T)" for x
  proof -
    from that obtain pattern' r' where there: "(m, pattern', r') \<in> set T" "Some x = map_option (Pair r') (pattern_token pattern' path)"
      unfolding set_map_filter by (auto split: if_splits)
    then have "pattern_token pattern' path \<noteq> None" by (cases "pattern_token pattern' path") simp_all
    from only [OF there(1) this] there(2) entry(2) show ?thesis by simp
  qed
  have "Some (r, token) = ?f (m, pattern, r)" using entry(2) by simp
  then have "(r, token) \<in> set (List.map_filter ?f T)" unfolding set_map_filter using entry(1) by blast
  then obtain x xs where "List.map_filter ?f T = x # xs" by (cases "List.map_filter ?f T") simp_all
  moreover from this have "x = (r, token)" by (intro all) simp
  ultimately show "first_route T m path = Some (r, token)" by (simp add: first_route_def)
qed

definition example_container :: "server_world server_container" where
  "example_container = \<lparr>subscriptionService = mem_service, scan_job_tick = ret (), subscribeSaga = mem_saga,
     sweep_job_tick = ret (), active_gauge = countActive (SubscriptionRepository mem_subscriptions)\<rparr>"

definition example_config :: server_config where
  "example_config = server_values server_environment"

abbreviation example_app :: "server_world app" where
  "example_app \<equiv> buildApp example_container example_config example_pages first_route (\<lambda>_. True) (\<lambda>_. [])"

lemma example_container_service:
  "subscriptionService example_container = mem_service"
  "active_gauge example_container = countActive (SubscriptionRepository mem_subscriptions)"
  by (simp_all add: example_container_def)

definition confirmed_by_link :: server_world where
  "confirmed_by_link = after_start\<lparr>w_subs := [pending_sub\<lparr>status := ACTIVE\<rparr>]\<rparr>"

lemma link_run:
  "serve_all example_app [Http (get_request ''/confirm/x'')] (after_start, Map.empty) =
     ([Page (200, ''<p>o/r</p>'')], (confirmed_by_link, [''confirmed.html'' \<mapsto> ''<p>{{REPO}}</p>'']))"
proof -
  have "confirmSubscription mem_service ''x'' after_start = (Inr (pending_sub\<lparr>status := ACTIVE\<rparr>), confirmed_by_link)"
    by code_simp
  moreover have "first_route app_routes GET ''/confirm/x'' = Some (Confirm_Page, ''x'')" by code_simp
  ultimately show ?thesis
    by (simp add: get_request_def handle_def Let_def reply_of_def confirm_route_def on_world_def await_def try_catch_def
        renderHtml_def example_pages_def render_def replaceAll_def replace_from.simps pending_sub_def ret_def
        buildApp_def example_container_def)
qed

lemma after_start_wf: "subscriptions_wf (set (w_subs after_start))"
  by (simp add: after_start_def)

theorem requests_need_tokens_witness:
  "\<exists>q \<in> set [Http (get_request ''/confirm/x'')]. confirms example_app q = Some ''x''"
proof -
  from requests_need_tokens [OF mem_env.server_service_env_axioms example_container_service after_start_wf link_run]
  have "\<forall>s \<in> active_rows (set (w_subs confirmed_by_link)). s \<in> set (w_subs after_start) \<and> status s = ACTIVE \<or>
      (\<exists>q \<in> set [Http (get_request ''/confirm/x'')]. confirms example_app q = Some (confirmToken s))" by blast
  then show ?thesis
    by (simp add: active_rows_def confirmed_by_link_def after_start_def started_server_def pending_sub_def)
qed

section \<open>The links of the mails\<close>

definition url_token :: "string \<Rightarrow> bool" where
  "url_token t \<longleftrightarrow> t \<noteq> [] \<and> length t \<le> 100 \<and> set t \<inter> set ''/%?;#'' = {}"

lemma link_tokens:
  assumes "url_token t"
  shows "plain_path (''/confirm/'' @ t)" "plain_path (''/unsubscribe/'' @ t)"
    "split_on (CHR ''/'') (''/confirm/'' @ t) = [[], ''confirm'', t]"
    "split_on (CHR ''/'') (''/unsubscribe/'' @ t) = [[], ''unsubscribe'', t]"
  using assms by (auto simp: url_token_def plain_path_def split_on_none)

text \<open>The patterns of the server, cut into their segments.\<close>

lemma route_segments:
  "map (\<lambda>(m, pattern, r). (split_on (CHR ''/'') pattern, m, pattern, r)) app_routes =
     [([[], ''health''], GET, ''/health'', Health), ([[], ''metrics''], GET, ''/metrics'', Metrics_Route),
      ([[], []], GET, ''/'', Index_Page), ([[], ''subscriptions''], GET, ''/subscriptions'', Subscriptions_Page),
      ([[], ''confirm'', '':token''], GET, ''/confirm/:token'', Confirm_Page),
      ([[], ''unsubscribe'', '':token''], GET, ''/unsubscribe/:token'', Unsubscribe_Page),
      ([[], ''api'', ''subscribe''], POST, ''/api/subscribe'', Api_Subscribe),
      ([[], ''api'', ''subscriptions''], GET, ''/api/subscriptions'', Api_Subscriptions),
      ([[], ''api'', ''confirm'', '':token''], GET, ''/api/confirm/:token'', Api_Confirm),
      ([[], ''api'', ''unsubscribe'', '':token''], GET, ''/api/unsubscribe/:token'', Api_Unsubscribe)]"
  by code_simp

lemma routes_with_two_segments:
  assumes "(m, pattern, r) \<in> set app_routes" and "split_on (CHR ''/'') path = [[], x, t]" and "x \<noteq> ''api''"
    and "pattern_token pattern path \<noteq> None"
  shows "x = ''confirm'' \<and> (pattern, r) = (''/confirm/:token'', Confirm_Page) \<or>
    x = ''unsubscribe'' \<and> (pattern, r) = (''/unsubscribe/:token'', Unsubscribe_Page)"
proof -
  define segments where "segments = split_on (CHR ''/'') pattern"
  from assms(1) have "(segments, m, pattern, r) \<in> set (map (\<lambda>(m, p, r). (split_on (CHR ''/'') p, m, p, r)) app_routes)"
    unfolding set_map segments_def by (rule image_eqI [rotated]) simp
  moreover have "match_segments segments [[], x, t] \<noteq> None"
    using assms(4) unfolding pattern_token_def assms(2) segments_def by simp
  ultimately show ?thesis using assms(3)
    unfolding route_segments list.set by (elim insertE emptyE; clarsimp split: if_splits)
qed

lemma link_routes:
  assumes "router find_route" and t: "url_token t"
  shows "find_route app_routes GET (''/confirm/'' @ t) = Some (Confirm_Page, t)"
    "find_route app_routes GET (''/unsubscribe/'' @ t) = Some (Unsubscribe_Page, t)"
proof -
  have size: "t \<noteq> []" "length t \<le> 100" using t by (simp_all add: url_token_def)
  have there: "(GET, ''/confirm/:token'', Confirm_Page) \<in> set app_routes" "(GET, ''/unsubscribe/:token'', Unsubscribe_Page) \<in> set app_routes"
    by (simp_all add: app_routes_def htmlRoutes_def)
  have token: "pattern_token ''/confirm/:token'' (''/confirm/'' @ t) = Some t"
    "pattern_token ''/unsubscribe/:token'' (''/unsubscribe/'' @ t) = Some t"
    unfolding pattern_token_def link_tokens(3,4) [OF t] using size by simp_all
  show "find_route app_routes GET (''/confirm/'' @ t) = Some (Confirm_Page, t)"
    by (rule router.found_law [OF assms(1) there(1) link_tokens(1) [OF t] token(1)])
      (drule routes_with_two_segments [OF _ link_tokens(3) [OF t]]; simp)
  show "find_route app_routes GET (''/unsubscribe/'' @ t) = Some (Unsubscribe_Page, t)"
    by (rule router.found_law [OF assms(1) there(2) link_tokens(2) [OF t] token(2)])
      (drule routes_with_two_segments [OF _ link_tokens(4) [OF t]]; simp)
qed

lemma text_lines_member: "l \<in> set ls \<Longrightarrow> \<exists>pre post. text_lines ls = pre @ l @ post"
proof (induction ls rule: text_lines.induct)
  case (2 l')
  then show ?case by (intro exI [of _ "[]"]) simp
next
  case (3 l' l'' ls)
  show ?case
  proof (cases "l = l'")
    case True
    then show ?thesis by (intro exI [of _ "[]"] exI [of _ "CHR 0x0A # text_lines (l'' # ls)"]) simp
  next
    case False
    with 3 obtain pre post where "text_lines (l'' # ls) = pre @ l @ post" by auto
    then show ?thesis by (intro exI [of _ "l' @ CHR 0x0A # pre"] exI [of _ post]) simp
  qed
qed simp

text \<open>A text with a link in an attribute.\<close>

definition links_to :: "string \<Rightarrow> string \<Rightarrow> bool" where
  \<open>links_to html url \<longleftrightarrow> (\<exists>pre post. html = pre @ ''href="'' @ url @ ''"'' @ post)\<close>

lemma mails_link:
  "links_to (mail_html (confirmation_mail baseUrl email repo t)) (baseUrl @ ''/confirm/'' @ t)"
  "links_to (mail_html (release_mail baseUrl p)) (baseUrl @ ''/unsubscribe/'' @ rp_unsubscribeToken p)"
proof -
  have links: "links_to (text_lines ls) url" if \<open>(''        <a href="'' @ url @ CHR 0x22 # post) \<in> set ls\<close> for url post ls
  proof -
    from text_lines_member [OF that] obtain l r
      where \<open>text_lines ls = l @ (''        <a href="'' @ url @ CHR 0x22 # post) @ r\<close> by blast
    then show ?thesis unfolding links_to_def by (intro exI [of _ "l @ ''        <a ''"] exI [of _ "post @ r"]) simp
  qed
  show "links_to (mail_html (confirmation_mail baseUrl email repo t)) (baseUrl @ ''/confirm/'' @ t)"
    unfolding confirmation_mail_def send_options.simps getConfirmationEmailTemplate_def
    by (rule links [where post = "[]"]) (rule list.set_intros)+
  show "links_to (mail_html (release_mail baseUrl p)) (baseUrl @ ''/unsubscribe/'' @ rp_unsubscribeToken p)"
    unfolding release_mail_def send_options.simps getReleaseEmailTemplate_def
    by (rule links [where post = \<open>'' style="color: #0366d6; text-decoration: underline;">''\<close>])
      (rule list.set_intros)+
qed

text \<open>A mail link that is opened reaches the service with its token.\<close>

lemma opened_link:
  assumes "router find_route" and "url_token t" and "rq_method req = GET"
  shows "rq_path req = ''/confirm/'' @ t \<Longrightarrow>
      serve (buildApp container config files find_route email_ok to_iso) (Http req) s =
      reply_of (buildApp container config files find_route email_ok to_iso) Page
        (confirm_route files (subscriptionService container) t) s"
    "rq_path req = ''/unsubscribe/'' @ t \<Longrightarrow>
      serve (buildApp container config files find_route email_ok to_iso) (Http req) s =
      reply_of (buildApp container config files find_route email_ok to_iso) Page
        (unsubscribe_route files (subscriptionService container) t) s"
  using link_routes [OF assms(1,2)] assms(3) by (simp_all add: buildApp_def handle_def Let_def)

lemma confirm_by_token:
  assumes env: "server_service_env sdb subs gdb sagas clock getChannel broker other exists_repo"
    and wf: "subscriptions_wf (subs w)" and s: "s \<in> subs w"
    and run: "confirmSubscription (server_service sdb gdb clock getChannel exists_repo) (confirmToken s) w = (q, w')"
  shows "case q of
      Inl e \<Rightarrow> subs w' = subs w \<and> (external e \<or> status s = ACTIVE)
    | Inr s' \<Rightarrow> status s = PENDING \<and> s' = s\<lparr>status := ACTIVE\<rparr> \<and> subs w' = insert s' (subs w - {s})"
proof -
  from run have "confirm_token (SubscriptionRepository sdb) (confirmToken s) w = (q, w')" by (simp add: server_service_simps)
  note out = service_env.confirm_outcome [OF server_service_env.service_env [OF env] wf this]
  have mine: "t = s" if "t \<in> subs w" "confirmToken t = confirmToken s" for t
    using subscriptions_wfD(2) [OF wf that(1) s that(2)] .
  show ?thesis
  proof (cases q)
    case (Inl e)
    with out s mine show ?thesis by (auto dest: mine)
  next
    case (Inr s')
    with out obtain t where "t \<in> subs w" "confirmToken t = confirmToken s" "status t = PENDING" "s' = t\<lparr>status := ACTIVE\<rparr>"
      "subs w' = insert s' (subs w - {t})" by auto
    with mine [OF this(1,2)] Inr show ?thesis by simp
  qed
qed

lemma unsubscribe_by_token:
  assumes env: "server_service_env sdb subs gdb sagas clock getChannel broker other exists_repo"
    and wf: "subscriptions_wf (subs w)" and s: "s \<in> subs w"
    and run: "unsubscribeFromRepo (server_service sdb gdb clock getChannel exists_repo) (unsubscribeToken s) w = (q, w')"
  shows "case q of Inl e \<Rightarrow> subs w' = subs w \<and> external e | Inr s' \<Rightarrow> s' = s \<and> subs w' = subs w - {s}"
proof -
  from run have "unsubscribe_token (SubscriptionRepository sdb) (unsubscribeToken s) w = (q, w')"
    by (simp add: server_service_simps)
  note out = service_env.unsubscribe_outcome [OF server_service_env.service_env [OF env] wf this]
  show ?thesis
  proof (cases q)
    case (Inl e)
    with out s show ?thesis by auto
  next
    case (Inr s')
    with out have "s' \<in> subs w" "unsubscribeToken s' = unsubscribeToken s" "subs w' = subs w - {s'}" by simp_all
    with subscriptions_wfD(3) [OF wf this(1) s this(2)] Inr show ?thesis by simp
  qed
qed

text \<open>C22. The links of the mails do what they say. The confirmation mail links to \<open>/confirm/\<close> with the token of its
  subscription, the release mail to \<open>/unsubscribe/\<close> with its token. A GET request for the first path finds the
  confirmation page of the running server: a pending subscription becomes active and the page names
  its repository, unless the database fails; an active one stays and the page says that the link
  is invalid. A request for the second removes that subscription and no other, likewise.\<close>

theorem mail_links_act:
  assumes env: "server_service_env sdb subs gdb sagas clock getChannel broker other exists_repo"
    and container: "subscriptionService container = server_service sdb gdb clock getChannel exists_repo"
    and router: "router find_route"
    and pages: "page_with files ''confirmed.html'' ''REPO'' pre post"
      "page_with files ''unsubscribed.html'' ''REPO'' pre' post'" "page_with files ''error.html'' ''MESSAGE'' epre epost"
    and cached: "cache_current files c"
    and wf: "subscriptions_wf (subs w)" and s: "s \<in> subs w" "repo_format (repository s)"
      "url_token (confirmToken s)" "url_token (unsubscribeToken s)"
    and confirm: "rq_method req = GET" "rq_path req = ''/confirm/'' @ confirmToken s"
    and unsubscribe: "rq_method req' = GET" "rq_path req' = ''/unsubscribe/'' @ unsubscribeToken s"
    and A: "A = buildApp container config files find_route email_ok to_iso"
  shows "links_to (mail_html (confirmation_mail baseUrl (sub_email s) (repository s) (confirmToken s))) (baseUrl @ rq_path req) \<and>
    links_to (mail_html (release_mail baseUrl (payload_for (repository s) tag s))) (baseUrl @ rq_path req') \<and>
    (case serve A (Http req) (w, c) of (answer, (w', c')) \<Rightarrow>
       status s = PENDING \<and> answer = Page (200, pre @ repository s @ post) \<and>
         subs w' = insert (s\<lparr>status := ACTIVE\<rparr>) (subs w - {s}) \<or>
       answer = Page (404, epre @ CONFIRM_INVALID @ epost) \<and> subs w' = subs w \<and>
         (status s = ACTIVE \<or>
          (\<exists>e. external e \<and> fst (confirmSubscription (subscriptionService container) (confirmToken s) w) = Inl e))) \<and>
    (case serve A (Http req') (w, c) of (answer, (w', c')) \<Rightarrow>
       answer = Page (200, pre' @ repository s @ post') \<and> subs w' = subs w - {s} \<or>
       answer = Page (404, epre @ UNSUBSCRIBE_INVALID @ epost) \<and> subs w' = subs w \<and>
         (\<exists>e. external e \<and> fst (unsubscribeFromRepo (subscriptionService container) (unsubscribeToken s) w) = Inl e))"
proof -
  let ?svc = "server_service sdb gdb clock getChannel exists_repo"
  note html = html_links_answered [OF pages cached, where svc = ?svc and w = w and token = "confirmToken s", THEN conjunct1]
    html_links_answered [OF pages cached, where svc = ?svc and w = w and token = "unsubscribeToken s", THEN conjunct2]
  obtain q w1 where run: "confirmSubscription ?svc (confirmToken s) w = (q, w1)" by fastforce
  obtain r w2 c2 where page: "confirm_route files ?svc (confirmToken s) (w, c) = (r, (w2, c2))" by (metis prod.exhaust)
  have confirmed: "case serve A (Http req) (w, c) of (answer, (w', c')) \<Rightarrow>
       status s = PENDING \<and> answer = Page (200, pre @ repository s @ post) \<and>
         subs w' = insert (s\<lparr>status := ACTIVE\<rparr>) (subs w - {s}) \<or>
       answer = Page (404, epre @ CONFIRM_INVALID @ epost) \<and> subs w' = subs w \<and>
         (status s = ACTIVE \<or> (\<exists>e. external e \<and> fst (confirmSubscription ?svc (confirmToken s) w) = Inl e))"
    using confirm_by_token [OF env wf s(1) run] html(1) run page s(2)
    unfolding A opened_link(1) [OF router s(3) confirm] container
    by (cases q) (auto simp: reply_of_def)
  obtain q' w3 where run': "unsubscribeFromRepo ?svc (unsubscribeToken s) w = (q', w3)" by fastforce
  obtain r' w4 c4 where page': "unsubscribe_route files ?svc (unsubscribeToken s) (w, c) = (r', (w4, c4))" by (metis prod.exhaust)
  have cancelled: "case serve A (Http req') (w, c) of (answer, (w', c')) \<Rightarrow>
       answer = Page (200, pre' @ repository s @ post') \<and> subs w' = subs w - {s} \<or>
       answer = Page (404, epre @ UNSUBSCRIBE_INVALID @ epost) \<and> subs w' = subs w \<and>
         (\<exists>e. external e \<and> fst (unsubscribeFromRepo ?svc (unsubscribeToken s) w) = Inl e)"
    using unsubscribe_by_token [OF env wf s(1) run'] html(2) run' page' s(2)
    unfolding A opened_link(2) [OF router s(4) unsubscribe] container
    by (cases q') (auto simp: reply_of_def)
  have links: "links_to (mail_html (confirmation_mail baseUrl (sub_email s) (repository s) (confirmToken s))) (baseUrl @ rq_path req)"
    "links_to (mail_html (release_mail baseUrl (payload_for (repository s) tag s))) (baseUrl @ rq_path req')"
    using mails_link(1) mails_link(2) [of baseUrl "payload_for (repository s) tag s"]
    unfolding confirm(2) unsubscribe(2) by (simp_all add: payload_for_def)
  show ?thesis unfolding container by (intro conjI links confirmed cancelled)
qed

lemma example_router: "router first_route"
  by (rule first_match.router_axioms)

theorem mail_links_act_witness:
  "serve example_app (Http (get_request ''/confirm/x'')) (after_start, Map.empty) =
     (Page (200, ''<p>o/r</p>''), (confirmed_by_link, [''confirmed.html'' \<mapsto> ''<p>{{REPO}}</p>''])) \<and>
   set (w_subs confirmed_by_link) = {pending_sub\<lparr>status := ACTIVE\<rparr>}"
proof -
  have run: "serve example_app (Http (get_request ''/confirm/x'')) (after_start, Map.empty) =
     (Page (200, ''<p>o/r</p>''), (confirmed_by_link, [''confirmed.html'' \<mapsto> ''<p>{{REPO}}</p>'']))"
    using link_run by (simp split: prod.splits)
  have sub: "pending_sub \<in> set (w_subs after_start)" "repo_format (repository pending_sub)" "url_token (confirmToken pending_sub)"
    "url_token (unsubscribeToken pending_sub)" "cache_current example_pages Map.empty" "status pending_sub = PENDING"
    by (simp_all add: after_start_def started_server_def pending_sub_def url_token_def cache_current_def repo_format_def
        Let_def owner_char_def name_char_def less_eq_char_def)
  have paths: "rq_method (get_request ''/confirm/x'') = GET" "rq_path (get_request ''/confirm/x'') = ''/confirm/'' @ confirmToken pending_sub"
    "rq_method (get_request ''/unsubscribe/x'') = GET" "rq_path (get_request ''/unsubscribe/x'') = ''/unsubscribe/'' @ unsubscribeToken pending_sub"
    by (simp_all add: get_request_def pending_sub_def)
  from mail_links_act [OF mem_env.server_service_env_axioms example_container_service(1) example_router example_page sub(5)
      after_start_wf sub(1-4) paths refl, where config = example_config and email_ok = "\<lambda>_. True" and to_iso = "\<lambda>_. []"] run sub(6)
  have "set (w_subs confirmed_by_link) = insert (pending_sub\<lparr>status := ACTIVE\<rparr>) (set (w_subs after_start) - {pending_sub})"
    by (auto simp: CONFIRM_INVALID_def)
  with run show ?thesis by (simp add: after_start_def started_server_def)
qed

end
