(* ===== verification/Rabbit_Connection.thy ===== *)
theory Rabbit_Connection
  imports Channel_Cache
begin

text \<open>
  The connection of the server and of the worker to RabbitMQ,
  \<open>git-release-notifier-be/src/lib/rabbit/rabbit.connection.ts\<close>. \<open>getRabbitConnection\<close> keeps a promise in a
  variable, as \<open>Channel_Cache\<close> has it; around it are the handler of \<open>close\<close> that schedules a reconnect, the
  timers, the reconnects that wait, and \<open>closeRabbitConnection\<close>; \<open>late\<close> says whether a connection may close
  between the moment it is ready and the registration of its handlers. The notification service has the same file
  without the reconnect.
\<close>

section \<open>The state\<close>

text \<open>\<open>conn\<close>: \<open>connectionPromise\<close>, the promises, the waiting calls and the open connections; \<open>retrying\<close>: the
  promises that reconnects of the timer wait for; \<open>closers\<close>: those that \<open>closeRabbitConnection\<close> waits for.\<close>

record connection =
  conn :: cache
  closing :: bool
  reconnects :: nat
  retrying :: "nat list"
  closers :: "nat list"

definition no_connection :: connection where
  "no_connection = \<lparr>conn = empty_cache, closing = False, reconnects = 0, retrying = [], closers = []\<rparr>"

section \<open>The code\<close>

definition conn_scheduleReconnect :: "connection \<Rightarrow> connection" where
  "conn_scheduleReconnect s = s\<lparr>reconnects := reconnects s + 1\<rparr>"

text \<open>The handler of \<open>close\<close> (that of \<open>error\<close> empties the variable just before).\<close>

definition conn_on_close :: "nat \<Rightarrow> connection \<Rightarrow> connection" where
  "conn_on_close c s =
     (let s' = s\<lparr>conn := cached_on_close c (conn s)\<rparr> in
      if closing s' then s' else conn_scheduleReconnect s')"

text \<open>The timer asks for the connection; the promise it waits for is then in the variable.\<close>

definition reconnect_fires :: "connection \<Rightarrow> connection" where
  "reconnect_fires s =
     (let c = get_cached (conn s) in
      s\<lparr>reconnects := reconnects s - 1, conn := c, retrying := retrying s @ [the (promise_var c)]\<rparr>)"

definition reconnect_ends :: "nat \<Rightarrow> connection \<Rightarrow> connection" where
  "reconnect_ends p s =
     (let s' = s\<lparr>retrying := remove1 p (retrying s)\<rparr> in
      if promises (conn s) ! p = Rejected then conn_scheduleReconnect s' else s')"

definition closeRabbitConnection :: "connection \<Rightarrow> connection" where
  "closeRabbitConnection s =
     (case promise_var (conn s) of
        None \<Rightarrow> s\<lparr>closing := True\<rparr>
      | Some p \<Rightarrow> s\<lparr>closing := True, conn := (conn s)\<lparr>promise_var := None\<rparr>, closers := closers s @ [p]\<rparr>)"

definition close_ends :: "nat \<Rightarrow> connection \<Rightarrow> connection" where
  "close_ends p s =
     (let s' = s\<lparr>closers := remove1 p (closers s)\<rparr> in
      case promises (conn s) ! p of
        Resolved c \<Rightarrow> conn_on_close c s'
      | _ \<Rightarrow> s')"

text \<open>\<open>conn_step late\<close>: with \<open>late\<close> a connection may be closed before \<open>connect\<close> has registered its handlers, when
  the close arrives together with the answer that the code still has to resume on.\<close>

inductive conn_step :: "bool \<Rightarrow> connection \<Rightarrow> connection \<Rightarrow> bool" for late where
  asked: "conn_step late s (s\<lparr>conn := get_cached (conn s)\<rparr>)"
| connects: "p < length (promises (conn s)) \<Longrightarrow> promises (conn s) ! p = Unsettled \<Longrightarrow>
    conn_step late s (s\<lparr>conn := create_resolves p (conn s)\<rparr>)"
| refuses: "p < length (promises (conn s)) \<Longrightarrow> promises (conn s) ! p = Unsettled \<Longrightarrow>
    conn_step late s (s\<lparr>conn := create_rejects p (conn s)\<rparr>)"
| resumes: "x \<in> set (waiters (conn s)) \<Longrightarrow> promises (conn s) ! fst x \<noteq> Unsettled \<Longrightarrow>
    conn_step late s (s\<lparr>conn := call_resumes x (conn s)\<rparr>)"
| lost: "c \<in> open_now (conn s) \<Longrightarrow> conn_step late s (conn_on_close c s)"
| timer: "0 < reconnects s \<Longrightarrow> conn_step late s (reconnect_fires s)"
| retried: "p \<in> set (retrying s) \<Longrightarrow> promises (conn s) ! p \<noteq> Unsettled \<Longrightarrow> conn_step late s (reconnect_ends p s)"
| shutdown: "conn_step late s (closeRabbitConnection s)"
| closed: "p \<in> set (closers s) \<Longrightarrow> promises (conn s) ! p \<noteq> Unsettled \<Longrightarrow> conn_step late s (close_ends p s)"
| closed_early: "late \<Longrightarrow> p < length (promises (conn s)) \<Longrightarrow> promises (conn s) ! p = Unsettled \<Longrightarrow>
    conn_step late s (s\<lparr>conn := (create_resolves p (conn s))\<lparr>open_now := open_now (conn s)\<rparr>\<rparr>)"

lemmas conn_defs = conn_scheduleReconnect_def conn_on_close_def reconnect_fires_def reconnect_ends_def
  closeRabbitConnection_def close_ends_def Let_def

section \<open>The invariant\<close>

text \<open>A reconnect is under way when its timer runs or when it waits for a promise that is not resolved yet, or
  rejected and so about to start the timer again.\<close>

definition reconnecting :: "connection \<Rightarrow> bool" where
  "reconnecting s \<longleftrightarrow> 0 < reconnects s \<or>
     (\<exists>p \<in> set (retrying s). promises (conn s) ! p \<in> {Unsettled, Rejected})"

text \<open>The variable holds the promise of a connection that was closed before its handlers were registered.\<close>

definition stale_promise :: "cache \<Rightarrow> bool" where
  "stale_promise k \<longleftrightarrow> (\<exists>p c. promise_var k = Some p \<and> promises k ! p = Resolved c \<and> c \<notin> open_now k)"

definition connection_ok :: "bool \<Rightarrow> connection \<Rightarrow> bool" where
  "connection_ok late s \<longleftrightarrow> closing s \<or>
     cache_ok late (conn s) \<and> closers s = [] \<and> (\<forall>p \<in> set (retrying s). p < length (promises (conn s))) \<and>
     (next_open (conn s) = 0 \<or> open_now (conn s) \<noteq> {} \<or> reconnecting s \<or> stale_promise (conn s))"

lemma stale_late: "cache_ok late k \<Longrightarrow> stale_promise k \<Longrightarrow> late"
  unfolding stale_promise_def by (auto dest!: cache_okD(2) simp: matters_def)

lemma closing_stays: "conn_step late s s' \<Longrightarrow> closing s \<Longrightarrow> closing s'"
  by (erule conn_step.cases) (auto simp: conn_defs split: option.splits progress.splits)

lemma get_cached_found:
  assumes "cache_ok late s"
  shows "\<exists>p. promise_var (get_cached s) = Some p \<and> p < length (promises (get_cached s)) \<and>
    (open_now s \<noteq> {} \<or> promises (get_cached s) ! p \<in> {Unsettled, Rejected} \<or>
      (\<exists>c. promise_var s = Some p \<and> promises s ! p = Resolved c \<and> c \<notin> open_now s))"
proof (cases "promise_var s")
  case None
  then show ?thesis by (simp add: cache_defs)
next
  case (Some p)
  with assms have "p < length (promises s)" by (simp add: cache_ok_def)
  with Some show ?thesis by (cases "promises s ! p") (auto simp: cache_defs)
qed

lemma stale_get_cached: "stale_promise k \<Longrightarrow> stale_promise (get_cached k)"
  by (auto simp: stale_promise_def cache_defs)

lemma promises_get_cached:
  "p < length (promises s) \<Longrightarrow> promises (get_cached s) ! p = promises s ! p"
  "length (promises s) \<le> length (promises (get_cached s))"
  "open_now (get_cached s) = open_now s" "next_open (get_cached s) = next_open s"
  by (auto simp: cache_defs nth_append split: option.split)

lemma conn_step_ok:
  assumes ok: "connection_ok late s" and step: "conn_step late s s'"
  shows "connection_ok late s'"
proof (cases "closing s")
  case True
  with closing_stays [OF step] show ?thesis by (simp add: connection_ok_def)
next
  case False
  with ok have cache: "cache_ok late (conn s)" and none: "closers s = []"
    and waits: "\<forall>p \<in> set (retrying s). p < length (promises (conn s))"
    and alive: "next_open (conn s) = 0 \<or> open_now (conn s) \<noteq> {} \<or> reconnecting s \<or> stale_promise (conn s)"
    by (simp_all add: connection_ok_def)
  from step show ?thesis
  proof cases
    case asked
    have "stale_promise (conn s) \<longrightarrow> stale_promise (conn s')" using stale_get_cached asked by simp
    moreover have "reconnecting s \<longrightarrow> reconnecting s'" using asked waits by (auto simp: reconnecting_def promises_get_cached)
    ultimately show ?thesis using asked call_ok [OF cache] waits none alive
      by (auto simp: connection_ok_def promises_get_cached intro: less_le_trans [OF _ promises_get_cached(2)])
  next
    case (connects p)
    with settle_ok(1) [OF cache connects(2,3)] waits none show ?thesis
      by (simp add: connection_ok_def cache_defs)
  next
    case (refuses p)
    have "stale_promise (conn s')" if "stale_promise (conn s)"
    proof -
      from that obtain i c where i: "promise_var (conn s) = Some i" "promises (conn s) ! i = Resolved c" "c \<notin> open_now (conn s)"
        unfolding stale_promise_def by blast
      with refuses(3) have "i \<noteq> p" by auto
      with i refuses(1) show ?thesis by (simp add: stale_promise_def cache_defs)
    qed
    with refuses settle_ok(2) [OF cache refuses(2,3)] waits none alive show ?thesis
      by (auto simp: connection_ok_def cache_defs reconnecting_def nth_list_update)
  next
    case (resumes x)
    have "(fst x, True) \<in> set (waiters (conn s))" if "snd x" using that resumes(2) by (cases x) simp
    then have "promise_var (conn s) = Some (fst x)" if "snd x" "promises (conn s) ! fst x = Rejected"
      using that cache_okD(1) [OF cache, of "fst x"] cache_okD(3) [OF cache resumes(2)] by (simp add: matters_def)
    then have "stale_promise (conn s) \<longrightarrow> stale_promise (conn s')"
      using resumes by (auto simp: stale_promise_def cache_defs)
    with resume_ok [OF cache resumes(2,3)] resumes waits none alive show ?thesis
      by (auto simp: connection_ok_def cache_defs reconnecting_def)
  next
    case (lost c)
    with close_ok [OF cache lost(2)] waits none False show ?thesis
      by (simp add: connection_ok_def conn_defs reconnecting_def cached_on_close_def)
  next
    case timer
    from get_cached_found [OF cache] obtain p where p: "promise_var (get_cached (conn s)) = Some p"
      "p < length (promises (get_cached (conn s)))"
      "open_now (conn s) \<noteq> {} \<or> promises (get_cached (conn s)) ! p \<in> {Unsettled, Rejected} \<or>
        (\<exists>c. promise_var (conn s) = Some p \<and> promises (conn s) ! p = Resolved c \<and> c \<notin> open_now (conn s))" by blast
    have stale: "stale_promise (conn s')" if "promise_var (conn s) = Some p" "promises (conn s) ! p = Resolved c" "c \<notin> open_now (conn s)" for c
      using that timer by (simp add: stale_promise_def reconnect_fires_def cache_defs)
    have "\<forall>q \<in> set (retrying s). q < length (promises (get_cached (conn s)))"
      using waits promises_get_cached(2) [of "conn s"] by fastforce
    with timer call_ok [OF cache] p none stale show ?thesis
      by (auto simp: connection_ok_def conn_defs reconnecting_def promises_get_cached)
  next
    case (retried p)
    have stale: "conn (reconnect_ends p s) = conn s" by (simp add: conn_defs)
    show ?thesis
    proof (cases "promises (conn s) ! p = Rejected")
      case True
      with retried cache waits none show ?thesis
        by (auto simp: connection_ok_def conn_defs reconnecting_def dest: notin_set_remove1)
    next
      case False
      with retried have res: "promises (conn s) ! p \<notin> {Unsettled, Rejected}" by simp
      have "q \<in> set (remove1 p (retrying s))" if "q \<in> set (retrying s)" "promises (conn s) ! q \<in> {Unsettled, Rejected}" for q
        using that res by (cases "q = p") (simp_all add: in_set_remove1)
      with alive have "next_open (conn s) = 0 \<or> open_now (conn s) \<noteq> {} \<or> reconnecting (reconnect_ends p s) \<or> stale_promise (conn s)"
        using False by (auto simp: reconnecting_def conn_defs)
      with retried False cache waits none stale show ?thesis
        by (auto simp: connection_ok_def conn_defs dest: notin_set_remove1)
    qed
  next
    case shutdown
    then show ?thesis by (simp add: connection_ok_def conn_defs split: option.split)
  next
    case (closed p)
    with none show ?thesis by simp
  next
    case (closed_early p)
    with cache have "promise_var (conn s) = Some p" using cache_ok_found(2) [OF cache] by blast
    moreover have "next_open (conn s) \<notin> open_now (conn s)" using open_numbers [OF cache] by blast
    ultimately have "stale_promise (conn s')" using closed_early by (simp add: stale_promise_def cache_defs)
    moreover have "cache_ok late (conn s')" using closed_early close_early_ok cache by simp
    ultimately show ?thesis using closed_early waits none by (simp add: connection_ok_def cache_defs)
  qed
qed

lemma connection_reachable_ok: "(conn_step late)\<^sup>*\<^sup>* no_connection s \<Longrightarrow> connection_ok late s"
proof (induction rule: rtranclp_induct)
  case base
  show ?case by (simp add: connection_ok_def no_connection_def cache_ok_empty) (simp add: empty_cache_def)
qed (use conn_step_ok in blast)

section \<open>Properties\<close>

text \<open>C17. A lost connection comes back. Over all interleavings, until the process shuts down: at most one connection
  is open or being opened, shared by all callers; and once there has been a connection, there is one, or a
  timer that asks for one, or a reconnect that waits for one or is about to start the timer again, however
  often connecting fails. The one exception is a connection that is closed before its handlers are registered
  (\<open>late\<close>): its promise stays in the variable, and nothing connects again.\<close>

theorem lost_connection_comes_back:
  assumes "(conn_step late)\<^sup>*\<^sup>* no_connection s" and "\<not> closing s"
  shows "card (open_now (conn s)) +
      card {p. p < length (promises (conn s)) \<and> promises (conn s) ! p = Unsettled} \<le> 1 \<and>
    (next_open (conn s) = 0 \<or> open_now (conn s) \<noteq> {} \<or> 0 < reconnects s \<or>
     (\<exists>p \<in> set (retrying s). promises (conn s) ! p \<in> {Unsettled, Rejected}) \<or>
     late \<and> (\<exists>p c. promise_var (conn s) = Some p \<and> promises (conn s) ! p = Resolved c \<and> c \<notin> open_now (conn s)))"
proof -
  from connection_reachable_ok [OF assms(1)] assms(2) have cache: "cache_ok late (conn s)"
    and "next_open (conn s) = 0 \<or> open_now (conn s) \<noteq> {} \<or> reconnecting s \<or> stale_promise (conn s)"
    by (simp_all add: connection_ok_def)
  moreover have "late \<and> (\<exists>p c. promise_var (conn s) = Some p \<and> promises (conn s) ! p = Resolved c \<and> c \<notin> open_now (conn s))"
    if "stale_promise (conn s)"
    using stale_late [OF cache that] that by (simp add: stale_promise_def)
  ultimately show ?thesis using cache_ok_one [OF cache] unfolding reconnecting_def by blast
qed

lemma conn_run: "(conn_step late)\<^sup>*\<^sup>* a b \<Longrightarrow> conn_step late b c \<Longrightarrow> c = d \<Longrightarrow> (conn_step late)\<^sup>*\<^sup>* a d"
  by (metis rtranclp.rtrancl_into_rtrancl)

abbreviation lost_once :: connection where
  "lost_once \<equiv> no_connection\<lparr>conn := \<lparr>promise_var = None, promises = [Resolved 0], waiters = [(0, True)], open_now = {},
     next_open = 1\<rparr>, reconnects := 1\<rparr>"

lemma lost_run: "(conn_step False)\<^sup>*\<^sup>* no_connection lost_once"
proof -
  let ?c = "\<lparr>promise_var = Some 0, promises = [Unsettled], waiters = [(0, True)], open_now = {}, next_open = 0\<rparr>"
  let ?d = "\<lparr>promise_var = Some 0, promises = [Resolved 0], waiters = [(0, True)], open_now = {0}, next_open = 1\<rparr>"
  have r1: "(conn_step False)\<^sup>*\<^sup>* no_connection (no_connection\<lparr>conn := ?c\<rparr>)"
    by (rule conn_run [OF rtranclp.rtrancl_refl], rule conn_step.asked)
      (simp add: no_connection_def cache_defs empty_cache_def)
  have r2: "(conn_step False)\<^sup>*\<^sup>* no_connection (no_connection\<lparr>conn := ?d\<rparr>)"
    by (rule conn_run [OF r1], rule conn_step.connects [of 0]) (simp_all add: no_connection_def cache_defs)
  show ?thesis
    by (rule conn_run [OF r2], rule conn_step.lost [of 0]) (simp_all add: no_connection_def cache_defs conn_defs)
qed

theorem lost_connection_comes_back_witness:
  "(conn_step False)\<^sup>*\<^sup>* no_connection lost_once \<and> card (open_now (conn lost_once)) = 0 \<and> 0 < reconnects lost_once"
proof -
  have "\<not> closing lost_once" by (simp add: no_connection_def)
  from lost_connection_comes_back [OF lost_run this] lost_run show ?thesis
    by (simp add: no_connection_def)
qed

text \<open>A timer that runs when the connection is closed for good is not stopped: it connects again.\<close>

lemma closed_connection_comes_back:
  "\<exists>s. (conn_step False)\<^sup>*\<^sup>* no_connection s \<and> closing s \<and> closers s = [] \<and> open_now (conn s) = {1}"
proof -
  let ?s1 = "lost_once\<lparr>closing := True\<rparr>"
  let ?c = "\<lparr>promise_var = Some 1, promises = [Resolved 0, Unsettled], waiters = [(0, True), (1, True)], open_now = {}, next_open = 1\<rparr>"
  let ?d = "\<lparr>promise_var = Some 1, promises = [Resolved 0, Resolved 1], waiters = [(0, True), (1, True)], open_now = {1}, next_open = 2\<rparr>"
  have r1: "(conn_step False)\<^sup>*\<^sup>* no_connection ?s1"
    by (rule conn_run [OF lost_run], rule conn_step.shutdown) (simp add: no_connection_def conn_defs)
  have r2: "(conn_step False)\<^sup>*\<^sup>* no_connection (?s1\<lparr>conn := ?c, reconnects := 0, retrying := [1]\<rparr>)"
    by (rule conn_run [OF r1], rule conn_step.timer) (simp_all add: no_connection_def conn_defs cache_defs)
  have "(conn_step False)\<^sup>*\<^sup>* no_connection (?s1\<lparr>conn := ?d, reconnects := 0, retrying := [1]\<rparr>)"
    by (rule conn_run [OF r2], rule conn_step.connects [of 1]) (simp_all add: no_connection_def cache_defs)
  then show ?thesis
    by (intro exI [of _ "?s1\<lparr>conn := ?d, reconnects := 0, retrying := [1]\<rparr>"]) (simp add: no_connection_def)
qed

text \<open>A connection that is closed in the moment it is ready: until the process shuts down its promise stays in the
  variable, no timer runs, and every caller gets the dead connection.\<close>

definition dead_connection :: "connection \<Rightarrow> bool" where
  "dead_connection s \<longleftrightarrow> promise_var (conn s) = Some 0 \<and> promises (conn s) = [Resolved 0] \<and> open_now (conn s) = {} \<and>
     list_all (\<lambda>x. fst x = 0) (waiters (conn s)) \<and> reconnects s = 0 \<and> retrying s = [] \<and> closers s = []"

lemma early_close_is_not_noticed:
  "\<exists>s. (conn_step True)\<^sup>*\<^sup>* no_connection s \<and> dead_connection s \<and> \<not> closing s"
  "(conn_step late)\<^sup>*\<^sup>* s s' \<Longrightarrow> dead_connection s \<Longrightarrow> closing s' \<or> dead_connection s'"
proof -
  let ?c = "\<lparr>promise_var = Some 0, promises = [Unsettled], waiters = [(0, True)], open_now = {}, next_open = 0\<rparr>"
  let ?d = "\<lparr>promise_var = Some 0, promises = [Resolved 0], waiters = [(0, True)], open_now = {}, next_open = 1\<rparr>"
  have r1: "(conn_step True)\<^sup>*\<^sup>* no_connection (no_connection\<lparr>conn := ?c\<rparr>)"
    by (rule conn_run [OF rtranclp.rtrancl_refl], rule conn_step.asked)
      (simp add: no_connection_def cache_defs empty_cache_def)
  have "(conn_step True)\<^sup>*\<^sup>* no_connection (no_connection\<lparr>conn := ?d\<rparr>)"
    by (rule conn_run [OF r1], rule conn_step.closed_early [of _ 0]) (simp_all add: no_connection_def cache_defs)
  then show "\<exists>s. (conn_step True)\<^sup>*\<^sup>* no_connection s \<and> dead_connection s \<and> \<not> closing s"
    by (intro exI [of _ "no_connection\<lparr>conn := ?d\<rparr>"]) (simp add: dead_connection_def no_connection_def)
  have step: "closing b \<or> dead_connection b" if "conn_step late a b" "closing a \<or> dead_connection a" for a b
  proof (cases "closing a")
    case True
    with closing_stays [OF that(1)] show ?thesis by blast
  next
    case False
    with that(2) have dead: "dead_connection a" by blast
    from that(1) show ?thesis
    proof cases
      case (resumes x)
      with dead have "fst x = 0" by (auto simp: dead_connection_def list_all_iff)
      with resumes dead show ?thesis
        by (auto simp: dead_connection_def cache_defs list_all_iff dest: set_mp [OF set_remove1_subset])
    next
      case shutdown
      then show ?thesis by (simp add: conn_defs split: option.split)
    next
      case (closed p)
      with dead show ?thesis by (auto simp: dead_connection_def conn_defs)
    qed (use dead in \<open>auto simp: dead_connection_def cache_defs\<close>)
  qed
  show "closing s' \<or> dead_connection s'" if "(conn_step late)\<^sup>*\<^sup>* s s'" "dead_connection s"
    using that(1) by (induction rule: rtranclp_induct) (use that(2) step in blast)+
qed

end
