(* ===== verification/Entry_Points.thy ===== *)
theory Entry_Points
  imports Server_App Rabbit_Connection Notification_Grpc
begin

text \<open>
  How the processes start and end: the server (\<open>git-release-notifier-be/src/app.ts\<close>, from line 77), and of the
  notification service the gRPC server (\<open>grpc/notification.grpc-server.ts\<close>) and the server of the metrics
  (\<open>lib/metrics/metrics.server.ts\<close>). The main function of the notification service is in
  \<open>Service_Shutdown\<close>. \<open>server_step\<close> is one step of the server: of starting, of a request, of the connection
  to RabbitMQ (\<open>Rabbit_Connection\<close>), or of a signal.
\<close>

section \<open>The server\<close>

datatype server_stage = Building | Binding | Serving | Ended int

text \<open>\<open>grpc\<close>: whether the gRPC server was bound, once that is known; \<open>shutdowns\<close>: for each call of \<open>shutdown\<close> the promise
  of the connection it closes, if there was one.\<close>

record server_process =
  stage :: server_stage
  server_conn :: connection
  open_requests :: nat
  grpc :: "bool option"
  jobs_running :: bool
  shutdowns :: "nat option list"

definition server_launched :: server_process where
  "server_launched = \<lparr>stage = Building, server_conn = no_connection, open_requests = 0, grpc = None,
     jobs_running = False, shutdowns = []\<rparr>"

definition app_built :: "server_process \<Rightarrow> server_process" where
  "app_built s = s\<lparr>stage := Binding\<rparr>"

definition app_failed :: "server_process \<Rightarrow> server_process" where
  "app_failed s = s\<lparr>stage := Ended 1\<rparr>"

text \<open>\<open>listen\<close> runs the hooks of \<open>onReady\<close>, which start the cron jobs.\<close>

definition app_listens :: "server_process \<Rightarrow> server_process" where
  "app_listens s = s\<lparr>stage := Serving, jobs_running := True\<rparr>"

text \<open>The callback of \<open>bindAsync\<close>: an error is logged.\<close>

definition startGrpcServer :: "bool \<Rightarrow> server_process \<Rightarrow> server_process" where
  "startGrpcServer bound s = s\<lparr>grpc := Some bound\<rparr>"

definition server_shutdown :: "server_process \<Rightarrow> server_process" where
  "server_shutdown s = s\<lparr>shutdowns := shutdowns s @ [promise_var (conn (server_conn s))],
     server_conn := closeRabbitConnection (server_conn s)\<rparr>"

text \<open>\<open>closeRabbitConnection().finally\<close>.\<close>

definition server_exits :: "server_process \<Rightarrow> server_process" where
  "server_exits s = s\<lparr>stage := Ended 0\<rparr>"

definition ended :: "server_process \<Rightarrow> bool" where
  "ended s \<longleftrightarrow> (case stage s of Ended code \<Rightarrow> True | _ \<Rightarrow> False)"

inductive server_step :: "server_process \<Rightarrow> server_process \<Rightarrow> bool" where
  built: "stage s = Building \<Longrightarrow> server_step s (app_built s)"
| build_fails: "stage s = Building \<Longrightarrow> server_step s (app_failed s)"
| listens: "stage s = Binding \<Longrightarrow> server_step s (app_listens s)"
| listen_fails: "stage s = Binding \<Longrightarrow> server_step s (app_failed s)"
| grpc_binds: "stage s = Serving \<Longrightarrow> grpc s = None \<Longrightarrow> server_step s (startGrpcServer bound s)"
| request: "stage s = Serving \<Longrightarrow> server_step s (s\<lparr>open_requests := Suc (open_requests s)\<rparr>)"
| answered: "stage s = Serving \<Longrightarrow> 0 < open_requests s \<Longrightarrow> server_step s (s\<lparr>open_requests := open_requests s - 1\<rparr>)"
| connection: "\<not> ended s \<Longrightarrow> conn_step True (server_conn s) k \<Longrightarrow> closing k = closing (server_conn s) \<Longrightarrow>
    length (closers k) \<le> length (closers (server_conn s)) \<Longrightarrow> server_step s (s\<lparr>server_conn := k\<rparr>)"
| signal: "\<not> ended s \<Longrightarrow> server_step s (server_shutdown s)"
| nothing_to_close: "\<not> ended s \<Longrightarrow> None \<in> set (shutdowns s) \<Longrightarrow> server_step s (server_exits s)"
| closed: "\<not> ended s \<Longrightarrow> Some p \<in> set (shutdowns s) \<Longrightarrow> p \<notin> set (closers (server_conn s)) \<Longrightarrow>
    server_step s (server_exits s)"

lemmas server_defs = app_built_def app_failed_def app_listens_def startGrpcServer_def server_shutdown_def server_exits_def

definition server_ok :: "server_process \<Rightarrow> bool" where
  "server_ok s \<longleftrightarrow> (shutdowns s = [] \<longleftrightarrow> \<not> closing (server_conn s)) \<and>
     (case stage s of
        Building \<Rightarrow> \<not> jobs_running s \<and> open_requests s = 0
      | Binding \<Rightarrow> \<not> jobs_running s \<and> open_requests s = 0
      | Serving \<Rightarrow> jobs_running s
      | Ended code \<Rightarrow> code = 1 \<and> \<not> jobs_running s \<and> open_requests s = 0 \<or> code = 0 \<and> shutdowns s \<noteq> [])"

lemma server_step_ok: "server_step s s' \<Longrightarrow> server_ok s \<Longrightarrow> server_ok s'"
  by (erule server_step.cases)
    (auto simp: server_ok_def server_defs ended_def closeRabbitConnection_def split: server_stage.splits option.splits)

lemma server_launched_ok: "server_ok server_launched"
  by (simp add: server_ok_def server_launched_def no_connection_def)

text \<open>The exit codes: 1 for a server that never served, 0 after a signal only.\<close>

lemma server_exit_codes:
  assumes "server_step\<^sup>*\<^sup>* server_launched s" and "stage s = Ended code"
  shows "code = 1 \<and> \<not> jobs_running s \<and> open_requests s = 0 \<or> code = 0 \<and> closing (server_conn s)"
proof -
  from assms(1) have "server_ok s"
    by (induction rule: rtranclp_induct) (blast intro: server_launched_ok server_step_ok)+
  with assms(2) show ?thesis by (auto simp: server_ok_def)
qed

lemma server_run: "server_step\<^sup>*\<^sup>* a b \<Longrightarrow> server_step b c \<Longrightarrow> c = d \<Longrightarrow> server_step\<^sup>*\<^sup>* a d"
  by (metis rtranclp.rtrancl_into_rtrancl)

text \<open>The shutdown is called graceful, but \<open>close\<close> of the server is never called: requests in progress are cut off, and the
  cron jobs run until the process ends.\<close>

lemma shutdown_cuts_requests:
  "\<exists>s. server_step\<^sup>*\<^sup>* server_launched s \<and> stage s = Ended 0 \<and> 0 < open_requests s \<and> jobs_running s"
proof -
  let ?at = "\<lambda>st n. server_launched\<lparr>stage := st, jobs_running := True, open_requests := n\<rparr>"
  have r1: "server_step\<^sup>*\<^sup>* server_launched (server_launched\<lparr>stage := Binding\<rparr>)"
    by (rule server_run [OF rtranclp.rtrancl_refl], rule server_step.built) (simp_all add: server_launched_def server_defs)
  have r2: "server_step\<^sup>*\<^sup>* server_launched (?at Serving 0)"
    by (rule server_run [OF r1], rule server_step.listens) (simp_all add: server_launched_def server_defs)
  have r3: "server_step\<^sup>*\<^sup>* server_launched (?at Serving 1)"
    by (rule server_run [OF r2], rule server_step.request) simp_all
  have r4: "server_step\<^sup>*\<^sup>* server_launched (server_shutdown (?at Serving 1))"
    by (rule server_run [OF r3], rule server_step.signal) (simp_all add: ended_def)
  have "server_step\<^sup>*\<^sup>* server_launched (server_exits (server_shutdown (?at Serving 1)))"
    by (rule server_run [OF r4], rule server_step.nothing_to_close)
      (simp_all add: ended_def server_defs server_launched_def no_connection_def empty_cache_def)
  then show ?thesis by (intro exI [of _ "server_exits (server_shutdown (?at Serving 1))"]) (simp add: server_defs)
qed

section \<open>The servers of the notification service\<close>

definition startMetricsServer :: "('w, string) async \<Rightarrow> string \<Rightarrow> string \<Rightarrow> ('w, nat \<times> string) async" where
  "startMetricsServer metrics url meth =
     (if url = ''/metrics'' \<and> meth = ''GET'' then
        try_catch (await metrics (\<lambda>body. ret (200, body))) (\<lambda>err. ret (500, []))
      else ret (404, []))"

text \<open>Every request is answered, and a failure to collect stays inside the server.\<close>

lemma metrics_answered:
  "\<exists>status body w'. startMetricsServer metrics url meth w = (Inr (status, body), w') \<and>
     (status = 200 \<longleftrightarrow> url = ''/metrics'' \<and> meth = ''GET'' \<and> fst (metrics w) = Inr body)"
  by (cases "metrics w"; cases "fst (metrics w)") (auto simp: startMetricsServer_def await_def try_catch_def ret_def)

text \<open>What \<open>startNotificationGrpcServer\<close> answers calls with.\<close>

definition startNotificationGrpcServer :: "'w redis_client \<Rightarrow> (string \<Rightarrow> send_options \<Rightarrow> ('w, unit) async) \<Rightarrow> ('w, unit) async \<Rightarrow>
    (string \<Rightarrow> bool \<Rightarrow> ('w, unit) async) \<Rightarrow> string \<Rightarrow> nat \<Rightarrow> nat \<Rightarrow> release_request \<Rightarrow> ('w, grpc_answer) async" where
  "startNotificationGrpcServer redis sendMail stop_timer tally baseUrl ttl lease =
     (let notifier = MeteredNotifierService stop_timer tally (NotifierService baseUrl (SmtpProvider_sendEmail sendMail));
          idempotency = RedisIdempotencyStore redis ttl lease
      in handleSendReleaseNotification notifier idempotency)"

lemma grpc_server_is_production:
  "startNotificationGrpcServer redis sendMail stop_timer tally baseUrl ttl lease =
     handleSendReleaseNotification (production_notifier sendMail stop_timer tally baseUrl)
       (RedisIdempotencyStore redis ttl lease)"
  by (simp add: startNotificationGrpcServer_def production_notifier_def)

end
